(* ===== verification/Cloak_Prelude.thy ===== *)
theory Cloak_Prelude
  imports Main "HOL-Library.Char_ord" "HOL-Library.List_Lexorder" "HOL-Library.Sublist"
begin

text \<open>
  Shared vocabulary of the development: fallible results, the fragment of Rust's string and
  slice library the sources use, and the generic lemmas about them.

  A Rust \<open>str\<close> or byte slice is a HOL \<open>string\<close>, the list of its UTF-8 bytes: \<open>length\<close> is
  \<open>len()\<close>, the order on strings is the byte-wise lexicographic order of \<open>Ord for str\<close>, and
  \<open>chars_count\<close> is \<open>chars().count()\<close>. A \<open>Result<T, E>\<close> is the sum \<open>'e + 'a\<close> with \<open>Err\<close>
  on the left.
\<close>

named_theorems str_simps \<open>definitions of the string functions, for evaluation\<close>
named_theorems wf_intros \<open>introduction rules for well-formedness predicates\<close>

section \<open>Results\<close>

abbreviation Ok :: "'a \<Rightarrow> 'e + 'a" where "Ok \<equiv> Inr"
abbreviation Err :: "'e \<Rightarrow> 'e + 'a" where "Err \<equiv> Inl"

definition rbind :: "'e + 'a \<Rightarrow> ('a \<Rightarrow> 'e + 'b) \<Rightarrow> 'e + 'b" where
  "rbind r f = (case r of Inl e \<Rightarrow> Inl e | Inr a \<Rightarrow> f a)"

definition is_ok :: "'e + 'a \<Rightarrow> bool" where
  "is_ok r = (case r of Inl _ \<Rightarrow> False | Inr _ \<Rightarrow> True)"

definition ok_or :: "'e \<Rightarrow> 'a option \<Rightarrow> 'e + 'a" where
  "ok_or e x = (case x of None \<Rightarrow> Err e | Some a \<Rightarrow> Ok a)"

definition map_err :: "('e \<Rightarrow> 'f) \<Rightarrow> 'e + 'a \<Rightarrow> 'f + 'a" where
  "map_err f r = (case r of Inl e \<Rightarrow> Inl (f e) | Inr a \<Rightarrow> Inr a)"

definition result_ok :: "'e + 'a \<Rightarrow> 'a option" where
  "result_ok r = (case r of Inl _ \<Rightarrow> None | Inr a \<Rightarrow> Some a)"

text \<open>\<open>Option::is_some_and\<close>.\<close>

definition is_some_and :: "('a \<Rightarrow> bool) \<Rightarrow> 'a option \<Rightarrow> bool" where
  "is_some_and P x = (case x of None \<Rightarrow> False | Some a \<Rightarrow> P a)"

lemma rbind_simps [simp]:
  "rbind (Inl e) f = Inl e" "rbind (Inr a) f = f a"
  by (simp_all add: rbind_def)

lemma rbind_eq_Ok [simp]: "rbind r f = Inr b \<longleftrightarrow> (\<exists>a. r = Inr a \<and> f a = Inr b)"
  by (cases r) auto

lemma rbind_eq_Err: "rbind r f = Inl e \<longleftrightarrow> r = Inl e \<or> (\<exists>a. r = Inr a \<and> f a = Inl e)"
  by (cases r) auto

lemma rbind_cong [fundef_cong]:
  "r = s \<Longrightarrow> (\<And>a. s = Inr a \<Longrightarrow> f a = g a) \<Longrightarrow> rbind r f = rbind s g"
  by (cases s) auto

lemma is_ok_simps [simp]: "is_ok (Inl e) = False" "is_ok (Inr a) = True"
  by (simp_all add: is_ok_def)

lemma is_ok_iff: "is_ok r \<longleftrightarrow> (\<exists>a. r = Inr a)"
  by (cases r) auto

lemma ok_or_simps [simp]: "ok_or e None = Inl e" "ok_or e (Some a) = Inr a"
  by (simp_all add: ok_or_def)

lemma ok_or_eq_Ok [simp]: "ok_or e x = Inr a \<longleftrightarrow> x = Some a"
  by (cases x) auto

lemma map_err_simps [simp]: "map_err f (Inl e) = Inl (f e)" "map_err f (Inr a) = Inr a"
  by (simp_all add: map_err_def)

lemma map_err_eq_Ok [simp]: "map_err f r = Inr a \<longleftrightarrow> r = Inr a"
  by (cases r) auto

lemma result_ok_simps [simp]: "result_ok (Inl e) = None" "result_ok (Inr a) = Some a"
  by (simp_all add: result_ok_def)

lemma result_ok_eq_Some [simp]: "result_ok r = Some a \<longleftrightarrow> r = Inr a"
  by (cases r) auto

lemma is_some_and_simps [simp]:
  "is_some_and P None = False" "is_some_and P (Some a) = P a"
  by (simp_all add: is_some_and_def)

lemma is_some_and_iff: "is_some_and P x \<longleftrightarrow> (\<exists>a. x = Some a \<and> P a)"
  by (cases x) auto

text \<open>A \<open>for\<close> loop whose body may return early with an error.\<close>

fun try_each :: "('a \<Rightarrow> 'e + unit) \<Rightarrow> 'a list \<Rightarrow> 'e + unit" where
  "try_each f [] = Ok ()"
| "try_each f (x # xs) = rbind (f x) (\<lambda>_. try_each f xs)"

text \<open>\<open>collect::<Result<Vec<_>, _>>()\<close>: the first error, or every result.\<close>

fun try_map :: "('a \<Rightarrow> 'e + 'b) \<Rightarrow> 'a list \<Rightarrow> 'e + 'b list" where
  "try_map f [] = Ok []"
| "try_map f (x # xs) = rbind (f x) (\<lambda>y. rbind (try_map f xs) (\<lambda>ys. Ok (y # ys)))"

lemma try_each_cong [fundef_cong]:
  "xs = ys \<Longrightarrow> (\<And>x. x \<in> set ys \<Longrightarrow> f x = g x) \<Longrightarrow> try_each f xs = try_each g ys"
proof (induction ys arbitrary: xs)
  case (Cons y ys)
  then show ?case by (auto intro: rbind_cong)
qed simp

lemma try_map_cong [fundef_cong]:
  "xs = ys \<Longrightarrow> (\<And>x. x \<in> set ys \<Longrightarrow> f x = g x) \<Longrightarrow> try_map f xs = try_map g ys"
proof (induction ys arbitrary: xs)
  case (Cons y ys)
  then show ?case by (auto intro!: rbind_cong)
qed simp

lemma try_each_eq_Ok [simp]: "try_each f xs = Inr u \<longleftrightarrow> (\<forall>x\<in>set xs. f x = Inr ())"
  by (induction xs) auto

lemma try_each_ErrD: "try_each f xs = Inl e \<Longrightarrow> \<exists>x\<in>set xs. f x = Inl e"
  by (induction xs) (auto simp: rbind_eq_Err)

lemma try_map_OkD:
  "try_map f xs = Inr ys \<Longrightarrow> list_all2 (\<lambda>x y. f x = Inr y) xs ys"
  by (induction xs arbitrary: ys) auto

lemma try_map_ErrD: "try_map f xs = Inl e \<Longrightarrow> \<exists>x\<in>set xs. f x = Inl e"
  by (induction xs) (auto simp: rbind_eq_Err)

lemma try_map_Ok_total: "(\<And>x. x \<in> set xs \<Longrightarrow> f x = Inr (g x)) \<Longrightarrow> try_map f xs = Inr (map g xs)"
  by (induction xs) auto

section \<open>ASCII classes\<close>

abbreviation byte_of :: "char \<Rightarrow> nat" where "byte_of c \<equiv> of_char c"

definition is_ascii_digit :: "char \<Rightarrow> bool" where
  [str_simps]: "is_ascii_digit c \<longleftrightarrow> 48 \<le> byte_of c \<and> byte_of c \<le> 57"

definition is_ascii_lowercase :: "char \<Rightarrow> bool" where
  [str_simps]: "is_ascii_lowercase c \<longleftrightarrow> 97 \<le> byte_of c \<and> byte_of c \<le> 122"

definition is_ascii_uppercase :: "char \<Rightarrow> bool" where
  [str_simps]: "is_ascii_uppercase c \<longleftrightarrow> 65 \<le> byte_of c \<and> byte_of c \<le> 90"

definition is_ascii_alphabetic :: "char \<Rightarrow> bool" where
  [str_simps]: "is_ascii_alphabetic c \<longleftrightarrow> is_ascii_lowercase c \<or> is_ascii_uppercase c"

definition is_ascii_alphanumeric :: "char \<Rightarrow> bool" where
  [str_simps]: "is_ascii_alphanumeric c \<longleftrightarrow> is_ascii_alphabetic c \<or> is_ascii_digit c"

definition is_ascii_graphic :: "char \<Rightarrow> bool" where
  [str_simps]: "is_ascii_graphic c \<longleftrightarrow> 33 \<le> byte_of c \<and> byte_of c \<le> 126"

definition to_ascii_lower_char :: "char \<Rightarrow> char" where
  [str_simps]: "to_ascii_lower_char c = (if is_ascii_uppercase c then char_of (byte_of c + 32) else c)"

definition to_ascii_lowercase :: "string \<Rightarrow> string" where
  [str_simps]: "to_ascii_lowercase s = map to_ascii_lower_char s"

text \<open>The scalars of a UTF-8 string are its bytes that are not continuation bytes.\<close>

definition is_utf8_continuation :: "char \<Rightarrow> bool" where
  [str_simps]: "is_utf8_continuation c \<longleftrightarrow> 128 \<le> byte_of c \<and> byte_of c < 192"

definition chars_count :: "string \<Rightarrow> nat" where
  [str_simps]: "chars_count s = length (filter (\<lambda>c. \<not> is_utf8_continuation c) s)"

lemma chars_count_le_length: "chars_count s \<le> length s"
  by (simp add: chars_count_def)

lemma length_to_ascii_lowercase [simp]: "length (to_ascii_lowercase s) = length s"
  by (simp add: to_ascii_lowercase_def)

section \<open>Prefixes, suffixes and splitting\<close>

fun strip_prefix :: "string \<Rightarrow> string \<Rightarrow> string option" where
  "strip_prefix [] s = Some s"
| "strip_prefix (p # ps) [] = None"
| "strip_prefix (p # ps) (c # s) = (if p = c then strip_prefix ps s else None)"

definition starts_with :: "string \<Rightarrow> string \<Rightarrow> bool" where
  [str_simps]: "starts_with p s \<longleftrightarrow> strip_prefix p s \<noteq> None"

definition strip_suffix :: "string \<Rightarrow> string \<Rightarrow> string option" where
  [str_simps]: "strip_suffix p s = map_option rev (strip_prefix (rev p) (rev s))"

lemma strip_prefix_eq_Some [simp]: "strip_prefix p s = Some r \<longleftrightarrow> s = p @ r"
  by (induction p s rule: strip_prefix.induct) auto

lemma strip_prefix_append [simp]: "strip_prefix p (p @ r) = Some r"
  by simp

lemma strip_prefix_eq_None: "strip_prefix p s = None \<longleftrightarrow> \<not> prefix p s"
  by (metis not_Some_eq prefix_def strip_prefix_eq_Some)

lemma starts_with_iff: "starts_with p s \<longleftrightarrow> (\<exists>r. s = p @ r)"
  by (auto simp: starts_with_def)

lemma strip_suffix_eq_Some [simp]: "strip_suffix p s = Some r \<longleftrightarrow> s = r @ p"
  by (auto simp: strip_suffix_def) (metis rev_append rev_rev_ident)

text \<open>\<open>str::contains\<close> for a string pattern.\<close>

fun contains_str :: "string \<Rightarrow> string \<Rightarrow> bool" where
  "contains_str p [] = (p = [])"
| "contains_str p (c # s) = (starts_with p (c # s) \<or> contains_str p s)"

lemma contains_str_iff: "contains_str p s \<longleftrightarrow> sublist p s"
proof (induction s)
  case (Cons c s)
  then show ?case by (auto simp: starts_with_iff sublist_Cons_right prefix_def)
qed auto

text \<open>\<open>str::split_once\<close> for a character pattern.\<close>

fun split_once :: "char \<Rightarrow> string \<Rightarrow> (string \<times> string) option" where
  "split_once d [] = None"
| "split_once d (c # s) =
     (if c = d then Some ([], s)
      else map_option (\<lambda>(a, b). (c # a, b)) (split_once d s))"

lemma split_once_SomeD: "split_once d s = Some (a, b) \<Longrightarrow> s = a @ d # b \<and> d \<notin> set a"
proof (induction s arbitrary: a)
  case (Cons c s)
  then show ?case by (cases "c = d") auto
qed simp

lemma split_once_append [simp]: "d \<notin> set a \<Longrightarrow> split_once d (a @ d # b) = Some (a, b)"
  by (induction a) auto

lemma split_once_eq_Some:
  "split_once d s = Some (a, b) \<longleftrightarrow> s = a @ d # b \<and> d \<notin> set a"
  using split_once_SomeD [of d s a b] by auto

lemma split_once_eq_None [simp]: "split_once d s = None \<longleftrightarrow> d \<notin> set s"
  by (induction s) auto

lemma split_once_absent [simp]: "d \<notin> set s \<Longrightarrow> split_once d s = None"
  by simp

text \<open>\<open>str::split\<close> for a character pattern: the pieces between the separators, never empty.\<close>

fun split_on :: "char \<Rightarrow> string \<Rightarrow> string list" where
  "split_on d [] = [[]]"
| "split_on d (c # s) =
     (if c = d then [] # split_on d s
      else (case split_on d s of [] \<Rightarrow> [[c]] | p # ps \<Rightarrow> (c # p) # ps))"

fun join_with :: "string \<Rightarrow> string list \<Rightarrow> string" where
  "join_with sep [] = []"
| "join_with sep [x] = x"
| "join_with sep (x # y # ys) = x @ sep @ join_with sep (y # ys)"

lemma split_on_nonempty [simp]: "split_on d s \<noteq> []"
  by (induction s) (auto split: list.splits)

lemma join_split_on: "join_with [d] (split_on d s) = s"
proof (induction s)
  case (Cons c s)
  obtain p ps where "split_on d s = p # ps" by (cases "split_on d s") auto
  with Cons show ?case by (cases ps) auto
qed simp

lemma split_on_no_sep: "p \<in> set (split_on d s) \<Longrightarrow> d \<notin> set p"
  by (induction s arbitrary: p) (auto split: if_splits list.splits)

lemma split_on_single: "d \<notin> set s \<Longrightarrow> split_on d s = [s]"
  by (induction s) auto

lemma split_on_append: "d \<notin> set p \<Longrightarrow> split_on d (p @ d # s) = p # split_on d s"
  by (induction p) (auto split: list.splits)

lemma split_join_with:
  "ps \<noteq> [] \<Longrightarrow> (\<And>p. p \<in> set ps \<Longrightarrow> d \<notin> set p) \<Longrightarrow> split_on d (join_with [d] ps) = ps"
  by (induction ps rule: induct_list012) (auto simp: split_on_single split_on_append)

text \<open>\<open>str::replace\<close> of one character by a string.\<close>

definition replace_char :: "char \<Rightarrow> string \<Rightarrow> string \<Rightarrow> string" where
  [str_simps]: "replace_char d r s = concat (map (\<lambda>c. if c = d then r else [c]) s)"

text \<open>The bytes \<open>b[i..j]\<close>, in range.\<close>

definition slice :: "string \<Rightarrow> nat \<Rightarrow> nat \<Rightarrow> string" where
  "slice b i j = take (j - i) (drop i b)"

text \<open>\<open>str::lines\<close>: a line ends at a newline, with the carriage return before it; nothing follows the
  last newline.\<close>

definition str_lines :: "string \<Rightarrow> string list" where
  "str_lines s =
     (let ls = split_on (CHR 0x0A) s;
          cut = (\<lambda>l. case strip_suffix [CHR 0x0D] l of Some r \<Rightarrow> r | None \<Rightarrow> l);
          ended = map cut (butlast ls)
      in if last ls = [] then ended else ended @ [last ls])"

section \<open>Blank text\<close>

text \<open>The length in bytes of the white space character a text starts with, 0 if it starts with
  none (\<open>char::is_whitespace\<close>, in UTF-8), and \<open>s.trim().is_empty()\<close>.\<close>

definition white_len :: "string \<Rightarrow> nat" where
  "white_len s =
     (let b = map byte_of (take 3 s); b2 = take 2 b
      in if b = [] then 0
         else if hd b \<in> {9, 10, 11, 12, 13, 32} then 1
         else if b2 = [0xC2, 0x85] \<or> b2 = [0xC2, 0xA0] then 2
         else if b = [0xE1, 0x9A, 0x80] then 3
         else if length b = 3 \<and> b2 = [0xE2, 0x80]
              \<and> (0x80 \<le> b ! 2 \<and> b ! 2 \<le> 0x8A \<or> b ! 2 \<in> {0xA8, 0xA9, 0xAF}) then 3
         else if b = [0xE2, 0x81, 0x9F] \<or> b = [0xE3, 0x80, 0x80] then 3
         else 0)"

function is_blank :: "string \<Rightarrow> bool" where
  "is_blank s =
     (if s = [] then True
      else if white_len s = 0 then False
      else is_blank (drop (white_len s) s))"
  by pat_completeness auto
termination
proof (relation "measure length")
  fix s :: string
  assume "s \<noteq> []" "white_len s \<noteq> 0"
  then show "(drop (white_len s) s, s) \<in> measure length" by simp
qed simp

declare is_blank.simps [simp del]

section \<open>Sorted association lists\<close>

text \<open>A \<open>BTreeMap\<close> is an association list with strictly increasing keys.\<close>

definition sorted_keys :: "('k::linorder \<times> 'v) list \<Rightarrow> bool" where
  "sorted_keys m \<longleftrightarrow> sorted_wrt (<) (map fst m)"

fun bt_insert :: "'k::linorder \<Rightarrow> 'v \<Rightarrow> ('k \<times> 'v) list \<Rightarrow> ('k \<times> 'v) list" where
  "bt_insert k v [] = [(k, v)]"
| "bt_insert k v ((k', v') # m) =
     (if k < k' then (k, v) # (k', v') # m
      else if k = k' then (k, v) # m
      else (k', v') # bt_insert k v m)"

lemma map_of_bt_insert [simp]:
  "sorted_keys m \<Longrightarrow> map_of (bt_insert k v m) = (map_of m)(k \<mapsto> v)"
  by (induction k v m rule: bt_insert.induct) (auto simp: sorted_keys_def fun_eq_iff)

lemma set_bt_insert: "fst ` set (bt_insert k v m) = insert k (fst ` set m)"
  by (induction k v m rule: bt_insert.induct) auto

lemma sorted_keys_bt_insert [wf_intros]: "sorted_keys m \<Longrightarrow> sorted_keys (bt_insert k v m)"
proof (induction k v m rule: bt_insert.induct)
  case (2 k v k' v' m)
  have "fst ` set (bt_insert k v m) = insert k (fst ` set m)" by (rule set_bt_insert)
  with 2 show ?case by (force simp: sorted_keys_def)
qed (simp add: sorted_keys_def)

lemma sorted_keys_distinct: "sorted_keys m \<Longrightarrow> distinct (map fst m)"
  by (simp add: sorted_keys_def strict_sorted_iff)

text \<open>Two sorted association lists with the same lookup are the same list.\<close>

lemma sorted_keys_map_of_inject:
  assumes "sorted_keys m" "sorted_keys m'" "map_of m = map_of m'"
  shows "m = m'"
proof -
  have keys: "map fst m = map fst m'"
    using assms by (metis dom_map_of_conv_image_fst list.set_map sorted_keys_def
        strict_sorted_equal)
  show ?thesis
  proof (rule nth_equalityI)
    show len: "length m = length m'" using keys by (metis length_map)
    fix i assume i: "i < length m"
    have k: "fst (m ! i) = fst (m' ! i)" using keys i len by (metis nth_map)
    have "map_of m (fst (m ! i)) = Some (snd (m ! i))"
      using assms(1) i by (simp add: sorted_keys_distinct)
    moreover have "map_of m' (fst (m' ! i)) = Some (snd (m' ! i))"
      using assms(2) i len by (simp add: sorted_keys_distinct)
    ultimately show "m ! i = m' ! i" using assms(3) k by (simp add: prod_eq_iff)
  qed
qed

section \<open>Decimal and hexadecimal text\<close>

definition digit_char :: "nat \<Rightarrow> char" where
  [str_simps]: "digit_char n = char_of (48 + n)"

fun show_nat :: "nat \<Rightarrow> string" where
  "show_nat n = (if n < 10 then [digit_char n] else show_nat (n div 10) @ [digit_char (n mod 10)])"

declare show_nat.simps [simp del]

definition hex_digit :: "nat \<Rightarrow> char" where
  [str_simps]: "hex_digit n = (if n < 10 then char_of (48 + n) else char_of (87 + n))"

text \<open>\<open>hex::encode\<close>: two lowercase digits per byte.\<close>

definition hex_byte :: "char \<Rightarrow> string" where
  [str_simps]: "hex_byte c = [hex_digit (byte_of c div 16), hex_digit (byte_of c mod 16)]"

definition hex_encode :: "string \<Rightarrow> string" where
  [str_simps]: "hex_encode bs = concat (map hex_byte bs)"

definition is_lower_hex_char :: "char \<Rightarrow> bool" where
  [str_simps]: "is_lower_hex_char c \<longleftrightarrow>
     is_ascii_digit c \<or> (97 \<le> byte_of c \<and> byte_of c \<le> 102)"

definition hex_value :: "char \<Rightarrow> nat option" where
  [str_simps]: "hex_value c =
     (if is_ascii_digit c then Some (byte_of c - 48)
      else if 97 \<le> byte_of c \<and> byte_of c \<le> 102 then Some (byte_of c - 87)
      else if 65 \<le> byte_of c \<and> byte_of c \<le> 70 then Some (byte_of c - 55)
      else None)"

text \<open>\<open>hex::decode\<close>: an odd length or a character that is no hex digit is an error.\<close>

fun hex_decode :: "string \<Rightarrow> string option" where
  "hex_decode [] = Some []"
| "hex_decode [c] = None"
| "hex_decode (a # b # s) =
     (case (hex_value a, hex_value b, hex_decode s) of
        (Some x, Some y, Some r) \<Rightarrow> Some (char_of (16 * x + y) # r)
      | _ \<Rightarrow> None)"

lemma length_hex_encode [simp]: "length (hex_encode bs) = 2 * length bs"
  by (induction bs) (simp_all add: hex_encode_def hex_byte_def)

lemma hex_encode_simps [simp]:
  "hex_encode [] = []" "hex_encode (c # bs) = hex_byte c @ hex_encode bs"
  by (simp_all add: hex_encode_def)

lemma byte_of_less: "byte_of c < 256"
  by (metis mod_less_divisor of_char_mod_256 zero_less_numeral)

lemma byte_nibbles: "byte_of c div 16 < 16" "byte_of c mod 16 < 16"
  using byte_of_less [of c] less_mult_imp_div_less [of "byte_of c" 16 16] by simp_all

lemma byte_of_char_of: "n < 256 \<Longrightarrow> byte_of (char_of n) = n"
  by simp

lemma hex_digit_lower: "n < 16 \<Longrightarrow> is_lower_hex_char (hex_digit n)"
  by (auto simp: str_simps byte_of_char_of)

lemma hex_value_hex_digit [simp]: "n < 16 \<Longrightarrow> hex_value (hex_digit n) = Some n"
  by (auto simp: str_simps byte_of_char_of)

lemma hex_encode_lower: "c \<in> set (hex_encode bs) \<Longrightarrow> is_lower_hex_char c"
proof (induction bs)
  case (Cons b bs)
  from byte_nibbles [of b] Cons show ?case
    by (auto simp: hex_byte_def hex_digit_lower)
qed simp

lemma hex_decode_encode [simp]: "hex_decode (hex_encode bs) = Some bs"
proof (induction bs)
  case (Cons b bs)
  note byte_nibbles [of b]
  moreover have "16 * (byte_of b div 16) + byte_of b mod 16 = byte_of b" by simp
  ultimately show ?case using Cons by (simp add: hex_byte_def)
qed simp

lemma hex_encode_inject [simp]: "hex_encode a = hex_encode b \<longleftrightarrow> a = b"
  by (metis hex_decode_encode option.inject)

lemma digit_char_digit: "n < 10 \<Longrightarrow> is_ascii_digit (digit_char n)"
  by (simp add: str_simps byte_of_char_of)

lemma show_nat_digits: "c \<in> set (show_nat n) \<Longrightarrow> is_ascii_digit c"
proof (induction n rule: show_nat.induct)
  case (1 n)
  then show ?case
    by (subst (asm) (2) show_nat.simps) (auto simp: digit_char_digit split: if_splits)
qed

lemma show_nat_nonempty [simp]: "show_nat n \<noteq> []"
  by (subst show_nat.simps) simp

text \<open>\<open>str::parse\<close> of a run of decimal digits; the callers check the range.\<close>

definition digits_value :: "string \<Rightarrow> nat" where
  [str_simps]: "digits_value s = foldl (\<lambda>a c. a * 10 + (byte_of c - 48)) 0 s"

lemma digits_value_snoc: "digits_value (s @ [c]) = digits_value s * 10 + (byte_of c - 48)"
  by (simp add: digits_value_def)

lemma digits_value_show_nat [simp]: "digits_value (show_nat n) = n"
proof (induction n rule: show_nat.induct)
  case (1 n)
  show ?case
  proof (cases "n < 10")
    case True
    then show ?thesis
      by (subst show_nat.simps) (simp add: digits_value_def digit_char_def byte_of_char_of)
  next
    case False
    with 1 have "digits_value (show_nat (n div 10)) = n div 10" by simp
    with False show ?thesis
      by (subst show_nat.simps)
        (simp add: digits_value_snoc digit_char_def byte_of_char_of)
  qed
qed

lemma show_nat_inject [simp]: "show_nat m = show_nat n \<longleftrightarrow> m = n"
  by (metis digits_value_show_nat)

section \<open>Runs of a state machine\<close>

text \<open>A sequence of events run on a state, with the outcome of each event, and the state at the
  end.\<close>

fun run_log :: "('s \<Rightarrow> 'e \<Rightarrow> 's \<times> 'o) \<Rightarrow> 's \<Rightarrow> 'e list \<Rightarrow> ('e \<times> 'o) list" where
  "run_log step s [] = []"
| "run_log step s (e # es) = (e, snd (step s e)) # run_log step (fst (step s e)) es"

fun run_state :: "('s \<Rightarrow> 'e \<Rightarrow> 's \<times> 'o) \<Rightarrow> 's \<Rightarrow> 'e list \<Rightarrow> 's" where
  "run_state step s [] = s"
| "run_state step s (e # es) = run_state step (fst (step s e)) es"

lemma length_run_log [simp]: "length (run_log step s es) = length es"
  by (induction es arbitrary: s) simp_all

text \<open>
  A machine that may fire only when it is not blocked, is blocked by firing, and stays blocked
  until an unblocking event: between two firings of any run there is an unblocking event.
\<close>

locale retry_guard =
  fixes step :: "'s \<Rightarrow> 'e \<Rightarrow> 's \<times> 'o"
    and ok :: "'s \<Rightarrow> bool"
    and admissible :: "'e \<Rightarrow> bool"
    and blocked :: "'s \<Rightarrow> bool"
    and fires :: "'e \<Rightarrow> 'o \<Rightarrow> bool"
    and unblocks :: "'e \<Rightarrow> 'o \<Rightarrow> bool"
  assumes ok_step: "ok s \<Longrightarrow> admissible e \<Longrightarrow> ok (fst (step s e))"
    and fires_unblocked: "ok s \<Longrightarrow> fires e (snd (step s e)) \<Longrightarrow> \<not> blocked s"
    and fires_blocks: "ok s \<Longrightarrow> admissible e \<Longrightarrow> fires e (snd (step s e)) \<Longrightarrow> blocked (fst (step s e))"
    and blocked_stays: "ok s \<Longrightarrow> admissible e \<Longrightarrow> blocked s \<Longrightarrow> \<not> unblocks e (snd (step s e)) \<Longrightarrow>
      blocked (fst (step s e))"
begin

lemma unblocked_before_firing:
  assumes "ok s" "list_all admissible es" "blocked s" "j < length es"
    and "case_prod fires (run_log step s es ! j)"
  shows "\<exists>k<j. case_prod unblocks (run_log step s es ! k)"
  using assms
proof (induction es arbitrary: s j)
  case (Cons e es)
  show ?case
  proof (cases "unblocks e (snd (step s e))")
    case True
    have "j \<noteq> 0" using Cons.prems fires_unblocked by (cases j) auto
    with True show ?thesis by (intro exI [of _ 0]) simp
  next
    case False
    with Cons.prems have b: "blocked (fst (step s e))" "ok (fst (step s e))"
      using blocked_stays ok_step by simp_all
    obtain i where j: "j = Suc i" using Cons.prems fires_unblocked by (cases j) auto
    with Cons.prems Cons.IH [OF b(2) _ b(1), of i] obtain k where
      "k < i" "case_prod unblocks (run_log step (fst (step s e)) es ! k)" by auto
    then show ?thesis by (intro exI [of _ "Suc k"]) (simp add: j)
  qed
qed simp

lemma unblocked_between:
  assumes "ok s" "list_all admissible es" "i < j" "j < length es"
    and "case_prod fires (run_log step s es ! i)" "case_prod fires (run_log step s es ! j)"
  shows "\<exists>k. i < k \<and> k < j \<and> case_prod unblocks (run_log step s es ! k)"
  using assms
proof (induction es arbitrary: s i j)
  case (Cons e es)
  have ok: "ok (fst (step s e))" using Cons.prems ok_step by simp
  obtain j' where j: "j = Suc j'" using Cons.prems by (cases j) auto
  show ?case
  proof (cases i)
    case 0
    with Cons.prems have "blocked (fst (step s e))" using fires_blocks by simp
    with Cons.prems j unblocked_before_firing [OF ok, of es j'] obtain k where
      "k < j'" "case_prod unblocks (run_log step (fst (step s e)) es ! k)" by auto
    then show ?thesis by (intro exI [of _ "Suc k"]) (simp add: j 0)
  next
    case (Suc i')
    with Cons.prems j Cons.IH [OF ok, of i' j'] obtain k where
      "i' < k" "k < j'" "case_prod unblocks (run_log step (fst (step s e)) es ! k)" by auto
    then show ?thesis by (intro exI [of _ "Suc k"]) (simp add: j Suc)
  qed
qed simp

end

text \<open>
  A detailed machine that simulates an abstract one as long as every event is enabled when it
  happens.
\<close>

fun enabled_run :: "('a \<Rightarrow> 'e \<Rightarrow> 'a) \<Rightarrow> ('a \<Rightarrow> 'e \<Rightarrow> bool) \<Rightarrow> 'a \<Rightarrow> 'e list \<Rightarrow> bool" where
  "enabled_run step enabled a [] = True"
| "enabled_run step enabled a (e # es) = (enabled a e \<and> enabled_run step enabled (step a e) es)"

locale guarded_simulation =
  fixes rel :: "'a \<Rightarrow> 'c \<Rightarrow> bool"
    and astep :: "'a \<Rightarrow> 'e \<Rightarrow> 'a"
    and cstep :: "'c \<Rightarrow> 'e \<Rightarrow> 'c"
    and enabled :: "'a \<Rightarrow> 'e \<Rightarrow> bool"
  assumes step_rel: "rel a c \<Longrightarrow> enabled a e \<Longrightarrow> rel (astep a e) (cstep c e)"
begin

lemma run_rel:
  "rel a c \<Longrightarrow> enabled_run astep enabled a es \<Longrightarrow> rel (foldl astep a es) (foldl cstep c es)"
  by (induction es arbitrary: a c) (simp_all add: step_rel)

end

section \<open>Text forms\<close>

text \<open>
  A text form with a parser that accepts exactly what the printer writes for the values it may
  write: parsing undoes printing, and two such values never share a text.
\<close>

locale text_codec =
  fixes parse :: "string \<Rightarrow> 'a option"
    and print :: "'a \<Rightarrow> string"
    and valid :: "'a \<Rightarrow> bool"
  assumes parse_iff: "parse s = Some x \<longleftrightarrow> s = print x \<and> valid x"
begin

lemma round_trip: "valid x \<Longrightarrow> parse (print x) = Some x"
  by (simp add: parse_iff)

lemma parse_valid: "parse s = Some x \<Longrightarrow> valid x"
  by (simp add: parse_iff)

lemma print_parse: "parse s = Some x \<Longrightarrow> print x = s"
  by (simp add: parse_iff)

lemma print_inject: "valid x \<Longrightarrow> valid y \<Longrightarrow> print x = print y \<longleftrightarrow> x = y"
  by (metis option.inject round_trip)

lemma parse_inject: "parse s = Some x \<Longrightarrow> parse t = Some x \<Longrightarrow> s = t"
  by (simp add: parse_iff)

end

end
