(* ===== verification/Json.thy ===== *)
theory Json
  imports Complex_Main Cloak_Prelude
begin

text \<open>
  JSON documents as the sources hold them (\<open>serde_json::Value\<close>). An object is the association
  list of its members in iteration order: insertion order or key order, depending on how
  \<open>serde_json\<close> is built, so equality (\<open>json_eq\<close>, \<open>PartialEq for Value\<close>) and every checker
  compare objects as maps. A number is an unsigned or negative integer or a finite double; a
  finite double is the rational it denotes.
\<close>

section \<open>Values\<close>

datatype number = PosInt nat | NegInt int | Float rat

datatype json =
    JNull
  | JBool bool
  | JNumber number
  | JString string
  | JArray "json list"
  | JObject "(string \<times> json) list"

type_synonym members = "(string \<times> json) list"

text \<open>The ranges \<open>u64\<close> and \<open>i64\<close> give the integer constructors.\<close>

fun wf_number :: "number \<Rightarrow> bool" where
  "wf_number (PosInt n) = (n < 2 ^ 64)"
| "wf_number (NegInt i) = (- (2 ^ 63) \<le> i \<and> i < 0)"
| "wf_number (Float _) = True"

text \<open>Every object has distinct member names, at every level.\<close>

fun wf_json :: "json \<Rightarrow> bool" where
  "wf_json JNull = True"
| "wf_json (JBool _) = True"
| "wf_json (JNumber n) = wf_number n"
| "wf_json (JString _) = True"
| "wf_json (JArray vs) = list_all wf_json vs"
| "wf_json (JObject ms) = (distinct (map fst ms) \<and> list_all (\<lambda>m. wf_json (snd m)) ms)"

section \<open>Accessors\<close>

fun as_str :: "json \<Rightarrow> string option" where
  "as_str (JString s) = Some s"
| "as_str _ = None"

fun as_object :: "json \<Rightarrow> members option" where
  "as_object (JObject ms) = Some ms"
| "as_object _ = None"

fun as_array :: "json \<Rightarrow> json list option" where
  "as_array (JArray vs) = Some vs"
| "as_array _ = None"

fun as_u64 :: "json \<Rightarrow> nat option" where
  "as_u64 (JNumber (PosInt n)) = Some n"
| "as_u64 _ = None"

fun is_object :: "json \<Rightarrow> bool" where
  "is_object (JObject _) = True"
| "is_object _ = False"

fun is_array :: "json \<Rightarrow> bool" where
  "is_array (JArray _) = True"
| "is_array _ = False"

text \<open>\<open>Value::get\<close> with a string index.\<close>

definition json_get :: "json \<Rightarrow> string \<Rightarrow> json option" where
  "json_get v k = Option.bind (as_object v) (\<lambda>ms. map_of ms k)"

text \<open>Following member names from a value: the loops of \<open>lookup\<close>, \<open>task_value\<close> and
  \<open>context_value\<close>.\<close>

fun json_path :: "json \<Rightarrow> string list \<Rightarrow> json option" where
  "json_path v [] = Some v"
| "json_path v (k # ks) = Option.bind (json_get v k) (\<lambda>w. json_path w ks)"

lemma json_get_object [simp]: "json_get (JObject ms) k = map_of ms k"
  by (simp add: json_get_def)

lemma json_get_other [simp]: "\<not> is_object v \<Longrightarrow> json_get v k = None"
  by (cases v) (simp_all add: json_get_def)

lemma as_object_eq_Some [simp]: "as_object v = Some ms \<longleftrightarrow> v = JObject ms"
  by (cases v) auto

lemma as_str_eq_Some [simp]: "as_str v = Some s \<longleftrightarrow> v = JString s"
  by (cases v) auto

lemma as_array_eq_Some [simp]: "as_array v = Some s \<longleftrightarrow> v = JArray s"
  by (cases v) auto

lemma is_object_iff: "is_object v \<longleftrightarrow> (\<exists>ms. v = JObject ms)"
  by (cases v) auto

lemma json_path_append:
  "json_path v (ks @ ks') = Option.bind (json_path v ks) (\<lambda>w. json_path w ks')"
  by (induction ks arbitrary: v) (auto simp: Option.bind_eq_None_conv split: bind_split)

lemma wf_json_get: "wf_json v \<Longrightarrow> json_get v k = Some w \<Longrightarrow> wf_json w"
  by (cases v) (auto simp: json_get_def list_all_iff dest: map_of_SomeD)

section \<open>Equality\<close>

lemma size_zip_fst: "p \<in> set (zip xs ys) \<Longrightarrow> size (fst p) < Suc (size_list size xs)"
  by (metis less_Suc_eq_le prod.collapse set_zip_leftD size_list_estimation' order_refl)

lemma size_member_snd:
  "m \<in> set a \<Longrightarrow> size (snd m) < Suc (size_list (size_prod (\<lambda>_. 0) size) a)"
  by (induction a) (auto simp: less_Suc_eq_le)

function (sequential) json_eq :: "json \<Rightarrow> json \<Rightarrow> bool" where
  "json_eq (JArray xs) (JArray ys) =
     (length xs = length ys \<and> (\<forall>p\<in>set (zip xs ys). json_eq (fst p) (snd p)))"
| "json_eq (JObject a) (JObject b) =
     (length a = length b \<and>
      (\<forall>m\<in>set a. case map_of b (fst m) of None \<Rightarrow> False | Some w \<Rightarrow> json_eq (snd m) w))"
| "json_eq v w = (v = w)"
  by pat_completeness auto
termination
  by (relation "measure (size \<circ> fst)") (simp_all add: size_zip_fst size_member_snd)

lemma json_eq_array: "json_eq (JArray xs) (JArray ys) \<longleftrightarrow> list_all2 json_eq xs ys"
  by (simp add: list_all2_iff case_prod_beta)

lemma zip_memI: "i < length xs \<Longrightarrow> i < length ys \<Longrightarrow> (xs ! i, ys ! i) \<in> set (zip xs ys)"
  by (auto simp: set_zip)

text \<open>\<open>Vec::contains\<close> on values.\<close>

definition json_contains :: "json list \<Rightarrow> json \<Rightarrow> bool" where
  "json_contains vs v \<longleftrightarrow> (\<exists>w\<in>set vs. json_eq w v)"

lemma json_eq_refl: "wf_json v \<Longrightarrow> json_eq v v"
proof (induction v rule: wf_json.induct)
  case (5 vs)
  then show ?case by (auto simp: list_all_iff set_zip)
next
  case (6 ms)
  then show ?case by (force simp: list_all_iff)
qed simp_all

lemma json_eq_kinds:
  "json_eq v w \<Longrightarrow> is_object v = is_object w \<and> is_array v = is_array w \<and> as_str v = as_str w"
  by (cases v; cases w) auto

lemma json_eq_scalar:
  "\<not> is_object v \<Longrightarrow> \<not> is_array v \<Longrightarrow> json_eq v w \<longleftrightarrow> v = w"
  by (cases v; cases w) auto

lemma json_eq_String [simp]:
  "json_eq (JString s) v \<longleftrightarrow> v = JString s" "json_eq v (JString s) \<longleftrightarrow> v = JString s"
  by (cases v; auto)+

text \<open>Objects with distinct keys that map the same keys to equal values have the same keys.\<close>

lemma json_eq_object_keys:
  assumes "json_eq (JObject a) (JObject b)" "distinct (map fst a)" "distinct (map fst b)"
  shows "fst ` set a = fst ` set b"
proof (rule card_subset_eq)
  show "finite (fst ` set b)" by simp
  show "fst ` set a \<subseteq> fst ` set b"
  proof
    fix k assume "k \<in> fst ` set a"
    then obtain v where "(k, v) \<in> set a" by auto
    with assms(1) have "map_of b k \<noteq> None" by (auto split: option.splits)
    then show "k \<in> fst ` set b" by (simp add: map_of_eq_None_iff)
  qed
  have "card (set (map fst a)) = length a" "card (set (map fst b)) = length b"
    using assms(2,3) distinct_card by (metis length_map)+
  with assms(1) show "card (fst ` set a) = card (fst ` set b)" by simp
qed

lemma json_eq_object_lookup:
  assumes "json_eq (JObject a) (JObject b)" "map_of a k = Some v"
  shows "\<exists>w. map_of b k = Some w \<and> json_eq v w"
proof -
  from assms(1) have
    "\<forall>m\<in>set a. case map_of b (fst m) of None \<Rightarrow> False | Some w \<Rightarrow> json_eq (snd m) w"
    unfolding json_eq.simps by (rule conjunct2)
  from bspec [OF this map_of_SomeD [OF assms(2)]] show ?thesis
    by (cases "map_of b k") auto
qed

lemma json_eq_object_None:
  assumes "json_eq (JObject a) (JObject b)" "distinct (map fst a)" "distinct (map fst b)"
  shows "map_of a k = None \<longleftrightarrow> map_of b k = None"
  using json_eq_object_keys [OF assms] by (simp add: map_of_eq_None_iff)

lemma json_eq_objectI:
  assumes "length a = length b"
    and "\<And>k v. (k, v) \<in> set a \<Longrightarrow> \<exists>w. map_of b k = Some w \<and> json_eq v w"
  shows "json_eq (JObject a) (JObject b)"
proof -
  have "case map_of b (fst m) of None \<Rightarrow> False | Some w \<Rightarrow> json_eq (snd m) w" if "m \<in> set a" for m
    using assms(2) [of "fst m" "snd m"] that by auto
  then show ?thesis unfolding json_eq.simps using assms(1) by blast
qed

lemma json_eq_sym: "wf_json v \<Longrightarrow> wf_json w \<Longrightarrow> json_eq v w \<Longrightarrow> json_eq w v"
proof (induction v w rule: json_eq.induct)
  case (1 xs ys)
  have "list_all2 json_eq xs ys" using 1(4) by (simp only: json_eq_array)
  moreover have "json_eq (ys ! i) (xs ! i)"
    if "i < length xs" "i < length ys" "json_eq (xs ! i) (ys ! i)" for i
    using 1(1) [OF zip_memI [OF that(1,2)]] 1(2,3) that by (simp add: list_all_length)
  ultimately show ?case unfolding json_eq_array by (simp add: list_all2_conv_all_nth)
next
  case (2 a b)
  have d: "distinct (map fst a)" "distinct (map fst b)" using 2 by simp_all
  show ?case
  proof (rule json_eq_objectI)
    show "length b = length a" using 2(4) by simp
    fix k w assume kw: "(k, w) \<in> set b"
    then have bw: "map_of b k = Some w" using d(2) by simp
    then obtain v where av: "map_of a k = Some v"
      using json_eq_object_None [OF 2(4) d, of k] by fastforce
    then have mem: "(k, v) \<in> set a" by (rule map_of_SomeD)
    from json_eq_object_lookup [OF 2(4) av] bw have "json_eq v w" by simp
    moreover have "wf_json v" "wf_json w"
      using 2(2,3) mem kw by (auto simp: list_all_iff)
    ultimately have "json_eq w v" using 2(1) [OF mem] bw by simp
    with av show "\<exists>v. map_of a k = Some v \<and> json_eq w v" by blast
  qed
qed auto

lemma json_eq_trans: "json_eq v w \<Longrightarrow> json_eq w u \<Longrightarrow> json_eq v u"
proof (induction v w arbitrary: u rule: json_eq.induct)
  case (1 xs ys)
  from 1(3) obtain zs where u: "u = JArray zs" by (cases u) simp_all
  have l: "list_all2 json_eq xs ys" "list_all2 json_eq ys zs"
    using 1(2,3) u by (simp_all only: json_eq_array)
  have "json_eq (xs ! i) (zs ! i)" if i: "i < length xs" for i
    using 1(1) [OF zip_memI, of i] l i by (simp add: list_all2_conv_all_nth)
  with l show ?case unfolding u json_eq_array by (simp add: list_all2_conv_all_nth)
next
  case (2 a b)
  from 2(3) obtain c where u: "u = JObject c" by (cases u) simp_all
  show ?case unfolding u
  proof (rule json_eq_objectI)
    show "length a = length c" using 2(2,3) u by simp
    fix k v assume mem: "(k, v) \<in> set a"
    have "\<forall>m\<in>set a. case map_of b (fst m) of None \<Rightarrow> False | Some w \<Rightarrow> json_eq (snd m) w"
      using 2(2) unfolding json_eq.simps by (rule conjunct2)
    from bspec [OF this mem] obtain w where w: "map_of b k = Some w" "json_eq v w"
      by (cases "map_of b k") auto
    from json_eq_object_lookup [OF 2(3) [unfolded u] w(1)] obtain x where
      "map_of c k = Some x" "json_eq w x" by blast
    with 2(1) [OF mem] w show "\<exists>x. map_of c k = Some x \<and> json_eq v x" by auto
  qed
qed auto

lemma json_eq_member:
  assumes eq: "json_eq (JObject ms) w" and k: "map_of ms k = Some v"
  shows "\<exists>v'. json_get w k = Some v' \<and> json_eq v v'"
proof (cases w)
  case (JObject b)
  have "json_eq (JObject ms) (JObject b)" using eq unfolding JObject .
  from json_eq_object_lookup [OF this k] show ?thesis unfolding JObject json_get_object by blast
qed (use eq in simp_all)

lemma json_eq_string: "json_eq (JString s) w \<longleftrightarrow> w = JString s"
  by (cases w) auto

lemma json_eq_get:
  assumes "json_eq v w" "json_get v k = Some x"
  shows "\<exists>y. json_get w k = Some y \<and> json_eq x y"
proof (cases "is_object v")
  case True
  with assms json_eq_member [of _ w k x] show ?thesis by (auto simp: is_object_iff)
next
  case False
  with assms(2) show ?thesis by simp
qed

lemma json_eq_path:
  "json_eq v w \<Longrightarrow> json_path v ks = Some x \<Longrightarrow> \<exists>y. json_path w ks = Some y \<and> json_eq x y"
proof (induction ks arbitrary: v w)
  case (Cons k ks)
  then obtain v' where "json_get v k = Some v'" "json_path v' ks = Some x"
    by (auto simp: Option.bind_eq_Some_conv)
  with json_eq_get [OF Cons.prems(1)] Cons.IH show ?case by fastforce
qed simp

lemma json_eq_strings: "json_eq (JArray (map JString xs)) (JArray (map JString ys)) \<longleftrightarrow> xs = ys"
  by (simp only: json_eq_array list_all2_map1 list_all2_map2 json_eq.simps json.inject list.rel_eq)

lemma json_eq_optional:
  "json_eq (case x of None \<Rightarrow> JNull | Some r \<Rightarrow> JString (f r)) (case y of None \<Rightarrow> JNull | Some r \<Rightarrow> JString (f r))
    \<longleftrightarrow> map_option f x = map_option f y"
  by (simp split: option.split)

lemma json_contains_cong:
  assumes "json_eq v w" "wf_json v" "wf_json w"
  shows "json_contains vs v = json_contains vs w"
  using assms json_eq_sym json_eq_trans unfolding json_contains_def by meson

section \<open>Numbers\<close>

text \<open>
  \<open>as_f64\<close> of an integer rounds to the nearest double (53 significant bits), ties to even.
  \<open>bit_width n\<close> is the position of the highest set bit.
\<close>

fun bit_width :: "nat \<Rightarrow> nat" where
  "bit_width n = (if n = 0 then 0 else Suc (bit_width (n div 2)))"

declare bit_width.simps [simp del]

definition round_f64 :: "nat \<Rightarrow> nat" where
  "round_f64 n =
     (let w = bit_width n in
      if w \<le> 53 then n
      else let k = w - 53; q = n div 2 ^ k; r = n mod 2 ^ k; half = 2 ^ (k - 1);
               q' = (if half < r \<or> (half = r \<and> odd q) then q + 1 else q)
           in q' * 2 ^ k)"

fun as_f64 :: "number \<Rightarrow> rat" where
  "as_f64 (PosInt n) = of_nat (round_f64 n)"
| "as_f64 (NegInt i) = - of_nat (round_f64 (nat (- i)))"
| "as_f64 (Float q) = q"

text \<open>\<open>as_i64\<close> or else \<open>as_u64\<close>, widened to \<open>i128\<close>.\<close>

fun int_of_number :: "number \<Rightarrow> int option" where
  "int_of_number (PosInt n) = Some (int n)"
| "int_of_number (NegInt i) = Some i"
| "int_of_number (Float _) = None"

definition is_integral_rat :: "rat \<Rightarrow> bool" where
  "is_integral_rat q \<longleftrightarrow> snd (quotient_of q) = 1"

lemma bit_width_bound: "n < 2 ^ bit_width n"
proof (induction n rule: bit_width.induct)
  case (1 n)
  show ?case
  proof (cases "n = 0")
    case False
    with 1 have "n div 2 < 2 ^ bit_width (n div 2)" by simp
    with False show ?thesis by (subst bit_width.simps) simp
  qed (simp add: bit_width.simps)
qed

lemma bit_width_le: "n < 2 ^ k \<Longrightarrow> bit_width n \<le> k"
proof (induction n arbitrary: k rule: bit_width.induct)
  case (1 n)
  show ?case
  proof (cases "n = 0")
    case False
    with 1(2) obtain k' where k: "k = Suc k'" by (cases k) auto
    with 1(2) have "n div 2 < 2 ^ k'" by simp
    with 1(1) False k show ?thesis by (subst bit_width.simps) simp
  qed (simp add: bit_width.simps)
qed

text \<open>Integers below \<open>2 ^ 53\<close> are doubles.\<close>

lemma round_f64_exact: "n < 2 ^ 53 \<Longrightarrow> round_f64 n = n"
  using bit_width_le [of n 53] by (simp add: round_f64_def)

datatype ordering = Less | Equal | Greater

definition cmp_of :: "'a::linorder \<Rightarrow> 'a \<Rightarrow> ordering" where
  "cmp_of a b = (if a < b then Less else if a = b then Equal else Greater)"

lemma cmp_of_simps [simp]:
  "cmp_of a b = Less \<longleftrightarrow> a < b" "cmp_of a b = Equal \<longleftrightarrow> a = b" "cmp_of a b = Greater \<longleftrightarrow> b < a"
  by (auto simp: cmp_of_def)

end
