(* ===== verification/Contract.thy ===== *)
theory Contract
  imports Json
begin

text \<open>
  The constraint language of tool contracts (\<open>cloakpipe-release/src/contract.rs\<close>): one
  constraint restricts one value of a call's arguments. \<open>validate\<close> is the load-time check that
  refuses constraints that mix types or restrict nothing and compiles the patterns; \<open>check\<close>
  decides one value and reports the first violation, in a fixed order.

  Regular expressions are the \<open>regex\<close> crate's: \<open>regex_ops\<close> stands for it, and a compiled
  \<open>Regex\<close> keeps its source. The keywords of a constraint are a record (\<open>constraint_kw\<close>); the
  two fields that hold constraints again, \<open>properties\<close> and \<open>items\<close>, make the datatype
  recursive.
\<close>

section \<open>Types\<close>

datatype json_type = TString | TInteger | TNumber | TBoolean | TObject | TArray | TNull

fun json_type_matches :: "json_type \<Rightarrow> json \<Rightarrow> bool" where
  "json_type_matches TString (JString _) = True"
| "json_type_matches TNumber (JNumber _) = True"
| "json_type_matches TBoolean (JBool _) = True"
| "json_type_matches TObject (JObject _) = True"
| "json_type_matches TArray (JArray _) = True"
| "json_type_matches TNull JNull = True"
| "json_type_matches TInteger (JNumber n) =
     (case n of Float q \<Rightarrow> is_integral_rat q | _ \<Rightarrow> True)"
| "json_type_matches _ _ = False"

datatype regex = Regex string

record regex_ops =
  regex_valid :: "string \<Rightarrow> bool"
  regex_is_match :: "regex \<Rightarrow> string \<Rightarrow> bool"

definition regex_new :: "regex_ops \<Rightarrow> string \<Rightarrow> regex option" where
  "regex_new R p = (if regex_valid R p then Some (Regex p) else None)"

record constraint_kw =
  c_ty :: "json_type option"
  c_one_of :: "json list option"
  c_constant :: "json option"
  c_min_length :: "nat option"
  c_max_length :: "nat option"
  c_pattern :: "string option"
  c_minimum :: "number option"
  c_maximum :: "number option"
  c_required :: "string list option"
  c_additional_properties :: "bool option"
  c_min_properties :: "nat option"
  c_max_properties :: "nat option"
  c_min_items :: "nat option"
  c_max_items :: "nat option"
  c_bind_to :: "string option"
  c_one_of_context :: "string list option"
  c_or_pattern :: "string option"
  c_regex :: "regex option"
  c_or_regex :: "regex option"

datatype constraint =
  Constraint (kw: constraint_kw)
    (properties: "(string \<times> constraint) list option")
    (items: "constraint option")

type_synonym props = "(string \<times> constraint) list"

text \<open>A constraint document with no keyword at all: every \<open>Option\<close> field absent.\<close>

definition no_kw :: constraint_kw where
  "no_kw = \<lparr>c_ty = None, c_one_of = None, c_constant = None, c_min_length = None,
     c_max_length = None, c_pattern = None, c_minimum = None, c_maximum = None,
     c_required = None, c_additional_properties = None, c_min_properties = None,
     c_max_properties = None, c_min_items = None, c_max_items = None, c_bind_to = None,
     c_one_of_context = None, c_or_pattern = None, c_regex = None, c_or_regex = None\<rparr>"

datatype violation_code =
    ArgumentMissing | UndeclaredArgument | ArgumentInvalid | ScopeMismatch | TaskContextMissing

fun violation_code_str :: "violation_code \<Rightarrow> string" where
  "violation_code_str ArgumentMissing = ''argument_missing''"
| "violation_code_str UndeclaredArgument = ''undeclared_argument''"
| "violation_code_str ArgumentInvalid = ''argument_invalid''"
| "violation_code_str ScopeMismatch = ''scope_mismatch''"
| "violation_code_str TaskContextMissing = ''task_context_missing''"

record violation =
  v_code :: violation_code
  v_path :: "string option"

definition violation_at :: "violation_code \<Rightarrow> string \<Rightarrow> violation" where
  "violation_at code path = \<lparr>v_code = code, v_path = (if path = [] then None else Some path)\<rparr>"

section \<open>Helpers\<close>

text \<open>\<open>path\<close> + \<open>/name\<close>, escaped as a JSON pointer (RFC 6901).\<close>

definition child :: "string \<Rightarrow> string \<Rightarrow> string" where
  "child path name = path @ ''/'' @ replace_char (CHR ''/'') ''~1'' (replace_char (CHR ''~'') ''~0'' name)"

text \<open>The task context value at \<open>task.<a>.<b>...\<close>, and at a dotted path without the prefix.\<close>

definition task_value :: "json option \<Rightarrow> string \<Rightarrow> json option" where
  "task_value task key =
     Option.bind task (\<lambda>v. Option.bind (strip_prefix ''task.'' key)
       (\<lambda>k. json_path v (split_on (CHR ''.'') k)))"

definition context_value :: "json option \<Rightarrow> string \<Rightarrow> json option" where
  "context_value task key = Option.bind task (\<lambda>v. json_path v (split_on (CHR ''.'') key))"

text \<open>Exact for integers (any mix of signed and unsigned); IEEE otherwise.\<close>

definition cmp_number :: "number \<Rightarrow> number \<Rightarrow> ordering option" where
  "cmp_number a b =
     (case (int_of_number a, int_of_number b) of
        (Some x, Some y) \<Rightarrow> Some (cmp_of x y)
      | _ \<Rightarrow> Some (cmp_of (as_f64 a) (as_f64 b)))"

definition has_string_keywords :: "constraint_kw \<Rightarrow> bool" where
  "has_string_keywords k \<longleftrightarrow> c_min_length k \<noteq> None \<or> c_max_length k \<noteq> None \<or> c_pattern k \<noteq> None"

definition has_number_keywords :: "constraint_kw \<Rightarrow> bool" where
  "has_number_keywords k \<longleftrightarrow> c_minimum k \<noteq> None \<or> c_maximum k \<noteq> None"

definition has_object_keywords :: "constraint \<Rightarrow> bool" where
  "has_object_keywords c \<longleftrightarrow>
     properties c \<noteq> None \<or> c_required (kw c) \<noteq> None \<or> c_additional_properties (kw c) \<noteq> None
     \<or> c_min_properties (kw c) \<noteq> None \<or> c_max_properties (kw c) \<noteq> None"

definition has_array_keywords :: "constraint \<Rightarrow> bool" where
  "has_array_keywords c \<longleftrightarrow>
     items c \<noteq> None \<or> c_min_items (kw c) \<noteq> None \<or> c_max_items (kw c) \<noteq> None"

section \<open>Validation when a contract loads\<close>

datatype constraint_error =
    MultipleTypes string
  | KeywordsNotForType string json_type
  | RestrictsNothing string
  | EmptyEnum string
  | BadBindTo string string
  | EmptyContext string
  | BadContextEntry string string
  | OrPatternAlone string
  | BadOrPattern string
  | BadPattern string
  | RequiredNotDeclared string string

text \<open>The keyword families in use, each with the types it applies to.\<close>

definition used_families :: "constraint \<Rightarrow> json_type list list" where
  "used_families c = map snd (filter fst
     [(has_string_keywords (kw c), [TString]),
      (has_number_keywords (kw c), [TNumber, TInteger]),
      (has_object_keywords c, [TObject]),
      (has_array_keywords c, [TArray])])"

definition restricts :: "constraint \<Rightarrow> bool" where
  "restricts c \<longleftrightarrow>
     c_ty (kw c) \<noteq> None \<or> c_one_of (kw c) \<noteq> None \<or> c_constant (kw c) \<noteq> None
     \<or> c_bind_to (kw c) \<noteq> None \<or> c_one_of_context (kw c) \<noteq> None \<or> used_families c \<noteq> []"

definition dotted_path_ok :: "string \<Rightarrow> bool" where
  "dotted_path_ok k \<longleftrightarrow> list_all (\<lambda>s. s \<noteq> []) (split_on (CHR ''.'') k)"

definition validate_families :: "string \<Rightarrow> constraint \<Rightarrow> constraint_error + unit" where
  "validate_families path c =
     (if 1 < length (used_families c) then Err (MultipleTypes path)
      else (case (c_ty (kw c), used_families c) of
              (Some t, types # _) \<Rightarrow>
                if t \<notin> set types then Err (KeywordsNotForType path t) else Ok ()
            | _ \<Rightarrow> Ok ()))"

definition validate_bind_to :: "string \<Rightarrow> constraint_kw \<Rightarrow> constraint_error + unit" where
  "validate_bind_to path k =
     (case c_bind_to k of
        None \<Rightarrow> Ok ()
      | Some key \<Rightarrow>
          if is_some_and dotted_path_ok (strip_prefix ''task.'' key) then Ok ()
          else Err (BadBindTo path key))"

text \<open>\<open>one_of_context\<close> entries lose their optional \<open>task.\<close> prefix in place.\<close>

definition context_entry :: "string \<Rightarrow> string \<Rightarrow> constraint_error + string" where
  "context_entry path k =
     (let key = (case strip_prefix ''task.'' k of Some r \<Rightarrow> r | None \<Rightarrow> k) in
      if key = [] \<or> \<not> dotted_path_ok key then Err (BadContextEntry path k) else Ok key)"

definition validate_context :: "string \<Rightarrow> constraint_kw \<Rightarrow> constraint_error + constraint_kw" where
  "validate_context path k =
     (case c_one_of_context k of
        None \<Rightarrow> Ok k
      | Some keys \<Rightarrow>
          if keys = [] then Err (EmptyContext path)
          else rbind (try_map (context_entry path) keys)
                 (\<lambda>ks. Ok (k\<lparr>c_one_of_context := Some ks\<rparr>)))"

definition compile_patterns ::
  "regex_ops \<Rightarrow> string \<Rightarrow> constraint_kw \<Rightarrow> constraint_error + constraint_kw" where
  "compile_patterns R path k =
     rbind (case c_or_pattern k of
              None \<Rightarrow> Ok k
            | Some p \<Rightarrow>
                if c_one_of_context k = None then Err (OrPatternAlone path)
                else (case regex_new R p of
                        None \<Rightarrow> Err (BadOrPattern path)
                      | Some re \<Rightarrow> Ok (k\<lparr>c_or_regex := Some re\<rparr>)))
       (\<lambda>k. case c_pattern k of
              None \<Rightarrow> Ok k
            | Some p \<Rightarrow>
                (case regex_new R (''^(?:'' @ p @ '')$'') of
                   None \<Rightarrow> Err (BadPattern path)
                 | Some re \<Rightarrow> Ok (k\<lparr>c_regex := Some re\<rparr>)))"

definition validate_required :: "string \<Rightarrow> constraint \<Rightarrow> constraint_error + unit" where
  "validate_required path c =
     (case c_required (kw c) of
        None \<Rightarrow> Ok ()
      | Some rs \<Rightarrow> try_each (\<lambda>r.
          if is_some_and (\<lambda>p. r \<in> fst ` set p) (properties c) then Ok ()
          else Err (RequiredNotDeclared path r)) rs)"

text \<open>Everything \<open>validate\<close> does before it descends into \<open>properties\<close> and \<open>items\<close>.\<close>

definition validate_head ::
  "regex_ops \<Rightarrow> string \<Rightarrow> constraint \<Rightarrow> constraint_error + constraint_kw" where
  "validate_head R path c =
     rbind (validate_families path c) (\<lambda>_.
     if \<not> restricts c then Err (RestrictsNothing path)
     else if c_one_of (kw c) = Some [] then Err (EmptyEnum path)
     else rbind (validate_bind_to path (kw c)) (\<lambda>_.
          rbind (validate_context path (kw c)) (\<lambda>k.
          rbind (compile_patterns R path k) (\<lambda>k'.
          rbind (validate_required path c) (\<lambda>_. Ok k')))))"

fun try_option :: "('a \<Rightarrow> 'e + 'b) \<Rightarrow> 'a option \<Rightarrow> 'e + 'b option" where
  "try_option f None = Ok None"
| "try_option f (Some x) = rbind (f x) (\<lambda>y. Ok (Some y))"

lemma try_option_cong [fundef_cong]:
  "x = y \<Longrightarrow> (\<And>a. a \<in> set_option y \<Longrightarrow> f a = g a) \<Longrightarrow> try_option f x = try_option g y"
  by (cases y) auto

lemma size_props_member:
  "m \<in> set ps \<Longrightarrow> size (snd m) < Suc (size_list (size_prod (\<lambda>_. 0) size) ps)"
  by (induction ps) (auto simp: less_Suc_eq_le)

function validate :: "regex_ops \<Rightarrow> string \<Rightarrow> constraint \<Rightarrow> constraint_error + constraint" where
  "validate R path (Constraint k ps it) =
     rbind (validate_head R path (Constraint k ps it)) (\<lambda>k'.
     rbind (try_option (\<lambda>ms. try_map (\<lambda>m.
              rbind (validate R (child path (fst m)) (snd m)) (\<lambda>c. Ok (fst m, c))) ms) ps) (\<lambda>ps'.
     rbind (try_option (\<lambda>c. validate R (path @ ''/items'') c) it) (\<lambda>it'.
     Ok (Constraint k' ps' it'))))"
  by pat_completeness auto
termination
  by (relation "measure (\<lambda>(R, path, c). size c)") (auto dest!: size_props_member)

section \<open>Checking a value\<close>

definition check_bind_to ::
  "constraint_kw \<Rightarrow> json \<Rightarrow> string \<Rightarrow> json option \<Rightarrow> violation + unit" where
  "check_bind_to k v path task =
     (case c_bind_to k of
        None \<Rightarrow> Ok ()
      | Some key \<Rightarrow>
          (case task_value task key of
             None \<Rightarrow> Err (violation_at TaskContextMissing path)
           | Some expected \<Rightarrow>
               if \<not> json_eq v expected then Err (violation_at ScopeMismatch path) else Ok ()))"

text \<open>The loop over the context keys: whether one is missing, whether one matches.\<close>

fun scan_context :: "json option \<Rightarrow> json \<Rightarrow> string list \<Rightarrow> bool \<Rightarrow> bool \<Rightarrow> bool \<times> bool" where
  "scan_context task v [] missing matched = (missing, matched)"
| "scan_context task v (k # ks) missing matched =
     (case context_value task k of
        None \<Rightarrow> scan_context task v ks True matched
      | Some (JArray a) \<Rightarrow> scan_context task v ks missing (matched \<or> json_contains a v)
      | Some x \<Rightarrow> scan_context task v ks missing (matched \<or> json_eq x v))"

definition or_pattern_matches :: "regex_ops \<Rightarrow> constraint_kw \<Rightarrow> json \<Rightarrow> bool" where
  "or_pattern_matches R k v =
     (case (c_or_regex k, as_str v) of
        (Some re, Some s) \<Rightarrow> regex_is_match R re s
      | _ \<Rightarrow> False)"

definition check_context ::
  "regex_ops \<Rightarrow> constraint_kw \<Rightarrow> json \<Rightarrow> string \<Rightarrow> json option \<Rightarrow> violation + unit" where
  "check_context R k v path task =
     (case c_one_of_context k of
        None \<Rightarrow> Ok ()
      | Some keys \<Rightarrow>
          (let (missing, matched) = scan_context task v keys False False in
           if \<not> matched \<and> \<not> or_pattern_matches R k v
           then Err (violation_at (if missing then TaskContextMissing else ScopeMismatch) path)
           else Ok ()))"

definition check_literals :: "constraint_kw \<Rightarrow> json \<Rightarrow> string \<Rightarrow> violation + unit" where
  "check_literals k v path =
     (if is_some_and (\<lambda>t. \<not> json_type_matches t v) (c_ty k)
      then Err (violation_at ArgumentInvalid path)
      else if is_some_and (\<lambda>w. \<not> json_eq w v) (c_constant k)
      then Err (violation_at ArgumentInvalid path)
      else if is_some_and (\<lambda>e. \<not> json_contains e v) (c_one_of k)
      then Err (violation_at ArgumentInvalid path)
      else Ok ())"

definition check_string_kw ::
  "regex_ops \<Rightarrow> constraint_kw \<Rightarrow> json \<Rightarrow> string \<Rightarrow> violation + unit" where
  "check_string_kw R k v path =
     (if has_string_keywords k then
        (case v of
           JString s \<Rightarrow>
             (let n = chars_count s in
              if is_some_and (\<lambda>m. n < m) (c_min_length k)
                 \<or> is_some_and (\<lambda>m. n > m) (c_max_length k)
                 \<or> is_some_and (\<lambda>re. \<not> regex_is_match R re s) (c_regex k)
              then Err (violation_at ArgumentInvalid path) else Ok ())
         | _ \<Rightarrow> Err (violation_at ArgumentInvalid path))
      else Ok ())"

definition check_number_kw :: "constraint_kw \<Rightarrow> json \<Rightarrow> string \<Rightarrow> violation + unit" where
  "check_number_kw k v path =
     (if has_number_keywords k then
        (case v of
           JNumber n \<Rightarrow>
             (if is_some_and (\<lambda>m. cmp_number n m \<notin> {Some Greater, Some Equal}) (c_minimum k)
                 \<or> is_some_and (\<lambda>m. cmp_number n m \<notin> {Some Less, Some Equal}) (c_maximum k)
              then Err (violation_at ArgumentInvalid path) else Ok ())
         | _ \<Rightarrow> Err (violation_at ArgumentInvalid path))
      else Ok ())"

text \<open>
  \<open>check_object\<close>: unknown keys, then missing required ones, then counts, then each declared
  value in name order. \<open>chk\<close> is the check of one declared value.
\<close>

definition check_object_with ::
  "(constraint \<Rightarrow> json \<Rightarrow> string \<Rightarrow> violation + unit) \<Rightarrow> props option \<Rightarrow> string list \<Rightarrow> bool
   \<Rightarrow> nat option \<Rightarrow> nat option \<Rightarrow> members \<Rightarrow> string \<Rightarrow> violation + unit" where
  "check_object_with chk ps required additional mn mx obj path =
     (if \<not> additional
         \<and> list_ex (\<lambda>m. \<not> is_some_and (\<lambda>p. fst m \<in> fst ` set p) ps) obj
      then Err (violation_at UndeclaredArgument path)
      else (case sort (filter (\<lambda>r. map_of obj r = None) required) of
              r # _ \<Rightarrow> Err (violation_at ArgumentMissing (child path r))
            | [] \<Rightarrow>
                if is_some_and (\<lambda>m. length obj < m) mn \<or> is_some_and (\<lambda>m. length obj > m) mx
                then Err (violation_at ArgumentInvalid path)
                else try_each (\<lambda>m.
                       case map_of obj (fst m) of
                         None \<Rightarrow> Ok ()
                       | Some v \<Rightarrow> chk (snd m) v (child path (fst m)))
                     (case ps of None \<Rightarrow> [] | Some p \<Rightarrow> p)))"

lemma check_object_with_cong [fundef_cong]:
  assumes "ps = ps'" "required = required'" "additional = additional'" "mn = mn'" "mx = mx'"
    "obj = obj'" "path = path'"
    and "\<And>p m v q. ps' = Some p \<Longrightarrow> m \<in> set p \<Longrightarrow> chk (snd m) v q = chk' (snd m) v q"
  shows "check_object_with chk ps required additional mn mx obj path =
    check_object_with chk' ps' required' additional' mn' mx' obj' path'"
proof -
  have "try_each (\<lambda>m. case map_of obj' (fst m) of None \<Rightarrow> Ok ()
            | Some v \<Rightarrow> chk (snd m) v (child path' (fst m))) (case ps' of None \<Rightarrow> [] | Some p \<Rightarrow> p)
      = try_each (\<lambda>m. case map_of obj' (fst m) of None \<Rightarrow> Ok ()
            | Some v \<Rightarrow> chk' (snd m) v (child path' (fst m))) (case ps' of None \<Rightarrow> [] | Some p \<Rightarrow> p)"
    using assms(8) by (intro try_each_cong) (auto split: option.splits)
  then show ?thesis
    unfolding assms(1-7) check_object_with_def by (simp split: list.split)
qed

definition check_items_bounds :: "constraint_kw \<Rightarrow> json list \<Rightarrow> string \<Rightarrow> violation + unit" where
  "check_items_bounds k a path =
     (if is_some_and (\<lambda>m. length a < m) (c_min_items k)
         \<or> is_some_and (\<lambda>m. length a > m) (c_max_items k)
      then Err (violation_at ArgumentInvalid path) else Ok ())"

function check ::
  "regex_ops \<Rightarrow> constraint \<Rightarrow> json \<Rightarrow> string \<Rightarrow> json option \<Rightarrow> violation + unit" where
  "check R (Constraint k ps it) v path task =
     rbind (check_bind_to k v path task) (\<lambda>_.
     rbind (check_context R k v path task) (\<lambda>_.
     rbind (check_literals k v path) (\<lambda>_.
     rbind (check_string_kw R k v path) (\<lambda>_.
     rbind (check_number_kw k v path) (\<lambda>_.
     rbind (if has_object_keywords (Constraint k ps it) \<or> c_ty k = Some TObject then
              (case v of
                 JObject obj \<Rightarrow>
                   check_object_with (\<lambda>c w p. check R c w p task) ps
                     (case c_required k of None \<Rightarrow> [] | Some rs \<Rightarrow> rs)
                     (case c_additional_properties k of None \<Rightarrow> False | Some b \<Rightarrow> b)
                     (c_min_properties k) (c_max_properties k) obj path
               | _ \<Rightarrow> Err (violation_at ArgumentInvalid path))
            else Ok ()) (\<lambda>_.
     if has_array_keywords (Constraint k ps it) then
       (case v of
          JArray a \<Rightarrow>
            rbind (check_items_bounds k a path) (\<lambda>_.
            case it of
              None \<Rightarrow> Ok ()
            | Some c \<Rightarrow> try_each (\<lambda>x. check R c x (path @ ''/items'') task) a)
        | _ \<Rightarrow> Err (violation_at ArgumentInvalid path))
     else Ok ()))))))"
  by pat_completeness auto
termination
  by (relation "measure (\<lambda>(R, c, v, path, task). size c)") (auto dest!: size_props_member)

declare check.simps [simp del] validate.simps [simp del]

definition check_object ::
  "regex_ops \<Rightarrow> props option \<Rightarrow> string list \<Rightarrow> bool \<Rightarrow> nat option \<Rightarrow> nat option \<Rightarrow> members
   \<Rightarrow> string \<Rightarrow> json option \<Rightarrow> violation + unit" where
  "check_object R ps required additional mn mx obj path task =
     check_object_with (\<lambda>c w p. check R c w p task) ps required additional mn mx obj path"

end
