(* ===== verification/Rules.thy ===== *)
theory Rules
  imports Contract
begin

text \<open>
  The per-tool rules of the v1 manifest other than constraints and conditions
  (\<open>cloakpipe-release/src/rules.rs\<close>): the effect class, the arguments an approval broker may
  see, durations (\<open>ttl\<close>) and idempotency key templates. The condition language of
  \<open>approval.when\<close> is in its own theory.

  Durations are read character by character with checked 64-bit arithmetic; the loop's state is
  the arguments of \<open>duration_loop\<close>. A template is read left to right into literal and field
  parts. SHA-256 and the RFC 8785 encoder are parameters.
\<close>

section \<open>Effects\<close>

datatype effect = Read | Write | Irreversible

definition is_side_effect :: "effect \<Rightarrow> bool" where
  "is_side_effect e \<longleftrightarrow> e \<noteq> Read"

section \<open>What an approval broker may see\<close>

text \<open>\<open>serde_json::Map::insert\<close>: the value of an existing key is replaced in place.\<close>

fun member_insert :: "string \<Rightarrow> json \<Rightarrow> members \<Rightarrow> members" where
  "member_insert k v [] = [(k, v)]"
| "member_insert k v ((k', v') # m) = (if k = k' then (k, v) # m else (k', v') # member_insert k v m)"

definition shown :: "string list \<Rightarrow> json option \<Rightarrow> members" where
  "shown show_names arguments =
     (case Option.bind arguments as_object of
        None \<Rightarrow> []
      | Some args \<Rightarrow>
          fold (\<lambda>name out.
            case map_of args name of
              None \<Rightarrow> out
            | Some v \<Rightarrow> if \<not> is_object v \<and> \<not> is_array v then member_insert name v out else out)
            show_names [])"

lemma map_of_member_insert [simp]: "map_of (member_insert k v m) = (map_of m)(k \<mapsto> v)"
  by (induction k v m rule: member_insert.induct) (auto simp: fun_eq_iff)

lemma set_member_insert: "fst ` set (member_insert k v m) = insert k (fst ` set m)"
  by (induction k v m rule: member_insert.induct) auto

lemma distinct_member_insert [wf_intros]:
  "distinct (map fst m) \<Longrightarrow> distinct (map fst (member_insert k v m))"
  using set_member_insert by (induction k v m rule: member_insert.induct) auto

text \<open>The member \<open>name\<close> of the request: the call's value when the rule names it and it is a
  scalar, and nothing otherwise.\<close>

lemma map_of_shown:
  "map_of (shown names arguments) name =
     (if name \<in> set names
      then (case Option.bind arguments (\<lambda>a. json_get a name) of
              Some v \<Rightarrow> if is_object v \<or> is_array v then None else Some v
            | None \<Rightarrow> None)
      else None)"
proof (cases "Option.bind arguments as_object")
  case None
  then show ?thesis by (cases arguments) (auto simp: shown_def json_get_def)
next
  case (Some args)
  then have arg: "arguments = Some (JObject args)" by (auto simp: Option.bind_eq_Some_conv)
  let ?step = "\<lambda>name out. case map_of args name of None \<Rightarrow> out
    | Some v \<Rightarrow> if \<not> is_object v \<and> \<not> is_array v then member_insert name v out else out"
  have "map_of (fold ?step names out) name =
      (if name \<in> set names \<and> is_some_and (\<lambda>v. \<not> is_object v \<and> \<not> is_array v) (map_of args name)
       then map_of args name else map_of out name)" for out
    by (induction names arbitrary: out) (auto simp: is_some_and_iff split: option.splits)
  from this [of "[]"] show ?thesis
    by (auto simp: shown_def arg is_some_and_iff split: option.splits)
qed

section \<open>Durations\<close>

definition u64_max :: nat where "u64_max = 2 ^ 64 - 1"

definition checked_u64 :: "nat \<Rightarrow> nat option" where
  "checked_u64 n = (if n \<le> u64_max then Some n else None)"

definition duration_units :: "(char \<times> nat) list" where
  "duration_units = [(CHR ''d'', 86400), (CHR ''h'', 3600), (CHR ''m'', 60), (CHR ''s'', 1)]"

text \<open>\<open>units.iter().position(|(u, _)| *u == c)\<close>.\<close>

fun unit_position :: "char \<Rightarrow> (char \<times> nat) list \<Rightarrow> nat option" where
  "unit_position c [] = None"
| "unit_position c (u # us) = (if fst u = c then Some 0 else map_option Suc (unit_position c us))"

text \<open>The loop of \<open>parse_duration\<close>: \<open>next_unit\<close>, \<open>total\<close> and \<open>digits\<close> are its locals. Every
  error is the same message, so the result is an option.\<close>

fun duration_loop :: "nat \<Rightarrow> nat \<Rightarrow> string \<Rightarrow> string \<Rightarrow> nat option" where
  "duration_loop next_unit tot digits [] =
     (if digits \<noteq> [] \<or> tot = 0 then None else Some tot)"
| "duration_loop next_unit tot digits (c # cs) =
     (if is_ascii_digit c then duration_loop next_unit tot (digits @ [c]) cs
      else (case unit_position c duration_units of
              None \<Rightarrow> None
            | Some i \<Rightarrow>
                if digits = [] \<or> i < next_unit then None
                else Option.bind (checked_u64 (digits_value digits)) (\<lambda>n.
                     Option.bind (Option.bind (checked_u64 (n * snd (duration_units ! i)))
                       (\<lambda>v. checked_u64 (tot + v))) (\<lambda>t.
                     duration_loop (i + 1) t [] cs))))"

definition parse_duration :: "string \<Rightarrow> nat option" where
  "parse_duration src = duration_loop 0 0 [] src"

text \<open>
  What a duration text is: groups of digits and a unit, the units in the order of
  \<open>duration_units\<close>, each at most once.
\<close>

type_synonym duration_group = "string \<times> nat"

definition group_ok :: "duration_group \<Rightarrow> bool" where
  "group_ok g \<longleftrightarrow> fst g \<noteq> [] \<and> (\<forall>c\<in>set (fst g). is_ascii_digit c) \<and> snd g < 4"

definition group_text :: "duration_group \<Rightarrow> string" where
  "group_text g = fst g @ [fst (duration_units ! snd g)]"

definition group_secs :: "duration_group \<Rightarrow> nat" where
  "group_secs g = digits_value (fst g) * snd (duration_units ! snd g)"

definition groups_ok :: "nat \<Rightarrow> duration_group list \<Rightarrow> bool" where
  "groups_ok lo gs \<longleftrightarrow> list_all group_ok gs \<and> list_all (\<lambda>g. lo \<le> snd g) gs
     \<and> sorted_wrt (<) (map snd gs)"

lemma unit_position_nth:
  "distinct (map fst us) \<Longrightarrow>
     unit_position c us = Some i \<longleftrightarrow> i < length us \<and> c = fst (us ! i)"
proof (induction us arbitrary: i)
  case (Cons u us)
  then show ?case
    using nth_mem [of "i - 1" us] by (cases i) auto
qed simp

lemma unit_position_Some:
  "unit_position c duration_units = Some i \<longleftrightarrow> i < 4 \<and> c = fst (duration_units ! i)"
proof -
  have "distinct (map fst duration_units)" "length duration_units = 4"
    by (simp_all add: duration_units_def)
  then show ?thesis by (simp add: unit_position_nth)
qed

lemma unit_not_digit: "i < 4 \<Longrightarrow> \<not> is_ascii_digit (fst (duration_units ! i))"
proof -
  assume "i < 4"
  then have "i = 0 \<or> i = 1 \<or> i = 2 \<or> i = 3" by auto
  then show ?thesis by (auto simp: duration_units_def str_simps)
qed

lemma unit_positive: "i < 4 \<Longrightarrow> 1 \<le> snd (duration_units ! i)"
proof -
  assume "i < 4"
  then have "i = 0 \<or> i = 1 \<or> i = 2 \<or> i = 3" by auto
  then show ?thesis by (auto simp: duration_units_def)
qed

lemma checked_u64_eq_Some [simp]: "checked_u64 n = Some m \<longleftrightarrow> n = m \<and> n \<le> u64_max"
  by (auto simp: checked_u64_def)

lemma duration_loop_digits:
  "(\<forall>c\<in>set ds. is_ascii_digit c) \<Longrightarrow>
     duration_loop nu t acc (ds @ cs) = duration_loop nu t (acc @ ds) cs"
  by (induction ds arbitrary: acc) auto

lemma groups_ok_Cons [simp]:
  "groups_ok lo (g # gs) \<longleftrightarrow> group_ok g \<and> lo \<le> snd g \<and> groups_ok (snd g + 1) gs"
  by (auto simp: groups_ok_def list_all_iff Suc_le_eq less_imp_le)

lemma groups_ok_Nil [simp]: "groups_ok lo []"
  by (simp add: groups_ok_def)

lemma duration_loop_complete:
  assumes "groups_ok nu gs" "t + sum_list (map group_secs gs) \<le> u64_max"
    "0 < t + sum_list (map group_secs gs)"
  shows "duration_loop nu t [] (concat (map group_text gs)) = Some (t + sum_list (map group_secs gs))"
  using assms
proof (induction gs arbitrary: nu t)
  case (Cons g gs)
  obtain ds i where g: "g = (ds, i)" by (cases g)
  let ?rest = "concat (map group_text gs)"
  from Cons.prems(1) g have ok: "ds \<noteq> []" "\<forall>c\<in>set ds. is_ascii_digit c" "i < 4" "nu \<le> i"
    "groups_ok (i + 1) gs"
    by (auto simp: group_ok_def)
  have secs: "group_secs g = digits_value ds * snd (duration_units ! i)"
    by (simp add: g group_secs_def)
  have "digits_value ds \<le> group_secs g" using unit_positive [OF ok(3)] by (simp add: secs)
  moreover have "group_secs g \<le> u64_max" using Cons.prems(2) by simp
  ultimately have "digits_value ds \<le> u64_max" by linarith
  with Cons.prems(2) secs have small: "digits_value ds \<le> u64_max"
    "digits_value ds * snd (duration_units ! i) \<le> u64_max"
    "t + digits_value ds * snd (duration_units ! i) \<le> u64_max"
    by simp_all
  have pos: "unit_position (fst (duration_units ! i)) duration_units = Some i"
    using ok(3) by (simp add: unit_position_Some)
  have "duration_loop nu t [] (concat (map group_text (g # gs)))
      = duration_loop nu t ds (fst (duration_units ! i) # ?rest)"
    using duration_loop_digits [OF ok(2), of nu t "[]"] by (simp add: g group_text_def)
  also have "\<dots> = duration_loop (i + 1) (t + group_secs g) [] ?rest"
    using ok small pos unit_not_digit [OF ok(3)] by (simp add: checked_u64_def secs)
  also have "\<dots> = Some (t + group_secs g + sum_list (map group_secs gs))"
    using Cons.prems ok(5) by (intro Cons.IH) (simp_all add: add.assoc)
  finally show ?case by (simp add: add.assoc)
qed simp

lemma duration_loop_sound:
  assumes "duration_loop nu t ds cs = Some n" "\<forall>c\<in>set ds. is_ascii_digit c" "t \<le> u64_max"
  shows "\<exists>gs. groups_ok nu gs \<and> ds @ cs = concat (map group_text gs)
     \<and> n = t + sum_list (map group_secs gs) \<and> n \<le> u64_max \<and> 0 < n"
  using assms
proof (induction nu t ds cs rule: duration_loop.induct)
  case (1 nu t ds)
  then show ?case by (auto intro: exI [of _ "[]"] split: if_splits)
next
  case (2 nu t ds c cs)
  show ?case
  proof (cases "is_ascii_digit c")
    case True
    with 2 show ?thesis by simp
  next
    case False
    with 2(3) obtain i where i: "unit_position c duration_units = Some i" "ds \<noteq> []" "nu \<le> i"
      "digits_value ds \<le> u64_max" "t + digits_value ds * snd (duration_units ! i) \<le> u64_max"
      and rest: "duration_loop (i + 1) (t + digits_value ds * snd (duration_units ! i)) [] cs = Some n"
      by (auto simp: Option.bind_eq_Some_conv split: option.splits if_splits)
    have t: "Option.bind (checked_u64 (digits_value ds * snd (duration_units ! i)))
        (\<lambda>v. checked_u64 (t + v)) = Some (t + digits_value ds * snd (duration_units ! i))"
      using i(5) by (simp add: checked_u64_def)
    have "\<exists>gs. groups_ok (i + 1) gs \<and> [] @ cs = concat (map group_text gs)
       \<and> n = t + digits_value ds * snd (duration_units ! i) + sum_list (map group_secs gs)
       \<and> n \<le> u64_max \<and> 0 < n"
      using False i rest t by (intro 2(2)) auto
    then obtain gs where gs: "groups_ok (i + 1) gs" "cs = concat (map group_text gs)"
      "n = t + digits_value ds * snd (duration_units ! i) + sum_list (map group_secs gs)"
      "n \<le> u64_max" "0 < n" by auto
    have "groups_ok nu ((ds, i) # gs)"
      using i gs(1) 2(4) by (simp add: group_ok_def unit_position_Some)
    then show ?thesis
      using i gs by (intro exI [of _ "(ds, i) # gs"])
        (simp add: group_text_def [of "(ds, i)"] group_secs_def [of "(ds, i)"] unit_position_Some)
  qed
qed

text \<open>The texts \<open>parse_duration\<close> accepts, and the value it gives them.\<close>

lemma parse_duration_iff:
  "parse_duration src = Some n \<longleftrightarrow>
     (\<exists>gs. groups_ok 0 gs \<and> src = concat (map group_text gs)
        \<and> n = sum_list (map group_secs gs) \<and> n \<le> u64_max \<and> 0 < n)"
proof
  assume "parse_duration src = Some n"
  from duration_loop_sound [OF this [unfolded parse_duration_def]]
  show "\<exists>gs. groups_ok 0 gs \<and> src = concat (map group_text gs)
        \<and> n = sum_list (map group_secs gs) \<and> n \<le> u64_max \<and> 0 < n" by simp
next
  assume "\<exists>gs. groups_ok 0 gs \<and> src = concat (map group_text gs)
        \<and> n = sum_list (map group_secs gs) \<and> n \<le> u64_max \<and> 0 < n"
  then show "parse_duration src = Some n"
    using duration_loop_complete [of 0 _ 0] by (auto simp: parse_duration_def)
qed

section \<open>Idempotency key templates\<close>

datatype part =
    Literal string
  | Field (f_path: "string list") (f_task: bool) (f_hashed: bool)

record idempotency_key =
  ik_source :: string
  ik_parts :: "part list"

datatype template_error =
    UnmatchedClose | UnclosedOpen | NestedOpen | BadPlaceholder | NoPlaceholder

definition valid_segment :: "string \<Rightarrow> bool" where
  "valid_segment s \<longleftrightarrow> s \<noteq> [] \<and>
     list_all (\<lambda>b. is_ascii_alphanumeric b \<or> b = CHR ''_'' \<or> b = CHR ''-'') s"

text \<open>The text between the braces, read as a field.\<close>

definition placeholder :: "string \<Rightarrow> template_error + part" where
  "placeholder inner =
     (let (path, hashed) =
            (case Option.bind (strip_prefix ''sha256('' inner) (strip_suffix '')'') of
               Some p \<Rightarrow> (p, True) | None \<Rightarrow> (inner, False));
          segments = split_on (CHR ''.'') path
      in if \<not> list_all valid_segment segments then Err BadPlaceholder
         else let task = (length segments > 1 \<and> hd segments = ''task'')
              in Ok (Field (if task then tl segments else segments) task hashed))"

definition is_brace :: "char \<Rightarrow> bool" where
  "is_brace c \<longleftrightarrow> c = CHR ''{'' \<or> c = CHR ''}''"

definition literal_part :: "string \<Rightarrow> part list" where
  "literal_part s = (if s = [] then [] else [Literal s])"

text \<open>The loop of \<open>IdempotencyKey::parse\<close> over the rest of the text.\<close>

function template_loop :: "string \<Rightarrow> template_error + part list" where
  "template_loop rest =
     (if rest = [] then Ok []
      else (case dropWhile (\<lambda>c. \<not> is_brace c) rest of
              [] \<Rightarrow> Ok [Literal rest]
            | b # after \<Rightarrow>
                if b = CHR ''}'' then Err UnmatchedClose
                else (case split_once (CHR ''}'') after of
                        None \<Rightarrow> Err UnclosedOpen
                      | Some (inner, rest') \<Rightarrow>
                          if CHR ''{'' \<in> set inner then Err NestedOpen
                          else rbind (placeholder inner) (\<lambda>f.
                               rbind (template_loop rest') (\<lambda>ps.
                               Ok (literal_part (takeWhile (\<lambda>c. \<not> is_brace c) rest) @ f # ps))))))"
  by pat_completeness auto
termination
proof (relation "measure length")
  fix rest b after p inner rest' f
  assume d: "dropWhile (\<lambda>c. \<not> is_brace c) rest = b # after"
    and "split_once (CHR ''}'') after = Some p" "(inner, rest') = p"
  then have "after = inner @ CHR ''}'' # rest'" by (auto simp: split_once_eq_Some)
  moreover have "length (dropWhile (\<lambda>c. \<not> is_brace c) rest) \<le> length rest"
    by (rule length_dropWhile_le)
  ultimately show "(rest', rest) \<in> measure length" using d by simp
qed simp

declare template_loop.simps [simp del]

lemma template_loop_Nil [simp]: "template_loop [] = Ok []"
  by (simp add: template_loop.simps)

definition is_field :: "part \<Rightarrow> bool" where
  "is_field p = (case p of Field _ _ _ \<Rightarrow> True | Literal _ \<Rightarrow> False)"

definition idempotency_parse :: "string \<Rightarrow> template_error + idempotency_key" where
  "idempotency_parse src =
     rbind (template_loop src) (\<lambda>parts.
       if \<not> list_ex is_field parts then Err NoPlaceholder
       else Ok \<lparr>ik_source = src, ik_parts = parts\<rparr>)"

text \<open>\<open>lookup\<close>: an argument, or a trusted task value, at a dotted path.\<close>

definition lookup :: "json option \<Rightarrow> string list \<Rightarrow> json option" where
  "lookup base path = Option.bind base (\<lambda>v. json_path v path)"

definition ik_argument_roots :: "idempotency_key \<Rightarrow> string list" where
  "ik_argument_roots k = List.map_filter (\<lambda>p.
     case p of Field path False _ \<Rightarrow> (case path of [] \<Rightarrow> None | s # _ \<Rightarrow> Some s) | _ \<Rightarrow> None) (ik_parts k)"

text \<open>The text of one part for a call; \<open>jcs\<close> encodes a value as RFC 8785 JSON and \<open>sha\<close> is
  SHA-256.\<close>

definition render_part ::
  "(string \<Rightarrow> string) \<Rightarrow> (json \<Rightarrow> string) \<Rightarrow> json option \<Rightarrow> json option \<Rightarrow> part
   \<Rightarrow> violation + string" where
  "render_part sha jcs arguments task p =
     (case p of
        Literal s \<Rightarrow> Ok s
      | Field path from_task hashed \<Rightarrow>
          rbind (if from_task
                 then ok_or \<lparr>v_code = TaskContextMissing, v_path = None\<rparr> (lookup task path)
                 else ok_or \<lparr>v_code = ArgumentMissing, v_path = Some (foldl child [] path)\<rparr>
                        (lookup arguments path)) (\<lambda>value.
          let text = (case value of JString s \<Rightarrow> s | other \<Rightarrow> jcs other)
          in Ok (if hashed then hex_encode (sha text) else text)))"

definition render ::
  "(string \<Rightarrow> string) \<Rightarrow> (json \<Rightarrow> string) \<Rightarrow> idempotency_key \<Rightarrow> json option \<Rightarrow> json option
   \<Rightarrow> violation + string" where
  "render sha jcs k arguments task =
     rbind (try_map (render_part sha jcs arguments task) (ik_parts k)) (\<lambda>ts. Ok (concat ts))"

subsection \<open>The texts of templates\<close>

definition part_text :: "part \<Rightarrow> string" where
  "part_text p =
     (case p of
        Literal s \<Rightarrow> s
      | Field path task hashed \<Rightarrow>
          (let d = join_with ''.'' (if task then ''task'' # path else path)
           in ''{'' @ (if hashed then ''sha256('' @ d @ '')'' else d) @ ''}''))"

definition part_ok :: "part \<Rightarrow> bool" where
  "part_ok p =
     (case p of
        Literal s \<Rightarrow> s \<noteq> [] \<and> (\<forall>c\<in>set s. \<not> is_brace c)
      | Field path task hashed \<Rightarrow> path \<noteq> [] \<and> list_all valid_segment path
          \<and> (\<not> task \<longrightarrow> length path > 1 \<longrightarrow> hd path \<noteq> ''task''))"

text \<open>Literals are maximal: no two of them meet.\<close>

definition separated :: "part list \<Rightarrow> bool" where
  "separated ps \<longleftrightarrow> successively (\<lambda>p q. is_field p \<or> is_field q) ps"

definition field_inner :: "part \<Rightarrow> string" where
  "field_inner f =
     (let d = join_with ''.'' (if f_task f then ''task'' # f_path f else f_path f)
      in if f_hashed f then ''sha256('' @ d @ '')'' else d)"

lemma is_field_simps [simp]: "\<not> is_field (Literal s)" "is_field (Field a b c)"
  by (simp_all add: is_field_def)

lemma not_is_field: "\<not> is_field p \<longleftrightarrow> (\<exists>s. p = Literal s)"
  by (cases p) auto

lemma part_text_field: "is_field f \<Longrightarrow> part_text f = ''{'' @ field_inner f @ ''}''"
  by (cases f) (simp_all add: is_field_def part_text_def field_inner_def Let_def)

lemma valid_segment_chars:
  "valid_segment s \<Longrightarrow> c \<in> set s \<Longrightarrow> c \<notin> set ''.(){}''"
  by (auto simp: valid_segment_def list_all_iff str_simps)

lemma valid_segment_task: "valid_segment ''task''"
  by (simp add: valid_segment_def str_simps)

lemma set_join_with: "set (join_with sep xs) \<subseteq> set sep \<union> (\<Union>x\<in>set xs. set x)"
  by (induction sep xs rule: join_with.induct) auto

lemma join_segments_chars:
  assumes "list_all valid_segment segs" "c \<in> set (join_with ''.'' segs)"
  shows "c \<notin> set ''(){}''"
  using assms set_join_with [of "''.''" segs] valid_segment_chars
  by (fastforce simp: list_all_iff)

lemma split_join_segments:
  assumes "list_all valid_segment segs" "segs \<noteq> []"
  shows "split_on (CHR ''.'') (join_with ''.'' segs) = segs"
  using assms valid_segment_chars by (intro split_join_with) (fastforce simp: list_all_iff)+

definition segs_of :: "part \<Rightarrow> string list" where
  "segs_of f = (if f_task f then ''task'' # f_path f else f_path f)"

lemma placeholder_sound:
  assumes "placeholder inner = Inr f"
  shows "is_field f \<and> part_ok f \<and> inner = field_inner f"
proof -
  let ?b = "Option.bind (strip_prefix ''sha256('' inner) (strip_suffix '')'')"
  have field: "is_field g \<and> part_ok g \<and> f_hashed g = h \<and> join_with ''.'' (segs_of g) = path"
    if "list_all valid_segment (split_on (CHR ''.'') path)"
      "g = (let segments = split_on (CHR ''.'') path;
             task = (length segments > 1 \<and> hd segments = ''task'')
         in Field (if task then tl segments else segments) task h)" for path h g
  proof -
    obtain x xs where sp: "split_on (CHR ''.'') path = x # xs"
      by (cases "split_on (CHR ''.'') path") auto
    have "join_with ''.'' (x # xs) = path" using join_split_on [of "CHR ''.''" path] by (simp add: sp)
    then show ?thesis
      using that by (auto simp: sp is_field_def part_ok_def segs_of_def Let_def)
  qed
  show ?thesis
  proof (cases ?b)
    case None
    with assms have "list_all valid_segment (split_on (CHR ''.'') inner)"
      "f = (let segments = split_on (CHR ''.'') inner;
             task = (length segments > 1 \<and> hd segments = ''task'')
         in Field (if task then tl segments else segments) task False)"
      by (auto simp: placeholder_def Let_def split: if_splits)
    from field [OF this] show ?thesis by (simp add: field_inner_def segs_of_def Let_def)
  next
    case (Some path)
    then have inner: "inner = ''sha256('' @ path @ '')''" by (auto simp: Option.bind_eq_Some_conv)
    from Some assms have "list_all valid_segment (split_on (CHR ''.'') path)"
      "f = (let segments = split_on (CHR ''.'') path;
             task = (length segments > 1 \<and> hd segments = ''task'')
         in Field (if task then tl segments else segments) task True)"
      by (auto simp: placeholder_def Let_def split: if_splits)
    from field [OF this] show ?thesis by (simp add: field_inner_def segs_of_def Let_def inner)
  qed
qed

lemma segs_of_valid:
  "is_field f \<Longrightarrow> part_ok f \<Longrightarrow> segs_of f \<noteq> [] \<and> list_all valid_segment (segs_of f)"
  by (cases f) (auto simp: is_field_def part_ok_def segs_of_def valid_segment_task)

lemma placeholder_complete:
  assumes "is_field f" "part_ok f"
  shows "placeholder (field_inner f) = Inr f"
proof -
  let ?d = "join_with ''.'' (segs_of f)"
  from segs_of_valid [OF assms] have v: "list_all valid_segment (segs_of f)" "segs_of f \<noteq> []" by simp_all
  have sp: "split_on (CHR ''.'') ?d = segs_of f" by (rule split_join_segments [OF v])
  have rebuild: "(let task = (length (segs_of f) > 1 \<and> hd (segs_of f) = ''task'')
       in Field (if task then tl (segs_of f) else segs_of f) task h) = Field (f_path f) (f_task f) h" for h
    using assms by (cases f) (auto simp: is_field_def part_ok_def segs_of_def Let_def)
  have strip: "Option.bind (strip_prefix ''sha256('' (field_inner f)) (strip_suffix '')'') =
      (if f_hashed f then Some ?d else None)"
  proof (cases "f_hashed f")
    case True
    have "strip_suffix '')'' (?d @ '')'') = Some ?d" by (simp only: strip_suffix_eq_Some)
    with True show ?thesis by (simp add: field_inner_def segs_of_def Let_def)
  next
    case False
    have "strip_prefix ''sha256('' ?d = None"
    proof (rule ccontr)
      assume "strip_prefix ''sha256('' ?d \<noteq> None"
      then obtain r where "strip_prefix ''sha256('' ?d = Some r" by blast
      then have "?d = ''sha256('' @ r" by (simp only: strip_prefix_eq_Some)
      then have "CHR ''('' \<in> set ?d" by simp
      with join_segments_chars [OF v(1)] show False by fastforce
    qed
    with False show ?thesis by (simp add: field_inner_def segs_of_def Let_def)
  qed
  have "(case Option.bind (strip_prefix ''sha256('' (field_inner f)) (strip_suffix '')'') of
      Some p \<Rightarrow> (p, True) | None \<Rightarrow> (field_inner f, False)) = (?d, f_hashed f)"
    unfolding strip by (simp add: field_inner_def segs_of_def)
  then have "placeholder (field_inner f) = Inr (Field (f_path f) (f_task f) (f_hashed f))"
    unfolding placeholder_def using v(1) rebuild [of "f_hashed f"]
    by (auto simp: sp Let_def split: if_splits)
  with assms(1) show ?thesis by (cases f) (simp_all add: is_field_def)
qed

lemma field_inner_no_brace:
  assumes "is_field f" "part_ok f"
  shows "CHR ''{'' \<notin> set (field_inner f)" "CHR ''}'' \<notin> set (field_inner f)"
  using join_segments_chars [OF conjunct2 [OF segs_of_valid [OF assms]]]
  by (fastforce simp: field_inner_def segs_of_def Let_def split: if_splits)+

lemma template_loop_field:
  assumes "\<forall>c\<in>set s. \<not> is_brace c" "is_field f" "part_ok f"
  shows "template_loop (s @ part_text f @ rest) =
    rbind (template_loop rest) (\<lambda>ps. Ok (literal_part s @ f # ps))"
proof -
  let ?t = "s @ part_text f @ rest"
  have t: "?t = s @ CHR ''{'' # (field_inner f @ CHR ''}'' # rest)"
    by (simp add: part_text_field [OF assms(2)])
  have open_brace: "is_brace (CHR ''{'')" by (simp add: is_brace_def)
  have "dropWhile (\<lambda>c. \<not> is_brace c) ?t = CHR ''{'' # (field_inner f @ CHR ''}'' # rest)"
    "takeWhile (\<lambda>c. \<not> is_brace c) ?t = s"
    unfolding t using assms(1) open_brace
    by (simp_all add: dropWhile_append2 takeWhile_append2)
  moreover have "split_once (CHR ''}'') (field_inner f @ CHR ''}'' # rest) = Some (field_inner f, rest)"
    by (rule split_once_append [OF field_inner_no_brace(2) [OF assms(2,3)]])
  ultimately show ?thesis
    using field_inner_no_brace(1) [OF assms(2,3)]
    by (subst template_loop.simps)
      (simp add: placeholder_complete [OF assms(2,3)] part_text_field [OF assms(2)])
qed

lemma template_loop_literal:
  "s \<noteq> [] \<Longrightarrow> \<forall>c\<in>set s. \<not> is_brace c \<Longrightarrow> template_loop s = Ok [Literal s]"
proof -
  assume "s \<noteq> []" and no: "\<forall>c\<in>set s. \<not> is_brace c"
  have "dropWhile (\<lambda>c. \<not> is_brace c) s = []" using no by (simp add: dropWhile_eq_Nil_conv)
  then show ?thesis using \<open>s \<noteq> []\<close> by (subst template_loop.simps) (simp only: if_False list.case)
qed

lemma template_loop_complete:
  "list_all part_ok ps \<Longrightarrow> separated ps \<Longrightarrow> template_loop (concat (map part_text ps)) = Ok ps"
proof (induction ps rule: measure_induct_rule [of length])
  case (less ps)
  consider (empty) "ps = []" | (field) f fs where "ps = f # fs" "is_field f"
    | (last_literal) s where "ps = [Literal s]"
    | (literal) s f fs where "ps = Literal s # f # fs" "is_field f"
    using less.prems(2) not_is_field by (cases ps rule: remdups_adj.cases)
      (auto simp: separated_def)
  then show ?case
  proof cases
    case empty
    then show ?thesis by (simp add: template_loop.simps)
  next
    case field
    have "template_loop (concat (map part_text fs)) = Ok fs"
      using less field by (auto simp: separated_def successively_Cons)
    with field less.prems(1) template_loop_field [of "[]" f] show ?thesis
      by (simp add: literal_part_def)
  next
    case last_literal
    with less.prems(1) show ?thesis
      by (simp add: part_text_def part_ok_def template_loop_literal)
  next
    case literal
    have "template_loop (concat (map part_text fs)) = Ok fs"
      using less literal by (auto simp: separated_def successively_Cons)
    with literal less.prems(1) template_loop_field [of s f] show ?thesis
      by (simp add: literal_part_def part_ok_def part_text_def [of "Literal s"])
  qed
qed

lemma template_loop_sound:
  "template_loop src = Ok ps \<Longrightarrow>
     list_all part_ok ps \<and> separated ps \<and> concat (map part_text ps) = src
     \<and> (\<forall>s qs. ps = Literal s # qs \<longrightarrow> src \<noteq> [])"
proof (induction src arbitrary: ps rule: template_loop.induct)
  case (1 src)
  let ?lit = "takeWhile (\<lambda>c. \<not> is_brace c) src"
  consider (empty) "src = []" | (literal) "src \<noteq> []" "dropWhile (\<lambda>c. \<not> is_brace c) src = []"
    | (brace) b after where "dropWhile (\<lambda>c. \<not> is_brace c) src = b # after"
    by (cases "dropWhile (\<lambda>c. \<not> is_brace c) src") auto
  then show ?case
  proof cases
    case empty
    with 1(2) show ?thesis by (simp add: template_loop.simps separated_def)
  next
    case literal
    with 1(2) have "ps = [Literal src]" by (subst (asm) template_loop.simps) simp
    with literal show ?thesis
      by (simp add: part_ok_def part_text_def separated_def dropWhile_eq_Nil_conv)
  next
    case brace
    have src: "src = ?lit @ b # after"
      using takeWhile_dropWhile_id [of "\<lambda>c. \<not> is_brace c" src] brace by simp
    have "src \<noteq> []" using src by (metis append_is_Nil_conv list.distinct(1))
    have "is_brace b" using brace hd_dropWhile [of "\<lambda>c. \<not> is_brace c" src] by simp
    from 1(2) brace \<open>src \<noteq> []\<close> obtain inner rest f qs where
      b: "b \<noteq> CHR ''}''" and sp: "split_once (CHR ''}'') after = Some (inner, rest)"
      and nest: "CHR ''{'' \<notin> set inner" and f: "placeholder inner = Inr f"
      and loop: "template_loop rest = Inr qs" and ps: "ps = literal_part ?lit @ f # qs"
      by (subst (asm) template_loop.simps) (auto split: if_splits option.splits)
    have IH: "list_all part_ok qs \<and> separated qs \<and> concat (map part_text qs) = rest"
      using 1(1) [OF \<open>src \<noteq> []\<close> brace b sp refl nest f loop] by blast
    from placeholder_sound [OF f] have fld: "is_field f" "part_ok f" "inner = field_inner f" by simp_all
    have b': "b = CHR ''{''" using \<open>is_brace b\<close> b by (simp add: is_brace_def)
    have after: "after = inner @ CHR ''}'' # rest" using sp by (simp add: split_once_eq_Some)
    have lit: "list_all part_ok (literal_part ?lit)" "concat (map part_text (literal_part ?lit)) = ?lit"
      by (auto simp: literal_part_def part_ok_def part_text_def dest: set_takeWhileD)
    have "separated ps"
      using IH fld(1) by (cases qs) (auto simp: ps separated_def literal_part_def)
    moreover have "concat (map part_text ps) = src"
      using IH lit(2) by (subst src) (simp add: ps part_text_field [OF fld(1)] fld(3) [symmetric] b' after)
    ultimately show ?thesis using IH lit fld \<open>src \<noteq> []\<close> by (simp add: ps)
  qed
qed

text \<open>The templates accepted are exactly the texts of well-formed part lists, and the text gives
  the parts back.\<close>

lemma idempotency_parse_iff:
  "idempotency_parse src = Ok k \<longleftrightarrow>
     ik_source k = src \<and> list_all part_ok (ik_parts k) \<and> separated (ik_parts k)
     \<and> list_ex is_field (ik_parts k) \<and> concat (map part_text (ik_parts k)) = src"
  using template_loop_sound [of src "ik_parts k"] template_loop_complete [of "ik_parts k"]
  by (auto simp: idempotency_parse_def split: if_splits)

end
