(* ===== verification/Condition.thy ===== *)
theory Condition
  imports Rules
begin

text \<open>
  The condition language of \<open>approval.when\<close> (\<open>cloakpipe-release/src/rules.rs\<close>): the tokenizer,
  the recursive-descent parser, the evaluator, and the approval rule that carries a condition.

  The tokenizer walks the bytes of the source and the parser the tokens; the position of each is
  what is left to read. \<open>num\<close> stands for \<open>serde_json::from_str::<Number>\<close> on a text of the shape
  the tokenizer has checked. The parser is shown to decide the grammar of the language, and the
  evaluator to fail closed.
\<close>

section \<open>Syntax\<close>

datatype op = Gt | Ge | Lt | Le | Eq | Ne

datatype literal = LNumber number | LString string | LBool bool

datatype expr =
    EOr expr expr
  | EAnd expr expr
  | Cmp "string list" op literal

record condition =
  cond_source :: string
  cond_expr :: expr

datatype token =
    TPath "string list"
  | TLit literal
  | TOp op
  | TAnd
  | TOr
  | TOpen
  | TClose

datatype condition_error =
    Unexpected char nat
  | UnterminatedString nat
  | InvalidNumber string
  | InvalidPath string
  | ExpectedClose
  | ExpectedOperator
  | ExpectedLiteral
  | OrderingOnNumbersOnly
  | ExpectedComparison
  | TrailingInput

section \<open>Tokenizer\<close>

definition lex_op :: "char \<Rightarrow> string \<Rightarrow> op option" where
  "lex_op c s =
     (let eq = (case s of d # _ \<Rightarrow> d = CHR ''='' | [] \<Rightarrow> False)
      in if c = CHR ''>'' then Some (if eq then Ge else Gt)
         else if c = CHR ''<'' then Some (if eq then Le else Lt)
         else if \<not> eq then None
         else if c = CHR ''='' then Some Eq else Some Ne)"

definition op_extra :: "op \<Rightarrow> nat" where
  "op_extra p = (case p of Gt \<Rightarrow> 0 | Lt \<Rightarrow> 0 | _ \<Rightarrow> 1)"

definition number_char :: "char \<Rightarrow> bool" where
  "number_char c \<longleftrightarrow> is_ascii_digit c \<or> c = CHR ''.''"

definition word_char :: "char \<Rightarrow> bool" where
  "word_char c \<longleftrightarrow> is_ascii_alphanumeric c \<or> c = CHR ''_'' \<or> c = CHR ''.''"

definition valid_number_text :: "string \<Rightarrow> bool" where
  "valid_number_text text =
     (let digits = (case strip_prefix ''-'' text of Some d \<Rightarrow> d | None \<Rightarrow> text);
          (int_part, frac) = (case split_once (CHR ''.'') digits of
                                Some (a, f) \<Rightarrow> (a, Some f) | None \<Rightarrow> (digits, None))
      in int_part \<noteq> [] \<and> list_all is_ascii_digit int_part
         \<and> (case frac of None \<Rightarrow> True | Some f \<Rightarrow> f \<noteq> [] \<and> list_all is_ascii_digit f))"

definition lex_number :: "(string \<Rightarrow> number option) \<Rightarrow> string \<Rightarrow> condition_error + token" where
  "lex_number num text =
     rbind (ok_or (InvalidNumber text) (if valid_number_text text then num text else None))
       (\<lambda>n. Ok (TLit (LNumber n)))"

definition lex_word :: "string \<Rightarrow> condition_error + token" where
  "lex_word word =
     (if word = ''true'' then Ok (TLit (LBool True))
      else if word = ''false'' then Ok (TLit (LBool False))
      else let path = split_on (CHR ''.'') word
           in if list_ex (\<lambda>s. s = []) path then Err (InvalidPath word) else Ok (TPath path))"

definition push :: "condition_error + token \<Rightarrow> condition_error + token list \<Rightarrow> condition_error + token list" where
  "push t r = rbind t (\<lambda>x. rbind r (\<lambda>xs. Ok (x # xs)))"

text \<open>\<open>lex_from num i s\<close> reads the bytes \<open>s\<close> that start at index \<open>i\<close> of the source.\<close>

function lex_from :: "(string \<Rightarrow> number option) \<Rightarrow> nat \<Rightarrow> string \<Rightarrow> condition_error + token list" where
  "lex_from num i [] = Ok []"
| "lex_from num i (c # s) =
     (if c = CHR '' '' \<or> c = CHR 0x09 then lex_from num (i + 1) s
      else if c = CHR ''('' then push (Ok TOpen) (lex_from num (i + 1) s)
      else if c = CHR '')'' then push (Ok TClose) (lex_from num (i + 1) s)
      else if c = CHR ''&'' \<and> starts_with ''&'' s then push (Ok TAnd) (lex_from num (i + 2) (tl s))
      else if c = CHR ''|'' \<and> starts_with ''|'' s then push (Ok TOr) (lex_from num (i + 2) (tl s))
      else if c \<in> set ''><=!'' then
        (case lex_op c s of
           None \<Rightarrow> Err (Unexpected c i)
         | Some p \<Rightarrow> push (Ok (TOp p)) (lex_from num (i + 1 + op_extra p) (drop (op_extra p) s)))
      else if c = CHR 0x27 \<or> c = CHR 0x22 then
        (case split_once c s of
           None \<Rightarrow> Err (UnterminatedString i)
         | Some (text, rest) \<Rightarrow> push (Ok (TLit (LString text))) (lex_from num (i + length text + 2) rest))
      else if c = CHR ''-'' \<or> is_ascii_digit c then
        push (lex_number num (c # takeWhile number_char s))
          (lex_from num (i + 1 + length (takeWhile number_char s)) (dropWhile number_char s))
      else if is_ascii_alphabetic c \<or> c = CHR ''_'' then
        push (lex_word (c # takeWhile word_char s))
          (lex_from num (i + 1 + length (takeWhile word_char s)) (dropWhile word_char s))
      else Err (Unexpected c i))"
  by pat_completeness auto
termination
proof (relation "measure (\<lambda>(num, i, s). length s)", goal_cases)
  case (8 num i c s x body rest)
  then have "split_once c s = Some (body, rest)" by metis
  then have "s = body @ c # rest" by (simp add: split_once_eq_Some)
  then show ?case by simp
qed (simp_all add: le_imp_less_Suc length_dropWhile_le)

declare lex_from.simps(2) [simp del]

definition tokenize :: "(string \<Rightarrow> number option) \<Rightarrow> string \<Rightarrow> condition_error + token list" where
  "tokenize num src = lex_from num 0 src"

section \<open>Parser\<close>

definition is_ordering_op :: "op \<Rightarrow> bool" where
  "is_ordering_op p \<longleftrightarrow> p \<in> {Gt, Ge, Lt, Le}"

definition is_number_literal :: "literal \<Rightarrow> bool" where
  "is_number_literal l = (case l of LNumber _ \<Rightarrow> True | _ \<Rightarrow> False)"

definition parse_cmp :: "string list \<Rightarrow> token list \<Rightarrow> condition_error + expr \<times> token list" where
  "parse_cmp path ts =
     (case ts of
        TOp p # ts' \<Rightarrow>
          (case ts' of
             TLit l # rest \<Rightarrow>
               if is_ordering_op p \<and> \<not> is_number_literal l then Err OrderingOnNumbersOnly
               else Ok (Cmp path p l, rest)
           | _ \<Rightarrow> Err ExpectedLiteral)
      | _ \<Rightarrow> Err ExpectedOperator)"

definition close_paren :: "expr \<Rightarrow> token list \<Rightarrow> condition_error + expr \<times> token list" where
  "close_paren e ts = (case ts of TClose # rest \<Rightarrow> Ok (e, rest) | _ \<Rightarrow> Err ExpectedClose)"

text \<open>\<open>self.peek() == Some(&t)\<close>.\<close>

definition starts_token :: "token \<Rightarrow> token list \<Rightarrow> bool" where
  "starts_token t ts = (case ts of x # _ \<Rightarrow> x = t | [] \<Rightarrow> False)"

lemma starts_token_iff: "starts_token t ts \<longleftrightarrow> (\<exists>r. ts = t # r)"
  by (auto simp: starts_token_def split: list.splits)

lemma starts_token_simps [simp]: "starts_token t (x # r) = (x = t)" "\<not> starts_token t []"
  by (simp_all add: starts_token_def)

lemma starts_token_length: "starts_token t ts \<Longrightarrow> length (tl ts) < length ts"
  by (auto simp: starts_token_iff)

lemma parse_cmp_rest: "parse_cmp path ts = Inr (e, r) \<Longrightarrow> length r < length ts"
  by (auto simp: parse_cmp_def split: list.splits token.splits if_splits)

lemma close_paren_rest: "close_paren e ts = Inr (f, r) \<Longrightarrow> f = e \<and> ts = TClose # r"
  by (auto simp: close_paren_def split: list.splits token.splits)

function parse_or :: "token list \<Rightarrow> condition_error + expr \<times> token list"
  and or_loop :: "expr \<Rightarrow> token list \<Rightarrow> condition_error + expr \<times> token list"
  and parse_and :: "token list \<Rightarrow> condition_error + expr \<times> token list"
  and and_loop :: "expr \<Rightarrow> token list \<Rightarrow> condition_error + expr \<times> token list"
  and parse_atom :: "token list \<Rightarrow> condition_error + expr \<times> token list" where
  "parse_or ts = rbind (parse_and ts) (\<lambda>(e, rest). or_loop e rest)"
| "or_loop e ts =
     (if starts_token TOr ts then rbind (parse_and (tl ts)) (\<lambda>(f, rest). or_loop (EOr e f) rest)
      else Ok (e, ts))"
| "parse_and ts = rbind (parse_atom ts) (\<lambda>(e, rest). and_loop e rest)"
| "and_loop e ts =
     (if starts_token TAnd ts then rbind (parse_atom (tl ts)) (\<lambda>(f, rest). and_loop (EAnd e f) rest)
      else Ok (e, ts))"
| "parse_atom ts =
     (if starts_token TOpen ts then rbind (parse_or (tl ts)) (\<lambda>(e, rest). close_paren e rest)
      else (case ts of TPath path # rest \<Rightarrow> parse_cmp path rest | _ \<Rightarrow> Err ExpectedComparison))"
  by pat_completeness auto

lemma parse_rest_shorter:
  "parse_or_or_loop_parse_and_and_loop_parse_atom_dom (Inl (Inl ts)) \<Longrightarrow>
     (\<And>e r. parse_or ts = Inr (e, r) \<Longrightarrow> length r < length ts)"
  "parse_or_or_loop_parse_and_and_loop_parse_atom_dom (Inl (Inr (d, ts))) \<Longrightarrow>
     (\<And>e r. or_loop d ts = Inr (e, r) \<Longrightarrow> length r \<le> length ts)"
  "parse_or_or_loop_parse_and_and_loop_parse_atom_dom (Inr (Inl ts)) \<Longrightarrow>
     (\<And>e r. parse_and ts = Inr (e, r) \<Longrightarrow> length r < length ts)"
  "parse_or_or_loop_parse_and_and_loop_parse_atom_dom (Inr (Inr (Inl (d, ts)))) \<Longrightarrow>
     (\<And>e r. and_loop d ts = Inr (e, r) \<Longrightarrow> length r \<le> length ts)"
  "parse_or_or_loop_parse_and_and_loop_parse_atom_dom (Inr (Inr (Inr ts))) \<Longrightarrow>
     (\<And>e r. parse_atom ts = Inr (e, r) \<Longrightarrow> length r < length ts)"
proof (induction ts and d ts and ts and d ts and ts
    rule: parse_or_or_loop_parse_and_and_loop_parse_atom.pinduct)
  case (1 ts)
  then show ?case by (fastforce simp: parse_or.psimps)
next
  case (2 e ts)
  then show ?case
    by (fastforce simp: or_loop.psimps dest: starts_token_length split: if_splits)
next
  case (3 ts)
  then show ?case by (fastforce simp: parse_and.psimps)
next
  case (4 e ts)
  then show ?case
    by (fastforce simp: and_loop.psimps dest: starts_token_length split: if_splits)
next
  case (5 ts)
  then show ?case
    by (fastforce simp: parse_atom.psimps dest: starts_token_length parse_cmp_rest close_paren_rest
        split: if_splits list.splits token.splits)
qed

termination parse_or
proof (relation "measure (\<lambda>x. case x of
      Inl (Inl ts) \<Rightarrow> 3 * length ts + 2 | Inl (Inr (e, ts)) \<Rightarrow> 3 * length ts + 1
    | Inr (Inl ts) \<Rightarrow> 3 * length ts + 1 | Inr (Inr (Inl (e, ts))) \<Rightarrow> 3 * length ts
    | Inr (Inr (Inr ts)) \<Rightarrow> 3 * length ts)")
qed (auto dest: parse_rest_shorter starts_token_length)

declare parse_or.simps [simp del] or_loop.simps [simp del] parse_and.simps [simp del]
  and_loop.simps [simp del] parse_atom.simps [simp del]

definition condition_parse :: "(string \<Rightarrow> number option) \<Rightarrow> string \<Rightarrow> condition_error + condition" where
  "condition_parse num src =
     rbind (tokenize num src) (\<lambda>tokens.
     rbind (parse_or tokens) (\<lambda>(e, rest).
       if rest \<noteq> [] then Err TrailingInput else Ok \<lparr>cond_source = src, cond_expr = e\<rparr>))"

section \<open>Evaluation\<close>

fun expr_roots :: "expr \<Rightarrow> string list" where
  "expr_roots (EOr a b) = expr_roots a @ expr_roots b"
| "expr_roots (EAnd a b) = expr_roots a @ expr_roots b"
| "expr_roots (Cmp path p l) = (case path of [] \<Rightarrow> [] | r # _ \<Rightarrow> [r])"

definition cond_argument_roots :: "condition \<Rightarrow> string list" where
  "cond_argument_roots c = expr_roots (cond_expr c)"

definition op_holds :: "op \<Rightarrow> ordering \<Rightarrow> bool" where
  "op_holds p ord =
     (case p of
        Gt \<Rightarrow> ord = Greater
      | Ge \<Rightarrow> ord \<noteq> Less
      | Lt \<Rightarrow> ord = Less
      | Le \<Rightarrow> ord \<noteq> Greater
      | Eq \<Rightarrow> ord = Equal
      | Ne \<Rightarrow> ord \<noteq> Equal)"

definition compare_literal :: "literal \<Rightarrow> json \<Rightarrow> ordering option" where
  "compare_literal l v =
     (case (l, v) of
        (LNumber n, JNumber m) \<Rightarrow> cmp_number m n
      | (LString s, JString t) \<Rightarrow> Some (cmp_of t s)
      | (LBool x, JBool y) \<Rightarrow> Some (cmp_of y x)
      | _ \<Rightarrow> None)"

fun eval_expr :: "expr \<Rightarrow> json \<Rightarrow> unit + bool" where
  "eval_expr (EOr a b) args =
     (let x = eval_expr a args; y = eval_expr b args
      in rbind x (\<lambda>p. rbind y (\<lambda>q. Ok (p \<or> q))))"
| "eval_expr (EAnd a b) args =
     (let x = eval_expr a args; y = eval_expr b args
      in rbind x (\<lambda>p. rbind y (\<lambda>q. Ok (p \<and> q))))"
| "eval_expr (Cmp path p l) args =
     rbind (ok_or () (lookup (Some args) path)) (\<lambda>v.
     rbind (ok_or () (compare_literal l v)) (\<lambda>ord. Ok (op_holds p ord)))"

definition cond_matches :: "condition \<Rightarrow> json \<Rightarrow> bool" where
  "cond_matches c args = (case eval_expr (cond_expr c) args of Inl _ \<Rightarrow> True | Inr b \<Rightarrow> b)"

section \<open>The approval rule\<close>

record approval_rule =
  ar_when :: "condition option"
  ar_approvers :: "string list"
  ar_ttl_secs :: "nat option"
  ar_show :: "string list"

definition approval_shown :: "approval_rule \<Rightarrow> json option \<Rightarrow> members" where
  "approval_shown a arguments = shown (ar_show a) arguments"

section \<open>The evaluator fails closed\<close>

text \<open>The comparisons of a condition, and its value as a plain boolean expression over them.\<close>

type_synonym comparison = "string list \<times> op \<times> literal"

fun comparisons :: "expr \<Rightarrow> comparison list" where
  "comparisons (EOr a b) = comparisons a @ comparisons b"
| "comparisons (EAnd a b) = comparisons a @ comparisons b"
| "comparisons (Cmp path p l) = [(path, p, l)]"

definition comparison_value :: "json \<Rightarrow> comparison \<Rightarrow> bool option" where
  "comparison_value args c =
     (case c of (path, p, l) \<Rightarrow>
        Option.bind (json_path args path) (\<lambda>v. map_option (op_holds p) (compare_literal l v)))"

fun truth :: "(comparison \<Rightarrow> bool) \<Rightarrow> expr \<Rightarrow> bool" where
  "truth f (EOr a b) \<longleftrightarrow> truth f a \<or> truth f b"
| "truth f (EAnd a b) \<longleftrightarrow> truth f a \<and> truth f b"
| "truth f (Cmp path p l) \<longleftrightarrow> f (path, p, l)"

lemma eval_expr_Cmp:
  "eval_expr (Cmp path p l) args = ok_or () (comparison_value args (path, p, l))"
  by (simp add: comparison_value_def lookup_def rbind_def ok_or_def split: option.splits)

lemma eval_expr_value:
  "eval_expr e args =
     (if \<exists>c\<in>set (comparisons e). comparison_value args c = None then Err ()
      else Ok (truth (\<lambda>c. comparison_value args c = Some True) e))"
proof (induction e)
  case (Cmp path p l)
  then show ?case
    unfolding eval_expr_Cmp by (cases "comparison_value args (path, p, l)") auto
qed auto

lemma cond_matches_iff:
  "cond_matches c args \<longleftrightarrow>
     (\<exists>k\<in>set (comparisons (cond_expr c)). comparison_value args k = None)
     \<or> truth (\<lambda>k. comparison_value args k = Some True) (cond_expr c)"
  by (auto simp: cond_matches_def eval_expr_value)

section \<open>The parser decides the grammar\<close>

inductive gr_or :: "token list \<Rightarrow> expr \<Rightarrow> bool"
  and gr_and :: "token list \<Rightarrow> expr \<Rightarrow> bool"
  and gr_atom :: "token list \<Rightarrow> expr \<Rightarrow> bool" where
  or_one: "gr_and ts e \<Longrightarrow> gr_or ts e"
| or_more: "gr_or ts e \<Longrightarrow> gr_and us f \<Longrightarrow> gr_or (ts @ TOr # us) (EOr e f)"
| and_one: "gr_atom ts e \<Longrightarrow> gr_and ts e"
| and_more: "gr_and ts e \<Longrightarrow> gr_atom us f \<Longrightarrow> gr_and (ts @ TAnd # us) (EAnd e f)"
| paren: "gr_or ts e \<Longrightarrow> gr_atom (TOpen # ts @ [TClose]) e"
| comparison: "(is_ordering_op p \<longrightarrow> is_number_literal l) \<Longrightarrow>
    gr_atom [TPath path, TOp p, TLit l] (Cmp path p l)"

lemma parse_sound:
  "parse_or ts = Inr (e, r) \<Longrightarrow> \<exists>p. ts = p @ r \<and> gr_or p e"
  "or_loop d ts = Inr (e, r) \<Longrightarrow> gr_or q d \<Longrightarrow> \<exists>p. ts = p @ r \<and> gr_or (q @ p) e"
  "parse_and ts = Inr (e, r) \<Longrightarrow> \<exists>p. ts = p @ r \<and> gr_and p e"
  "and_loop d ts = Inr (e, r) \<Longrightarrow> gr_and q d \<Longrightarrow> \<exists>p. ts = p @ r \<and> gr_and (q @ p) e"
  "parse_atom ts = Inr (e, r) \<Longrightarrow> \<exists>p. ts = p @ r \<and> gr_atom p e"
proof (induction ts and d ts and ts and d ts and ts arbitrary: e r and e r q and e r and e r q and e r
    rule: parse_or_or_loop_parse_and_and_loop_parse_atom.induct)
  case (1 ts)
  from 1(3) obtain f s where f: "parse_and ts = Inr (f, s)" "or_loop f s = Inr (e, r)"
    by (auto simp: parse_or.simps)
  from 1(1) [OF f(1)] obtain p where p: "ts = p @ s" "gr_and p f" by blast
  from 1(2) [OF f(1) refl f(2) or_one [OF p(2)]] p show ?case by auto
next
  case (2 d ts)
  show ?case
  proof (cases "starts_token TOr ts")
    case True
    then obtain us where ts: "ts = TOr # us" by (auto simp: starts_token_iff)
    with 2(3) obtain f s where f: "parse_and us = Inr (f, s)" "or_loop (EOr d f) s = Inr (e, r)"
      by (auto simp: or_loop.simps [of d "TOr # us"])
    from 2(1) [OF True] f(1) ts obtain p where p: "us = p @ s" "gr_and p f" by auto
    have "\<exists>p'. s = p' @ r \<and> gr_or ((q @ TOr # p) @ p') e"
      using 2(2) [OF True _ refl f(2) or_more [OF 2(4) p(2)]] f(1) ts by simp
    then show ?thesis using ts p(1) by auto
  next
    case False
    with 2(3,4) show ?thesis by (auto simp: or_loop.simps [of d ts])
  qed
next
  case (3 ts)
  from 3(3) obtain f s where f: "parse_atom ts = Inr (f, s)" "and_loop f s = Inr (e, r)"
    by (auto simp: parse_and.simps)
  from 3(1) [OF f(1)] obtain p where p: "ts = p @ s" "gr_atom p f" by blast
  from 3(2) [OF f(1) refl f(2) and_one [OF p(2)]] p show ?case by auto
next
  case (4 d ts)
  show ?case
  proof (cases "starts_token TAnd ts")
    case True
    then obtain us where ts: "ts = TAnd # us" by (auto simp: starts_token_iff)
    with 4(3) obtain f s where f: "parse_atom us = Inr (f, s)" "and_loop (EAnd d f) s = Inr (e, r)"
      by (auto simp: and_loop.simps [of d "TAnd # us"])
    from 4(1) [OF True] f(1) ts obtain p where p: "us = p @ s" "gr_atom p f" by auto
    have "\<exists>p'. s = p' @ r \<and> gr_and ((q @ TAnd # p) @ p') e"
      using 4(2) [OF True _ refl f(2) and_more [OF 4(4) p(2)]] f(1) ts by simp
    then show ?thesis using ts p(1) by auto
  next
    case False
    with 4(3,4) show ?thesis by (auto simp: and_loop.simps [of d ts])
  qed
next
  case (5 ts)
  show ?case
  proof (cases "starts_token TOpen ts")
    case True
    then obtain us where ts: "ts = TOpen # us" by (auto simp: starts_token_iff)
    with 5(2) obtain f s where f: "parse_or us = Inr (f, s)" "close_paren f s = Inr (e, r)"
      by (auto simp: parse_atom.simps [of "TOpen # us"])
    from 5(1) [OF True] f(1) ts obtain p where p: "us = p @ s" "gr_or p f" by auto
    with close_paren_rest [OF f(2)] ts paren [OF p(2)] show ?thesis
      by (intro exI [of _ "TOpen # p @ [TClose]"]) auto
  next
    case False
    with 5(2) obtain path us where ts: "ts = TPath path # us" and c: "parse_cmp path us = Inr (e, r)"
      by (auto simp: parse_atom.simps [of ts] split: list.splits token.splits)
    from c obtain p l where "us = TOp p # TLit l # r" "e = Cmp path p l"
      "is_ordering_op p \<longrightarrow> is_number_literal l"
      by (auto simp: parse_cmp_def split: list.splits token.splits if_splits)
    with comparison show ?thesis by (intro exI [of _ "take 3 ts"]) (simp add: ts)
  qed
qed

lemma parse_complete:
  "gr_or p e \<Longrightarrow> \<not> starts_token TAnd r \<Longrightarrow> parse_or (p @ r) = or_loop e r"
  "gr_and p e \<Longrightarrow> parse_and (p @ r) = and_loop e r"
  "gr_atom p e \<Longrightarrow> parse_atom (p @ r) = Inr (e, r)"
proof (induction arbitrary: r and r and r rule: gr_or_gr_and_gr_atom.inducts)
  case (or_one ts e)
  then show ?case by (simp add: parse_or.simps and_loop.simps)
next
  case (or_more ts e us f)
  have "parse_or ((ts @ TOr # us) @ r) = or_loop e (TOr # us @ r)"
    using or_more.IH(1) [of "TOr # us @ r"] by simp
  also have "\<dots> = or_loop (EOr e f) r"
    using or_more.IH(2) [of r] or_more.prems by (simp add: or_loop.simps [of e] and_loop.simps)
  finally show ?case .
next
  case (and_one ts e)
  then show ?case by (simp add: parse_and.simps)
next
  case (and_more ts e us f)
  have "parse_and ((ts @ TAnd # us) @ r) = and_loop e (TAnd # us @ r)"
    using and_more.IH(1) [of "TAnd # us @ r"] by simp
  also have "\<dots> = and_loop (EAnd e f) r"
    using and_more.IH(2) [of r] by (simp add: and_loop.simps [of e])
  finally show ?case .
next
  case (paren ts e)
  then show ?case by (simp add: parse_atom.simps or_loop.simps close_paren_def)
next
  case (comparison p l path)
  then show ?case by (auto simp: parse_atom.simps parse_cmp_def)
qed

lemma parse_or_iff: "parse_or ts = Inr (e, []) \<longleftrightarrow> gr_or ts e"
  using parse_sound(1) [of ts e "[]"] parse_complete(1) [of ts e "[]"] by (auto simp: or_loop.simps)

lemma condition_parse_iff:
  "condition_parse num src = Ok c \<longleftrightarrow>
     cond_source c = src \<and> (\<exists>ts. tokenize num src = Ok ts \<and> gr_or ts (cond_expr c))"
  by (auto simp: condition_parse_def parse_or_iff [symmetric] split: if_splits)

section \<open>Printing a condition and reading it back\<close>

definition parens :: "bool \<Rightarrow> token list \<Rightarrow> token list" where
  "parens b ts = (if b then TOpen # ts @ [TClose] else ts)"

text \<open>The tokens of an expression where an operand of \<open>||\<close> (0), of \<open>&&\<close> (1) or an atom (2) is
  expected.\<close>

fun tokens_at :: "nat \<Rightarrow> expr \<Rightarrow> token list" where
  "tokens_at n (EOr a b) = parens (0 < n) (tokens_at 0 a @ TOr # tokens_at 1 b)"
| "tokens_at n (EAnd a b) = parens (1 < n) (tokens_at 1 a @ TAnd # tokens_at 2 b)"
| "tokens_at n (Cmp path p l) = [TPath path, TOp p, TLit l]"

definition ordering_ok :: "comparison \<Rightarrow> bool" where
  "ordering_ok c = (case c of (path, p, l) \<Rightarrow> is_ordering_op p \<longrightarrow> is_number_literal l)"

lemma tokens_at_grammar:
  "list_all ordering_ok (comparisons e) \<Longrightarrow>
     gr_or (tokens_at 0 e) e \<and> gr_and (tokens_at 1 e) e \<and> gr_atom (tokens_at 2 e) e"
proof (induction e)
  case (EOr a b)
  then have "gr_or (tokens_at 0 a @ TOr # tokens_at 1 b) (EOr a b)" by (simp add: or_more)
  from this paren [OF this] and_one [OF paren [OF this]] show ?case by (simp add: parens_def)
next
  case (EAnd a b)
  then have "gr_and (tokens_at 1 a @ TAnd # tokens_at 2 b) (EAnd a b)" by (simp add: and_more)
  from this or_one [OF this] paren [OF or_one [OF this]] show ?case by (simp add: parens_def)
next
  case (Cmp path p l)
  then have "gr_atom [TPath path, TOp p, TLit l] (Cmp path p l)"
    using comparison by (simp add: ordering_ok_def)
  then show ?case using and_one or_one by (simp add: ordering_ok_def)
qed

fun print_op :: "op \<Rightarrow> string" where
  "print_op Gt = ''>''" | "print_op Ge = ''>=''" | "print_op Lt = ''<''"
| "print_op Le = ''<=''" | "print_op Eq = ''==''" | "print_op Ne = ''!=''"

text \<open>\<open>pn\<close> prints numbers. Every token is followed by a space.\<close>

fun print_token :: "(number \<Rightarrow> string) \<Rightarrow> token \<Rightarrow> string" where
  "print_token pn (TPath path) = join_with ''.'' path"
| "print_token pn (TLit (LNumber n)) = pn n"
| "print_token pn (TLit (LString s)) = CHR 0x22 # s @ [CHR 0x22]"
| "print_token pn (TLit (LBool b)) = (if b then ''true'' else ''false'')"
| "print_token pn (TOp p) = print_op p"
| "print_token pn TAnd = ''&&''"
| "print_token pn TOr = ''||''"
| "print_token pn TOpen = ''(''"
| "print_token pn TClose = '')''"

definition print_tokens :: "(number \<Rightarrow> string) \<Rightarrow> token list \<Rightarrow> string" where
  "print_tokens pn ts = concat (map (\<lambda>t. print_token pn t @ '' '') ts)"

definition path_segment_ok :: "string \<Rightarrow> bool" where
  "path_segment_ok s \<longleftrightarrow> s \<noteq> [] \<and> list_all (\<lambda>c. is_ascii_alphanumeric c \<or> c = CHR ''_'') s"

definition path_ok :: "string list \<Rightarrow> bool" where
  "path_ok path \<longleftrightarrow> path \<noteq> [] \<and> list_all path_segment_ok path
     \<and> \<not> is_ascii_digit (hd (hd path)) \<and> path \<noteq> [''true''] \<and> path \<noteq> [''false'']"

fun token_ok :: "(string \<Rightarrow> number option) \<Rightarrow> (number \<Rightarrow> string) \<Rightarrow> token \<Rightarrow> bool" where
  "token_ok num pn (TPath path) = path_ok path"
| "token_ok num pn (TLit (LNumber n)) \<longleftrightarrow> valid_number_text (pn n) \<and> num (pn n) = Some n"
| "token_ok num pn (TLit (LString s)) \<longleftrightarrow> CHR 0x22 \<notin> set s"
| "token_ok num pn _ = True"

lemma push_Ok [simp]: "push (Ok t) (Ok ts) = Ok (t # ts)"
  by (simp add: push_def)

lemma lex_space: "lex_from num i (CHR '' '' # s) = lex_from num (i + 1) s"
  by (simp add: lex_from.simps(2))

lemma lex_op_token: "\<exists>j. lex_from num i (print_op p @ '' '' @ s) = push (Ok (TOp p)) (lex_from num j s)"
  by (cases p) (auto simp: lex_from.simps(2) lex_op_def op_extra_def)

lemma lex_symbol_token:
  "t \<in> {TAnd, TOr, TOpen, TClose} \<Longrightarrow>
     \<exists>j. lex_from num i (print_token pn t @ '' '' @ s) = push (Ok t) (lex_from num j s)"
  by (auto simp: lex_from.simps(2) starts_with_def)

lemma lex_string_token:
  assumes "CHR 0x22 \<notin> set t"
  shows "\<exists>j. lex_from num i (print_token pn (TLit (LString t)) @ '' '' @ s) =
    push (Ok (TLit (LString t))) (lex_from num j s)"
proof -
  have "split_once (CHR 0x22) (t @ CHR 0x22 # ('' '' @ s)) = Some (t, '' '' @ s)"
    using assms by (rule split_once_append)
  then show ?thesis by (auto simp: lex_from.simps(2))
qed

lemma valid_number_text_shape:
  assumes "valid_number_text t"
  shows "\<exists>c s. t = c # s \<and> (c = CHR ''-'' \<or> is_ascii_digit c) \<and> (\<forall>x\<in>set s. number_char x)"
proof -
  have digits: "d \<noteq> [] \<and> is_ascii_digit (hd d) \<and> (\<forall>x\<in>set d. number_char x)"
    if "case split_once (CHR ''.'') d of
         Some (a, f) \<Rightarrow> a \<noteq> [] \<and> list_all is_ascii_digit a \<and> list_all is_ascii_digit f
       | None \<Rightarrow> d \<noteq> [] \<and> list_all is_ascii_digit d" for d
    using that by (cases d)
      (auto simp: split_once_eq_Some number_char_def list_all_iff Cons_eq_append_conv split: option.splits if_splits)
  show ?thesis
  proof (cases "strip_prefix ''-'' t")
    case None
    with assms have "t \<noteq> [] \<and> is_ascii_digit (hd t) \<and> (\<forall>x\<in>set t. number_char x)"
      by (intro digits) (cases "split_once (CHR ''.'') t", auto simp: valid_number_text_def)
    then show ?thesis by (cases t) auto
  next
    case (Some d)
    with assms have "d \<noteq> [] \<and> is_ascii_digit (hd d) \<and> (\<forall>x\<in>set d. number_char x)"
      by (intro digits) (cases "split_once (CHR ''.'') d", auto simp: valid_number_text_def)
    with Some show ?thesis by simp
  qed
qed

lemma digit_not_symbol:
  "c = CHR ''-'' \<or> is_ascii_digit c \<Longrightarrow>
     c \<notin> {CHR '' '', CHR 0x09, CHR ''('', CHR '')'', CHR ''&'', CHR ''|'', CHR ''>'', CHR ''<'',
       CHR ''='', CHR ''!'', CHR 0x27, CHR 0x22}"
  by (auto simp: str_simps)

lemma alphabetic_not_symbol:
  "is_ascii_alphabetic c \<or> c = CHR ''_'' \<Longrightarrow>
     c \<notin> {CHR '' '', CHR 0x09, CHR ''('', CHR '')'', CHR ''&'', CHR ''|'', CHR ''>'', CHR ''<'',
       CHR ''='', CHR ''!'', CHR 0x27, CHR 0x22, CHR ''-''} \<and> \<not> is_ascii_digit c"
  by (auto simp: str_simps)

lemma takeWhile_space:
  assumes "\<forall>x\<in>set w. P x" "\<not> P (CHR '' '')"
  shows "takeWhile P (w @ '' '' @ s) = w" "dropWhile P (w @ '' '' @ s) = '' '' @ s"
  using assms by (simp_all add: takeWhile_append2 dropWhile_append2)

lemma lex_number_token:
  assumes "valid_number_text t" "num t = Some n"
  shows "\<exists>j. lex_from num i (t @ '' '' @ s) = push (Ok (TLit (LNumber n))) (lex_from num j s)"
proof -
  from valid_number_text_shape [OF assms(1)] obtain c w where
    t: "t = c # w" "c = CHR ''-'' \<or> is_ascii_digit c" "\<forall>x\<in>set w. number_char x" by blast
  have sp: "\<not> number_char (CHR '' '')" by (simp add: number_char_def str_simps)
  have "lex_number num t = Ok (TLit (LNumber n))" using assms by (simp add: lex_number_def)
  then have "lex_from num i (c # w @ '' '' @ s) = push (Ok (TLit (LNumber n)))
      (lex_from num (i + 1 + length w) ('' '' @ s))"
    using takeWhile_space [OF t(3) sp, of s] digit_not_symbol [OF t(2)] t(1,2)
    unfolding lex_from.simps(2) [of num i c] by simp
  then show ?thesis using t(1) by (auto simp: lex_space)
qed

lemma path_segment_chars:
  "path_segment_ok s \<Longrightarrow> c \<in> set s \<Longrightarrow> word_char c \<and> c \<noteq> CHR ''.''"
  by (auto simp: path_segment_ok_def list_all_iff word_char_def str_simps)

lemma path_text:
  assumes "path_ok path"
  obtains c w where "join_with ''.'' path = c # w" "is_ascii_alphabetic c \<or> c = CHR ''_''"
    "\<forall>x\<in>set (c # w). word_char x" "split_on (CHR ''.'') (c # w) = path"
proof -
  obtain s ps where path: "path = s # ps" using assms by (cases path) (auto simp: path_ok_def)
  have seg: "path_segment_ok x" if "x \<in> set path" for x
    using assms that by (simp add: path_ok_def list_all_iff)
  obtain c w where s: "s = c # w"
    using seg [of s] path by (cases s) (auto simp: path_segment_ok_def)
  have sp: "split_on (CHR ''.'') (join_with ''.'' path) = path"
    using path_segment_chars seg path by (intro split_join_with) auto
  have "join_with ''.'' path = c # tl (join_with ''.'' path)" by (cases ps) (simp_all add: path s)
  moreover have "is_ascii_alphabetic c \<or> c = CHR ''_''"
    using seg [of s] assms path s by (auto simp: path_ok_def path_segment_ok_def str_simps)
  moreover have "word_char x" if "x \<in> set (join_with ''.'' path)" for x
  proof -
    from that set_join_with [of "''.''" path] consider "x = CHR ''.''" | y where "y \<in> set path" "x \<in> set y"
      by auto
    then show ?thesis using path_segment_chars seg by cases (simp add: word_char_def, blast)
  qed
  ultimately show thesis using that [of c "tl (join_with ''.'' path)"] sp by metis
qed

lemma path_not_bool:
  assumes "path_ok path"
  shows "join_with ''.'' path \<noteq> ''true'' \<and> join_with ''.'' path \<noteq> ''false''"
proof -
  obtain c w where "join_with ''.'' path = c # w" "split_on (CHR ''.'') (c # w) = path"
    using path_text [OF assms] by metis
  moreover have "split_on (CHR ''.'') ''true'' = [''true'']" "split_on (CHR ''.'') ''false'' = [''false'']"
    by simp_all
  ultimately show ?thesis using assms by (metis path_ok_def)
qed

lemma lex_word_token:
  assumes "is_ascii_alphabetic c \<or> c = CHR ''_''" "\<forall>x\<in>set w. word_char x"
  shows "\<exists>j. lex_from num i (c # w @ '' '' @ s) = push (lex_word (c # w)) (lex_from num j s)"
proof -
  have sp: "\<not> word_char (CHR '' '')" by (simp add: word_char_def str_simps)
  have "lex_from num i (c # w @ '' '' @ s) = push (lex_word (c # w)) (lex_from num (i + 1 + length w) ('' '' @ s))"
    using takeWhile_space [OF assms(2) sp, of s] alphabetic_not_symbol [OF assms(1)] assms(1)
    unfolding lex_from.simps(2) [of num i c] by simp
  then show ?thesis by (auto simp: lex_space)
qed

lemma lex_token:
  assumes "token_ok num pn t"
  shows "\<exists>j. lex_from num i (print_token pn t @ '' '' @ s) = push (Ok t) (lex_from num j s)"
proof (cases t)
  case (TPath path)
  with assms have ok: "path_ok path" by simp
  from path_text [OF ok] obtain c w where w: "join_with ''.'' path = c # w"
    "is_ascii_alphabetic c \<or> c = CHR ''_''" "\<forall>x\<in>set w. word_char x" "split_on (CHR ''.'') (c # w) = path"
    by (metis list.set_intros(2))
  have "\<not> list_ex (\<lambda>s. s = []) path"
    using ok by (auto simp: path_ok_def list_all_iff list_ex_iff path_segment_ok_def)
  with w path_not_bool [OF ok] have "lex_word (c # w) = Ok (TPath path)"
    unfolding lex_word_def Let_def by presburger
  with lex_word_token [OF w(2,3)] show ?thesis by (simp add: TPath w(1))
next
  case (TLit l)
  show ?thesis
  proof (cases l)
    case (LNumber n)
    with assms TLit lex_number_token [of "pn n" num n] show ?thesis by simp
  next
    case (LString x)
    with assms TLit show ?thesis using lex_string_token [of x num i pn s] by simp
  next
    case (LBool b)
    have "lex_word ''true'' = Ok (TLit (LBool True))" "lex_word ''false'' = Ok (TLit (LBool False))"
      by (simp_all add: lex_word_def)
    then show ?thesis
      using lex_word_token [of "CHR ''t''" "''rue''"] lex_word_token [of "CHR ''f''" "''alse''"]
      by (simp add: TLit LBool word_char_def str_simps)
  qed
next
  case (TOp p)
  then show ?thesis using lex_op_token by simp
qed (use lex_symbol_token [of t num i pn s] in simp_all)

lemma tokenize_print:
  "list_all (token_ok num pn) ts \<Longrightarrow> tokenize num (print_tokens pn ts) = Ok ts"
proof -
  have "list_all (token_ok num pn) ts \<Longrightarrow> lex_from num i (print_tokens pn ts) = Ok ts" for i
  proof (induction ts arbitrary: i)
    case (Cons t ts)
    from Cons.prems lex_token [of num pn t i "print_tokens pn ts"] obtain j where
      "lex_from num i (print_token pn t @ '' '' @ print_tokens pn ts) =
        push (Ok t) (lex_from num j (print_tokens pn ts))" by auto
    with Cons show ?case by (simp add: print_tokens_def)
  qed (simp add: print_tokens_def)
  then show "list_all (token_ok num pn) ts \<Longrightarrow> tokenize num (print_tokens pn ts) = Ok ts"
    by (simp add: tokenize_def)
qed

end
