(* ===== verification/Contract_Spec.thy ===== *)
theory Contract_Spec
  imports Contract
begin

text \<open>
  What a constraint promises, stated without order, paths or error codes (\<open>conforms\<close>), and the
  lemmas that \<open>check\<close> decides exactly that; which paths a violation may report; and that the
  verdict does not depend on the order of an object's members.
\<close>

section \<open>Declarative specification\<close>

definition number_le :: "number \<Rightarrow> number \<Rightarrow> bool" where
  "number_le a b =
     (case (int_of_number a, int_of_number b) of
        (Some x, Some y) \<Rightarrow> x \<le> y
      | _ \<Rightarrow> as_f64 a \<le> as_f64 b)"

definition bound_ok :: "json option \<Rightarrow> constraint_kw \<Rightarrow> json \<Rightarrow> bool" where
  "bound_ok task k v \<longleftrightarrow>
     (\<forall>key. c_bind_to k = Some key \<longrightarrow> (\<exists>e. task_value task key = Some e \<and> json_eq v e))"

definition context_offers :: "json option \<Rightarrow> string \<Rightarrow> json \<Rightarrow> bool" where
  "context_offers task key v \<longleftrightarrow>
     (\<exists>x. context_value task key = Some x \<and>
        (case x of JArray a \<Rightarrow> json_contains a v | _ \<Rightarrow> json_eq x v))"

definition context_ok :: "regex_ops \<Rightarrow> json option \<Rightarrow> constraint_kw \<Rightarrow> json \<Rightarrow> bool" where
  "context_ok R task k v \<longleftrightarrow>
     (\<forall>keys. c_one_of_context k = Some keys \<longrightarrow>
        (\<exists>key\<in>set keys. context_offers task key v) \<or> or_pattern_matches R k v)"

definition literals_ok :: "constraint_kw \<Rightarrow> json \<Rightarrow> bool" where
  "literals_ok k v \<longleftrightarrow>
     (\<forall>t. c_ty k = Some t \<longrightarrow> json_type_matches t v)
     \<and> (\<forall>w. c_constant k = Some w \<longrightarrow> json_eq w v)
     \<and> (\<forall>ws. c_one_of k = Some ws \<longrightarrow> json_contains ws v)"

definition string_ok :: "regex_ops \<Rightarrow> constraint_kw \<Rightarrow> json \<Rightarrow> bool" where
  "string_ok R k v \<longleftrightarrow> (has_string_keywords k \<longrightarrow>
     (\<exists>s. v = JString s
        \<and> (\<forall>m. c_min_length k = Some m \<longrightarrow> m \<le> chars_count s)
        \<and> (\<forall>m. c_max_length k = Some m \<longrightarrow> chars_count s \<le> m)
        \<and> (\<forall>re. c_regex k = Some re \<longrightarrow> regex_is_match R re s)))"

definition number_ok :: "constraint_kw \<Rightarrow> json \<Rightarrow> bool" where
  "number_ok k v \<longleftrightarrow> (has_number_keywords k \<longrightarrow>
     (\<exists>n. v = JNumber n
        \<and> (\<forall>m. c_minimum k = Some m \<longrightarrow> number_le m n)
        \<and> (\<forall>m. c_maximum k = Some m \<longrightarrow> number_le n m)))"

definition declared :: "props option \<Rightarrow> string \<Rightarrow> bool" where
  "declared ps name \<longleftrightarrow> (\<exists>p. ps = Some p \<and> name \<in> fst ` set p)"

definition within_bounds :: "nat option \<Rightarrow> nat option \<Rightarrow> nat \<Rightarrow> bool" where
  "within_bounds lo hi n \<longleftrightarrow> (\<forall>m. lo = Some m \<longrightarrow> m \<le> n) \<and> (\<forall>m. hi = Some m \<longrightarrow> n \<le> m)"

definition object_shape ::
  "props option \<Rightarrow> string list \<Rightarrow> bool \<Rightarrow> nat option \<Rightarrow> nat option \<Rightarrow> members \<Rightarrow> bool" where
  "object_shape ps required additional mn mx obj \<longleftrightarrow>
     (additional \<or> (\<forall>m\<in>set obj. declared ps (fst m)))
     \<and> (\<forall>r\<in>set required. r \<in> fst ` set obj)
     \<and> within_bounds mn mx (length obj)"

inductive conforms :: "regex_ops \<Rightarrow> json option \<Rightarrow> constraint \<Rightarrow> json \<Rightarrow> bool"
  for R :: regex_ops and task :: "json option" where
  conforms_intro:
  "\<lbrakk>bound_ok task k v; context_ok R task k v; literals_ok k v; string_ok R k v; number_ok k v;
    has_object_keywords (Constraint k ps it) \<or> c_ty k = Some TObject \<longrightarrow>
      (\<exists>obj. v = JObject obj
         \<and> object_shape ps (case c_required k of None \<Rightarrow> [] | Some rs \<Rightarrow> rs)
             (case c_additional_properties k of None \<Rightarrow> False | Some b \<Rightarrow> b)
             (c_min_properties k) (c_max_properties k) obj
         \<and> (\<forall>p m w. ps = Some p \<longrightarrow> m \<in> set p \<longrightarrow> map_of obj (fst m) = Some w \<longrightarrow>
               conforms R task (snd m) w));
    has_array_keywords (Constraint k ps it) \<longrightarrow>
      (\<exists>a. v = JArray a \<and> within_bounds (c_min_items k) (c_max_items k) (length a)
         \<and> (\<forall>c x. it = Some c \<longrightarrow> x \<in> set a \<longrightarrow> conforms R task c x))\<rbrakk>
   \<Longrightarrow> conforms R task (Constraint k ps it) v"

inductive_simps conforms_iff: "conforms R task (Constraint k ps it) v"

section \<open>The parts of the checker decide the parts of the specification\<close>

lemma number_le_iff:
  "number_le m n \<longleftrightarrow> cmp_number n m \<in> {Some Greater, Some Equal}"
  "number_le n m \<longleftrightarrow> cmp_number n m \<in> {Some Less, Some Equal}"
  by (cases "int_of_number n"; cases "int_of_number m";
      auto simp: number_le_def cmp_number_def cmp_of_def)+

lemma check_bind_to_Ok [simp]: "check_bind_to k v path task = Inr () \<longleftrightarrow> bound_ok task k v"
  by (auto simp: check_bind_to_def bound_ok_def split: option.splits)

lemma scan_context_eq:
  "scan_context task v keys missing matched =
     (missing \<or> (\<exists>k\<in>set keys. context_value task k = None),
      matched \<or> (\<exists>k\<in>set keys. context_offers task k v))"
  by (induction keys arbitrary: missing matched)
    (auto simp: context_offers_def split: option.splits json.splits)

lemma check_context_Ok [simp]:
  "check_context R k v path task = Inr () \<longleftrightarrow> context_ok R task k v"
  by (auto simp: check_context_def context_ok_def scan_context_eq split: option.splits)

lemma check_literals_Ok [simp]: "check_literals k v path = Inr () \<longleftrightarrow> literals_ok k v"
  by (auto simp: check_literals_def literals_ok_def is_some_and_iff)

lemma check_string_kw_Ok [simp]: "check_string_kw R k v path = Inr () \<longleftrightarrow> string_ok R k v"
  by (cases v) (auto simp: check_string_kw_def string_ok_def is_some_and_iff Let_def not_less)

lemma check_number_kw_Ok [simp]: "check_number_kw k v path = Inr () \<longleftrightarrow> number_ok k v"
  unfolding check_number_kw_def number_ok_def number_le_iff [symmetric] is_some_and_iff
  by (cases v) auto

lemma sort_eq_Nil_iff [simp]: "sort xs = [] \<longleftrightarrow> xs = []"
  by (metis length_0_conv length_sort)

lemma check_object_with_Ok:
  "check_object_with chk ps required additional mn mx obj path = Inr () \<longleftrightarrow>
     object_shape ps required additional mn mx obj
     \<and> (\<forall>p m w. ps = Some p \<longrightarrow> m \<in> set p \<longrightarrow> map_of obj (fst m) = Some w \<longrightarrow>
          chk (snd m) w (child path (fst m)) = Inr ())"
proof -
  have miss: "(\<forall>r\<in>set required. r \<in> fst ` set obj) \<longleftrightarrow>
      sort (filter (\<lambda>r. map_of obj r = None) required) = []"
    by (auto simp: filter_empty_conv map_of_eq_None_iff)
  have each: "try_each (\<lambda>m. case map_of obj (fst m) of None \<Rightarrow> Inr ()
        | Some v \<Rightarrow> chk (snd m) v (child path (fst m))) (case ps of None \<Rightarrow> [] | Some p \<Rightarrow> p) = Inr ()
      \<longleftrightarrow> (\<forall>p m w. ps = Some p \<longrightarrow> m \<in> set p \<longrightarrow> map_of obj (fst m) = Some w \<longrightarrow>
          chk (snd m) w (child path (fst m)) = Inr ())"
    by (fastforce split: option.splits)
  have ex: "list_ex (\<lambda>m. \<not> is_some_and (\<lambda>p. fst m \<in> fst ` set p) ps) obj \<longleftrightarrow>
      \<not> (\<forall>m\<in>set obj. declared ps (fst m))"
    by (auto simp: list_ex_iff is_some_and_iff declared_def)
  have bounds: "within_bounds mn mx (length obj) \<longleftrightarrow>
      \<not> (is_some_and (\<lambda>m. length obj < m) mn \<or> is_some_and (\<lambda>m. length obj > m) mx)"
    by (auto simp: within_bounds_def is_some_and_iff not_less)
  show ?thesis
    unfolding check_object_with_def object_shape_def miss bounds ex
    using each by (auto split: list.splits)
qed

lemma check_items_bounds_Ok [simp]:
  "check_items_bounds k a path = Inr () \<longleftrightarrow> within_bounds (c_min_items k) (c_max_items k) (length a)"
  by (auto simp: check_items_bounds_def within_bounds_def is_some_and_iff not_less)

lemma size_property: "m \<in> set p \<Longrightarrow> size (snd m) < size (Constraint k (Some p) it)"
  using size_props_member [of m p] by simp

lemma size_items: "size c < size (Constraint k ps (Some c))"
  by simp

lemma check_iff_conforms: "check R c v path task = Inr () \<longleftrightarrow> conforms R task c v"
proof (induction c arbitrary: v path rule: measure_induct_rule [of size])
  case (less c)
  obtain k ps it where c: "c = Constraint k ps it" by (cases c)
  have IHp: "check R (snd m) w q task = Inr () \<longleftrightarrow> conforms R task (snd m) w"
    if "ps = Some p" "m \<in> set p" for p m w q
    using less [of "snd m"] size_property [OF that(2), of k it] that(1) unfolding c by blast
  have IHi: "check R d w q task = Inr () \<longleftrightarrow> conforms R task d w" if "it = Some d" for d w q
    using less [of d] size_items [of d k ps] that unfolding c by blast
  have obj: "check_object_with (\<lambda>c w p. check R c w p task) ps rs ad mn mx obj path = Inr () \<longleftrightarrow>
      object_shape ps rs ad mn mx obj
      \<and> (\<forall>p m w. ps = Some p \<longrightarrow> m \<in> set p \<longrightarrow> map_of obj (fst m) = Some w \<longrightarrow>
           conforms R task (snd m) w)" for rs ad mn mx obj
    unfolding check_object_with_Ok using IHp by blast
  show ?case
    unfolding c check.simps conforms_iff
    using obj IHi by (cases v; cases it) (simp_all, blast+)?
qed

section \<open>The paths a violation may report\<close>

text \<open>The JSON pointers made of contract names alone: the constraint's own path, a required
  name, and the paths of the declared properties and items.\<close>

inductive contract_path :: "constraint \<Rightarrow> string \<Rightarrow> string \<Rightarrow> bool" where
  here: "contract_path c path path"
| required_name: "c_required (kw c) = Some rs \<Longrightarrow> r \<in> set rs \<Longrightarrow> contract_path c path (child path r)"
| property: "properties c = Some p \<Longrightarrow> m \<in> set p \<Longrightarrow>
    contract_path (snd m) (child path (fst m)) q \<Longrightarrow> contract_path c path q"
| item: "items c = Some d \<Longrightarrow> contract_path d (path @ ''/items'') q \<Longrightarrow> contract_path c path q"

definition path_opt :: "string \<Rightarrow> string option" where
  "path_opt q = (if q = [] then None else Some q)"

lemma v_path_violation_at [simp]: "v_path (violation_at code q) = path_opt q"
  by (simp add: violation_at_def path_opt_def)

lemma check_part_Err_path:
  "check_bind_to k v path task = Inl e \<Longrightarrow> v_path e = path_opt path"
  "check_context R k v path task = Inl e \<Longrightarrow> v_path e = path_opt path"
  "check_literals k v path = Inl e \<Longrightarrow> v_path e = path_opt path"
  "check_string_kw R k v path = Inl e \<Longrightarrow> v_path e = path_opt path"
  "check_number_kw k v path = Inl e \<Longrightarrow> v_path e = path_opt path"
  "check_items_bounds k a path = Inl e \<Longrightarrow> v_path e = path_opt path"
  by (auto simp: check_bind_to_def check_context_def check_literals_def check_string_kw_def
      check_number_kw_def check_items_bounds_def Let_def
      split: option.splits if_splits json.splits prod.splits)

lemma check_object_with_Err:
  assumes "check_object_with chk ps required additional mn mx obj path = Inl e"
  shows "v_path e = path_opt path
    \<or> (\<exists>r\<in>set required. v_path e = path_opt (child path r))
    \<or> (\<exists>p m w. ps = Some p \<and> m \<in> set p \<and> map_of obj (fst m) = Some w
         \<and> chk (snd m) w (child path (fst m)) = Inl e)"
proof -
  have srt: "r \<in> set required"
    if "sort (filter (\<lambda>r. map_of obj r = None) required) = r # rs" for r rs
  proof -
    have "r \<in> set (sort (filter (\<lambda>r. map_of obj r = None) required))" using that by simp
    then show ?thesis by simp
  qed
  from assms show ?thesis
    by (fastforce simp: check_object_with_def dest: srt dest!: try_each_ErrD
        split: if_splits list.splits option.splits)
qed

lemma check_Err_path:
  "check R c v path task = Inl e \<Longrightarrow> \<exists>q. contract_path c path q \<and> v_path e = path_opt q"
proof (induction c arbitrary: v path rule: measure_induct_rule [of size])
  case (less c)
  obtain k ps it where c: "c = Constraint k ps it" by (cases c)
  have part: "v_path e = path_opt path \<Longrightarrow> ?case" using contract_path.here by blast
  have object: ?case
    if "check_object_with (\<lambda>c w p. check R c w p task) ps
      (case c_required k of None \<Rightarrow> [] | Some rs \<Rightarrow> rs) ad mn mx obj path = Inl e" for ad mn mx obj
    using check_object_with_Err [OF that]
  proof (elim disjE)
    assume "\<exists>r\<in>set (case c_required k of None \<Rightarrow> [] | Some rs \<Rightarrow> rs).
      v_path e = path_opt (child path r)"
    then obtain rs r where "c_required k = Some rs" "r \<in> set rs" "v_path e = path_opt (child path r)"
      by (cases "c_required k") auto
    then show ?case
      unfolding c using contract_path.required_name [of "Constraint k ps it" rs r path] by auto
  next
    assume "\<exists>p m w. ps = Some p \<and> m \<in> set p \<and> map_of obj (fst m) = Some w
      \<and> check R (snd m) w (child path (fst m)) task = Inl e"
    then obtain p m w where p: "ps = Some p" "m \<in> set p"
      and e: "check R (snd m) w (child path (fst m)) task = Inl e" by blast
    have "size (snd m) < size c" unfolding c p(1) by (rule size_property [OF p(2)])
    from less.IH [OF this e] p show ?case unfolding c
      by (metis constraint.sel(2) contract_path.property)
  qed (rule part)
  have array: ?case if "it = Some d" "try_each (\<lambda>x. check R d x (path @ ''/items'') task) a = Inl e"
    for d a
  proof -
    from try_each_ErrD [OF that(2)] obtain x where
      e: "check R d x (path @ ''/items'') task = Inl e" by blast
    have "size d < size c" unfolding c that(1) by (rule size_items)
    from less.IH [OF this e] that show ?thesis unfolding c
      by (metis constraint.sel(3) contract_path.item)
  qed
  define Q where "Q = (\<exists>q. contract_path c path q \<and> v_path e = path_opt q)"
  note steps = part [folded Q_def] object [folded Q_def] array [folded Q_def]
  from less.prems [unfolded c check.simps rbind_eq_Err] have Q
  proof (elim disjE exE conjE)
  qed (auto simp: rbind_eq_Err dest: check_part_Err_path intro: steps split: if_splits json.splits option.splits)
  then show ?case by (simp only: Q_def)
qed

section \<open>The order of an object's members does not matter\<close>

lemma json_eq_right_cong:
  assumes "json_eq v w" "wf_json v" "wf_json w"
  shows "json_eq v e \<longleftrightarrow> json_eq w e"
  using assms json_eq_sym json_eq_trans by blast

lemma json_eq_left_cong:
  assumes "json_eq v w" "wf_json v" "wf_json w"
  shows "json_eq e v \<longleftrightarrow> json_eq e w"
  using assms json_eq_sym json_eq_trans by blast

lemma context_offers_cong:
  assumes "json_eq v w" "wf_json v" "wf_json w"
  shows "context_offers task key v = context_offers task key w"
proof -
  have "(case x of JArray a \<Rightarrow> json_contains a v | _ \<Rightarrow> json_eq x v) =
      (case x of JArray a \<Rightarrow> json_contains a w | _ \<Rightarrow> json_eq x w)" for x
    using json_eq_left_cong [OF assms, of x] json_contains_cong [OF assms] by (cases x) auto
  then show ?thesis by (simp only: context_offers_def)
qed

lemma json_type_matches_cong: "json_eq v w \<Longrightarrow> json_type_matches t v = json_type_matches t w"
  by (cases v; cases w; cases t) auto

lemma check_parts_cong:
  assumes "json_eq v w" "wf_json v" "wf_json w"
  shows "check_bind_to k v path task = check_bind_to k w path task"
    and "check_context R k v path task = check_context R k w path task"
    and "check_literals k v path = check_literals k w path"
    and "check_string_kw R k v path = check_string_kw R k w path"
    and "check_number_kw k v path = check_number_kw k w path"
proof -
  show "check_bind_to k v path task = check_bind_to k w path task"
    unfolding check_bind_to_def json_eq_right_cong [OF assms] ..
  have "or_pattern_matches R k v = or_pattern_matches R k w"
    using json_eq_kinds [OF assms(1)] by (simp add: or_pattern_matches_def)
  then show "check_context R k v path task = check_context R k w path task"
    unfolding check_context_def scan_context_eq context_offers_cong [OF assms] by (simp only:)
  show "check_literals k v path = check_literals k w path"
    unfolding check_literals_def json_eq_left_cong [OF assms] json_contains_cong [OF assms]
      json_type_matches_cong [OF assms(1)] ..
  show "check_string_kw R k v path = check_string_kw R k w path"
    and "check_number_kw k v path = check_number_kw k w path"
    using assms(1) by (cases v; cases w; auto simp: check_string_kw_def check_number_kw_def)+
qed

lemma check_object_with_order:
  assumes eq: "json_eq (JObject a) (JObject b)" and wf: "wf_json (JObject a)" "wf_json (JObject b)"
    and chk: "\<And>p m v w q. ps = Some p \<Longrightarrow> m \<in> set p \<Longrightarrow> json_eq v w \<Longrightarrow> wf_json v \<Longrightarrow> wf_json w \<Longrightarrow>
      chk (snd m) v q = chk (snd m) w q"
  shows "check_object_with chk ps required additional mn mx a path =
    check_object_with chk ps required additional mn mx b path"
proof -
  have d: "distinct (map fst a)" "distinct (map fst b)" using wf by simp_all
  have none: "map_of a k = None \<longleftrightarrow> map_of b k = None" for k
    by (rule json_eq_object_None [OF eq d])
  have keys: "fst ` set a = fst ` set b" by (rule json_eq_object_keys [OF eq d])
  have len: "length a = length b" using eq by simp
  have "list_ex (\<lambda>m. P (fst m)) c = (\<exists>k\<in>fst ` set c. P k)" for P and c :: members
    by (auto simp: list_ex_iff)
  note ex = this [of "\<lambda>n. \<not> is_some_and (\<lambda>p. n \<in> fst ` set p) ps"]
  have each: "(case map_of a (fst m) of None \<Rightarrow> Ok () | Some v \<Rightarrow> chk (snd m) v (child path (fst m)))
      = (case map_of b (fst m) of None \<Rightarrow> Ok () | Some v \<Rightarrow> chk (snd m) v (child path (fst m)))"
    if mem: "m \<in> set (case ps of None \<Rightarrow> [] | Some p \<Rightarrow> p)" for m
  proof (cases "map_of a (fst m)")
    case None
    moreover from None have "map_of b (fst m) = None" using none [of "fst m"] by blast
    ultimately show ?thesis by (simp only: option.case)
  next
    case (Some v)
    from json_eq_object_lookup [OF eq Some] obtain w where w: "map_of b (fst m) = Some w" "json_eq v w"
      by blast
    have "wf_json v" "wf_json w"
      using wf_json_get [OF wf(1)] wf_json_get [OF wf(2)] Some w(1) by auto
    moreover obtain p where "ps = Some p" "m \<in> set p" using mem by (cases ps) auto
    ultimately have "chk (snd m) v (child path (fst m)) = chk (snd m) w (child path (fst m))"
      using chk w(2) by blast
    then show ?thesis using Some w(1) by simp
  qed
  show ?thesis
    unfolding check_object_with_def ex keys len none
    using try_each_cong [OF refl each, of "case ps of None \<Rightarrow> [] | Some p \<Rightarrow> p" "\<lambda>m. m"]
    by (simp split: list.splits)
qed

lemma try_each_list_all2:
  "list_all2 P xs ys \<Longrightarrow> (\<And>x y. x \<in> set xs \<Longrightarrow> y \<in> set ys \<Longrightarrow> P x y \<Longrightarrow> f x = g y) \<Longrightarrow>
     try_each f xs = try_each g ys"
proof (induction rule: list_all2_induct)
  case (Cons x xs y ys)
  have "f x = g y" using Cons.prems Cons.hyps by simp
  moreover have "try_each f xs = try_each g ys" using Cons by simp
  ultimately show ?case by simp
qed simp

lemma check_order_independent:
  "json_eq v w \<Longrightarrow> wf_json v \<Longrightarrow> wf_json w \<Longrightarrow> check R c v path task = check R c w path task"
proof (induction c arbitrary: v w path rule: measure_induct_rule [of size])
  case (less c)
  obtain k ps it where c: "c = Constraint k ps it" by (cases c)
  have obj: "check_object_with (\<lambda>c w p. check R c w p task) ps rs ad mn mx a path =
      check_object_with (\<lambda>c w p. check R c w p task) ps rs ad mn mx b path"
    if "v = JObject a" "w = JObject b" for a b rs ad mn mx
  proof (rule check_object_with_order)
    show "json_eq (JObject a) (JObject b)" "wf_json (JObject a)" "wf_json (JObject b)"
      using less.prems that by simp_all
    fix p m v w q
    assume p: "ps = Some p" "m \<in> set p" and "json_eq v w" "wf_json v" "wf_json w"
    moreover have "size (snd m) < size c" unfolding c p(1) by (rule size_property [OF p(2)])
    ultimately show "check R (snd m) v q task = check R (snd m) w q task"
      by (simp add: less.IH)
  qed
  have arr: "length a = length b \<and>
      (\<forall>d. it = Some d \<longrightarrow> try_each (\<lambda>x. check R d x (path @ ''/items'') task) a =
         try_each (\<lambda>x. check R d x (path @ ''/items'') task) b)"
    if "v = JArray a" "w = JArray b" for a b
  proof (intro conjI allI impI)
    have l: "list_all2 json_eq a b" using less.prems(1) that by (simp only: json_eq_array)
    then show "length a = length b" by (rule list_all2_lengthD)
    fix d assume d: "it = Some d"
    have "size d < size c" unfolding c d by (rule size_items)
    with less.IH less.prems(2,3) that show
      "try_each (\<lambda>x. check R d x (path @ ''/items'') task) a =
       try_each (\<lambda>x. check R d x (path @ ''/items'') task) b"
      by (intro try_each_list_all2 [OF l]) (auto simp: list_all_iff)
  qed
  consider (object) a b where "v = JObject a" "w = JObject b"
    | (array) a b where "v = JArray a" "w = JArray b"
    | (scalar) "v = w"
    using less.prems(1) json_eq_kinds [OF less.prems(1)] json_eq_scalar [of v w]
    by (cases v; cases w) auto
  then show ?case
  proof cases
    case object
    then show ?thesis
      unfolding c check.simps check_parts_cong [OF less.prems] using obj [OF object] by simp
  next
    case array
    then show ?thesis
      unfolding c check.simps check_parts_cong [OF less.prems] using arr [OF array]
      by (cases it) (simp_all add: check_items_bounds_def)
  qed simp
qed

end
