(* ===== verification/Namespaces.thy ===== *)
theory Namespaces
  imports Cloak_Prelude
begin

text \<open>
  The format identifiers of \<open>cloakpipe-release/src/namespace.rs\<close>: the \<open>apiVersion\<close> strings,
  the domain separators of hashes and signatures, and the readers' rule that a legacy object
  keeps the domain it was issued under.
\<close>

section \<open>Identifiers\<close>

definition NAMESPACE :: string where "NAMESPACE = ''cloakpipe.co''"
definition LEGACY_NAMESPACE :: string where "LEGACY_NAMESPACE = ''cloakpipe.dev''"
definition API_VERSION :: string where "API_VERSION = ''cloakpipe.co/v1alpha1''"
definition LEGACY_API_VERSION :: string where "LEGACY_API_VERSION = ''cloakpipe.dev/v1alpha1''"
definition AGENT_RELEASE_HASH_DOMAIN :: string where
  "AGENT_RELEASE_HASH_DOMAIN = ''cloakpipe.co/agent-release/v1''"
definition LEGACY_AGENT_RELEASE_HASH_DOMAIN :: string where
  "LEGACY_AGENT_RELEASE_HASH_DOMAIN = ''cloakpipe.dev/agent-release/v1''"
definition EVALUATION_RUN_HASH_DOMAIN :: string where
  "EVALUATION_RUN_HASH_DOMAIN = ''cloakpipe.co/evaluation-run/v1''"
definition LEGACY_EVALUATION_RUN_HASH_DOMAIN :: string where
  "LEGACY_EVALUATION_RUN_HASH_DOMAIN = ''cloakpipe.dev/evaluation-run/v1''"
definition CERTIFICATION_POLICY_HASH_DOMAIN :: string where
  "CERTIFICATION_POLICY_HASH_DOMAIN = ''cloakpipe.co/certification-policy/v1''"
definition LEGACY_CERTIFICATION_POLICY_HASH_DOMAIN :: string where
  "LEGACY_CERTIFICATION_POLICY_HASH_DOMAIN = ''cloakpipe.dev/certification-policy/v1''"
definition TOOL_CONTRACT_HASH_DOMAIN :: string where
  "TOOL_CONTRACT_HASH_DOMAIN = ''cloakpipe.co/tool-contract/v1''"
definition LEGACY_TOOL_CONTRACT_HASH_DOMAIN :: string where
  "LEGACY_TOOL_CONTRACT_HASH_DOMAIN = ''cloakpipe.dev/tool-contract/v1''"
definition TOOL_CALL_FINGERPRINT_DOMAIN :: string where
  "TOOL_CALL_FINGERPRINT_DOMAIN = ''cloakpipe.co/tool-call/v1''"
definition OPERATION_ID_DOMAIN :: string where
  "OPERATION_ID_DOMAIN = ''cloakpipe.co/operation/v1''"
definition IDEMPOTENCY_KEY_OPERATION_ID_DOMAIN :: string where
  "IDEMPOTENCY_KEY_OPERATION_ID_DOMAIN = ''cloakpipe.co/operation/idempotency-key/v1''"
definition RELEASE_AUDIT_PACK_SIGNING_DOMAIN :: string where
  "RELEASE_AUDIT_PACK_SIGNING_DOMAIN = ''cloakpipe.co/release-audit-pack/v1alpha1''"
definition LEGACY_RELEASE_AUDIT_PACK_SIGNING_DOMAIN :: string where
  "LEGACY_RELEASE_AUDIT_PACK_SIGNING_DOMAIN = ''cloakpipe.dev/release-audit-pack/v1alpha1''"
definition AGENT_RELEASE_PREDICATE_TYPE :: string where
  "AGENT_RELEASE_PREDICATE_TYPE = ''https://cloakpipe.co/attestations/agent-release/v1alpha1''"
definition LEGACY_AGENT_RELEASE_PREDICATE_TYPE :: string where
  "LEGACY_AGENT_RELEASE_PREDICATE_TYPE =
     ''https://cloakpipe.dev/attestations/agent-release/v1alpha1''"
definition CERTIFICATION_PREDICATE_TYPE :: string where
  "CERTIFICATION_PREDICATE_TYPE = ''https://cloakpipe.co/attestations/certification/v1alpha1''"
definition LEGACY_CERTIFICATION_PREDICATE_TYPE :: string where
  "LEGACY_CERTIFICATION_PREDICATE_TYPE =
     ''https://cloakpipe.dev/attestations/certification/v1alpha1''"
definition APPROVAL_PREDICATE_TYPE :: string where
  "APPROVAL_PREDICATE_TYPE = ''https://cloakpipe.co/attestations/approval/v1alpha1''"

lemmas namespace_id_defs =
  NAMESPACE_def LEGACY_NAMESPACE_def API_VERSION_def LEGACY_API_VERSION_def
  AGENT_RELEASE_HASH_DOMAIN_def LEGACY_AGENT_RELEASE_HASH_DOMAIN_def
  EVALUATION_RUN_HASH_DOMAIN_def LEGACY_EVALUATION_RUN_HASH_DOMAIN_def
  CERTIFICATION_POLICY_HASH_DOMAIN_def LEGACY_CERTIFICATION_POLICY_HASH_DOMAIN_def
  TOOL_CONTRACT_HASH_DOMAIN_def LEGACY_TOOL_CONTRACT_HASH_DOMAIN_def
  TOOL_CALL_FINGERPRINT_DOMAIN_def OPERATION_ID_DOMAIN_def
  IDEMPOTENCY_KEY_OPERATION_ID_DOMAIN_def RELEASE_AUDIT_PACK_SIGNING_DOMAIN_def
  LEGACY_RELEASE_AUDIT_PACK_SIGNING_DOMAIN_def AGENT_RELEASE_PREDICATE_TYPE_def
  LEGACY_AGENT_RELEASE_PREDICATE_TYPE_def CERTIFICATION_PREDICATE_TYPE_def
  LEGACY_CERTIFICATION_PREDICATE_TYPE_def APPROVAL_PREDICATE_TYPE_def

section \<open>Namespaces\<close>

datatype namespace = Current | Legacy

definition NAMESPACE_ALL :: "namespace list" where
  "NAMESPACE_ALL = [Current, Legacy]"

fun ns_pick :: "namespace \<Rightarrow> string \<Rightarrow> string \<Rightarrow> string" where
  "ns_pick Current current legacy = current"
| "ns_pick Legacy current legacy = legacy"

definition ns_domain :: "namespace \<Rightarrow> string" where
  "ns_domain ns = ns_pick ns NAMESPACE LEGACY_NAMESPACE"
definition ns_api_version :: "namespace \<Rightarrow> string" where
  "ns_api_version ns = ns_pick ns API_VERSION LEGACY_API_VERSION"
definition agent_release_hash_domain :: "namespace \<Rightarrow> string" where
  "agent_release_hash_domain ns =
     ns_pick ns AGENT_RELEASE_HASH_DOMAIN LEGACY_AGENT_RELEASE_HASH_DOMAIN"
definition evaluation_run_hash_domain :: "namespace \<Rightarrow> string" where
  "evaluation_run_hash_domain ns =
     ns_pick ns EVALUATION_RUN_HASH_DOMAIN LEGACY_EVALUATION_RUN_HASH_DOMAIN"
definition certification_policy_hash_domain :: "namespace \<Rightarrow> string" where
  "certification_policy_hash_domain ns =
     ns_pick ns CERTIFICATION_POLICY_HASH_DOMAIN LEGACY_CERTIFICATION_POLICY_HASH_DOMAIN"
definition tool_contract_hash_domain :: "namespace \<Rightarrow> string" where
  "tool_contract_hash_domain ns =
     ns_pick ns TOOL_CONTRACT_HASH_DOMAIN LEGACY_TOOL_CONTRACT_HASH_DOMAIN"
definition release_audit_pack_signing_domain :: "namespace \<Rightarrow> string" where
  "release_audit_pack_signing_domain ns =
     ns_pick ns RELEASE_AUDIT_PACK_SIGNING_DOMAIN LEGACY_RELEASE_AUDIT_PACK_SIGNING_DOMAIN"
definition agent_release_predicate_type :: "namespace \<Rightarrow> string" where
  "agent_release_predicate_type ns =
     ns_pick ns AGENT_RELEASE_PREDICATE_TYPE LEGACY_AGENT_RELEASE_PREDICATE_TYPE"
definition certification_predicate_type :: "namespace \<Rightarrow> string" where
  "certification_predicate_type ns =
     ns_pick ns CERTIFICATION_PREDICATE_TYPE LEGACY_CERTIFICATION_PREDICATE_TYPE"

definition of_api_version :: "string \<Rightarrow> namespace option" where
  "of_api_version v = List.find (\<lambda>ns. ns_api_version ns = v) NAMESPACE_ALL"

definition for_hashing :: "string \<Rightarrow> namespace" where
  "for_hashing v = (case of_api_version v of Some ns \<Rightarrow> ns | None \<Rightarrow> Current)"

definition is_known_api_version :: "string \<Rightarrow> bool" where
  "is_known_api_version v \<longleftrightarrow> of_api_version v \<noteq> None"

definition is_known_agent_release_predicate_type :: "string \<Rightarrow> bool" where
  "is_known_agent_release_predicate_type p \<longleftrightarrow>
     list_ex (\<lambda>ns. agent_release_predicate_type ns = p) NAMESPACE_ALL"

definition is_known_certification_predicate_type :: "string \<Rightarrow> bool" where
  "is_known_certification_predicate_type p \<longleftrightarrow>
     list_ex (\<lambda>ns. certification_predicate_type ns = p) NAMESPACE_ALL"

section \<open>Lemmas\<close>

lemma of_api_version_eq: "of_api_version v = Some ns \<longleftrightarrow> v = ns_api_version ns"
  by (cases ns) (auto simp: of_api_version_def NAMESPACE_ALL_def ns_api_version_def
      API_VERSION_def LEGACY_API_VERSION_def)

lemma is_known_api_version_iff:
  "is_known_api_version v \<longleftrightarrow> v = API_VERSION \<or> v = LEGACY_API_VERSION"
  by (auto simp: is_known_api_version_def of_api_version_def NAMESPACE_ALL_def ns_api_version_def)

lemma for_hashing_api_version [simp]: "for_hashing (ns_api_version ns) = ns"
  using of_api_version_eq [of "ns_api_version ns" ns] by (simp add: for_hashing_def)

lemma for_hashing_unknown: "\<not> is_known_api_version v \<Longrightarrow> for_hashing v = Current"
  by (simp add: for_hashing_def is_known_api_version_def)

text \<open>The domain separators that precede a newline and the hashed or signed bytes: every kind
  of object, in each namespace it exists in.\<close>

definition hash_domains :: "string list" where
  "hash_domains =
     map agent_release_hash_domain NAMESPACE_ALL @ map evaluation_run_hash_domain NAMESPACE_ALL
     @ map certification_policy_hash_domain NAMESPACE_ALL
     @ map tool_contract_hash_domain NAMESPACE_ALL
     @ map release_audit_pack_signing_domain NAMESPACE_ALL
     @ [TOOL_CALL_FINGERPRINT_DOMAIN, OPERATION_ID_DOMAIN, IDEMPOTENCY_KEY_OPERATION_ID_DOMAIN]"

lemmas ns_domain_defs = agent_release_hash_domain_def evaluation_run_hash_domain_def
  certification_policy_hash_domain_def tool_contract_hash_domain_def
  release_audit_pack_signing_domain_def

lemma hash_domains_distinct: "distinct hash_domains"
  by code_simp

lemma hash_domains_no_newline: "d \<in> set hash_domains \<Longrightarrow> CHR 0x0A \<notin> set d"
proof -
  have "list_all (\<lambda>d. CHR 0x0A \<notin> set d) hash_domains" by code_simp
  then show "d \<in> set hash_domains \<Longrightarrow> CHR 0x0A \<notin> set d" by (simp add: list_all_iff)
qed

text \<open>The bytes hashed for one kind of object, \<open>domain || "\n" || body\<close>, never coincide with
  those of another kind: the domain is what stands before the first newline.\<close>

lemma domain_separated_inject:
  assumes "d \<in> set hash_domains" "e \<in> set hash_domains"
    and "d @ CHR 0x0A # x = e @ CHR 0x0A # y"
  shows "d = e \<and> x = y"
proof -
  have "split_once (CHR 0x0A) (d @ CHR 0x0A # x) = Some (d, x)"
    and "split_once (CHR 0x0A) (e @ CHR 0x0A # y) = Some (e, y)"
    by (simp_all only: split_once_append hash_domains_no_newline [OF assms(1)]
        hash_domains_no_newline [OF assms(2)] not_False_eq_True)
  with assms(3) have "Some (d, x) = Some (e, y)" by metis
  then show ?thesis by blast
qed

end
