(* ===== verification/Reference.thy ===== *)
theory Reference
  imports Cloak_Prelude
begin

text \<open>
  The artifact reference grammar \<open><kind>:<name>@<version>\<close> of
  \<open>cloakpipe-release/src/reference.rs\<close>, with its moving-label rule: only content digests and
  \<open>v?<digit>...\<close> versions are immutable.
\<close>

section \<open>Model\<close>

datatype ref_kind = RPrompt | RModel | RTool | RMcp | RRetrieval | RPolicy

fun ref_kind_as_str :: "ref_kind \<Rightarrow> string" where
  "ref_kind_as_str RPrompt = ''prompt''"
| "ref_kind_as_str RModel = ''model''"
| "ref_kind_as_str RTool = ''tool''"
| "ref_kind_as_str RMcp = ''mcp''"
| "ref_kind_as_str RRetrieval = ''retrieval''"
| "ref_kind_as_str RPolicy = ''policy''"

definition ref_kind_parse :: "string \<Rightarrow> ref_kind option" where
  "ref_kind_parse s =
     (if s = ''prompt'' then Some RPrompt
      else if s = ''model'' then Some RModel
      else if s = ''tool'' then Some RTool
      else if s = ''mcp'' then Some RMcp
      else if s = ''retrieval'' then Some RRetrieval
      else if s = ''policy'' then Some RPolicy
      else None)"

record reference =
  ref_kind :: ref_kind
  ref_name :: string
  ref_version :: string

datatype ref_error = Malformed | Mutable

definition name_start_char :: "char \<Rightarrow> bool" where
  [str_simps]: "name_start_char c \<longleftrightarrow> is_ascii_lowercase c \<or> is_ascii_digit c"

definition name_char :: "char \<Rightarrow> bool" where
  [str_simps]: "name_char c \<longleftrightarrow> is_ascii_lowercase c \<or> is_ascii_digit c \<or> c \<in> set ''._/-''"

fun is_valid_name :: "string \<Rightarrow> bool" where
  "is_valid_name [] = False"
| "is_valid_name (c # cs) = (name_start_char c \<and> list_all name_char cs)"

definition is_lower_hex :: "string \<Rightarrow> nat \<Rightarrow> nat \<Rightarrow> bool" where
  [str_simps]: "is_lower_hex s lo hi \<longleftrightarrow>
     lo \<le> length s \<and> length s \<le> hi \<and> list_all is_lower_hex_char s"

definition version_char :: "char \<Rightarrow> bool" where
  [str_simps]: "version_char c \<longleftrightarrow> is_ascii_alphanumeric c \<or> c \<in> set ''._+-''"

definition is_valid_version :: "string \<Rightarrow> bool" where
  "is_valid_version s =
     (case strip_prefix ''sha256:'' s of
        Some hex \<Rightarrow> is_lower_hex hex 64 64
      | None \<Rightarrow> s \<noteq> [] \<and> list_all version_char s)"

definition is_immutable_version :: "string \<Rightarrow> bool" where
  "is_immutable_version s =
     (if starts_with ''sha256:'' s then True
      else (case (case strip_prefix ''v'' s of Some r \<Rightarrow> r | None \<Rightarrow> s) of
              [] \<Rightarrow> False | c # _ \<Rightarrow> is_ascii_digit c))"

definition reference_parse :: "string \<Rightarrow> ref_error + reference" where
  "reference_parse s =
     (case split_once (CHR '':'') s of
        None \<Rightarrow> Err Malformed
      | Some (k, rest) \<Rightarrow>
          (case ref_kind_parse k of
             None \<Rightarrow> Err Malformed
           | Some kind \<Rightarrow>
               (case split_once (CHR ''@'') rest of
                  None \<Rightarrow> Err (if is_valid_name rest then Mutable else Malformed)
                | Some (name, version) \<Rightarrow>
                    if \<not> is_valid_name name \<or> \<not> is_valid_version version then Err Malformed
                    else if \<not> is_immutable_version version then Err Mutable
                    else Ok \<lparr>ref_kind = kind, ref_name = name, ref_version = version\<rparr>)))"

definition reference_key :: "reference \<Rightarrow> string" where
  "reference_key r = ref_kind_as_str (ref_kind r) @ '':'' @ ref_name r"

text \<open>\<open>key_of\<close>: the matching key of a raw reference string.\<close>

definition key_of :: "string \<Rightarrow> string" where
  "key_of raw = (case split_once (CHR ''@'') raw of Some (k, _) \<Rightarrow> k | None \<Rightarrow> raw)"

section \<open>Lemmas\<close>

lemma ref_kind_parse_eq_Some [simp]: "ref_kind_parse s = Some k \<longleftrightarrow> s = ref_kind_as_str k"
  by (cases k) (auto simp: ref_kind_parse_def split: if_splits)

lemma ref_kind_parse_as_str [simp]: "ref_kind_parse (ref_kind_as_str k) = Some k"
  by simp

lemma ref_kind_as_str_inject [simp]: "ref_kind_as_str a = ref_kind_as_str b \<longleftrightarrow> a = b"
  using ref_kind_parse_eq_Some by (metis option.inject)

lemma ref_kind_no_colon: "CHR '':'' \<notin> set (ref_kind_as_str k)"
  by (cases k) simp_all

lemma name_char_not_special: "name_char c \<Longrightarrow> c \<noteq> CHR ''@'' \<and> c \<noteq> CHR '':''"
  by (auto simp: str_simps)

lemma valid_name_no_special:
  assumes "is_valid_name s"
  shows "CHR ''@'' \<notin> set s" and "CHR '':'' \<notin> set s"
proof -
  have "\<forall>c\<in>set s. name_char c"
    using assms by (cases s) (auto simp: name_start_char_def name_char_def list_all_iff)
  then show "CHR ''@'' \<notin> set s" and "CHR '':'' \<notin> set s"
    using name_char_not_special by blast+
qed

text \<open>The text a parsed reference stands for.\<close>

definition reference_text :: "reference \<Rightarrow> string" where
  "reference_text r = reference_key r @ ''@'' @ ref_version r"

definition pinned_reference :: "reference \<Rightarrow> bool" where
  "pinned_reference r \<longleftrightarrow>
     is_valid_name (ref_name r) \<and> is_valid_version (ref_version r)
     \<and> is_immutable_version (ref_version r)"

lemma reference_parse_OkD:
  assumes "reference_parse s = Ok r"
  shows "s = reference_text r \<and> pinned_reference r"
  using assms
  by (auto simp: reference_parse_def reference_text_def reference_key_def pinned_reference_def
      split_once_eq_Some split: option.splits prod.splits if_splits)

lemma reference_parse_text:
  assumes "pinned_reference r"
  shows "reference_parse (reference_text r) = Ok r"
proof -
  have "CHR ''@'' \<notin> set (ref_name r)"
    using assms valid_name_no_special(1) by (simp add: pinned_reference_def)
  with assms show ?thesis
    by (simp add: reference_parse_def reference_text_def reference_key_def pinned_reference_def
        ref_kind_no_colon del: ref_kind_parse_eq_Some)
qed

lemma reference_parse_eq_Ok:
  "reference_parse s = Ok r \<longleftrightarrow> s = reference_text r \<and> pinned_reference r"
  using reference_parse_OkD reference_parse_text by blast

text \<open>The key of a parsed reference is what \<open>key_of\<close> reads off the raw text.\<close>

lemma key_of_reference:
  assumes "reference_parse s = Ok r"
  shows "key_of s = reference_key r"
proof -
  have "CHR ''@'' \<notin> set (reference_key r)"
    using reference_parse_OkD [OF assms] valid_name_no_special(1) [of "ref_name r"]
    by (cases "ref_kind r") (auto simp: reference_key_def pinned_reference_def)
  with reference_parse_OkD [OF assms] show ?thesis
    by (simp add: key_of_def reference_text_def)
qed

text \<open>A word that does not start with a digit (after an optional \<open>v\<close>) is a moving label.\<close>

lemma immutable_version_cases:
  "is_immutable_version s \<longleftrightarrow>
     (\<exists>h. s = ''sha256:'' @ h)
     \<or> (\<exists>c r. is_ascii_digit c \<and> (s = c # r \<or> s = CHR ''v'' # c # r))"
proof (cases "starts_with ''sha256:'' s")
  case True
  then show ?thesis by (simp add: is_immutable_version_def starts_with_iff)
next
  case False
  have v: "strip_prefix ''v'' s = (case s of [] \<Rightarrow> None | c # r \<Rightarrow> if c = CHR ''v'' then Some r else None)"
    by (cases s) auto
  have "\<not> is_ascii_digit (CHR ''v'')" by (simp add: is_ascii_digit_def)
  with False v show ?thesis
    by (auto simp: is_immutable_version_def starts_with_iff split: list.splits if_splits)
qed

interpretation ref_codec: text_codec "\<lambda>s. result_ok (reference_parse s)" reference_text pinned_reference
  by unfold_locales (simp add: result_ok_def reference_parse_eq_Ok [symmetric] split: sum.split)

interpretation kind_codec: text_codec ref_kind_parse ref_kind_as_str "\<lambda>_. True"
  by unfold_locales simp

end
