(* ===== verification/Digests.thy ===== *)
theory Digests
  imports Json Namespaces Reference
begin

text \<open>
  Digests and the identifiers derived from them (\<open>cloakpipe-release/src/canonical.rs\<close> and
  \<open>action.rs\<close>): the text form of a release hash, the fingerprint of a tool call and the two
  derived operation ids.

  SHA-256, HMAC-SHA256 and the RFC 8785 encoder are third-party code: the record \<open>digests\<close>
  stands for them. A digest is the string of its bytes.
\<close>

record digests =
  dg_sha256 :: "string \<Rightarrow> string"
  dg_hmac :: "string \<Rightarrow> string \<Rightarrow> string"
  dg_jcs :: "json \<Rightarrow> string"

section \<open>The text of a release hash\<close>

type_synonym release_hash = string

definition hash_display :: "release_hash \<Rightarrow> string" where
  "hash_display h = ''sha256:'' @ hex_encode h"

text \<open>\<open>from_str\<close>: the prefix, then 64 lowercase hex digits.\<close>

definition hash_parse :: "string \<Rightarrow> release_hash option" where
  "hash_parse s =
     Option.bind (strip_prefix ''sha256:'' s)
       (\<lambda>hex. if \<not> is_lower_hex hex 64 64 then None else hex_decode hex)"

text \<open>A fingerprint also parses from the bare digits.\<close>

definition fingerprint_parse :: "string \<Rightarrow> string option" where
  "fingerprint_parse s =
     hash_parse (if starts_with ''sha256:'' s then s else ''sha256:'' @ s)"

section \<open>Fingerprints and operation ids\<close>

definition call_document :: "release_hash \<Rightarrow> string \<Rightarrow> json \<Rightarrow> json" where
  "call_document release tool arguments =
     JObject [(''release'', JString (hash_display release)), (''tool'', JString tool),
              (''arguments'', arguments)]"

definition fingerprint :: "digests \<Rightarrow> release_hash \<Rightarrow> string \<Rightarrow> json \<Rightarrow> string" where
  "fingerprint D release tool arguments =
     dg_sha256 D (TOOL_CALL_FINGERPRINT_DOMAIN @ [CHR 0x0A]
       @ dg_jcs D (call_document release tool arguments))"

definition op_id :: "string \<Rightarrow> string" where
  "op_id mac = ''op-'' @ take 32 (hex_encode mac)"

definition operation_id_input :: "string \<Rightarrow> string \<Rightarrow> string" where
  "operation_id_input task_id fp =
     OPERATION_ID_DOMAIN @ [CHR 0x0A] @ task_id @ [CHR 0x0A] @ hex_encode fp"

definition derive_operation_id :: "digests \<Rightarrow> string \<Rightarrow> string \<Rightarrow> string \<Rightarrow> string" where
  "derive_operation_id D key task_id fp = op_id (dg_hmac D key (operation_id_input task_id fp))"

definition idempotent_fields :: "string \<Rightarrow> string \<Rightarrow> string \<Rightarrow> json" where
  "idempotent_fields release tool rendered_key =
     JArray [JString IDEMPOTENCY_KEY_OPERATION_ID_DOMAIN, JString release, JString tool,
             JString rendered_key]"

definition derive_idempotent_operation_id ::
  "digests \<Rightarrow> string \<Rightarrow> string \<Rightarrow> string \<Rightarrow> string \<Rightarrow> string" where
  "derive_idempotent_operation_id D key release tool rendered_key =
     op_id (dg_hmac D key (dg_jcs D (idempotent_fields release tool rendered_key)))"

section \<open>What the proofs assume of the hash functions\<close>

text \<open>
  Two inputs do not collide, and the canonical encoding tells two documents apart. Both are
  stated for the values a theorem talks about: no function into 32 bytes is injective.
\<close>

definition no_collision :: "(string \<Rightarrow> string) \<Rightarrow> string \<Rightarrow> string \<Rightarrow> bool" where
  "no_collision h x y \<longleftrightarrow> (h x = h y \<longrightarrow> x = y)"

definition jcs_separates :: "(json \<Rightarrow> string) \<Rightarrow> json \<Rightarrow> json \<Rightarrow> bool" where
  "jcs_separates e v w \<longleftrightarrow> (e v = e w \<longrightarrow> json_eq v w)"

section \<open>Round trips\<close>

lemma is_lower_hex_encode:
  "length h = 32 \<Longrightarrow> is_lower_hex (hex_encode h) 64 64"
  using hex_encode_lower [of _ h] by (auto simp: is_lower_hex_def list_all_iff is_lower_hex_char_def)

lemma hex_value_lower:
  assumes "is_lower_hex_char c"
  shows "\<exists>n<16. hex_value c = Some n \<and> hex_digit n = c"
proof (cases "is_ascii_digit c")
  case True
  then have "48 + (byte_of c - 48) = byte_of c" "byte_of c - 48 < 10"
    by (auto simp: is_ascii_digit_def)
  then show ?thesis
    using True by (intro exI [of _ "byte_of c - 48"]) (simp add: hex_value_def hex_digit_def)
next
  case False
  with assms have r: "97 \<le> byte_of c" "byte_of c \<le> 102" by (simp_all add: is_lower_hex_char_def)
  then have "87 + (byte_of c - 87) = byte_of c" "\<not> byte_of c - 87 < 10" "byte_of c - 87 < 16" by simp_all
  then show ?thesis
    using False r by (intro exI [of _ "byte_of c - 87"]) (simp add: hex_value_def hex_digit_def)
qed

lemma hex_encode_decode:
  "(\<forall>c\<in>set s. is_lower_hex_char c) \<Longrightarrow> hex_decode s = Some h \<Longrightarrow> hex_encode h = s"
proof (induction s arbitrary: h rule: hex_decode.induct)
  case (3 a b s)
  from 3(2) obtain x y where "x < 16" "hex_value a = Some x" "hex_digit x = a"
    "y < 16" "hex_value b = Some y" "hex_digit y = b"
    using hex_value_lower [of a] hex_value_lower [of b] by auto
  moreover from this 3(3) obtain r where "hex_decode s = Some r" "h = char_of (16 * x + y) # r"
    by (auto split: option.splits)
  ultimately show ?case using 3(1,2) by (simp add: hex_byte_def byte_of_char_of)
qed simp_all

lemma hex_decode_total:
  "(\<forall>c\<in>set s. is_lower_hex_char c) \<Longrightarrow> even (length s) \<Longrightarrow>
     \<exists>h. hex_decode s = Some h \<and> 2 * length h = length s"
proof (induction s rule: hex_decode.induct)
  case (3 a b s)
  from 3(2) obtain x y where "hex_value a = Some x" "hex_value b = Some y"
    using hex_value_lower [of a] hex_value_lower [of b] by auto
  with 3 show ?case by auto
qed simp_all

lemma hash_parse_iff: "hash_parse s = Some h \<longleftrightarrow> s = hash_display h \<and> length h = 32"
proof
  assume "hash_parse s = Some h"
  then obtain hex where s: "s = ''sha256:'' @ hex" "is_lower_hex hex 64 64" "hex_decode hex = Some h"
    by (auto simp: hash_parse_def Option.bind_eq_Some_conv split: if_splits)
  from s(2) have "\<forall>c\<in>set hex. is_lower_hex_char c" "length hex = 64"
    by (auto simp: is_lower_hex_def list_all_iff)
  with s hex_encode_decode [of hex h] hex_decode_total [of hex] show "s = hash_display h \<and> length h = 32"
    by (auto simp: hash_display_def)
next
  assume "s = hash_display h \<and> length h = 32"
  then show "hash_parse s = Some h"
    using is_lower_hex_encode [of h] by (simp add: hash_parse_def hash_display_def)
qed

interpretation hash_codec: text_codec hash_parse hash_display "\<lambda>h. length h = 32"
  by unfold_locales (rule hash_parse_iff)

lemma hash_display_inject [simp]: "hash_display a = hash_display b \<longleftrightarrow> a = b"
  by (simp add: hash_display_def)

section \<open>What a fingerprint and an operation id bind\<close>

lemma call_document_eq:
  "json_eq (call_document r t a) (call_document r' t' a') \<longleftrightarrow> r = r' \<and> t = t' \<and> json_eq a a'"
  by (auto simp: call_document_def)

lemma fingerprint_binds:
  assumes "no_collision (dg_sha256 D)
      (TOOL_CALL_FINGERPRINT_DOMAIN @ [CHR 0x0A] @ dg_jcs D (call_document r t a))
      (TOOL_CALL_FINGERPRINT_DOMAIN @ [CHR 0x0A] @ dg_jcs D (call_document r' t' a'))"
    and "jcs_separates (dg_jcs D) (call_document r t a) (call_document r' t' a')"
    and "fingerprint D r t a = fingerprint D r' t' a'"
  shows "r = r' \<and> t = t' \<and> json_eq a a'"
  using assms by (simp add: no_collision_def jcs_separates_def fingerprint_def call_document_eq)

lemma operation_id_input_inject:
  assumes "length fp = 32" "length fp' = 32"
  shows "operation_id_input t fp = operation_id_input t' fp' \<longleftrightarrow> t = t' \<and> fp = fp'"
proof
  assume "operation_id_input t fp = operation_id_input t' fp'"
  then have "(t @ [CHR 0x0A]) @ hex_encode fp = (t' @ [CHR 0x0A]) @ hex_encode fp'"
    by (simp add: operation_id_input_def)
  then show "t = t' \<and> fp = fp'"
    using assms by (subst (asm) append_eq_append_conv) simp_all
qed simp

lemma length_op_id: "length mac = 32 \<Longrightarrow> length (op_id mac) = 35"
  by (simp add: op_id_def)

end
