(* ===== verification/Tool_Contract.thy ===== *)
theory Tool_Contract
  imports Condition Contract_Spec Digests
begin

text \<open>
  Tool contracts (\<open>cloakpipe-release/src/contract.rs\<close>): the rules of one tool, the contract
  document that holds them, its load-time validation, its digest and the \<open>spec.policies\<close>
  reference that binds it, and the reader that refuses duplicate keys.

  The derived deserializer (serde) is the parameter \<open>decode\<close>: it turns a JSON value into the
  contract's fields or an error.
\<close>

section \<open>Rules of one tool\<close>

record tool_rule =
  tr_side_effect :: bool
  tr_requires_approval :: bool
  tr_arguments :: props
  tr_required :: "string list"
  tr_effect :: "effect option"
  tr_idempotency_key :: "idempotency_key option"
  tr_approval :: "approval_rule option"

definition needs_approval :: "tool_rule \<Rightarrow> json option \<Rightarrow> bool" where
  "needs_approval r arguments =
     (if \<not> tr_requires_approval r then False
      else (case Option.bind (tr_approval r) ar_when of
              Some cond \<Rightarrow> cond_matches cond (case arguments of Some a \<Rightarrow> a | None \<Rightarrow> JNull)
            | None \<Rightarrow> True))"

text \<open>Absent arguments are an empty object; anything else that is no object is invalid.\<close>

definition rule_check ::
  "regex_ops \<Rightarrow> tool_rule \<Rightarrow> json option \<Rightarrow> json option \<Rightarrow> violation + unit" where
  "rule_check R r arguments task =
     (case arguments of
        None \<Rightarrow> check_object R (Some (tr_arguments r)) (tr_required r) False None None [] [] task
      | Some (JObject obj) \<Rightarrow>
          check_object R (Some (tr_arguments r)) (tr_required r) False None None obj [] task
      | Some _ \<Rightarrow> Err (violation_at ArgumentInvalid []))"

section \<open>Contracts\<close>

definition CONTRACT_KIND :: string where "CONTRACT_KIND = ''ToolContract''"
definition POLICY_NAME_PREFIX :: string where "POLICY_NAME_PREFIX = ''tool-contract/''"

record tool_contract =
  tc_api_version :: string
  tc_kind :: string
  tc_name :: string
  tc_tools :: "(string \<times> tool_rule) list"
  tc_raw :: json

datatype contract_error =
    ContractSyntax string
  | UnsupportedApiVersion string
  | WrongKind string
  | BadContractName string
  | NoTools
  | EmptyToolName
  | RequiredArgumentNotDeclared string string
  | BadConstraint string constraint_error

definition contract_digest :: "digests \<Rightarrow> tool_contract \<Rightarrow> release_hash" where
  "contract_digest D c =
     dg_sha256 D (tool_contract_hash_domain (for_hashing (tc_api_version c)) @ [CHR 0x0A]
       @ dg_jcs D (tc_raw c))"

definition policy_ref :: "digests \<Rightarrow> tool_contract \<Rightarrow> string" where
  "policy_ref D c =
     ''policy:'' @ POLICY_NAME_PREFIX @ tc_name c @ ''@'' @ hash_display (contract_digest D c)"

definition is_tool_contract_ref :: "string \<Rightarrow> bool" where
  "is_tool_contract_ref s =
     (case reference_parse s of
        Inl _ \<Rightarrow> False
      | Inr r \<Rightarrow> ref_kind r = RPolicy \<and> starts_with POLICY_NAME_PREFIX (ref_name r))"

definition validate_rule ::
  "regex_ops \<Rightarrow> string \<Rightarrow> tool_rule \<Rightarrow> contract_error + tool_rule" where
  "validate_rule R tool r =
     (if tool = [] then Err EmptyToolName
      else rbind (try_each (\<lambda>n. if n \<in> fst ` set (tr_arguments r) then Ok ()
                               else Err (RequiredArgumentNotDeclared tool n)) (tr_required r)) (\<lambda>_.
           rbind (try_map (\<lambda>m. rbind (map_err (BadConstraint tool) (validate R (child [] (fst m)) (snd m)))
                    (\<lambda>c. Ok (fst m, c))) (tr_arguments r)) (\<lambda>args.
           Ok (r\<lparr>tr_arguments := args\<rparr>))))"

definition contract_validate ::
  "digests \<Rightarrow> regex_ops \<Rightarrow> tool_contract \<Rightarrow> contract_error + tool_contract" where
  "contract_validate D R c =
     (if \<not> is_known_api_version (tc_api_version c) then Err (UnsupportedApiVersion (tc_api_version c))
      else if tc_kind c \<noteq> CONTRACT_KIND then Err (WrongKind (tc_kind c))
      else if \<not> is_valid_name (tc_name c) \<or> \<not> is_ok (reference_parse (policy_ref D c))
      then Err (BadContractName (tc_name c))
      else if tc_tools c = [] then Err NoTools
      else rbind (try_map (\<lambda>t. rbind (validate_rule R (fst t) (snd t)) (\<lambda>r. Ok (fst t, r))) (tc_tools c))
             (\<lambda>tools. Ok (c\<lparr>tc_tools := tools\<rparr>)))"

definition contract_from_value ::
  "(json \<Rightarrow> contract_error + tool_contract) \<Rightarrow> digests \<Rightarrow> regex_ops \<Rightarrow> json
   \<Rightarrow> contract_error + tool_contract" where
  "contract_from_value decode D R raw =
     rbind (decode raw) (\<lambda>c. contract_validate D R (c\<lparr>tc_raw := raw\<rparr>))"

definition contract_rule :: "tool_contract \<Rightarrow> string \<Rightarrow> tool_rule option" where
  "contract_rule c tool = map_of (tc_tools c) tool"

definition contract_check ::
  "regex_ops \<Rightarrow> tool_contract \<Rightarrow> string \<Rightarrow> json option \<Rightarrow> json option \<Rightarrow> violation + unit" where
  "contract_check R c tool arguments task =
     (case contract_rule c tool of Some r \<Rightarrow> rule_check R r arguments task | None \<Rightarrow> Ok ())"

section \<open>The reader that refuses duplicate keys\<close>

text \<open>What a deserializer hands to \<open>StrictVisitor\<close>, in the order of the document.\<close>

datatype doc =
    DNull
  | DBool bool
  | DInt int
  | DFloat rat
  | DNonFinite
  | DStr string
  | DSeq "doc list"
  | DMap "(string \<times> doc) list"

datatype strict_error = DuplicateKey string | NonFinite

definition number_of_int :: "int \<Rightarrow> number" where
  "number_of_int i = (if 0 \<le> i then PosInt (nat i) else NegInt i)"

text \<open>The loop of \<open>visit_map\<close>: \<open>out\<close> is the map built so far, and a key is checked against it
  before its value is read.\<close>

fun visit_map :: "(doc \<Rightarrow> strict_error + json) \<Rightarrow> members \<Rightarrow> (string \<times> doc) list
    \<Rightarrow> strict_error + members" where
  "visit_map rd out [] = Ok out"
| "visit_map rd out (m # ms) =
     (if fst m \<in> fst ` set out then Err (DuplicateKey (fst m))
      else rbind (rd (snd m)) (\<lambda>v. visit_map rd (out @ [(fst m, v)]) ms))"

lemma visit_map_cong [fundef_cong]:
  "out = out' \<Longrightarrow> ms = ms' \<Longrightarrow> (\<And>m. m \<in> set ms' \<Longrightarrow> rd (snd m) = rd' (snd m)) \<Longrightarrow>
     visit_map rd out ms = visit_map rd' out' ms'"
proof (induction ms' arbitrary: ms out out')
  case (Cons m ms')
  then show ?case by (auto intro!: rbind_cong)
qed simp

function strict_value :: "doc \<Rightarrow> strict_error + json" where
  "strict_value DNull = Ok JNull"
| "strict_value (DBool b) = Ok (JBool b)"
| "strict_value (DInt i) = Ok (JNumber (number_of_int i))"
| "strict_value (DFloat q) = Ok (JNumber (Float q))"
| "strict_value DNonFinite = Err NonFinite"
| "strict_value (DStr s) = Ok (JString s)"
| "strict_value (DSeq ds) = rbind (try_map strict_value ds) (\<lambda>vs. Ok (JArray vs))"
| "strict_value (DMap ms) = rbind (visit_map strict_value [] ms) (\<lambda>obj. Ok (JObject obj))"
  by pat_completeness auto
termination
proof (relation "measure size")
  fix ms :: "(string \<times> doc) list" and m
  assume "m \<in> set ms"
  then show "(snd m, DMap ms) \<in> measure size"
    by (induction ms) (auto simp: less_Suc_eq_le)
qed (auto simp: less_Suc_eq_le size_list_estimation')

text \<open>The documents the reader takes, and the value they stand for.\<close>

fun strict_ok :: "doc \<Rightarrow> bool" where
  "strict_ok DNonFinite = False"
| "strict_ok (DSeq ds) = list_all strict_ok ds"
| "strict_ok (DMap ms) = (distinct (map fst ms) \<and> list_all (\<lambda>m. strict_ok (snd m)) ms)"
| "strict_ok _ = True"

fun doc_value :: "doc \<Rightarrow> json" where
  "doc_value (DBool b) = JBool b"
| "doc_value (DInt i) = JNumber (number_of_int i)"
| "doc_value (DFloat q) = JNumber (Float q)"
| "doc_value (DStr s) = JString s"
| "doc_value (DSeq ds) = JArray (map doc_value ds)"
| "doc_value (DMap ms) = JObject (map (\<lambda>m. (fst m, doc_value (snd m))) ms)"
| "doc_value _ = JNull"

lemma visit_map_Ok:
  "visit_map rd out ms = Inr obj \<longleftrightarrow>
     distinct (map fst ms) \<and> fst ` set ms \<inter> fst ` set out = {}
     \<and> (\<exists>vs. list_all2 (\<lambda>m v. rd (snd m) = Inr v) ms vs \<and> obj = out @ zip (map fst ms) vs)"
proof (induction ms arbitrary: out)
  case (Cons m ms)
  show ?case
    by (auto simp: Cons.IH list_all2_Cons1 image_iff) (fastforce simp: list_all2_Cons1)+
qed auto

lemma strict_value_iff:
  "strict_value d = Inr v \<longleftrightarrow> strict_ok d \<and> v = doc_value d"
proof (induction d arbitrary: v rule: strict_value.induct)
  case (7 ds)
  have "try_map strict_value ds = Inr vs \<longleftrightarrow> list_all strict_ok ds \<and> vs = map doc_value ds" for vs
    using 7 by (induction ds arbitrary: vs) auto
  then show ?case by auto
next
  case (8 ms)
  have "list_all2 (\<lambda>m v. strict_value (snd m) = Inr v) ms vs \<longleftrightarrow>
      list_all (\<lambda>m. strict_ok (snd m)) ms \<and> vs = map (\<lambda>m. doc_value (snd m)) ms" for vs
    using 8 by (induction ms arbitrary: vs) (auto simp: list_all2_Cons1)
  moreover have "zip (map fst ms) (map (\<lambda>m. doc_value (snd m)) ms) = map (\<lambda>m. (fst m, doc_value (snd m))) ms"
    by (induction ms) auto
  ultimately show ?case by (auto simp: visit_map_Ok)
qed auto

section \<open>What passes a rule\<close>

text \<open>The arguments a call carries: absent arguments are no arguments.\<close>

definition carried :: "json option \<Rightarrow> members \<Rightarrow> bool" where
  "carried arguments obj \<longleftrightarrow>
     arguments = Some (JObject obj) \<or> arguments = None \<and> obj = []"

lemma rule_check_carried:
  "rule_check R r arguments task = Inr () \<longleftrightarrow>
     (\<exists>obj. carried arguments obj
        \<and> check_object R (Some (tr_arguments r)) (tr_required r) False None None obj [] task = Inr ())"
  by (cases arguments) (auto simp: rule_check_def carried_def split: json.splits)

text \<open>The closed contract of a tool: every argument is declared, every required one is there, and
  each value conforms to its constraint.\<close>

definition args_allowed :: "regex_ops \<Rightarrow> json option \<Rightarrow> tool_rule \<Rightarrow> json option \<Rightarrow> bool" where
  "args_allowed R task r arguments \<longleftrightarrow>
     (\<exists>obj. carried arguments obj
        \<and> (\<forall>m\<in>set obj. fst m \<in> fst ` set (tr_arguments r))
        \<and> (\<forall>n\<in>set (tr_required r). n \<in> fst ` set obj)
        \<and> (\<forall>m\<in>set (tr_arguments r). \<forall>w. map_of obj (fst m) = Some w \<longrightarrow> conforms R task (snd m) w))"

lemma rule_check_iff: "rule_check R r arguments task = Inr () \<longleftrightarrow> args_allowed R task r arguments"
proof -
  have "check_object R (Some (tr_arguments r)) (tr_required r) False None None obj [] task = Inr () \<longleftrightarrow>
      (\<forall>m\<in>set obj. fst m \<in> fst ` set (tr_arguments r))
      \<and> (\<forall>n\<in>set (tr_required r). n \<in> fst ` set obj)
      \<and> (\<forall>m\<in>set (tr_arguments r). \<forall>w. map_of obj (fst m) = Some w \<longrightarrow> conforms R task (snd m) w)" for obj
    unfolding check_object_def check_object_with_Ok check_iff_conforms
    by (auto simp: object_shape_def declared_def within_bounds_def)
  then show ?thesis unfolding rule_check_carried args_allowed_def by simp
qed

lemma needs_approval_iff:
  "needs_approval r arguments \<longleftrightarrow> tr_requires_approval r
     \<and> (\<forall>c. Option.bind (tr_approval r) ar_when = Some c \<longrightarrow>
          cond_matches c (case arguments of Some a \<Rightarrow> a | None \<Rightarrow> JNull))"
  by (simp add: needs_approval_def split: option.split)

section \<open>Contract references\<close>

lemma prefixed_name:
  "is_valid_name n \<Longrightarrow> is_valid_name (POLICY_NAME_PREFIX @ n)"
  by (cases n) (auto simp: POLICY_NAME_PREFIX_def str_simps)

lemma sha256_version:
  assumes "length h = 32"
  shows "is_valid_version (hash_display h)" "is_immutable_version (hash_display h)"
  using is_lower_hex_encode [OF assms]
  by (simp_all add: is_valid_version_def is_immutable_version_def hash_display_def starts_with_iff)

lemma policy_ref_parse:
  assumes "is_valid_name (tc_name c)" "length (contract_digest D c) = 32"
  shows "reference_parse (policy_ref D c) = Ok \<lparr>ref_kind = RPolicy,
    ref_name = POLICY_NAME_PREFIX @ tc_name c, ref_version = hash_display (contract_digest D c)\<rparr>"
proof -
  let ?r = "\<lparr>ref_kind = RPolicy, ref_name = POLICY_NAME_PREFIX @ tc_name c,
    ref_version = hash_display (contract_digest D c)\<rparr>"
  have "pinned_reference ?r"
    using prefixed_name [OF assms(1)] sha256_version [OF assms(2)] by (simp add: pinned_reference_def)
  moreover have "policy_ref D c = reference_text ?r"
    by (simp add: policy_ref_def reference_text_def reference_key_def)
  ultimately show ?thesis using reference_parse_text by metis
qed

lemma tool_contract_hash_domain_member:
  "tool_contract_hash_domain ns \<in> set hash_domains"
  by (cases ns) (simp_all add: hash_domains_def NAMESPACE_ALL_def)

lemma policy_ref_inject:
  assumes "is_valid_name (tc_name c)" "is_valid_name (tc_name d)"
    and "length (contract_digest D c) = 32" "length (contract_digest D d) = 32"
    and "policy_ref D c = policy_ref D d"
  shows "tc_name c = tc_name d \<and> contract_digest D c = contract_digest D d"
  using policy_ref_parse [OF assms(1,3)] policy_ref_parse [OF assms(2,4)] assms(5) by simp

lemma contract_validate_OkD:
  assumes "contract_validate D R c = Ok d"
  shows "is_valid_name (tc_name d) \<and> is_known_api_version (tc_api_version d) \<and> tc_raw d = tc_raw c
    \<and> tc_name d = tc_name c \<and> tc_api_version d = tc_api_version c"
  using assms by (auto simp: contract_validate_def split: if_splits)

end
