(* ===== verification/Manifest_V1.thy ===== *)
theory Manifest_V1
  imports Tool_Contract
begin

text \<open>
  The single-file v1 manifest (\<open>cloakpipe-release/src/v1.rs\<close>): telling the formats apart, and
  compiling the tools of a manifest into the same rules a tool contract holds. The manifest's
  syntax (YAML, serde) is outside: a raw manifest is a record of the fields it deserializes to.
  Reading the policy file is the parameter \<open>read_policy\<close>.
\<close>

section \<open>Formats\<close>

datatype manifest_kind = V1 | LegacyKind

datatype detect_error = NotADocument | NotAMapping | BothKeys | NeitherKey

text \<open>\<open>doc\<close> is what the YAML reader gives, if it gives anything.\<close>

definition detect :: "json option \<Rightarrow> detect_error + manifest_kind" where
  "detect parsed =
     (case parsed of
        None \<Rightarrow> Err NotADocument
      | Some (JObject ms) \<Rightarrow>
          (case (''release'' \<in> fst ` set ms, ''apiVersion'' \<in> fst ` set ms) of
             (True, False) \<Rightarrow> Ok V1
           | (False, True) \<Rightarrow> Ok LegacyKind
           | (True, True) \<Rightarrow> Err BothKeys
           | (False, False) \<Rightarrow> Err NeitherKey)
      | Some _ \<Rightarrow> Err NotAMapping)"

section \<open>The raw manifest\<close>

record arg_kw =
  a_ty :: "json_type option"
  a_pattern :: "string option"
  a_one_of :: "json list option"
  a_constant :: "json option"
  a_min_len :: "nat option"
  a_max_len :: "nat option"
  a_min :: "number option"
  a_max :: "number option"
  a_required :: bool
  a_one_of_context :: "string list option"
  a_or_pattern :: "string option"

datatype arg_spec =
  ArgSpec (a_kw: arg_kw)
    (a_properties: "(string \<times> arg_spec) list option")
    (a_items: "arg_spec option")

record raw_approval =
  ra_when :: "string option"
  ra_approvers :: "string list"
  ra_ttl :: "string option"
  ra_show :: "string list"

record raw_tool =
  rt_args :: "(string \<times> arg_spec) list"
  rt_side_effect :: "bool option"
  rt_effect :: "effect option"
  rt_idempotency_key :: "string option"
  rt_approval :: "raw_approval option"

record raw_manifest =
  rm_release :: string
  rm_version :: json
  rm_policy :: "string option"
  rm_tools :: "(string \<times> raw_tool) list option"

datatype tool_error =
    NullType string
  | EffectsDisagree
  | BadArgument constraint_error
  | KeyOnReadOnlyTool
  | BadKeyTemplate template_error
  | KeyUsesUndeclared string
  | BadWhen condition_error
  | WhenUsesUndeclared string
  | EmptyApprover
  | BadTtl
  | ShowUndeclared string
  | ShowNotScalar string
  | ShowTwice string

section \<open>Compiling arguments\<close>

definition required_names :: "(string \<times> arg_spec) list \<Rightarrow> string list" where
  "required_names ps = map fst (filter (\<lambda>m. a_required (a_kw (snd m))) ps)"

definition compile_kw :: "arg_kw \<Rightarrow> string list option \<Rightarrow> constraint_kw" where
  "compile_kw a required =
     (let array = (a_ty a = Some TArray)
      in no_kw\<lparr>c_ty := a_ty a, c_one_of := a_one_of a, c_constant := a_constant a,
           c_min_length := (if array then None else a_min_len a),
           c_max_length := (if array then None else a_max_len a),
           c_pattern := a_pattern a, c_minimum := a_min a, c_maximum := a_max a,
           c_required := required,
           c_min_items := (if array then a_min_len a else None),
           c_max_items := (if array then a_max_len a else None),
           c_one_of_context := a_one_of_context a, c_or_pattern := a_or_pattern a\<rparr>)"

lemma size_arg_member:
  "m \<in> set ps \<Longrightarrow> size (snd m) < Suc (size_list (size_prod (\<lambda>_. 0) size) ps)"
  by (induction ps) (auto simp: less_Suc_eq_le)

function compile_arg :: "string \<Rightarrow> arg_spec \<Rightarrow> tool_error + constraint" where
  "compile_arg path (ArgSpec a ps it) =
     (if a_ty a = Some TNull then Err (NullType path)
      else rbind (try_option (\<lambda>ms. try_map (\<lambda>m.
              rbind (compile_arg (child path (fst m)) (snd m)) (\<lambda>c. Ok (fst m, c))) ms) ps) (\<lambda>ps'.
           rbind (try_option (compile_arg (path @ ''/items'')) it) (\<lambda>it'.
           Ok (Constraint (compile_kw a (map_option required_names ps)) ps' it'))))"
  by pat_completeness auto
termination
  by (relation "measure (\<lambda>(path, c). size c)") (auto dest!: size_arg_member)

declare compile_arg.simps [simp del]

section \<open>Compiling a tool\<close>

definition compile_effect :: "bool option \<Rightarrow> effect option \<Rightarrow> tool_error + effect option" where
  "compile_effect side_effect eff =
     (case (side_effect, eff) of
        (Some True, Some Read) \<Rightarrow> Err EffectsDisagree
      | (Some False, Some Write) \<Rightarrow> Err EffectsDisagree
      | (Some False, Some Irreversible) \<Rightarrow> Err EffectsDisagree
      | (_, Some e) \<Rightarrow> Ok (Some e)
      | (Some True, None) \<Rightarrow> Ok (Some Write)
      | (Some False, None) \<Rightarrow> Ok (Some Read)
      | (None, None) \<Rightarrow> Ok None)"

definition compile_argument :: "regex_ops \<Rightarrow> string \<times> arg_spec \<Rightarrow> tool_error + (string \<times> constraint)" where
  "compile_argument R m =
     rbind (compile_arg (child [] (fst m)) (snd m)) (\<lambda>c.
     rbind (map_err BadArgument (validate R (child [] (fst m)) c)) (\<lambda>c'. Ok (fst m, c')))"

text \<open>\<open>roots.find(|r| !arguments.contains_key(r))\<close>.\<close>

definition undeclared :: "props \<Rightarrow> string list \<Rightarrow> string option" where
  "undeclared args roots = List.find (\<lambda>r. r \<notin> fst ` set args) roots"

definition compile_key ::
  "bool \<Rightarrow> props \<Rightarrow> string option \<Rightarrow> tool_error + idempotency_key option" where
  "compile_key side_effect args src =
     (case src of
        None \<Rightarrow> Ok None
      | Some t \<Rightarrow>
          if \<not> side_effect then Err KeyOnReadOnlyTool
          else rbind (map_err BadKeyTemplate (idempotency_parse t)) (\<lambda>key.
               case undeclared args (ik_argument_roots key) of
                 Some r \<Rightarrow> Err (KeyUsesUndeclared r)
               | None \<Rightarrow> Ok (Some key)))"

definition compile_when ::
  "(string \<Rightarrow> number option) \<Rightarrow> props \<Rightarrow> string option \<Rightarrow> tool_error + condition option" where
  "compile_when num args src =
     (case src of
        None \<Rightarrow> Ok None
      | Some t \<Rightarrow>
          rbind (map_err BadWhen (condition_parse num t)) (\<lambda>c.
          case undeclared args (cond_argument_roots c) of
            Some r \<Rightarrow> Err (WhenUsesUndeclared r)
          | None \<Rightarrow> Ok (Some c)))"

text \<open>The loop over \<open>show\<close>; \<open>seen\<close> is the set of the names before.\<close>

fun check_show :: "props \<Rightarrow> string list \<Rightarrow> string list \<Rightarrow> tool_error + unit" where
  "check_show args seen [] = Ok ()"
| "check_show args seen (n # ns) =
     (case map_of args n of
        None \<Rightarrow> Err (ShowUndeclared n)
      | Some c \<Rightarrow>
          if c_ty (kw c) \<in> {Some TObject, Some TArray} then Err (ShowNotScalar n)
          else if n \<in> set seen then Err (ShowTwice n)
          else check_show args (n # seen) ns)"

definition compile_approval ::
  "(string \<Rightarrow> number option) \<Rightarrow> props \<Rightarrow> raw_approval option \<Rightarrow> tool_error + approval_rule option" where
  "compile_approval num args raw =
     (case raw of
        None \<Rightarrow> Ok None
      | Some a \<Rightarrow>
          rbind (compile_when num args (ra_when a)) (\<lambda>cond.
          if list_ex is_blank (ra_approvers a) then Err EmptyApprover
          else rbind (try_option (\<lambda>t. ok_or BadTtl (parse_duration t)) (ra_ttl a)) (\<lambda>ttl.
               rbind (check_show args [] (ra_show a)) (\<lambda>_.
               Ok (Some \<lparr>ar_when = cond, ar_approvers = ra_approvers a, ar_ttl_secs = ttl,
                         ar_show = ra_show a\<rparr>)))))"

definition compile_tool ::
  "(string \<Rightarrow> number option) \<Rightarrow> regex_ops \<Rightarrow> raw_tool \<Rightarrow> tool_error + tool_rule" where
  "compile_tool num R t =
     rbind (compile_effect (rt_side_effect t) (rt_effect t)) (\<lambda>eff.
     let side_effect = is_some_and is_side_effect eff
     in rbind (try_map (compile_argument R) (rt_args t)) (\<lambda>args.
        rbind (compile_key side_effect args (rt_idempotency_key t)) (\<lambda>key.
        rbind (compile_approval num args (rt_approval t)) (\<lambda>approval.
        Ok \<lparr>tr_side_effect = side_effect, tr_requires_approval = approval \<noteq> None,
            tr_arguments = args, tr_required = required_names (rt_args t), tr_effect = eff,
            tr_idempotency_key = key, tr_approval = approval\<rparr>))))"

section \<open>Compiling a manifest\<close>

record policy_file =
  pf_declared :: string
  pf_source :: string
  pf_digest :: release_hash

record manifest =
  m_release :: string
  m_version :: string
  m_policy :: "policy_file option"
  m_tools :: "(string \<times> tool_rule) list"
  m_digest :: release_hash

datatype manifest_error =
    ManifestSyntax
  | ReleaseEmpty
  | VersionInvalid
  | PolicyEmpty
  | PolicyUnreadable string
  | EmptyTool
  | BadTool string tool_error

definition manifest_version :: "(number \<Rightarrow> string) \<Rightarrow> json \<Rightarrow> manifest_error + string" where
  "manifest_version show_number v =
     (case v of
        JString s \<Rightarrow> if \<not> is_blank s then Ok s else Err VersionInvalid
      | JNumber n \<Rightarrow> Ok (show_number n)
      | _ \<Rightarrow> Err VersionInvalid)"

definition manifest_policy ::
  "digests \<Rightarrow> (string \<Rightarrow> string option) \<Rightarrow> string option \<Rightarrow> manifest_error + policy_file option" where
  "manifest_policy D read_policy p =
     (case p of
        None \<Rightarrow> Ok None
      | Some d \<Rightarrow>
          if is_blank d then Err PolicyEmpty
          else (case read_policy d of
                  None \<Rightarrow> Err (PolicyUnreadable d)
                | Some source \<Rightarrow>
                    Ok (Some \<lparr>pf_declared = d, pf_source = source,
                              pf_digest = dg_sha256 D source\<rparr>)))"

text \<open>
  \<open>Manifest::parse_str\<close> after the YAML reader: \<open>raw\<close> is the document as read and \<open>decode\<close> its
  deserialization.
\<close>

definition manifest_parse ::
  "digests \<Rightarrow> regex_ops \<Rightarrow> (string \<Rightarrow> number option) \<Rightarrow> (number \<Rightarrow> string)
   \<Rightarrow> (string \<Rightarrow> string option) \<Rightarrow> (json \<Rightarrow> raw_manifest option) \<Rightarrow> doc
   \<Rightarrow> manifest_error + manifest" where
  "manifest_parse D R num show_number read_policy decode src =
     rbind (map_err (\<lambda>_. ManifestSyntax) (strict_value src)) (\<lambda>raw.
     rbind (ok_or ManifestSyntax (decode raw)) (\<lambda>m.
     if is_blank (rm_release m) then Err ReleaseEmpty
     else rbind (manifest_version show_number (rm_version m)) (\<lambda>version.
          rbind (manifest_policy D read_policy (rm_policy m)) (\<lambda>pol.
          rbind (try_map (\<lambda>t. if fst t = [] then Err EmptyTool
                    else rbind (map_err (BadTool (fst t)) (compile_tool num R (snd t)))
                           (\<lambda>r. Ok (fst t, r)))
                  (case rm_tools m of None \<Rightarrow> [] | Some ts \<Rightarrow> ts)) (\<lambda>tools.
          Ok \<lparr>m_release = rm_release m, m_version = version, m_policy = pol, m_tools = tools,
              m_digest = dg_sha256 D (dg_jcs D raw)\<rparr>)))))"

definition manifest_policy_digest :: "manifest \<Rightarrow> release_hash option" where
  "manifest_policy_digest m = map_option pf_digest (m_policy m)"

definition manifest_rule :: "manifest \<Rightarrow> string \<Rightarrow> tool_rule option" where
  "manifest_rule m tool = map_of (m_tools m) tool"

section \<open>A compiled rule refers only to what it declares\<close>

definition rule_wf :: "tool_rule \<Rightarrow> bool" where
  "rule_wf r \<longleftrightarrow>
     (tr_side_effect r \<longleftrightarrow> is_some_and is_side_effect (tr_effect r))
     \<and> (tr_requires_approval r \<longleftrightarrow> tr_approval r \<noteq> None)
     \<and> set (tr_required r) \<subseteq> fst ` set (tr_arguments r)
     \<and> (\<forall>k. tr_idempotency_key r = Some k \<longrightarrow>
          tr_side_effect r \<and> idempotency_parse (ik_source k) = Ok k
          \<and> set (ik_argument_roots k) \<subseteq> fst ` set (tr_arguments r))
     \<and> (\<forall>a. tr_approval r = Some a \<longrightarrow>
          set (ar_show a) \<subseteq> fst ` set (tr_arguments r) \<and> distinct (ar_show a)
          \<and> (\<forall>s. ar_ttl_secs a = Some s \<longrightarrow> 0 < s \<and> s \<le> u64_max)
          \<and> (\<forall>c. ar_when a = Some c \<longrightarrow>
               set (cond_argument_roots c) \<subseteq> fst ` set (tr_arguments r)))"

lemma undeclared_None: "undeclared args roots = None \<longleftrightarrow> set roots \<subseteq> fst ` set args"
  by (auto simp: undeclared_def find_None_iff)

lemma check_show_Ok:
  "check_show args seen ns = Ok () \<Longrightarrow>
     set ns \<subseteq> fst ` set args \<and> distinct ns \<and> set ns \<inter> set seen = {}
     \<and> (\<forall>n\<in>set ns. \<exists>c. map_of args n = Some c \<and> c_ty (kw c) \<notin> {Some TObject, Some TArray})"
proof (induction args seen ns rule: check_show.induct)
  case (2 args seen n ns)
  from 2(2) obtain c where c: "map_of args n = Some c" "c_ty (kw c) \<notin> {Some TObject, Some TArray}"
    "n \<notin> set seen" "check_show args (n # seen) ns = Ok ()"
    by (auto split: option.splits if_splits)
  have "n \<in> fst ` set args" using c(1) map_of_SomeD by force
  moreover have "set ns \<subseteq> fst ` set args \<and> distinct ns \<and> set ns \<inter> set (n # seen) = {}
      \<and> (\<forall>n\<in>set ns. \<exists>c. map_of args n = Some c \<and> c_ty (kw c) \<notin> {Some TObject, Some TArray})"
    using c by (intro 2(1)) auto
  ultimately show ?case using c by simp
qed simp

lemma compile_argument_name: "compile_argument R m = Ok c \<Longrightarrow> fst c = fst m"
  by (auto simp: compile_argument_def)

lemma compile_arguments_names:
  "try_map (compile_argument R) ms = Ok cs \<Longrightarrow> map fst cs = map fst ms"
  by (induction ms arbitrary: cs) (auto dest: compile_argument_name)

lemma idempotency_parse_source: "idempotency_parse t = Ok k \<Longrightarrow> ik_source k = t"
  by (auto simp: idempotency_parse_def split: if_splits)

lemma compile_key_Ok:
  "compile_key se args src = Ok key \<Longrightarrow> key = Some k \<Longrightarrow>
     se \<and> idempotency_parse (ik_source k) = Ok k \<and> set (ik_argument_roots k) \<subseteq> fst ` set args"
  by (auto simp: compile_key_def undeclared_None dest: idempotency_parse_source
      split: option.splits if_splits)

lemma compile_when_Ok:
  "compile_when num args src = Ok cond \<Longrightarrow> cond = Some c \<Longrightarrow>
     set (cond_argument_roots c) \<subseteq> fst ` set args"
  by (auto simp: compile_when_def undeclared_None split: option.splits)

lemma parse_duration_range: "parse_duration t = Some s \<Longrightarrow> 0 < s \<and> s \<le> u64_max"
  by (auto simp: parse_duration_iff)

lemma compile_approval_Ok:
  assumes "compile_approval num args raw = Ok appr" "appr = Some a"
  shows "set (ar_show a) \<subseteq> fst ` set args" "distinct (ar_show a)"
    "ar_ttl_secs a = Some s \<Longrightarrow> 0 < s \<and> s \<le> u64_max"
    "ar_when a = Some c \<Longrightarrow> set (cond_argument_roots c) \<subseteq> fst ` set args"
proof -
  from assms obtain r cond ttl where r: "raw = Some r" "compile_when num args (ra_when r) = Ok cond"
    "try_option (\<lambda>t. ok_or BadTtl (parse_duration t)) (ra_ttl r) = Ok ttl"
    "check_show args [] (ra_show r) = Ok ()"
    and a: "a = \<lparr>ar_when = cond, ar_approvers = ra_approvers r, ar_ttl_secs = ttl, ar_show = ra_show r\<rparr>"
    by (auto simp: compile_approval_def split: option.splits if_splits)
  from check_show_Ok [OF r(4)] show "set (ar_show a) \<subseteq> fst ` set args" "distinct (ar_show a)"
    by (simp_all add: a)
  show "ar_ttl_secs a = Some s \<Longrightarrow> 0 < s \<and> s \<le> u64_max"
    using r(3) parse_duration_range by (cases "ra_ttl r") (auto simp: a)
  show "ar_when a = Some c \<Longrightarrow> set (cond_argument_roots c) \<subseteq> fst ` set args"
    using compile_when_Ok [OF r(2)] by (simp add: a)
qed

lemma compile_tool_wf:
  assumes "compile_tool num R t = Ok r"
  shows "rule_wf r"
proof -
  from assms obtain eff args key appr where
    args: "try_map (compile_argument R) (rt_args t) = Ok args"
    and key: "compile_key (is_some_and is_side_effect eff) args (rt_idempotency_key t) = Ok key"
    and appr: "compile_approval num args (rt_approval t) = Ok appr"
    and r: "r = \<lparr>tr_side_effect = is_some_and is_side_effect eff,
      tr_requires_approval = appr \<noteq> None, tr_arguments = args,
      tr_required = required_names (rt_args t), tr_effect = eff,
      tr_idempotency_key = key, tr_approval = appr\<rparr>"
    by (auto simp: compile_tool_def Let_def)
  have "set (required_names (rt_args t)) \<subseteq> fst ` set args"
    unfolding required_names_def set_map [symmetric] compile_arguments_names [OF args] by auto
  then show ?thesis
    using compile_key_Ok [OF key] compile_approval_Ok [OF appr] by (simp add: rule_wf_def r)
qed

end
