(* ===== verification/Release.thy ===== *)
theory Release
  imports Digests "HOL-Library.Product_Lexorder" "HOL-Library.Multiset"
begin

text \<open>
  Agent releases (\<open>cloakpipe-release/src/manifest.rs\<close>, \<open>validate.rs\<close>, \<open>canonical.rs\<close>): the manifest, the
  checks that make it certifiable or usable by the gate, its canonical view and its hash.

  Unicode NFC normalisation is the parameter \<open>nfc\<close>. An issue is its code and the path of the
  offending field; the message, which only words them, is left out.
\<close>

section \<open>The manifest\<close>

definition RELEASE_KIND :: string where "RELEASE_KIND = ''AgentRelease''"

record code_ref =
  cd_repository :: string
  cd_commit :: string

record runtime =
  rn_image :: string
  rn_region :: string

type_synonym dependency = "string \<times> string"

record release_spec =
  sp_code :: code_ref
  sp_prompts :: "string list"
  sp_model :: string
  sp_parameters :: members
  sp_tools :: "string list"
  sp_mcp_servers :: "string list"
  sp_retrieval :: "string option"
  sp_policies :: "string list"
  sp_runtime :: runtime
  sp_dependencies :: "dependency list"
  sp_feature_flags :: members

record metadata =
  md_agent :: string
  md_version :: string
  md_labels :: "(string \<times> string) list"

record agent_release =
  rl_api_version :: string
  rl_kind :: string
  rl_metadata :: metadata
  rl_spec :: release_spec

section \<open>Validation\<close>

datatype issue_code =
    UnsupportedApiVersionIssue | UnsupportedKind | MalformedReference | MutableReference
  | WrongReferenceKind | DuplicateEntry | InvalidCommit | UnpinnedImage | EmptyField | InvalidName
  | NormalizationCollision

fun issue_code_as_str :: "issue_code \<Rightarrow> string" where
  "issue_code_as_str UnsupportedApiVersionIssue = ''unsupported_api_version''"
| "issue_code_as_str UnsupportedKind = ''unsupported_kind''"
| "issue_code_as_str MalformedReference = ''malformed_reference''"
| "issue_code_as_str MutableReference = ''mutable_reference''"
| "issue_code_as_str WrongReferenceKind = ''wrong_reference_kind''"
| "issue_code_as_str DuplicateEntry = ''duplicate_entry''"
| "issue_code_as_str InvalidCommit = ''invalid_commit''"
| "issue_code_as_str UnpinnedImage = ''unpinned_image''"
| "issue_code_as_str EmptyField = ''empty_field''"
| "issue_code_as_str InvalidName = ''invalid_name''"
| "issue_code_as_str NormalizationCollision = ''normalization_collision''"

type_synonym issue = "issue_code \<times> string"

definition issue_if :: "bool \<Rightarrow> issue_code \<Rightarrow> string \<Rightarrow> issue list" where
  "issue_if b c p = (if b then [(c, p)] else [])"

definition check_reference :: "string \<Rightarrow> string \<Rightarrow> ref_kind \<Rightarrow> issue list \<times> reference option" where
  "check_reference path r expected =
     (case reference_parse r of
        Inr parsed \<Rightarrow>
          if ref_kind parsed \<noteq> expected then ([(WrongReferenceKind, path)], None) else ([], Some parsed)
      | Inl Mutable \<Rightarrow> ([(MutableReference, path)], None)
      | Inl Malformed \<Rightarrow> ([(MalformedReference, path)], None))"

definition indexed_path :: "string \<Rightarrow> nat \<Rightarrow> string \<Rightarrow> string" where
  "indexed_path field i rest = field @ ''['' @ show_nat i @ '']'' @ rest"

text \<open>The loop of \<open>Validator::set\<close>: references of one kind, with distinct keys.\<close>

fun check_set :: "string \<Rightarrow> ref_kind \<Rightarrow> nat \<Rightarrow> string set \<Rightarrow> string list \<Rightarrow> issue list" where
  "check_set field k i seen [] = []"
| "check_set field k i seen (r # rs) =
     (let path = indexed_path field i ''.ref''; (issues, parsed) = check_reference path r k
      in issues @
         (case parsed of
            None \<Rightarrow> check_set field k (i + 1) seen rs
          | Some p \<Rightarrow>
              issue_if (reference_key p \<in> seen) DuplicateEntry path
              @ check_set field k (i + 1) (insert (reference_key p) seen) rs))"

fun check_prompts :: "nat \<Rightarrow> string list \<Rightarrow> issue list" where
  "check_prompts i [] = []"
| "check_prompts i (r # rs) =
     fst (check_reference (indexed_path ''spec.prompts'' i ''.ref'') r RPrompt) @ check_prompts (i + 1) rs"

fun check_dependencies :: "nat \<Rightarrow> string set \<Rightarrow> dependency list \<Rightarrow> issue list" where
  "check_dependencies i seen [] = []"
| "check_dependencies i seen (d # ds) =
     issue_if (is_blank (fst d) \<or> is_blank (snd d)) EmptyField (indexed_path ''spec.dependencies'' i [])
     @ issue_if (fst d \<in> seen) DuplicateEntry (indexed_path ''spec.dependencies'' i ''.name'')
     @ check_dependencies (i + 1) (insert (fst d) seen) ds"

text \<open>\<open>nfc_collisions\<close>: keys of one object that normalise to the same key, recursively.\<close>

definition key_collisions ::
  "(string \<Rightarrow> string) \<Rightarrow> (string \<Rightarrow> json \<Rightarrow> issue list) \<Rightarrow> string \<Rightarrow> members \<Rightarrow> issue list" where
  "key_collisions nfc rec path ms =
     concat (map (\<lambda>(i, m).
         issue_if (nfc (fst m) \<in> (\<lambda>m. nfc (fst m)) ` set (take i ms)) NormalizationCollision
           (path @ ''.'' @ fst m)
         @ rec (path @ ''.'' @ fst m) (snd m))
       (enumerate 0 ms))"

lemma key_collisions_cong [fundef_cong]:
  assumes "nfc = nfc'" "path = path'" "ms = ms'"
    "\<And>p m. m \<in> set ms' \<Longrightarrow> rec p (snd m) = rec' p (snd m)"
  shows "key_collisions nfc rec path ms = key_collisions nfc' rec' path' ms'"
proof -
  have "snd x \<in> set ms'" if "x \<in> set (enumerate 0 ms')" for x
    using that by (metis enumerate_eq_zip prod.collapse set_zip_rightD)
  then show ?thesis
    unfolding key_collisions_def assms(1-3)
    using assms(4) by (intro arg_cong [where f = concat] map_cong) fastforce+
qed

function nfc_collisions :: "(string \<Rightarrow> string) \<Rightarrow> string \<Rightarrow> json \<Rightarrow> issue list" where
  "nfc_collisions nfc path v =
     (case v of
        JObject ms \<Rightarrow> key_collisions nfc (nfc_collisions nfc) path ms
      | JArray vs \<Rightarrow> concat (map (\<lambda>p. nfc_collisions nfc (indexed_path path (fst p) []) (snd p)) (enumerate 0 vs))
      | _ \<Rightarrow> [])"
  by pat_completeness auto
termination
proof (relation "measure (\<lambda>(nfc, path, v). size v)")
  fix nfc :: "string \<Rightarrow> string" and path p v vs x
  assume "v = JArray vs" "x \<in> set (enumerate 0 vs)"
  then have "snd x \<in> set vs" by (metis enumerate_eq_zip prod.collapse set_zip_rightD)
  then show "((nfc, indexed_path path (fst x) [], snd x), nfc, path, v) \<in> measure (\<lambda>(nfc, path, v). size v)"
    using \<open>v = JArray vs\<close> by (simp add: less_Suc_eq_le size_list_estimation')
next
  fix nfc :: "string \<Rightarrow> string" and path p v ms m
  assume "v = JObject ms" "m \<in> set ms"
  then show "((nfc, p, snd m), nfc, path, v) \<in> measure (\<lambda>(nfc, path, v). size v)"
    by (induction ms arbitrary: v) (auto simp: less_Suc_eq_le)
qed simp

declare nfc_collisions.simps [simp del]

text \<open>\<open>rsplit_once\<close> for a string pattern: around its last occurrence.\<close>

fun rsplit_once :: "string \<Rightarrow> string \<Rightarrow> (string \<times> string) option" where
  "rsplit_once p [] = (if p = [] then Some ([], []) else None)"
| "rsplit_once p (c # s) =
     (case rsplit_once p s of
        Some (a, b) \<Rightarrow> Some (c # a, b)
      | None \<Rightarrow> map_option (\<lambda>r. ([], r)) (strip_prefix p (c # s)))"

definition image_pinned :: "string \<Rightarrow> bool" where
  "image_pinned img \<longleftrightarrow>
     is_some_and (\<lambda>(repo, hex). repo \<noteq> [] \<and> is_lower_hex hex 64 64) (rsplit_once ''@sha256:'' img)"

definition header_issues :: "agent_release \<Rightarrow> issue list" where
  "header_issues m =
     issue_if (\<not> is_known_api_version (rl_api_version m)) UnsupportedApiVersionIssue ''apiVersion''
     @ issue_if (rl_kind m \<noteq> RELEASE_KIND) UnsupportedKind ''kind''
     @ issue_if (\<not> is_valid_name (md_agent (rl_metadata m))) InvalidName ''metadata.agent''"

definition release_validate :: "(string \<Rightarrow> string) \<Rightarrow> agent_release \<Rightarrow> issue list" where
  "release_validate nfc m =
     (let s = rl_spec m in
      header_issues m
      @ issue_if (is_blank (cd_repository (sp_code s))) EmptyField ''spec.code.repository''
      @ issue_if (\<not> is_lower_hex (cd_commit (sp_code s)) 7 40) InvalidCommit ''spec.code.commit''
      @ issue_if (sp_prompts s = []) EmptyField ''spec.prompts''
      @ check_prompts 0 (sp_prompts s)
      @ fst (check_reference ''spec.model.ref'' (sp_model s) RModel)
      @ check_set ''spec.tools'' RTool 0 {} (sp_tools s)
      @ check_set ''spec.mcpServers'' RMcp 0 {} (sp_mcp_servers s)
      @ (case sp_retrieval s of None \<Rightarrow> [] | Some r \<Rightarrow> fst (check_reference ''spec.retrieval.ref'' r RRetrieval))
      @ check_set ''spec.policies'' RPolicy 0 {} (sp_policies s)
      @ issue_if (\<not> image_pinned (rn_image (sp_runtime s))) UnpinnedImage ''spec.runtime.image''
      @ issue_if (is_blank (rn_region (sp_runtime s))) EmptyField ''spec.runtime.region''
      @ nfc_collisions nfc ''spec.parameters'' (JObject (sp_parameters s))
      @ nfc_collisions nfc ''spec.featureFlags'' (JObject (sp_feature_flags s))
      @ check_dependencies 0 {} (sp_dependencies s))"

definition gate_issues :: "agent_release \<Rightarrow> issue list" where
  "gate_issues m =
     header_issues m
     @ check_set ''spec.tools'' RTool 0 {} (sp_tools (rl_spec m))
     @ check_set ''spec.policies'' RPolicy 0 {} (sp_policies (rl_spec m))"

section \<open>The canonical view and the hash\<close>

text \<open>\<open>nfc\<close> on every string of a value; equal keys after normalisation: the last one wins
  (\<open>collect::<Map>\<close>).\<close>

fun collect_members :: "members \<Rightarrow> members \<Rightarrow> members" where
  "collect_members out [] = out"
| "collect_members out (m # ms) =
     collect_members (if fst m \<in> fst ` set out
       then map (\<lambda>e. if fst e = fst m then (fst e, snd m) else e) out
       else out @ [m]) ms"

fun nfc_value :: "(string \<Rightarrow> string) \<Rightarrow> json \<Rightarrow> json" where
  "nfc_value nfc (JString s) = JString (nfc s)"
| "nfc_value nfc (JArray vs) = JArray (map (nfc_value nfc) vs)"
| "nfc_value nfc (JObject ms) =
     JObject (collect_members [] (map (\<lambda>m. (nfc (fst m), nfc_value nfc (snd m))) ms))"
| "nfc_value nfc v = v"

definition dependency_json :: "dependency \<Rightarrow> json" where
  "dependency_json d = JObject [(''name'', JString (fst d)), (''version'', JString (snd d))]"

definition spec_view :: "release_spec \<Rightarrow> json" where
  "spec_view s =
     JObject [(''code'', JObject [(''repository'', JString (cd_repository (sp_code s))),
                                  (''commit'', JString (cd_commit (sp_code s)))]),
       (''prompts'', JArray (map JString (sp_prompts s))),
       (''model'', JString (sp_model s)),
       (''parameters'', JObject (sp_parameters s)),
       (''tools'', JArray (map JString (sort (sp_tools s)))),
       (''mcpServers'', JArray (map JString (sort (sp_mcp_servers s)))),
       (''retrieval'', (case sp_retrieval s of None \<Rightarrow> JNull | Some r \<Rightarrow> JString r)),
       (''policies'', JArray (map JString (sort (sp_policies s)))),
       (''runtime'', JObject [(''image'', JString (rn_image (sp_runtime s))),
                              (''region'', JString (rn_region (sp_runtime s)))]),
       (''dependencies'', JArray (map dependency_json (sort (sp_dependencies s)))),
       (''featureFlags'', JObject (sp_feature_flags s))]"

definition canonical_view :: "(string \<Rightarrow> string) \<Rightarrow> agent_release \<Rightarrow> json" where
  "canonical_view nfc m =
     nfc_value nfc (JObject [(''apiVersion'', JString (rl_api_version m)), (''kind'', JString (rl_kind m)),
       (''agent'', JString (md_agent (rl_metadata m))), (''spec'', spec_view (rl_spec m))])"

definition canonical_bytes :: "digests \<Rightarrow> (string \<Rightarrow> string) \<Rightarrow> agent_release \<Rightarrow> string" where
  "canonical_bytes D nfc m = dg_jcs D (canonical_view nfc m)"

definition manifest_hash :: "digests \<Rightarrow> (string \<Rightarrow> string) \<Rightarrow> agent_release \<Rightarrow> release_hash" where
  "manifest_hash D nfc m =
     dg_sha256 D (agent_release_hash_domain (for_hashing (rl_api_version m)) @ [CHR 0x0A]
       @ canonical_bytes D nfc m)"

section \<open>What an accepted manifest pins\<close>

definition pinned_as :: "ref_kind \<Rightarrow> string \<Rightarrow> bool" where
  "pinned_as k r \<longleftrightarrow> (\<exists>p. reference_parse r = Ok p \<and> ref_kind p = k)"

text \<open>References of one kind, no two of the same name.\<close>

definition pinned_set :: "ref_kind \<Rightarrow> string list \<Rightarrow> bool" where
  "pinned_set k rs \<longleftrightarrow> (\<forall>r\<in>set rs. pinned_as k r) \<and> distinct (map key_of rs)"

lemma issue_if_Nil [simp]: "issue_if b c p = [] \<longleftrightarrow> \<not> b"
  by (simp add: issue_if_def)

lemma check_reference_Nil:
  "fst (check_reference path r k) = [] \<longleftrightarrow> pinned_as k r"
  by (auto simp: check_reference_def pinned_as_def split: sum.splits ref_error.splits)

lemma check_reference_Some:
  "check_reference path r k = ([], Some p) \<longleftrightarrow> reference_parse r = Ok p \<and> ref_kind p = k"
  by (auto simp: check_reference_def split: sum.splits ref_error.splits)

lemma check_reference_pinned:
  assumes "reference_parse r = Ok p" "ref_kind p = k"
  shows "check_reference path r k = ([], Some p)"
  using assms by (simp add: check_reference_Some)

lemma check_set_Nil_seen:
  "check_set field k i seen rs = [] \<longleftrightarrow> pinned_set k rs \<and> key_of ` set rs \<inter> seen = {}"
proof (induction rs arbitrary: i seen)
  case (Cons r rs)
  let ?path = "indexed_path field i ''.ref''"
  show ?case
  proof (cases "pinned_as k r")
    case True
    then obtain p where p: "reference_parse r = Ok p" "ref_kind p = k" by (auto simp: pinned_as_def)
    have "key_of r = reference_key p" by (rule key_of_reference [OF p(1)])
    with True check_reference_pinned [OF p] show ?thesis
      by (auto simp: Cons.IH pinned_set_def)
  next
    case False
    with check_reference_Nil [of ?path r k] show ?thesis
      by (cases "check_reference ?path r k") (auto simp: pinned_set_def)
  qed
qed (simp add: pinned_set_def)

lemma check_set_Nil: "check_set field k i {} rs = [] \<longleftrightarrow> pinned_set k rs"
  by (simp add: check_set_Nil_seen)

lemma check_prompts_Nil: "check_prompts i rs = [] \<longleftrightarrow> (\<forall>r\<in>set rs. pinned_as RPrompt r)"
  by (induction rs arbitrary: i) (simp_all add: check_reference_Nil)

lemma check_dependencies_Nil_seen:
  "check_dependencies i seen ds = [] \<longleftrightarrow>
     (\<forall>d\<in>set ds. \<not> is_blank (fst d) \<and> \<not> is_blank (snd d)) \<and> distinct (map fst ds) \<and> fst ` set ds \<inter> seen = {}"
  by (induction ds arbitrary: i seen) auto

lemma rsplit_once_SomeD: "rsplit_once p s = Some (a, b) \<Longrightarrow> s = a @ p @ b"
proof (induction p s arbitrary: a b rule: rsplit_once.induct)
  case (2 p c s)
  then show ?case by (auto split: option.splits)
qed (simp split: if_splits)

lemma rsplit_once_None: "p \<noteq> [] \<Longrightarrow> hd p \<notin> set s \<Longrightarrow> rsplit_once p s = None"
proof (induction s)
  case (Cons c s)
  then have "strip_prefix p (c # s) = None" by (cases p) auto
  with Cons show ?case by simp
qed simp

lemma rsplit_once_last:
  assumes "p \<noteq> []" "hd p \<notin> set (tl p @ b)"
  shows "rsplit_once p (a @ p @ b) = Some (a, b)"
proof (induction a)
  case Nil
  obtain h t where p: "p = h # t" using assms(1) by (cases p) auto
  have "rsplit_once p (t @ b) = None" using assms p by (intro rsplit_once_None) auto
  then show ?case using strip_prefix_append [of p b] by (simp add: p)
qed simp

lemma image_pinned_iff:
  "image_pinned img \<longleftrightarrow>
     (\<exists>repo hex. img = repo @ ''@sha256:'' @ hex \<and> repo \<noteq> [] \<and> is_lower_hex hex 64 64)"
proof
  assume "image_pinned img"
  then obtain repo hex where "rsplit_once ''@sha256:'' img = Some (repo, hex)" "repo \<noteq> []" "is_lower_hex hex 64 64"
    by (auto simp: image_pinned_def is_some_and_iff)
  then show "\<exists>repo hex. img = repo @ ''@sha256:'' @ hex \<and> repo \<noteq> [] \<and> is_lower_hex hex 64 64"
    using rsplit_once_SomeD by blast
next
  assume "\<exists>repo hex. img = repo @ ''@sha256:'' @ hex \<and> repo \<noteq> [] \<and> is_lower_hex hex 64 64"
  then obtain repo hex where i: "img = repo @ ''@sha256:'' @ hex" "repo \<noteq> []" "is_lower_hex hex 64 64"
    by blast
  have "CHR ''@'' \<notin> set hex"
    using i(3) by (auto simp: is_lower_hex_def list_all_iff is_lower_hex_char_def is_ascii_digit_def)
  then have "rsplit_once ''@sha256:'' img = Some (repo, hex)"
    unfolding i(1) by (intro rsplit_once_last) simp_all
  with i show "image_pinned img" by (simp add: image_pinned_def)
qed

definition header_ok :: "agent_release \<Rightarrow> bool" where
  "header_ok m \<longleftrightarrow> is_known_api_version (rl_api_version m) \<and> rl_kind m = RELEASE_KIND
     \<and> is_valid_name (md_agent (rl_metadata m))"

lemma header_issues_Nil: "header_issues m = [] \<longleftrightarrow> header_ok m"
  by (simp add: header_issues_def header_ok_def)

lemma gate_issues_Nil:
  "gate_issues m = [] \<longleftrightarrow> header_ok m \<and> pinned_set RTool (sp_tools (rl_spec m))
     \<and> pinned_set RPolicy (sp_policies (rl_spec m))"
  by (simp add: gate_issues_def header_issues_Nil check_set_Nil)

text \<open>Every behaviour-affecting component has an immutable identity.\<close>

definition certifiable :: "(string \<Rightarrow> string) \<Rightarrow> agent_release \<Rightarrow> bool" where
  "certifiable nfc m \<longleftrightarrow>
     (let s = rl_spec m in
      header_ok m
      \<and> \<not> is_blank (cd_repository (sp_code s)) \<and> is_lower_hex (cd_commit (sp_code s)) 7 40
      \<and> sp_prompts s \<noteq> [] \<and> (\<forall>r\<in>set (sp_prompts s). pinned_as RPrompt r) \<and> pinned_as RModel (sp_model s)
      \<and> pinned_set RTool (sp_tools s) \<and> pinned_set RMcp (sp_mcp_servers s)
      \<and> (\<forall>r. sp_retrieval s = Some r \<longrightarrow> pinned_as RRetrieval r) \<and> pinned_set RPolicy (sp_policies s)
      \<and> (\<exists>repo hex. rn_image (sp_runtime s) = repo @ ''@sha256:'' @ hex \<and> repo \<noteq> [] \<and> is_lower_hex hex 64 64)
      \<and> \<not> is_blank (rn_region (sp_runtime s))
      \<and> nfc_collisions nfc ''spec.parameters'' (JObject (sp_parameters s)) = []
      \<and> nfc_collisions nfc ''spec.featureFlags'' (JObject (sp_feature_flags s)) = []
      \<and> (\<forall>d\<in>set (sp_dependencies s). \<not> is_blank (fst d) \<and> \<not> is_blank (snd d))
      \<and> distinct (map fst (sp_dependencies s)))"

lemma release_validate_Nil: "release_validate nfc m = [] \<longleftrightarrow> certifiable nfc m"
proof -
  have ret: "(case sp_retrieval s of None \<Rightarrow> [] | Some r \<Rightarrow> fst (check_reference p r RRetrieval)) = [] \<longleftrightarrow>
      (\<forall>r. sp_retrieval s = Some r \<longrightarrow> pinned_as RRetrieval r)" for s p
    by (simp add: check_reference_Nil split: option.split)
  show ?thesis
    unfolding release_validate_def certifiable_def Let_def append_is_Nil_conv ret header_issues_Nil
      check_set_Nil check_prompts_Nil check_reference_Nil check_dependencies_Nil_seen issue_if_Nil
      image_pinned_iff [symmetric]
    by auto
qed

section \<open>What the hash covers\<close>

text \<open>Two manifests that differ at most in bookkeeping and in the order of their unordered
  collections.\<close>

definition same_release :: "agent_release \<Rightarrow> agent_release \<Rightarrow> bool" where
  "same_release m n \<longleftrightarrow>
     rl_api_version m = rl_api_version n \<and> rl_kind m = rl_kind n
     \<and> md_agent (rl_metadata m) = md_agent (rl_metadata n)
     \<and> (let s = rl_spec m; t = rl_spec n in
        sp_code s = sp_code t \<and> sp_prompts s = sp_prompts t \<and> sp_model s = sp_model t
        \<and> sp_parameters s = sp_parameters t \<and> mset (sp_tools s) = mset (sp_tools t)
        \<and> mset (sp_mcp_servers s) = mset (sp_mcp_servers t) \<and> sp_retrieval s = sp_retrieval t
        \<and> mset (sp_policies s) = mset (sp_policies t) \<and> sp_runtime s = sp_runtime t
        \<and> mset (sp_dependencies s) = mset (sp_dependencies t)
        \<and> sp_feature_flags s = sp_feature_flags t)"

lemma sort_mset_eq: "mset xs = mset ys \<Longrightarrow> sort xs = (sort ys :: 'a::linorder list)"
  by (rule properties_for_sort) simp_all

lemma same_release_view:
  assumes "same_release m n"
  shows "canonical_view nfc m = canonical_view nfc n"
proof -
  have "sort (sp_tools (rl_spec m)) = sort (sp_tools (rl_spec n))"
    "sort (sp_mcp_servers (rl_spec m)) = sort (sp_mcp_servers (rl_spec n))"
    "sort (sp_policies (rl_spec m)) = sort (sp_policies (rl_spec n))"
    "sort (sp_dependencies (rl_spec m)) = sort (sp_dependencies (rl_spec n))"
    using assms by (auto simp only: same_release_def Let_def intro!: sort_mset_eq)
  with assms show ?thesis
    by (simp only: same_release_def canonical_view_def spec_view_def Let_def)
qed

text \<open>Unicode normalisation leaves ASCII alone.\<close>

definition ascii_fixed :: "(string \<Rightarrow> string) \<Rightarrow> bool" where
  "ascii_fixed nfc \<longleftrightarrow> (\<forall>s. (\<forall>c\<in>set s. byte_of c < 128) \<longrightarrow> nfc s = s)"

lemma ascii_fixedD: "ascii_fixed nfc \<Longrightarrow> \<forall>c\<in>set s. byte_of c < 128 \<Longrightarrow> nfc s = s"
  by (simp add: ascii_fixed_def)

lemma nfc_keys:
  assumes "ascii_fixed nfc"
  shows "nfc ''apiVersion'' = ''apiVersion''" "nfc ''kind'' = ''kind''" "nfc ''agent'' = ''agent''"
    "nfc ''spec'' = ''spec''" "nfc ''code'' = ''code''" "nfc ''repository'' = ''repository''"
    "nfc ''commit'' = ''commit''" "nfc ''prompts'' = ''prompts''" "nfc ''model'' = ''model''"
    "nfc ''parameters'' = ''parameters''" "nfc ''tools'' = ''tools''" "nfc ''mcpServers'' = ''mcpServers''"
    "nfc ''retrieval'' = ''retrieval''" "nfc ''policies'' = ''policies''" "nfc ''runtime'' = ''runtime''"
    "nfc ''image'' = ''image''" "nfc ''region'' = ''region''" "nfc ''dependencies'' = ''dependencies''"
    "nfc ''featureFlags'' = ''featureFlags''" "nfc ''name'' = ''name''" "nfc ''version'' = ''version''"
  by (rule ascii_fixedD [OF assms], simp)+

lemma nfc_dependency:
  "ascii_fixed nfc \<Longrightarrow> nfc_value nfc (dependency_json d) = dependency_json (map_prod nfc nfc d)"
  by (simp add: dependency_json_def nfc_keys)

lemma canonical_view_eq:
  assumes "ascii_fixed nfc"
  shows "canonical_view nfc m =
    (let s = rl_spec m in
     JObject [(''apiVersion'', JString (nfc (rl_api_version m))), (''kind'', JString (nfc (rl_kind m))),
       (''agent'', JString (nfc (md_agent (rl_metadata m)))),
       (''spec'', JObject [(''code'', JObject [(''repository'', JString (nfc (cd_repository (sp_code s)))),
                                  (''commit'', JString (nfc (cd_commit (sp_code s))))]),
         (''prompts'', JArray (map JString (map nfc (sp_prompts s)))),
         (''model'', JString (nfc (sp_model s))),
         (''parameters'', nfc_value nfc (JObject (sp_parameters s))),
         (''tools'', JArray (map JString (map nfc (sort (sp_tools s))))),
         (''mcpServers'', JArray (map JString (map nfc (sort (sp_mcp_servers s))))),
         (''retrieval'', (case sp_retrieval s of None \<Rightarrow> JNull | Some r \<Rightarrow> JString (nfc r))),
         (''policies'', JArray (map JString (map nfc (sort (sp_policies s))))),
         (''runtime'', JObject [(''image'', JString (nfc (rn_image (sp_runtime s)))),
                                (''region'', JString (nfc (rn_region (sp_runtime s))))]),
         (''dependencies'', JArray (map dependency_json (map (map_prod nfc nfc) (sort (sp_dependencies s))))),
         (''featureFlags'', nfc_value nfc (JObject (sp_feature_flags s)))])])"
proof -
  have ret: "nfc_value nfc (case x of None \<Rightarrow> JNull | Some r \<Rightarrow> JString r) =
    (case x of None \<Rightarrow> JNull | Some r \<Rightarrow> JString (nfc r))" for x by (simp split: option.split)
  show ?thesis
    unfolding canonical_view_def spec_view_def Let_def
    by (simp add: nfc_keys [OF assms] ret nfc_dependency [OF assms] comp_def)
qed

lemma dependency_json_eq: "json_eq (dependency_json d) (dependency_json e) \<longleftrightarrow> d = e"
  by (cases d; cases e) (auto simp: dependency_json_def)

lemma json_eq_dependencies:
  "json_eq (JArray (map dependency_json xs)) (JArray (map dependency_json ys)) \<longleftrightarrow> xs = ys"
  by (simp only: json_eq_array list_all2_map1 list_all2_map2 dependency_json_eq list.rel_eq)

lemma map_sort_mset: "map f (sort xs) = map f (sort ys) \<Longrightarrow> image_mset f (mset xs) = image_mset f (mset ys)"
  by (metis mset_map mset_sort)

text \<open>What a release pins, after Unicode normalisation; the unordered collections as multisets.\<close>

record release_pins =
  pn_agent :: string
  pn_code :: "string \<times> string"
  pn_prompts :: "string list"
  pn_model :: string
  pn_tools :: "string multiset"
  pn_mcp_servers :: "string multiset"
  pn_retrieval :: "string option"
  pn_policies :: "string multiset"
  pn_runtime :: "string \<times> string"
  pn_dependencies :: "(string \<times> string) multiset"

definition pins :: "(string \<Rightarrow> string) \<Rightarrow> agent_release \<Rightarrow> release_pins" where
  "pins nfc m =
     (let s = rl_spec m in
      \<lparr>pn_agent = nfc (md_agent (rl_metadata m)),
       pn_code = (nfc (cd_repository (sp_code s)), nfc (cd_commit (sp_code s))),
       pn_prompts = map nfc (sp_prompts s), pn_model = nfc (sp_model s),
       pn_tools = image_mset nfc (mset (sp_tools s)),
       pn_mcp_servers = image_mset nfc (mset (sp_mcp_servers s)),
       pn_retrieval = map_option nfc (sp_retrieval s),
       pn_policies = image_mset nfc (mset (sp_policies s)),
       pn_runtime = (nfc (rn_image (sp_runtime s)), nfc (rn_region (sp_runtime s))),
       pn_dependencies = image_mset (map_prod nfc nfc) (mset (sp_dependencies s))\<rparr>)"

lemma view_paths:
  assumes "ascii_fixed nfc"
  shows "json_path (canonical_view nfc m) [''agent''] = Some (JString (nfc (md_agent (rl_metadata m))))"
    and "json_path (canonical_view nfc m) [''spec'', ''code'', ''repository''] =
      Some (JString (nfc (cd_repository (sp_code (rl_spec m)))))"
    and "json_path (canonical_view nfc m) [''spec'', ''code'', ''commit''] =
      Some (JString (nfc (cd_commit (sp_code (rl_spec m)))))"
    and "json_path (canonical_view nfc m) [''spec'', ''prompts''] =
      Some (JArray (map JString (map nfc (sp_prompts (rl_spec m)))))"
    and "json_path (canonical_view nfc m) [''spec'', ''model''] = Some (JString (nfc (sp_model (rl_spec m))))"
    and "json_path (canonical_view nfc m) [''spec'', ''tools''] =
      Some (JArray (map JString (map nfc (sort (sp_tools (rl_spec m))))))"
    and "json_path (canonical_view nfc m) [''spec'', ''mcpServers''] =
      Some (JArray (map JString (map nfc (sort (sp_mcp_servers (rl_spec m))))))"
    and "json_path (canonical_view nfc m) [''spec'', ''retrieval''] =
      Some (case sp_retrieval (rl_spec m) of None \<Rightarrow> JNull | Some r \<Rightarrow> JString (nfc r))"
    and "json_path (canonical_view nfc m) [''spec'', ''policies''] =
      Some (JArray (map JString (map nfc (sort (sp_policies (rl_spec m))))))"
    and "json_path (canonical_view nfc m) [''spec'', ''runtime'', ''image''] =
      Some (JString (nfc (rn_image (sp_runtime (rl_spec m)))))"
    and "json_path (canonical_view nfc m) [''spec'', ''runtime'', ''region''] =
      Some (JString (nfc (rn_region (sp_runtime (rl_spec m)))))"
    and "json_path (canonical_view nfc m) [''spec'', ''dependencies''] =
      Some (JArray (map dependency_json (map (map_prod nfc nfc) (sort (sp_dependencies (rl_spec m))))))"
  by (simp_all add: canonical_view_eq [OF assms] Let_def)

lemma view_pins:
  assumes "ascii_fixed nfc" "json_eq (canonical_view nfc m) (canonical_view nfc n)"
  shows "pins nfc m = pins nfc n"
proof -
  have at: "json_eq x y"
    if "\<And>m. json_path (canonical_view nfc m) ks = Some (f m)" "x = f m" "y = f n" for ks x y f
    using json_eq_path [OF assms(2) that(1)] that by simp
  note v = view_paths [OF assms(1)]
  have "nfc (md_agent (rl_metadata m)) = nfc (md_agent (rl_metadata n))"
    using at [OF v(1) refl refl] by simp
  moreover have "nfc (cd_repository (sp_code (rl_spec m))) = nfc (cd_repository (sp_code (rl_spec n)))"
    "nfc (cd_commit (sp_code (rl_spec m))) = nfc (cd_commit (sp_code (rl_spec n)))"
    using at [OF v(2) refl refl] at [OF v(3) refl refl] by simp_all
  moreover have "map nfc (sp_prompts (rl_spec m)) = map nfc (sp_prompts (rl_spec n))"
    using at [OF v(4) refl refl] unfolding json_eq_strings .
  moreover have "nfc (sp_model (rl_spec m)) = nfc (sp_model (rl_spec n))"
    using at [OF v(5) refl refl] by simp
  moreover have "image_mset nfc (mset (sp_tools (rl_spec m))) = image_mset nfc (mset (sp_tools (rl_spec n)))"
    using at [OF v(6) refl refl] unfolding json_eq_strings by (rule map_sort_mset)
  moreover have "image_mset nfc (mset (sp_mcp_servers (rl_spec m))) = image_mset nfc (mset (sp_mcp_servers (rl_spec n)))"
    using at [OF v(7) refl refl] unfolding json_eq_strings by (rule map_sort_mset)
  moreover have "map_option nfc (sp_retrieval (rl_spec m)) = map_option nfc (sp_retrieval (rl_spec n))"
    using at [OF v(8) refl refl] unfolding json_eq_optional .
  moreover have "image_mset nfc (mset (sp_policies (rl_spec m))) = image_mset nfc (mset (sp_policies (rl_spec n)))"
    using at [OF v(9) refl refl] unfolding json_eq_strings by (rule map_sort_mset)
  moreover have "nfc (rn_image (sp_runtime (rl_spec m))) = nfc (rn_image (sp_runtime (rl_spec n)))"
    "nfc (rn_region (sp_runtime (rl_spec m))) = nfc (rn_region (sp_runtime (rl_spec n)))"
    using at [OF v(10) refl refl] at [OF v(11) refl refl] by simp_all
  moreover have "image_mset (map_prod nfc nfc) (mset (sp_dependencies (rl_spec m))) =
      image_mset (map_prod nfc nfc) (mset (sp_dependencies (rl_spec n)))"
    using at [OF v(12) refl refl] unfolding json_eq_dependencies by (rule map_sort_mset)
  ultimately show ?thesis unfolding pins_def Let_def by simp
qed

text \<open>Equal hashes mean equal pins, unless SHA-256 or the canonical encoding fails on the two
  manifests at hand.\<close>

lemma manifest_hash_pins:
  assumes "ascii_fixed nfc" "is_known_api_version (rl_api_version m)" "is_known_api_version (rl_api_version n)"
    and "no_collision (dg_sha256 D)
       (agent_release_hash_domain (for_hashing (rl_api_version m)) @ [CHR 0x0A] @ canonical_bytes D nfc m)
       (agent_release_hash_domain (for_hashing (rl_api_version n)) @ [CHR 0x0A] @ canonical_bytes D nfc n)"
    and "jcs_separates (dg_jcs D) (canonical_view nfc m) (canonical_view nfc n)"
    and "manifest_hash D nfc m = manifest_hash D nfc n"
  shows "rl_api_version m = rl_api_version n \<and> pins nfc m = pins nfc n"
proof -
  let ?dom = "\<lambda>x. agent_release_hash_domain (for_hashing (rl_api_version x))"
  have mem: "?dom x \<in> set hash_domains" for x
    by (cases "for_hashing (rl_api_version x)") (simp_all add: hash_domains_def NAMESPACE_ALL_def)
  from assms(4,6) have "?dom m @ CHR 0x0A # canonical_bytes D nfc m = ?dom n @ CHR 0x0A # canonical_bytes D nfc n"
    by (simp add: manifest_hash_def no_collision_def)
  from domain_separated_inject [OF mem mem this]
  have same: "?dom m = ?dom n" "canonical_bytes D nfc m = canonical_bytes D nfc n" by simp_all
  from same(1) have "rl_api_version m = rl_api_version n"
    using assms(2,3) by (auto simp: is_known_api_version_iff for_hashing_def of_api_version_def NAMESPACE_ALL_def
        agent_release_hash_domain_def ns_api_version_def namespace_id_defs)
  with same(2) assms(1,5) show ?thesis by (simp add: jcs_separates_def canonical_bytes_def view_pins)
qed

end
