(* ===== verification/Policy.thy ===== *)
theory Policy
  imports Json
begin

text \<open>
  The policy engine of the tool gate (\<open>cloakpipe-policy/src/lib.rs\<close>): the ids of a policy set,
  the spelling \<open>Tool::"..."\<close> of actions, and how Cedar's answer becomes a decision.

  Cedar is third-party code: a parsed policy set is what \<open>cedar_set\<close> says of it, and building and
  authorizing a request is the function \<open>cedar\<close>, whose response carries Cedar's decision, the ids of
  the determining policies and the ids of the policies that failed to evaluate.
\<close>

section \<open>Parsing\<close>

datatype policy_error =
    TemplatesNotSupported
  | EmptyIdAnnotation
  | DuplicatePolicyId string
  | PolicyInput string
  | PolicyEvaluation "string list"

text \<open>One static policy: Cedar's positional id, and its annotations.\<close>

record cedar_policy =
  cp_id :: string
  cp_annotations :: "(string \<times> string) list"

record cedar_set =
  cd_templates :: bool
  cd_policies :: "cedar_policy list"

definition ID_ANNOTATION :: string where "ID_ANNOTATION = ''id''"
definition APPROVAL_ANNOTATION :: string where "APPROVAL_ANNOTATION = ''approval''"

definition policy_new_id :: "cedar_policy \<Rightarrow> policy_error + cedar_policy" where
  "policy_new_id p =
     (case map_of (cp_annotations p) ID_ANNOTATION of
        Some i \<Rightarrow> if is_blank i then Err EmptyIdAnnotation else Ok (p\<lparr>cp_id := i\<rparr>)
      | None \<Rightarrow> Ok p)"

fun add_policies :: "cedar_policy list \<Rightarrow> cedar_policy list \<Rightarrow> policy_error + cedar_policy list" where
  "add_policies acc [] = Ok acc"
| "add_policies acc (p # ps) =
     rbind (policy_new_id p) (\<lambda>q.
       if cp_id q \<in> cp_id ` set acc then Err (DuplicatePolicyId (cp_id q))
       else add_policies (acc @ [q]) ps)"

definition engine_parse :: "cedar_set \<Rightarrow> policy_error + cedar_policy list" where
  "engine_parse parsed =
     (if cd_templates parsed then Err TemplatesNotSupported else add_policies [] (cd_policies parsed))"

definition policy_ids :: "cedar_policy list \<Rightarrow> string list" where
  "policy_ids ps = sort (map cp_id ps)"

definition policy_annotation :: "cedar_policy list \<Rightarrow> string \<Rightarrow> string \<Rightarrow> string option" where
  "policy_annotation ps i key =
     Option.bind (List.find (\<lambda>p. cp_id p = i) ps) (\<lambda>p. map_of (cp_annotations p) key)"

section \<open>Evaluation\<close>

datatype policy_decision =
    Allow "string list"
  | RequireApproval "string list" "string list"
  | Deny "string list"

record cedar_response =
  cr_allow :: bool
  cr_reason :: "string list"
  cr_errors :: "string list"

text \<open>A \<open>BTreeSet\<close> collected from an iterator, in order.\<close>

definition btree_set :: "string list \<Rightarrow> string list" where
  "btree_set xs = sorted_list_of_set (set xs)"

text \<open>The loop over the satisfied permits: \<open>None\<close> when one of them needs no approval.\<close>

fun approval_routes :: "(string \<Rightarrow> string option) \<Rightarrow> string list \<Rightarrow> string list \<Rightarrow> string list option" where
  "approval_routes ann approvers [] = Some approvers"
| "approval_routes ann approvers (i # ids) =
     (case ann i of
        None \<Rightarrow> None
      | Some route \<Rightarrow>
          approval_routes ann
            (if route \<noteq> [] \<and> route \<notin> set approvers then approvers @ [route] else approvers) ids)"

definition policy_evaluate ::
  "('call \<Rightarrow> policy_error + cedar_response) \<Rightarrow> cedar_policy list \<Rightarrow> 'call
   \<Rightarrow> policy_error + policy_decision" where
  "policy_evaluate cedar ps call =
     rbind (cedar call) (\<lambda>response.
     let errored = btree_set (cr_errors response);
         satisfied = btree_set (cr_reason response)
     in if errored \<noteq> [] then Err (PolicyEvaluation errored)
        else if \<not> cr_allow response then Ok (Deny satisfied)
        else (case approval_routes (\<lambda>i. policy_annotation ps i APPROVAL_ANNOTATION) [] satisfied of
                None \<Rightarrow> Ok (Allow satisfied)
              | Some approvers \<Rightarrow> Ok (RequireApproval approvers satisfied)))"

section \<open>The \<open>Tool::"..."\<close> spelling\<close>

text \<open>The end of a string literal after its opening quote: a backslash takes the next byte with
  it. The result is the literal's bytes and the rest.\<close>

fun literal_span :: "string \<Rightarrow> string \<times> string" where
  "literal_span [] = ([], [])"
| "literal_span [c] = ([c], [])"
| "literal_span (c # d # s) =
     (if c = CHR 0x22 then ([c], d # s)
      else if c = CHR 0x5C then (let (a, b) = literal_span s in (c # d # a, b))
      else (let (a, b) = literal_span (d # s) in (c # a, b)))"

lemma literal_span_append: "fst (literal_span s) @ snd (literal_span s) = s"
  by (induction s rule: literal_span.induct) (auto split: prod.splits)

lemma literal_span_shorter: "length (snd (literal_span s)) \<le> length s"
  by (metis length_append le_add2 literal_span_append)

definition TOOL_FROM :: string where "TOOL_FROM = ''Tool::'' @ [CHR 0x22]"

definition path_byte :: "char \<Rightarrow> bool" where
  "path_byte c \<longleftrightarrow> is_ascii_alphanumeric c \<or> c = CHR ''_'' \<or> c = CHR '':''"

text \<open>The loop over the bytes; \<open>prev\<close> is the byte before.\<close>

function tool_as_action_from :: "char option \<Rightarrow> string \<Rightarrow> string" where
  "tool_as_action_from prev [] = []"
| "tool_as_action_from prev (c # s) =
     (if c = CHR 0x22 then
        c # fst (literal_span s) @ tool_as_action_from (Some (CHR 0x22)) (snd (literal_span s))
      else if c = CHR ''/'' \<and> starts_with ''/'' s then
        takeWhile (\<lambda>b. b \<noteq> CHR 0x0A) (c # s)
          @ tool_as_action_from (Some (CHR ''/'')) (dropWhile (\<lambda>b. b \<noteq> CHR 0x0A) s)
      else if starts_with TOOL_FROM (c # s) \<and> \<not> is_some_and path_byte prev then
        ''Action::'' @ tool_as_action_from (Some (CHR '':'')) (drop 5 s)
      else c # tool_as_action_from (Some c) s)"
  by pat_completeness auto
termination
proof (relation "measure (\<lambda>(prev, s). length s)")
qed (auto simp: le_imp_less_Suc literal_span_shorter length_dropWhile_le)

declare tool_as_action_from.simps(2) [simp del]

definition tool_as_action :: "string \<Rightarrow> string" where
  "tool_as_action src = tool_as_action_from None src"

section \<open>Decisions\<close>

lemma btree_set_iff [simp]: "set (btree_set xs) = set xs" "btree_set xs = [] \<longleftrightarrow> xs = []"
  by (simp_all add: btree_set_def)

lemma approval_routes_None: "approval_routes ann acc ids = None \<longleftrightarrow> (\<exists>i\<in>set ids. ann i = None)"
  by (induction ids arbitrary: acc) (auto split: option.splits)

lemma approval_routes_Some:
  "approval_routes ann acc ids = Some rs \<Longrightarrow>
     set rs = set acc \<union> {r. r \<noteq> [] \<and> (\<exists>i\<in>set ids. ann i = Some r)} \<and> (distinct acc \<longrightarrow> distinct rs)"
proof (induction ids arbitrary: acc)
  case (Cons i ids)
  then obtain route where "ann i = Some route" by (auto split: option.splits)
  with Cons show ?case by (auto split: if_splits)
qed simp

lemma policy_evaluate_Allow:
  "policy_evaluate cedar ps call = Ok (Allow ids) \<longleftrightarrow>
     (\<exists>r. cedar call = Ok r \<and> cr_errors r = [] \<and> cr_allow r \<and> ids = btree_set (cr_reason r)
        \<and> (\<exists>i\<in>set (cr_reason r). policy_annotation ps i APPROVAL_ANNOTATION = None))"
  by (auto simp: policy_evaluate_def Let_def approval_routes_None split: if_splits option.splits)

lemma policy_evaluate_RequireApproval:
  assumes "policy_evaluate cedar ps call = Ok (RequireApproval approvers ids)"
  shows "\<exists>r. cedar call = Ok r \<and> cr_errors r = [] \<and> cr_allow r \<and> ids = btree_set (cr_reason r)
     \<and> (\<forall>i\<in>set (cr_reason r). policy_annotation ps i APPROVAL_ANNOTATION \<noteq> None)
     \<and> set approvers = {a. a \<noteq> [] \<and> (\<exists>i\<in>set (cr_reason r). policy_annotation ps i APPROVAL_ANNOTATION = Some a)}
     \<and> distinct approvers"
proof -
  let ?ann = "\<lambda>i. policy_annotation ps i APPROVAL_ANNOTATION"
  from assms obtain r where r: "cedar call = Ok r" "cr_errors r = []" "cr_allow r"
    "ids = btree_set (cr_reason r)"
    and routes: "approval_routes ?ann [] (btree_set (cr_reason r)) = Some approvers"
    by (auto simp: policy_evaluate_def Let_def split: if_splits option.splits)
  have "\<forall>i\<in>set (cr_reason r). ?ann i \<noteq> None"
    using approval_routes_None [of ?ann "[]" "btree_set (cr_reason r)"] routes by auto
  with r approval_routes_Some [OF routes] show ?thesis by auto
qed

lemma add_policies_distinct:
  "add_policies acc ps = Ok qs \<Longrightarrow> distinct (map cp_id acc) \<Longrightarrow> distinct (map cp_id qs)"
  by (induction ps arbitrary: acc) (auto split: if_splits)

text \<open>A source that never writes \<open>Tool::"\<close> is left alone.\<close>

lemma contains_str_suffix: "contains_str p t \<Longrightarrow> contains_str p (s @ t)"
  by (simp add: contains_str_iff sublist_append)

lemma tool_as_action_id:
  "\<not> contains_str TOOL_FROM s \<Longrightarrow> tool_as_action_from prev s = s"
proof (induction prev s rule: tool_as_action_from.induct)
  case (2 prev c s)
  have lit: "\<not> contains_str TOOL_FROM (snd (literal_span s))"
    using 2(5) contains_str_suffix [of TOOL_FROM "snd (literal_span s)" "c # fst (literal_span s)"]
    by (auto simp: literal_span_append)
  have com: "\<not> contains_str TOOL_FROM (dropWhile (\<lambda>b. b \<noteq> CHR 0x0A) s)"
    using 2(5) contains_str_suffix [of TOOL_FROM "dropWhile (\<lambda>b. b \<noteq> CHR 0x0A) s"
        "c # takeWhile (\<lambda>b. b \<noteq> CHR 0x0A) s"] by auto
  have rest: "\<not> contains_str TOOL_FROM s" "\<not> starts_with TOOL_FROM (c # s)" using 2(5) by simp_all
  show ?case
    using 2(1) lit 2(2) com 2(4) rest literal_span_append [of s]
    by (auto simp: tool_as_action_from.simps(2))
qed simp

end
