(* ===== verification/Counters.thy ===== *)
theory Counters
  imports Cloak_Prelude
begin

text \<open>
  The call counters behind \<open>context.counters\<close> (\<open>cloakpipe-policy/src/counters.rs\<close>): one row per
  forwarded call, pruned of rows older than a day as calls are recorded, counted over the last
  hour and the last day. The table is the list of its rows in insertion order; ids come from
  \<open>AUTOINCREMENT\<close> and are never used again.

  The store is shown to refine the full history of calls, which is never pruned.
\<close>

section \<open>The store\<close>

definition DAY :: int where "DAY = 24 * 3600"
definition HOUR :: int where "HOUR = 3600"

record call_row =
  cl_id :: int
  cl_release :: string
  cl_tool :: string
  cl_at :: int

record window =
  last_1h :: nat
  last_24h :: nat

definition window_default :: window where
  "window_default = \<lparr>last_1h = 0, last_24h = 0\<rparr>"

record counters =
  ct_rows :: "call_row list"
  ct_next :: int

definition counters_init :: counters where
  "counters_init = \<lparr>ct_rows = [], ct_next = 1\<rparr>"

definition counters_record :: "counters \<Rightarrow> string \<Rightarrow> string \<Rightarrow> int \<Rightarrow> counters \<times> int" where
  "counters_record c release tool at_unix =
     (\<lparr>ct_rows = filter (\<lambda>r. \<not> cl_at r \<le> at_unix - DAY) (ct_rows c)
          @ [\<lparr>cl_id = ct_next c, cl_release = release, cl_tool = tool, cl_at = at_unix\<rparr>],
       ct_next = ct_next c + 1\<rparr>, ct_next c)"

definition counters_forget :: "counters \<Rightarrow> int \<Rightarrow> counters" where
  "counters_forget c i = c\<lparr>ct_rows := filter (\<lambda>r. cl_id r \<noteq> i) (ct_rows c)\<rparr>"

text \<open>The rows of the query, and its two aggregates for one tool.\<close>

definition selected :: "call_row list \<Rightarrow> string \<Rightarrow> int \<Rightarrow> call_row list" where
  "selected rows release now_unix =
     filter (\<lambda>r. cl_release r = release \<and> cl_at r > now_unix - DAY \<and> cl_at r \<le> now_unix) rows"

definition tool_window :: "call_row list \<Rightarrow> int \<Rightarrow> string \<Rightarrow> window" where
  "tool_window sel now_unix tool =
     (let mine = filter (\<lambda>r. cl_tool r = tool) sel
      in \<lparr>last_1h = length (filter (\<lambda>r. cl_at r > now_unix - HOUR) mine), last_24h = length mine\<rparr>)"

definition counters_snapshot ::
  "counters \<Rightarrow> string \<Rightarrow> string list \<Rightarrow> int \<Rightarrow> (string \<times> window) list" where
  "counters_snapshot c release tools now_unix =
     (let out = fold (\<lambda>t. bt_insert t window_default) tools [];
          sel = selected (ct_rows c) release now_unix
      in map (\<lambda>e. if \<exists>r\<in>set sel. cl_tool r = fst e then (fst e, tool_window sel now_unix (fst e)) else e) out)"

definition stored_calls :: "counters \<Rightarrow> int" where
  "stored_calls c = int (length (ct_rows c))"

section \<open>The full history\<close>

text \<open>Every call recorded and not withdrawn, with the latest time recorded so far.\<close>

record history =
  h_calls :: "call_row list"
  h_next :: int
  h_latest :: "int option"

definition history_init :: history where
  "history_init = \<lparr>h_calls = [], h_next = 1, h_latest = None\<rparr>"

definition history_record :: "history \<Rightarrow> string \<Rightarrow> string \<Rightarrow> int \<Rightarrow> history \<times> int" where
  "history_record h release tool at_unix =
     (\<lparr>h_calls = h_calls h @ [\<lparr>cl_id = h_next h, cl_release = release, cl_tool = tool, cl_at = at_unix\<rparr>],
       h_next = h_next h + 1,
       h_latest = Some (case h_latest h of None \<Rightarrow> at_unix | Some t \<Rightarrow> max t at_unix)\<rparr>, h_next h)"

definition history_forget :: "history \<Rightarrow> int \<Rightarrow> history" where
  "history_forget h i = h\<lparr>h_calls := filter (\<lambda>r. cl_id r \<noteq> i) (h_calls h)\<rparr>"

text \<open>How often a tool was called for a release after \<open>lo\<close>, up to \<open>hi\<close>.\<close>

definition history_count :: "history \<Rightarrow> string \<Rightarrow> string \<Rightarrow> int \<Rightarrow> int \<Rightarrow> nat" where
  "history_count h release tool lo hi =
     length (filter (\<lambda>r. cl_release r = release \<and> cl_tool r = tool \<and> lo < cl_at r \<and> cl_at r \<le> hi) (h_calls h))"

text \<open>The store has what the history has, but for calls a day older than the latest one.\<close>

definition refines :: "history \<Rightarrow> counters \<Rightarrow> bool" where
  "refines h c \<longleftrightarrow>
     ct_next c = h_next h
     \<and> ct_rows c = filter (\<lambda>r. is_some_and (\<lambda>t. cl_at r > t - DAY) (h_latest h)) (h_calls h)
     \<and> (h_latest h = None \<longrightarrow> h_calls h = [])"

lemma refines_init: "refines history_init counters_init"
  by (simp add: refines_def history_init_def counters_init_def)

lemma refines_record:
  assumes "refines h c" "case h_latest h of None \<Rightarrow> True | Some t \<Rightarrow> t \<le> at_unix"
  shows "refines (fst (history_record h rel tool at_unix)) (fst (counters_record c rel tool at_unix))"
    and "snd (history_record h rel tool at_unix) = snd (counters_record c rel tool at_unix)"
proof -
  show "snd (history_record h rel tool at_unix) = snd (counters_record c rel tool at_unix)"
    using assms by (simp add: refines_def history_record_def counters_record_def)
  show "refines (fst (history_record h rel tool at_unix)) (fst (counters_record c rel tool at_unix))"
  proof (cases "h_latest h")
    case None
    with assms show ?thesis
      by (simp add: refines_def history_record_def counters_record_def DAY_def)
  next
    case (Some t)
    have "filter (\<lambda>r. at_unix - DAY < cl_at r) (filter (\<lambda>r. t - DAY < cl_at r) (h_calls h)) =
        filter (\<lambda>r. at_unix - DAY < cl_at r) (h_calls h)"
      unfolding filter_filter using assms(2) Some by (intro filter_cong) auto
    with Some assms show ?thesis
      by (simp add: refines_def history_record_def counters_record_def max_def not_le DAY_def)
  qed
qed

lemma refines_forget: "refines h c \<Longrightarrow> refines (history_forget h i) (counters_forget c i)"
  by (auto simp: refines_def history_forget_def counters_forget_def intro: filter_cong)

lemma selected_history:
  assumes "refines h c" "case h_latest h of None \<Rightarrow> True | Some t \<Rightarrow> t \<le> now"
  shows "selected (ct_rows c) rel now = selected (h_calls h) rel now"
proof (cases "h_latest h")
  case None
  with assms show ?thesis by (simp add: refines_def selected_def)
next
  case (Some t)
  with assms show ?thesis
    unfolding refines_def selected_def by (auto simp: intro!: filter_cong)
qed

lemma bt_fold_keys:
  "sorted_keys out \<Longrightarrow> sorted_keys (fold (\<lambda>t. bt_insert t v) ts out)
     \<and> map_of (fold (\<lambda>t. bt_insert t v) ts out) = (\<lambda>k. if k \<in> set ts then Some v else map_of out k)"
  by (induction ts arbitrary: out) (auto simp: sorted_keys_bt_insert fun_eq_iff)

lemma map_of_map_key: "map_of (map (\<lambda>e. (fst e, f (fst e) (snd e))) m) k = map_option (f k) (map_of m k)"
  by (induction m) auto

lemma tool_window_absent:
  "\<not> (\<exists>r\<in>set sel. cl_tool r = tool) \<Longrightarrow> tool_window sel now tool = window_default"
  by (auto simp: tool_window_def window_default_def filter_empty_conv Let_def)

text \<open>The snapshot counts the history exactly, whenever it is taken at or after the latest
  recorded call.\<close>

lemma snapshot_history:
  assumes "refines h c" "case h_latest h of None \<Rightarrow> True | Some t \<Rightarrow> t \<le> now"
  shows "map_of (counters_snapshot c rel tools now) tool =
    (if tool \<in> set tools
     then Some \<lparr>last_1h = history_count h rel tool (now - HOUR) now,
                last_24h = history_count h rel tool (now - DAY) now\<rparr>
     else None)"
proof -
  let ?sel = "selected (ct_rows c) rel now"
  have w: "tool_window ?sel now t = \<lparr>last_1h = history_count h rel t (now - HOUR) now,
      last_24h = history_count h rel t (now - DAY) now\<rparr>" for t
    unfolding selected_history [OF assms]
    by (auto simp: tool_window_def selected_def history_count_def Let_def HOUR_def DAY_def
        intro!: arg_cong [where f = length] filter_cong)
  have "counters_snapshot c rel tools now =
      map (\<lambda>e. (fst e, if \<exists>r\<in>set ?sel. cl_tool r = fst e then tool_window ?sel now (fst e) else snd e))
        (fold (\<lambda>t. bt_insert t window_default) tools [])"
    by (simp add: counters_snapshot_def Let_def cong: map_cong)
  then have "map_of (counters_snapshot c rel tools now) tool =
      map_option (\<lambda>v. if \<exists>r\<in>set ?sel. cl_tool r = tool then tool_window ?sel now tool else v)
        (map_of (fold (\<lambda>t. bt_insert t window_default) tools []) tool)"
    by (simp only: map_of_map_key [where f = "\<lambda>k v. if \<exists>r\<in>set ?sel. cl_tool r = k then tool_window ?sel now k else v"])
  also have "\<dots> = (if tool \<in> set tools then Some (tool_window ?sel now tool) else None)"
    using bt_fold_keys [of "[]" window_default tools] tool_window_absent [of ?sel tool now]
    by (auto simp: sorted_keys_def)
  finally show ?thesis by (simp only: w)
qed

section \<open>Runs\<close>

datatype counter_event = CRecord string string int | CForget int

fun counters_step :: "counters \<Rightarrow> counter_event \<Rightarrow> counters" where
  "counters_step c (CRecord rel tool t) = fst (counters_record c rel tool t)"
| "counters_step c (CForget i) = counters_forget c i"

fun history_step :: "history \<Rightarrow> counter_event \<Rightarrow> history" where
  "history_step h (CRecord rel tool t) = fst (history_record h rel tool t)"
| "history_step h (CForget i) = history_forget h i"

text \<open>A time that no recorded call is later than, and the clock that does not run backwards: each
  call is recorded at such a time.\<close>

definition at_or_after :: "history \<Rightarrow> int \<Rightarrow> bool" where
  "at_or_after h t = (case h_latest h of None \<Rightarrow> True | Some u \<Rightarrow> u \<le> t)"

fun clock_ok :: "history \<Rightarrow> counter_event \<Rightarrow> bool" where
  "clock_ok h (CRecord rel tool t) = at_or_after h t"
| "clock_ok h (CForget i) = True"

interpretation counting: guarded_simulation refines history_step counters_step clock_ok
proof unfold_locales
  fix h c e
  assume "refines h c" "clock_ok h e"
  then show "refines (history_step h e) (counters_step c e)"
    by (cases e) (simp_all add: refines_record(1) refines_forget at_or_after_def)
qed

lemma snapshot_run:
  assumes "enabled_run history_step clock_ok history_init es"
    and "at_or_after (foldl history_step history_init es) now"
  shows "map_of (counters_snapshot (foldl counters_step counters_init es) rel tools now) tool =
    (if tool \<in> set tools
     then Some \<lparr>last_1h = history_count (foldl history_step history_init es) rel tool (now - HOUR) now,
                last_24h = history_count (foldl history_step history_init es) rel tool (now - DAY) now\<rparr>
     else None)"
  using snapshot_history [OF counting.run_rel [OF refines_init assms(1)]] assms(2)
  by (simp add: at_or_after_def)

end
