(* ===== verification/Approval.thy ===== *)
theory Approval
  imports Tool_Contract
begin

text \<open>
  Signed approval receipts (\<open>cloakpipe-receipt/src/dsse.rs\<close> and \<open>approval.rs\<close>): the DSSE
  envelope, which keyids verify, and the check of a receipt against the call at hand.

  Ed25519, base64, the RFC 8785 encoder, the JSON reader, the derived deserializer of the
  predicate and chrono's date parser are the fields of \<open>receipt_ops\<close>. An instant is a number of
  nanoseconds.
\<close>

section \<open>Envelopes\<close>

definition STATEMENT_TYPE :: string where "STATEMENT_TYPE = ''https://in-toto.io/Statement/v1''"
definition PAYLOAD_TYPE :: string where "PAYLOAD_TYPE = ''application/vnd.in-toto+json''"

record signature =
  sg_keyid :: string
  sg_sig :: string

record envelope =
  en_payload_type :: string
  en_payload :: string
  en_signatures :: "signature list"

record trusted_key =
  tk_keyid :: string
  tk_public :: string

record approval =
  ap_release :: string
  ap_tool :: string
  ap_task_id :: string
  ap_operation_id :: string
  ap_approver :: string
  ap_approved_at :: string
  ap_not_after :: string

record receipt_ops =
  ro_sign :: "string \<Rightarrow> string \<Rightarrow> string"
  ro_public :: "string \<Rightarrow> string"
  ro_verify :: "string \<Rightarrow> string \<Rightarrow> string \<Rightarrow> bool"
  ro_b64_encode :: "string \<Rightarrow> string"
  ro_b64_decode :: "string \<Rightarrow> string option"
  ro_jcs :: "json \<Rightarrow> string"
  ro_read :: "string \<Rightarrow> doc option"
  ro_decode :: "json \<Rightarrow> approval option"
  ro_time :: "string \<Rightarrow> int option"

definition pae :: "string \<Rightarrow> string \<Rightarrow> string" where
  "pae payload_type payload =
     ''DSSEv1 '' @ show_nat (length payload_type) @ '' '' @ payload_type @ '' ''
       @ show_nat (length payload) @ '' '' @ payload"

definition dsse_sign :: "receipt_ops \<Rightarrow> json \<Rightarrow> string \<Rightarrow> string \<Rightarrow> envelope" where
  "dsse_sign S statement key keyid =
     (let payload = ro_jcs S statement
      in \<lparr>en_payload_type = PAYLOAD_TYPE, en_payload = ro_b64_encode S payload,
          en_signatures = [\<lparr>sg_keyid = keyid,
            sg_sig = ro_b64_encode S (ro_sign S key (pae PAYLOAD_TYPE payload))\<rparr>]\<rparr>)"

datatype signature_problem = KeyidNotTrusted | SigNotBase64 | SigNot64Bytes | SigDoesNotVerify

definition check_signature ::
  "receipt_ops \<Rightarrow> signature \<Rightarrow> string \<Rightarrow> trusted_key list \<Rightarrow> signature_problem + unit" where
  "check_signature S s message trusted =
     (let candidates = filter (\<lambda>k. tk_keyid k = sg_keyid s) trusted
      in if candidates = [] then Err KeyidNotTrusted
         else rbind (ok_or SigNotBase64 (ro_b64_decode S (sg_sig s))) (\<lambda>bytes.
              if length bytes \<noteq> 64 then Err SigNot64Bytes
              else if list_ex (\<lambda>k. ro_verify S (tk_public k) message bytes) candidates then Ok ()
              else Err SigDoesNotVerify))"

definition verified_keyids ::
  "receipt_ops \<Rightarrow> envelope \<Rightarrow> string \<Rightarrow> trusted_key list \<Rightarrow> string set \<times> (nat \<times> signature_problem) list" where
  "verified_keyids S env payload trusted =
     (let message = pae (en_payload_type env) payload;
          results = map (\<lambda>s. check_signature S s message trusted) (en_signatures env)
      in (set (map (sg_keyid \<circ> fst) (filter (\<lambda>p. is_ok (snd p)) (zip (en_signatures env) results))),
          List.map_filter (\<lambda>p. case snd p of Inl e \<Rightarrow> Some (fst p, e) | Inr _ \<Rightarrow> None)
            (enumerate 0 results)))"

section \<open>Operation ids\<close>

definition OPERATION_ID_FORBIDDEN :: "string list" where
  "OPERATION_ID_FORBIDDEN =
     [''aadhaar'', ''pan'', ''ifsc'', ''gstin'', ''ssn'', ''phone'', ''email'']"

definition operation_id_char :: "char \<Rightarrow> bool" where
  "operation_id_char b \<longleftrightarrow> is_ascii_alphanumeric b \<or> b \<in> set ''-_.:''"

definition is_valid_operation_id :: "string \<Rightarrow> bool" where
  "is_valid_operation_id x \<longleftrightarrow>
     1 \<le> length x \<and> length x \<le> 128 \<and> list_all operation_id_char x
     \<and> \<not> list_ex (\<lambda>m. contains_str m (to_ascii_lowercase x)) OPERATION_ID_FORBIDDEN"

section \<open>Approvals\<close>

definition CLOCK_SKEW_SECS :: int where "CLOCK_SKEW_SECS = 60"

definition NANOS :: int where "NANOS = 1000000000"

text \<open>\<open>serde_json::to_value\<close> of an approval, and the statement that carries it.\<close>

definition approval_predicate :: "approval \<Rightarrow> json" where
  "approval_predicate a =
     JObject [(''release'', JString (ap_release a)), (''tool'', JString (ap_tool a)),
       (''taskId'', JString (ap_task_id a)), (''operationId'', JString (ap_operation_id a)),
       (''approver'', JString (ap_approver a)), (''approvedAt'', JString (ap_approved_at a)),
       (''notAfter'', JString (ap_not_after a))]"

definition approval_statement :: "string \<Rightarrow> approval \<Rightarrow> json" where
  "approval_statement fp a =
     JObject [(''_type'', JString STATEMENT_TYPE),
       (''subject'', JArray [JObject [(''name'', JString (''tool-call:'' @ ap_tool a)),
          (''digest'', JObject [(''sha256'', JString (hex_encode fp))])]]),
       (''predicateType'', JString APPROVAL_PREDICATE_TYPE),
       (''predicate'', approval_predicate a)]"

definition sign_approval :: "receipt_ops \<Rightarrow> string \<Rightarrow> approval \<Rightarrow> string \<Rightarrow> string \<Rightarrow> envelope" where
  "sign_approval S fp a key keyid = dsse_sign S (approval_statement fp a) key keyid"

text \<open>\<open>from_slice::<NoDuplicateKeys>\<close>, then \<open>from_slice::<Value>\<close>, on the same bytes.\<close>

definition parse_json_strict :: "receipt_ops \<Rightarrow> string \<Rightarrow> json option" where
  "parse_json_strict S src = Option.bind (ro_read S src) (\<lambda>d. result_ok (strict_value d))"

definition parse_rfc3339 :: "receipt_ops \<Rightarrow> string \<Rightarrow> int option" where
  "parse_rfc3339 S v =
     (if length v \<le> 10 \<or> v ! 10 \<notin> {CHR ''T'', CHR ''t''} then None else ro_time S v)"

record approval_check =
  ac_fingerprint :: string
  ac_release :: string
  ac_tool :: string
  ac_task_id :: string
  ac_approvers :: "trusted_key list"
  ac_now :: string

datatype approval_problem =
    BadPayloadType | PayloadNotBase64 | NoTrustedSignature | PayloadNotJson | BadStatementType
  | BadPredicateType | BadSubject | PredicateMalformed | PredicateMissing | ApproverNotSigner
  | OtherRelease | OtherTool | OtherTask | BadOperationId | BadTime | EmptyValidity | ApprovedInFuture

datatype approval_error = Invalid approval_problem | Expired

definition approval_error_code :: "approval_error \<Rightarrow> string" where
  "approval_error_code e = (case e of Invalid _ \<Rightarrow> ''approval_invalid'' | Expired \<Rightarrow> ''approval_expired'')"

definition subject_ok :: "json \<Rightarrow> string \<Rightarrow> bool" where
  "subject_ok statement fp =
     (case json_get statement ''subject'' of
        Some (JArray [entry]) \<Rightarrow>
          Option.bind (json_get entry ''name'') as_str \<noteq> None
          \<and> Option.bind (json_path entry [''digest'', ''sha256'']) as_str = Some (hex_encode fp)
      | _ \<Rightarrow> False)"

definition require :: "bool \<Rightarrow> approval_problem \<Rightarrow> approval_error + unit" where
  "require b p = (if b then Ok () else Err (Invalid p))"

text \<open>The checks on the statement, up to the approval it carries.\<close>

definition read_statement ::
  "receipt_ops \<Rightarrow> envelope \<Rightarrow> approval_check \<Rightarrow> approval_error + (string set \<times> approval)" where
  "read_statement S env chk =
     rbind (require (en_payload_type env = PAYLOAD_TYPE) BadPayloadType) (\<lambda>_.
     rbind (ok_or (Invalid PayloadNotBase64) (ro_b64_decode S (en_payload env))) (\<lambda>payload.
     let signers = fst (verified_keyids S env payload (ac_approvers chk))
     in rbind (require (signers \<noteq> {}) NoTrustedSignature) (\<lambda>_.
        rbind (ok_or (Invalid PayloadNotJson) (parse_json_strict S payload)) (\<lambda>st.
        rbind (require (Option.bind (json_get st ''_type'') as_str = Some STATEMENT_TYPE) BadStatementType) (\<lambda>_.
        rbind (require (Option.bind (json_get st ''predicateType'') as_str = Some APPROVAL_PREDICATE_TYPE)
                 BadPredicateType) (\<lambda>_.
        rbind (require (subject_ok st (ac_fingerprint chk)) BadSubject) (\<lambda>_.
        rbind (ok_or (Invalid PredicateMissing) (json_get st ''predicate'')) (\<lambda>p.
        rbind (ok_or (Invalid PredicateMalformed) (ro_decode S p)) (\<lambda>a.
        Ok (signers, a))))))))))"

text \<open>The validity window, against the verifier's clock.\<close>

definition check_validity :: "receipt_ops \<Rightarrow> approval \<Rightarrow> string \<Rightarrow> approval_error + approval" where
  "check_validity S a now_text =
     (case (parse_rfc3339 S (ap_approved_at a), parse_rfc3339 S (ap_not_after a), parse_rfc3339 S now_text) of
        (Some approved_at, Some not_after, Some now) \<Rightarrow>
          if not_after \<le> approved_at then Err (Invalid EmptyValidity)
          else if approved_at > now + CLOCK_SKEW_SECS * NANOS then Err (Invalid ApprovedInFuture)
          else if now \<ge> not_after then Err Expired
          else Ok a
      | _ \<Rightarrow> Err (Invalid BadTime))"

definition check_binding :: "string set \<Rightarrow> approval \<Rightarrow> approval_check \<Rightarrow> approval_error + unit" where
  "check_binding signers a chk =
     rbind (require (ap_approver a \<in> signers) ApproverNotSigner) (\<lambda>_.
     rbind (require (ap_release a = ac_release chk) OtherRelease) (\<lambda>_.
     rbind (require (ap_tool a = ac_tool chk) OtherTool) (\<lambda>_.
     rbind (require (ap_task_id a = ac_task_id chk) OtherTask) (\<lambda>_.
     require (is_valid_operation_id (ap_operation_id a)) BadOperationId))))"

definition verify_approval ::
  "receipt_ops \<Rightarrow> envelope \<Rightarrow> approval_check \<Rightarrow> approval_error + approval" where
  "verify_approval S env chk =
     rbind (read_statement S env chk) (\<lambda>(signers, a).
     rbind (check_binding signers a chk) (\<lambda>_. check_validity S a (ac_now chk)))"

section \<open>The pre-authentication encoding\<close>

lemma show_nat_no_space: "CHR '' '' \<notin> set (show_nat n)"
  using show_nat_digits [of "CHR '' ''" n] by (auto simp: str_simps)

lemma sized_field_inject:
  assumes "show_nat (length a) @ '' '' @ a @ x = show_nat (length b) @ '' '' @ b @ y"
  shows "a = b \<and> x = y"
proof -
  let ?f = "\<lambda>a x. show_nat (length a) @ CHR '' '' # (a @ x)"
  have "split_once (CHR '' '') (?f a x) = Some (show_nat (length a), a @ x)"
    "split_once (CHR '' '') (?f b y) = Some (show_nat (length b), b @ y)"
    by (rule split_once_append [OF show_nat_no_space])+
  moreover have "?f a x = ?f b y" using assms by simp
  ultimately have "Some (show_nat (length a), a @ x) = Some (show_nat (length b), b @ y)" by metis
  then have "length a = length b" "a @ x = b @ y" by simp_all
  then show ?thesis by simp
qed

lemma pae_inject: "pae t p = pae t' p' \<longleftrightarrow> t = t' \<and> p = p'"
proof
  assume "pae t p = pae t' p'"
  then have "show_nat (length t) @ '' '' @ t @ ('' '' @ show_nat (length p) @ '' '' @ p) =
      show_nat (length t') @ '' '' @ t' @ ('' '' @ show_nat (length p') @ '' '' @ p')"
    by (simp add: pae_def)
  from sized_field_inject [OF this] have t: "t = t'"
    and rest: "show_nat (length p) @ '' '' @ p @ [] = show_nat (length p') @ '' '' @ p' @ []" by simp_all
  from sized_field_inject [OF rest] t show "t = t' \<and> p = p'" by simp
qed simp

section \<open>What a verified receipt shows\<close>

lemma require_Ok [simp]: "require b p = Inr u \<longleftrightarrow> b"
  by (simp add: require_def)

lemma require_Expired [simp]: "require b p \<noteq> Inl Expired"
  by (simp add: require_def)

lemma check_signature_Ok:
  "check_signature S s m trusted = Inr () \<longleftrightarrow>
     (\<exists>bytes k. ro_b64_decode S (sg_sig s) = Some bytes \<and> length bytes = 64 \<and> k \<in> set trusted
        \<and> tk_keyid k = sg_keyid s \<and> ro_verify S (tk_public k) m bytes)"
  by (auto simp: check_signature_def Let_def list_ex_iff filter_empty_conv split: if_splits)

text \<open>A signature of the envelope under this keyid verifies over the payload, with a key trusted
  under the same keyid.\<close>

definition signed_by :: "receipt_ops \<Rightarrow> envelope \<Rightarrow> string \<Rightarrow> trusted_key list \<Rightarrow> string \<Rightarrow> bool" where
  "signed_by S env payload trusted keyid \<longleftrightarrow>
     (\<exists>s\<in>set (en_signatures env). sg_keyid s = keyid \<and>
        (\<exists>bytes k. ro_b64_decode S (sg_sig s) = Some bytes \<and> length bytes = 64 \<and> k \<in> set trusted
           \<and> tk_keyid k = keyid \<and> ro_verify S (tk_public k) (pae (en_payload_type env) payload) bytes))"

lemma verified_keyids_iff:
  "keyid \<in> fst (verified_keyids S env payload trusted) \<longleftrightarrow> signed_by S env payload trusted keyid"
proof -
  let ?c = "\<lambda>s. check_signature S s (pae (en_payload_type env) payload) trusted"
  have "fst (verified_keyids S env payload trusted) =
      sg_keyid ` {s \<in> set (en_signatures env). is_ok (?c s)}"
    by (auto simp: verified_keyids_def Let_def zip_map2 set_zip in_set_conv_nth image_iff) force
  moreover have "is_ok (?c s) \<longleftrightarrow> ?c s = Inr ()" for s by (cases "?c s") auto
  ultimately show ?thesis by (auto simp: signed_by_def check_signature_Ok)
qed

definition statement_of :: "receipt_ops \<Rightarrow> envelope \<Rightarrow> string \<Rightarrow> approval \<Rightarrow> string \<Rightarrow> bool" where
  "statement_of S env payload a fp \<longleftrightarrow>
     en_payload_type env = PAYLOAD_TYPE \<and> ro_b64_decode S (en_payload env) = Some payload
     \<and> (\<exists>st p. parse_json_strict S payload = Some st
          \<and> json_get st ''_type'' = Some (JString STATEMENT_TYPE)
          \<and> json_get st ''predicateType'' = Some (JString APPROVAL_PREDICATE_TYPE)
          \<and> subject_ok st fp \<and> json_get st ''predicate'' = Some p \<and> ro_decode S p = Some a)"

lemma read_statement_Ok:
  "read_statement S env chk = Inr (signers, a) \<longleftrightarrow>
     (\<exists>payload. statement_of S env payload a (ac_fingerprint chk) \<and> signers \<noteq> {}
        \<and> signers = {k. signed_by S env payload (ac_approvers chk) k})"
  by (auto simp: read_statement_def statement_of_def Let_def Option.bind_eq_Some_conv
      verified_keyids_iff [symmetric])

lemma read_statement_not_Expired: "read_statement S env chk \<noteq> Inl Expired"
  by (auto simp: read_statement_def Let_def rbind_eq_Err ok_or_def split: option.splits)

definition fresh_at :: "receipt_ops \<Rightarrow> approval \<Rightarrow> string \<Rightarrow> int \<Rightarrow> int \<Rightarrow> int \<Rightarrow> bool" where
  "fresh_at S a now_text approved_at not_after now \<longleftrightarrow>
     parse_rfc3339 S (ap_approved_at a) = Some approved_at
     \<and> parse_rfc3339 S (ap_not_after a) = Some not_after
     \<and> parse_rfc3339 S now_text = Some now
     \<and> approved_at < not_after \<and> approved_at \<le> now + CLOCK_SKEW_SECS * NANOS"

definition about_call :: "approval \<Rightarrow> approval_check \<Rightarrow> bool" where
  "about_call a chk \<longleftrightarrow> ap_release a = ac_release chk \<and> ap_tool a = ac_tool chk
     \<and> ap_task_id a = ac_task_id chk \<and> is_valid_operation_id (ap_operation_id a)"

lemma check_validity_Ok:
  "check_validity S a t = Inr b \<longleftrightarrow>
     b = a \<and> (\<exists>approved_at not_after now. fresh_at S a t approved_at not_after now \<and> now < not_after)"
  by (auto simp: check_validity_def fresh_at_def not_le not_less split: option.splits if_splits)

lemma check_validity_Expired:
  "check_validity S a t = Inl Expired \<longleftrightarrow>
     (\<exists>approved_at not_after now. fresh_at S a t approved_at not_after now \<and> not_after \<le> now)"
  by (auto simp: check_validity_def fresh_at_def not_le not_less split: option.splits if_splits)

lemma check_binding_Ok:
  "check_binding signers a chk = Inr () \<longleftrightarrow> ap_approver a \<in> signers \<and> about_call a chk"
  by (auto simp: check_binding_def about_call_def)

lemma check_binding_not_Expired: "check_binding signers a chk \<noteq> Inl Expired"
  by (auto simp: check_binding_def rbind_eq_Err)

text \<open>The receipt checks out but for the verifier's clock.\<close>

definition receipt_valid ::
  "receipt_ops \<Rightarrow> envelope \<Rightarrow> approval_check \<Rightarrow> approval \<Rightarrow> int \<Rightarrow> int \<Rightarrow> int \<Rightarrow> bool" where
  "receipt_valid S env chk a approved_at not_after now \<longleftrightarrow>
     (\<exists>payload. statement_of S env payload a (ac_fingerprint chk)
        \<and> signed_by S env payload (ac_approvers chk) (ap_approver a))
     \<and> about_call a chk \<and> fresh_at S a (ac_now chk) approved_at not_after now"

lemma bound_statement:
  "(\<exists>signers. read_statement S env chk = Inr (signers, a) \<and> check_binding signers a chk = Inr ()) \<longleftrightarrow>
     (\<exists>payload. statement_of S env payload a (ac_fingerprint chk)
        \<and> signed_by S env payload (ac_approvers chk) (ap_approver a)) \<and> about_call a chk"
  unfolding read_statement_Ok check_binding_Ok by blast

lemma verify_approval_bound:
  "verify_approval S env chk = Inr a \<longleftrightarrow>
     (\<exists>signers b. read_statement S env chk = Inr (signers, b) \<and> check_binding signers b chk = Inr ()
        \<and> check_validity S b (ac_now chk) = Inr a)"
  "verify_approval S env chk = Inl Expired \<longleftrightarrow>
     (\<exists>signers b. read_statement S env chk = Inr (signers, b) \<and> check_binding signers b chk = Inr ()
        \<and> check_validity S b (ac_now chk) = Inl Expired)"
  by (auto simp: verify_approval_def rbind_eq_Err read_statement_not_Expired check_binding_not_Expired)

lemma verify_approval_Ok:
  "verify_approval S env chk = Inr a \<longleftrightarrow>
     (\<exists>approved_at not_after now. receipt_valid S env chk a approved_at not_after now \<and> now < not_after)"
  unfolding verify_approval_bound receipt_valid_def using bound_statement [of S env chk a]
  by (auto simp: check_validity_Ok)

lemma verify_approval_Expired:
  "verify_approval S env chk = Inl Expired \<longleftrightarrow>
     (\<exists>a approved_at not_after now. receipt_valid S env chk a approved_at not_after now \<and> not_after \<le> now)"
  unfolding verify_approval_bound receipt_valid_def check_validity_Expired
  using bound_statement [of S env chk] by blast

section \<open>A receipt that was signed for the call verifies\<close>

text \<open>What the third-party operations do on the way from signing to verifying one statement: the
  signature verifies under the key's public half and is 64 bytes, base64 decodes what it encoded,
  the reader gives the encoded statement back up to member order, and the predicate decodes.\<close>

definition receipt_laws :: "receipt_ops \<Rightarrow> string \<Rightarrow> string \<Rightarrow> approval \<Rightarrow> bool" where
  "receipt_laws S key fp a \<longleftrightarrow>
     (let st = approval_statement fp a; payload = ro_jcs S st; m = pae PAYLOAD_TYPE payload; sig = ro_sign S key m
      in ro_verify S (ro_public S key) m sig \<and> length sig = 64
         \<and> ro_b64_decode S (ro_b64_encode S payload) = Some payload
         \<and> ro_b64_decode S (ro_b64_encode S sig) = Some sig
         \<and> (\<exists>w. parse_json_strict S payload = Some w \<and> json_eq st w)
         \<and> (\<forall>p. json_eq (approval_predicate a) p \<longrightarrow> ro_decode S p = Some a))"

lemma statement_fields:
  assumes "json_eq (approval_statement fp a) st"
  shows "json_get st ''_type'' = Some (JString STATEMENT_TYPE)"
    and "json_get st ''predicateType'' = Some (JString APPROVAL_PREDICATE_TYPE)"
    and "subject_ok st fp"
    and "\<exists>p. json_get st ''predicate'' = Some p \<and> json_eq (approval_predicate a) p"
proof -
  note member = json_eq_member [OF assms [unfolded approval_statement_def]]
  show "json_get st ''_type'' = Some (JString STATEMENT_TYPE)"
    using member [of "''_type''"] by (auto simp: json_eq_string)
  show "json_get st ''predicateType'' = Some (JString APPROVAL_PREDICATE_TYPE)"
    using member [of "''predicateType''"] by (auto simp: json_eq_string)
  show "\<exists>p. json_get st ''predicate'' = Some p \<and> json_eq (approval_predicate a) p"
    using member [of "''predicate''"] by auto
  let ?entry = "JObject [(''name'', JString (''tool-call:'' @ ap_tool a)),
    (''digest'', JObject [(''sha256'', JString (hex_encode fp))])]"
  obtain sub where sub: "json_get st ''subject'' = Some sub" "json_eq (JArray [?entry]) sub"
    using member [of "''subject''"] by auto
  obtain l where l: "sub = JArray l" using sub(2) by (cases sub) simp_all
  have "list_all2 json_eq [?entry] l" using sub(2) unfolding l json_eq_array .
  with l obtain entry where entry: "sub = JArray [entry]" "json_eq ?entry entry"
    by (auto simp only: list_all2_Cons1 list_all2_Nil)
  obtain dg where dg: "json_get entry ''digest'' = Some dg" "json_eq (JObject [(''sha256'', JString (hex_encode fp))]) dg"
    using json_eq_member [OF entry(2), of "''digest''"] by auto
  have "json_get dg ''sha256'' = Some (JString (hex_encode fp))"
    using json_eq_member [OF dg(2), of "''sha256''"] by (auto simp: json_eq_string)
  moreover have "json_get entry ''name'' = Some (JString (''tool-call:'' @ ap_tool a))"
    using json_eq_member [OF entry(2), of "''name''"] by (auto simp: json_eq_string)
  ultimately show "subject_ok st fp" using sub(1) entry(1) dg(1) by (simp add: subject_ok_def)
qed

lemma signed_receipt_valid:
  assumes laws: "receipt_laws S key fp a"
    and trusted: "\<lparr>tk_keyid = ap_approver a, tk_public = ro_public S key\<rparr> \<in> set (ac_approvers chk)"
    and "ac_fingerprint chk = fp" "about_call a chk" "fresh_at S a (ac_now chk) approved_at not_after now"
  shows "receipt_valid S (sign_approval S fp a key (ap_approver a)) chk a approved_at not_after now"
proof -
  let ?env = "sign_approval S fp a key (ap_approver a)"
  let ?payload = "ro_jcs S (approval_statement fp a)"
  from laws obtain w where w: "parse_json_strict S ?payload = Some w" "json_eq (approval_statement fp a) w"
    and dec: "\<And>p. json_eq (approval_predicate a) p \<Longrightarrow> ro_decode S p = Some a"
    by (auto simp: receipt_laws_def Let_def)
  have "statement_of S ?env ?payload a fp"
    using laws w(1) statement_fields [OF w(2)] dec
    by (auto simp: statement_of_def sign_approval_def dsse_sign_def receipt_laws_def Let_def)
  moreover have "signed_by S ?env ?payload (ac_approvers chk) (ap_approver a)"
    using laws trusted
    by (auto simp: signed_by_def sign_approval_def dsse_sign_def receipt_laws_def Let_def
        intro!: bexI [OF _ trusted])
  ultimately show ?thesis using assms(3-5) by (auto simp: receipt_valid_def)
qed

end
