(* ===== verification/Operations.thy ===== *)
theory Operations
  imports Cloak_Prelude
begin

text \<open>
  The operations store of the tool gate (\<open>cloakpipe-mcp/src/operations.rs\<close>): which operation a
  side-effecting call is, and where it stands.

  The SQLite table is an association list sorted by \<open>operation_id\<close> (the primary key, compared
  byte by byte), a row holds the columns as stored (the state as text, the masked flag nullable),
  and each method is a function of the store: one transaction is one step. \<open>now\<close> is the time the
  method writes; \<open>lock_free\<close> says whether the operating system grants the gate lock.
\<close>

section \<open>States and rows\<close>

datatype op_state = InFlight | Done | Failed | Unknown | NotApplied

fun op_state_as_str :: "op_state \<Rightarrow> string" where
  "op_state_as_str InFlight = ''in_flight''"
| "op_state_as_str Done = ''done''"
| "op_state_as_str Failed = ''failed''"
| "op_state_as_str Unknown = ''unknown''"
| "op_state_as_str NotApplied = ''not_applied''"

datatype operations_error =
    UnrecognisedState string
  | DigestNot32Bytes string
  | CannotSettleAs op_state
  | LockHeld

definition op_state_parse :: "string \<Rightarrow> operations_error + op_state" where
  "op_state_parse s =
     (if s = ''in_flight'' then Ok InFlight
      else if s = ''done'' then Ok Done
      else if s = ''failed'' then Ok Failed
      else if s = ''unknown'' then Ok Unknown
      else if s = ''not_applied'' then Ok NotApplied
      else Err (UnrecognisedState s))"

record raw_row =
  rr_tool :: string
  rr_digest :: string
  rr_state :: string
  rr_result :: "string option"
  rr_updated_at :: string
  rr_masked :: "bool option"

record operation_row =
  or_id :: string
  or_tool :: string
  or_digest :: string
  or_state :: op_state
  or_result :: "string option"
  or_updated_at :: string
  or_masked :: bool

definition to_row :: "string \<Rightarrow> raw_row \<Rightarrow> operations_error + operation_row" where
  "to_row x r =
     (if length (rr_digest r) \<noteq> 32 then Err (DigestNot32Bytes x)
      else rbind (op_state_parse (rr_state r)) (\<lambda>st.
        Ok \<lparr>or_id = x, or_tool = rr_tool r, or_digest = rr_digest r, or_state = st,
            or_result = rr_result r, or_updated_at = rr_updated_at r,
            or_masked = (rr_result r \<noteq> None \<and> (case rr_masked r of None \<Rightarrow> True | Some b \<Rightarrow> b))\<rparr>))"

type_synonym op_rows = "(string \<times> raw_row) list"

record op_store =
  os_rows :: op_rows
  os_key :: string
  os_gate_lock :: bool

text \<open>\<open>UPDATE ... WHERE\<close>.\<close>

definition update_where :: "(string \<Rightarrow> raw_row \<Rightarrow> bool) \<Rightarrow> (raw_row \<Rightarrow> raw_row) \<Rightarrow> op_rows \<Rightarrow> op_rows" where
  "update_where P f rows = map (\<lambda>m. if P (fst m) (snd m) then (fst m, f (snd m)) else m) rows"

section \<open>Operations\<close>

definition op_get :: "op_store \<Rightarrow> string \<Rightarrow> operations_error + operation_row option" where
  "op_get s x =
     (case map_of (os_rows s) x of
        None \<Rightarrow> Ok None
      | Some r \<Rightarrow> rbind (to_row x r) (\<lambda>row. Ok (Some row)))"

datatype begin_result =
    Forward
  | Replay "string option" bool
  | Conflict
  | ReconcileBeforeRetry op_state

definition new_row :: "string \<Rightarrow> string \<Rightarrow> string \<Rightarrow> raw_row" where
  "new_row tool call_digest now =
     \<lparr>rr_tool = tool, rr_digest = call_digest, rr_state = ''in_flight'', rr_result = None,
      rr_updated_at = now, rr_masked = Some False\<rparr>"

definition reset_row :: "op_state \<Rightarrow> string \<Rightarrow> raw_row \<Rightarrow> raw_row" where
  "reset_row st now r = r\<lparr>rr_state := op_state_as_str st, rr_result := None,
     rr_masked := Some False, rr_updated_at := now\<rparr>"

definition op_begin ::
  "op_store \<Rightarrow> string \<Rightarrow> string \<Rightarrow> string \<Rightarrow> string \<Rightarrow> operations_error + (op_store \<times> begin_result)" where
  "op_begin s x tool call_digest now =
     rbind (op_get s x) (\<lambda>existing.
     case existing of
       None \<Rightarrow>
         Ok (s\<lparr>os_rows := bt_insert x (new_row tool call_digest now) (os_rows s)\<rparr>, Forward)
     | Some r \<Rightarrow>
         if or_digest r \<noteq> call_digest \<or> or_tool r \<noteq> tool then Ok (s, Conflict)
         else (case or_state r of
                 Done \<Rightarrow> Ok (s, Replay (or_result r) (or_masked r))
               | InFlight \<Rightarrow> Ok (s, ReconcileBeforeRetry InFlight)
               | Unknown \<Rightarrow> Ok (s, ReconcileBeforeRetry Unknown)
               | _ \<Rightarrow> Ok (s\<lparr>os_rows := update_where (\<lambda>i _. i = x) (reset_row InFlight now)
                                   (os_rows s)\<rparr>, Forward)))"

definition is_in_flight :: "string \<Rightarrow> string \<Rightarrow> raw_row \<Rightarrow> bool" where
  "is_in_flight x i r \<longleftrightarrow> i = x \<and> rr_state r = ''in_flight''"

definition settle_with ::
  "op_store \<Rightarrow> string \<Rightarrow> op_state \<Rightarrow> string option \<Rightarrow> bool \<Rightarrow> string
   \<Rightarrow> operations_error + (op_store \<times> bool)" where
  "settle_with s x st result masked now =
     (if st \<notin> {Done, Failed, Unknown} then Err (CannotSettleAs st)
      else Ok (s\<lparr>os_rows := update_where (is_in_flight x)
                (\<lambda>r. r\<lparr>rr_state := op_state_as_str st, rr_result := result,
                      rr_masked := Some (masked \<and> result \<noteq> None), rr_updated_at := now\<rparr>) (os_rows s)\<rparr>,
               length (filter (\<lambda>m. is_in_flight x (fst m) (snd m)) (os_rows s)) = 1))"

definition settle :: "op_store \<Rightarrow> string \<Rightarrow> op_state \<Rightarrow> string option \<Rightarrow> string
   \<Rightarrow> operations_error + (op_store \<times> bool)" where
  "settle s x st result now = settle_with s x st result False now"

definition settle_masked :: "op_store \<Rightarrow> string \<Rightarrow> op_state \<Rightarrow> string option \<Rightarrow> string
   \<Rightarrow> operations_error + (op_store \<times> bool)" where
  "settle_masked s x st result now = settle_with s x st result True now"

definition claim_for_gate :: "op_store \<Rightarrow> bool \<Rightarrow> operations_error + op_store" where
  "claim_for_gate s lock_free =
     (if os_gate_lock s then Ok s
      else if lock_free then Ok (s\<lparr>os_gate_lock := True\<rparr>)
      else Err LockHeld)"

definition release_gate :: "op_store \<Rightarrow> op_store" where
  "release_gate s = s\<lparr>os_gate_lock := False\<rparr>"

definition recover :: "op_store \<Rightarrow> bool \<Rightarrow> string \<Rightarrow> operations_error + (op_store \<times> string list)" where
  "recover s lock_free now =
     rbind (claim_for_gate s lock_free) (\<lambda>s.
       Ok (s\<lparr>os_rows := update_where (\<lambda>_ r. rr_state r = ''in_flight'')
               (\<lambda>r. r\<lparr>rr_state := ''unknown'', rr_updated_at := now\<rparr>) (os_rows s)\<rparr>,
           map fst (filter (\<lambda>m. rr_state (snd m) = ''in_flight'') (os_rows s))))"

definition masked_results :: "op_store \<Rightarrow> string list" where
  "masked_results s = map fst (filter (\<lambda>m. rr_state (snd m) = ''done''
     \<and> rr_result (snd m) \<noteq> None \<and> (rr_masked (snd m) = None \<or> rr_masked (snd m) = Some True)) (os_rows s))"

definition op_list :: "op_store \<Rightarrow> op_state option \<Rightarrow> operations_error + operation_row list" where
  "op_list s st =
     try_map (\<lambda>m. to_row (fst m) (snd m))
       (filter (\<lambda>m. case st of None \<Rightarrow> True | Some t \<Rightarrow> rr_state (snd m) = op_state_as_str t) (os_rows s))"

datatype reconcile_error =
    NotFound
  | NotPending op_state
  | StillInFlight
  | BadOutcome
  | Evidence string
  | StoreError operations_error

text \<open>\<open>evidence\<close> is the result of recording the reconciliation in the ledger.\<close>

definition reconcile ::
  "op_store \<Rightarrow> string \<Rightarrow> op_state \<Rightarrow> bool \<Rightarrow> string + unit \<Rightarrow> string
   \<Rightarrow> reconcile_error + op_store" where
  "reconcile s x outcome force evidence now =
     (if outcome \<notin> {Done, NotApplied} then Err BadOutcome
      else rbind (ok_or NotFound (map_of (os_rows s) x)) (\<lambda>r.
           rbind (map_err StoreError (op_state_parse (rr_state r))) (\<lambda>st.
           if st \<notin> {Unknown, InFlight} then Err (NotPending st)
           else if st = InFlight \<and> \<not> force then Err StillInFlight
           else rbind (map_err Evidence evidence) (\<lambda>_.
                Ok (s\<lparr>os_rows := update_where (\<lambda>i _. i = x) (reset_row outcome now) (os_rows s)\<rparr>)))))"

text \<open>\<open>open\<close> on a database that does not exist yet: no rows, and the key the operating system's
  generator gave. A key already stored is kept.\<close>

definition op_open :: "op_store option \<Rightarrow> string \<Rightarrow> op_store" where
  "op_open db key =
     (case db of
        None \<Rightarrow> \<lparr>os_rows = [], os_key = key, os_gate_lock = False\<rparr>
      | Some s \<Rightarrow> s\<lparr>os_gate_lock := False\<rparr>)"

section \<open>States of operations\<close>

definition op_status :: "op_store \<Rightarrow> string \<Rightarrow> string option" where
  "op_status s x = map_option rr_state (map_of (os_rows s) x)"

definition op_call :: "op_store \<Rightarrow> string \<Rightarrow> (string \<times> string) option" where
  "op_call s x = map_option (\<lambda>r. (rr_tool r, rr_digest r)) (map_of (os_rows s) x)"

definition row_ok :: "raw_row \<Rightarrow> bool" where
  "row_ok r \<longleftrightarrow> length (rr_digest r) = 32 \<and> rr_state r \<in> range op_state_as_str"

definition store_ok :: "op_store \<Rightarrow> bool" where
  "store_ok s \<longleftrightarrow> sorted_keys (os_rows s) \<and> list_all (\<lambda>m. row_ok (snd m)) (os_rows s)"

lemma op_state_parse_as_str [simp]: "op_state_parse (op_state_as_str st) = Ok st"
  by (cases st) (simp_all add: op_state_parse_def)

lemma op_state_parse_iff: "op_state_parse t = Ok st \<longleftrightarrow> t = op_state_as_str st"
  by (cases st) (auto simp: op_state_parse_def)

interpretation state_codec: text_codec "\<lambda>t. result_ok (op_state_parse t)" op_state_as_str "\<lambda>_. True"
  by unfold_locales (simp add: result_ok_def op_state_parse_iff [symmetric] split: sum.split)

lemma op_state_as_str_inject [simp]: "op_state_as_str a = op_state_as_str b \<longleftrightarrow> a = b"
  using state_codec.print_inject [of a b] by simp

lemma update_where_keys [simp]: "map fst (update_where P f rows) = map fst rows"
  by (induction rows) (auto simp: update_where_def)

lemma map_of_update_where [simp]:
  "map_of (update_where P f rows) x =
     map_option (\<lambda>r. if P x r then f r else r) (map_of rows x)"
  by (induction rows) (auto simp: update_where_def)

lemma sorted_keys_update_where [wf_intros]: "sorted_keys rows \<Longrightarrow> sorted_keys (update_where P f rows)"
  by (simp add: sorted_keys_def)

lemma list_all_update_where:
  "list_all (\<lambda>m. Q (snd m)) rows \<Longrightarrow> (\<And>r. Q r \<Longrightarrow> Q (f r)) \<Longrightarrow>
     list_all (\<lambda>m. Q (snd m)) (update_where P f rows)"
  by (auto simp: update_where_def list_all_iff)

lemma list_all_bt_insert:
  "list_all (\<lambda>m. Q (snd m)) rows \<Longrightarrow> Q v \<Longrightarrow> list_all (\<lambda>m. Q (snd m)) (bt_insert k v rows)"
  by (induction k v rows rule: bt_insert.induct) auto

lemma op_state_range [simp]:
  "op_state_as_str st \<in> range op_state_as_str"
  "''in_flight'' \<in> range op_state_as_str" "''done'' \<in> range op_state_as_str"
  "''failed'' \<in> range op_state_as_str" "''unknown'' \<in> range op_state_as_str"
  "''not_applied'' \<in> range op_state_as_str"
  by (rule rangeI, unfold op_state_as_str.simps [symmetric], (rule rangeI)+)

lemma store_row_ok: "store_ok s \<Longrightarrow> map_of (os_rows s) x = Some r \<Longrightarrow> row_ok r"
  by (force simp: store_ok_def list_all_iff dest: map_of_SomeD)

lemma op_get_total:
  assumes "store_ok s"
  shows "\<exists>row. op_get s x = Ok row"
proof (cases "map_of (os_rows s) x")
  case (Some r)
  from store_row_ok [OF assms this] obtain st where "length (rr_digest r) = 32" "rr_state r = op_state_as_str st"
    by (auto simp: row_ok_def)
  with Some show ?thesis by (simp add: op_get_def to_row_def)
qed (simp add: op_get_def)

text \<open>What \<open>begin\<close> does, by the row it finds.\<close>

lemma op_begin_cases:
  assumes "op_begin s x t d now = Ok (s', b)"
  obtains (absent) "map_of (os_rows s) x = None" "b = Forward"
      "s' = s\<lparr>os_rows := bt_insert x (new_row t d now) (os_rows s)\<rparr>"
    | (conflict) r where "map_of (os_rows s) x = Some r" "rr_digest r \<noteq> d \<or> rr_tool r \<noteq> t"
      "b = Conflict" "s' = s"
    | (replay) r where "map_of (os_rows s) x = Some r" "rr_digest r = d" "rr_tool r = t"
      "rr_state r = ''done''"
      "b = Replay (rr_result r) (rr_result r \<noteq> None \<and> rr_masked r \<noteq> Some False)" "s' = s"
    | (pending) r st where "map_of (os_rows s) x = Some r" "rr_digest r = d" "rr_tool r = t"
      "st = InFlight \<or> st = Unknown" "rr_state r = op_state_as_str st"
      "b = ReconcileBeforeRetry st" "s' = s"
    | (retry) r st where "map_of (os_rows s) x = Some r" "rr_digest r = d" "rr_tool r = t"
      "st = Failed \<or> st = NotApplied" "rr_state r = op_state_as_str st" "b = Forward"
      "s' = s\<lparr>os_rows := update_where (\<lambda>i _. i = x) (reset_row InFlight now) (os_rows s)\<rparr>"
proof (cases "map_of (os_rows s) x")
  case None
  with assms absent show thesis by (simp add: op_begin_def op_get_def)
next
  case (Some r)
  have mask: "(case rr_masked r of None \<Rightarrow> True | Some b \<Rightarrow> b) \<longleftrightarrow> rr_masked r \<noteq> Some False"
    by (cases "rr_masked r") auto
  from assms Some obtain st where st: "rr_state r = op_state_as_str st" "length (rr_digest r) = 32"
    by (auto simp: op_begin_def op_get_def to_row_def op_state_parse_iff split: if_splits)
  from Some st have get: "op_get s x = Ok (Some \<lparr>or_id = x, or_tool = rr_tool r,
      or_digest = rr_digest r, or_state = st, or_result = rr_result r,
      or_updated_at = rr_updated_at r,
      or_masked = (rr_result r \<noteq> None \<and> rr_masked r \<noteq> Some False)\<rparr>)"
    by (simp add: op_get_def to_row_def mask del: not_None_eq)
  show thesis
  proof (cases "rr_digest r \<noteq> d \<or> rr_tool r \<noteq> t")
    case True
    with assms conflict [OF Some] show thesis by (auto simp: op_begin_def get)
  next
    case False
    with assms replay [OF Some] pending [OF Some _ _ _ st(1)] retry [OF Some _ _ _ st(1)] st(1) show thesis
      by (cases st) (auto simp: op_begin_def get)
  qed
qed

section \<open>Each operation keeps the store well formed\<close>

lemma store_ok_open [wf_intros]: "(\<And>s. db = Some s \<Longrightarrow> store_ok s) \<Longrightarrow> store_ok (op_open db key)"
  by (cases db) (auto simp: op_open_def store_ok_def sorted_keys_def)

lemma store_ok_update:
  "store_ok s \<Longrightarrow> (\<And>r. row_ok r \<Longrightarrow> row_ok (f r)) \<Longrightarrow> store_ok (s\<lparr>os_rows := update_where P f (os_rows s)\<rparr>)"
  by (simp add: store_ok_def sorted_keys_update_where list_all_update_where)

lemma store_ok_begin [wf_intros]:
  "store_ok s \<Longrightarrow> length d = 32 \<Longrightarrow> op_begin s x t d now = Ok (s', b) \<Longrightarrow> store_ok s'"
  by (erule op_begin_cases)
    (auto simp: store_ok_def new_row_def reset_row_def row_ok_def
      intro!: sorted_keys_bt_insert sorted_keys_update_where list_all_bt_insert list_all_update_where)

lemma store_ok_settle [wf_intros]:
  "store_ok s \<Longrightarrow> settle_with s x st result masked now = Ok (s', b) \<Longrightarrow> store_ok s'"
  by (auto simp: settle_with_def row_ok_def intro!: store_ok_update split: if_splits)

lemma store_ok_release [wf_intros]: "store_ok s \<Longrightarrow> store_ok (release_gate s)"
  by (simp add: release_gate_def store_ok_def)

lemma store_ok_recover [wf_intros]:
  "store_ok s \<Longrightarrow> recover s free now = Ok (s', ids) \<Longrightarrow> store_ok s'"
  by (auto simp: recover_def claim_for_gate_def store_ok_def sorted_keys_update_where row_ok_def
      intro!: list_all_update_where split: if_splits)

lemma store_ok_reconcile [wf_intros]:
  "store_ok s \<Longrightarrow> reconcile s x st force ev now = Ok s' \<Longrightarrow> store_ok s'"
  by (auto simp: reconcile_def row_ok_def reset_row_def intro!: store_ok_update split: if_splits)

section \<open>Runs\<close>

text \<open>One method call on the store, with what the caller supplies; \<open>EOpen\<close> is a process that
  opens the database again.\<close>

datatype op_event =
    EBegin string string string string
  | ESettle string op_state "string option" bool string
  | EReconcile string op_state bool "string + unit" string
  | ERecover bool string
  | ERelease
  | EOpen string

datatype op_outcome =
    OBegin "operations_error + begin_result"
  | OSettle "operations_error + bool"
  | OReconcile "reconcile_error + unit"
  | ORecover "operations_error + string list"
  | ORelease
  | OOpen

text \<open>An error leaves the store as it was: the transaction is dropped.\<close>

fun op_step :: "op_store \<Rightarrow> op_event \<Rightarrow> op_store \<times> op_outcome" where
  "op_step s (EBegin x t d now) =
     (case op_begin s x t d now of Inl e \<Rightarrow> (s, OBegin (Inl e)) | Inr (s', b) \<Rightarrow> (s', OBegin (Inr b)))"
| "op_step s (ESettle x st result masked now) =
     (case settle_with s x st result masked now of
        Inl e \<Rightarrow> (s, OSettle (Inl e)) | Inr (s', b) \<Rightarrow> (s', OSettle (Inr b)))"
| "op_step s (EReconcile x st force ev now) =
     (case reconcile s x st force ev now of
        Inl e \<Rightarrow> (s, OReconcile (Inl e)) | Inr s' \<Rightarrow> (s', OReconcile (Inr ())))"
| "op_step s (ERecover free now) =
     (case recover s free now of Inl e \<Rightarrow> (s, ORecover (Inl e)) | Inr (s', ids) \<Rightarrow> (s', ORecover (Inr ids)))"
| "op_step s ERelease = (release_gate s, ORelease)"
| "op_step s (EOpen key) = (op_open (Some s) key, OOpen)"

fun event_ok :: "op_event \<Rightarrow> bool" where
  "event_ok (EBegin x t d now) = (length d = 32)"
| "event_ok _ = True"

lemma store_ok_step: "store_ok s \<Longrightarrow> event_ok e \<Longrightarrow> store_ok (fst (op_step s e))"
  by (cases e) (auto intro: wf_intros split: sum.splits prod.splits)

text \<open>The store's states reachable from a fresh database.\<close>

inductive op_reachable :: "op_store \<Rightarrow> bool" where
  fresh: "op_reachable (op_open None key)"
| step: "op_reachable s \<Longrightarrow> event_ok e \<Longrightarrow> op_reachable (fst (op_step s e))"

lemma reachable_store_ok: "op_reachable s \<Longrightarrow> store_ok s"
  by (induction rule: op_reachable.induct) (auto intro: wf_intros store_ok_step)

section \<open>At most once\<close>

text \<open>An operation is held while its row says anything but \<open>failed\<close> or \<open>not_applied\<close>.\<close>

definition op_held :: "string \<Rightarrow> op_store \<Rightarrow> bool" where
  "op_held x s \<longleftrightarrow> (\<exists>t. op_status s x = Some t \<and> t \<noteq> ''failed'' \<and> t \<noteq> ''not_applied'')"

definition forwards :: "string \<Rightarrow> op_event \<Rightarrow> op_outcome \<Rightarrow> bool" where
  "forwards x e out \<longleftrightarrow> (\<exists>t d now. e = EBegin x t d now) \<and> out = OBegin (Ok Forward)"

text \<open>What makes an operation runnable again: the tool answered with an error, or an operator
  ruled that it did not happen.\<close>

definition retryable :: "string \<Rightarrow> op_event \<Rightarrow> op_outcome \<Rightarrow> bool" where
  "retryable x e out \<longleftrightarrow>
     (\<exists>result masked now. e = ESettle x Failed result masked now) \<and> out = OSettle (Ok True)
     \<or> (\<exists>force ev now. e = EReconcile x NotApplied force ev now) \<and> out = OReconcile (Ok ())"

lemma op_status_update:
  "op_status (s\<lparr>os_rows := update_where P f (os_rows s)\<rparr>) x =
     map_option (\<lambda>r. rr_state (if P x r then f r else r)) (map_of (os_rows s) x)"
  by (simp add: op_status_def option.map_comp comp_def)

lemma settle_changed:
  assumes "sorted_keys rows"
  shows "length (filter (\<lambda>m. is_in_flight x (fst m) (snd m)) rows) = 1 \<longleftrightarrow>
    (\<exists>r. map_of rows x = Some r \<and> rr_state r = ''in_flight'')"
proof -
  have d: "distinct (map fst rows)" by (rule sorted_keys_distinct [OF assms])
  have "filter (\<lambda>m. is_in_flight x (fst m) (snd m)) rows =
      (case map_of rows x of None \<Rightarrow> [] | Some r \<Rightarrow> if rr_state r = ''in_flight'' then [(x, r)] else [])"
    using d
  proof (induction rows)
    case (Cons m rows)
    have "filter (\<lambda>m. is_in_flight (fst m) (fst m) (snd m)) [] = []" by simp
    have "fst m = x \<Longrightarrow> map_of rows x = None" using Cons.prems by (auto simp: map_of_eq_None_iff)
    then show ?case using Cons by (cases m) (auto simp: is_in_flight_def)
  qed simp
  then show ?thesis by (auto split: option.splits if_splits)
qed

lemma op_status_begin:
  assumes "op_begin s x t d now = Ok (s', b)" "store_ok s"
  shows "op_status s' y = (if b = Forward \<and> y = x then Some ''in_flight'' else op_status s y)"
    and "b = Forward \<Longrightarrow> op_status s x \<in> {None, Some ''failed'', Some ''not_applied''}"
proof -
  have srt: "sorted_keys (os_rows s)" using assms(2) by (simp add: store_ok_def)
  from assms(1) show "op_status s' y = (if b = Forward \<and> y = x then Some ''in_flight'' else op_status s y)"
  proof (cases rule: op_begin_cases)
    case absent
    then show ?thesis using srt by (simp add: op_status_def new_row_def)
  next
    case (retry r st)
    then show ?thesis by (cases "y = x") (simp_all add: op_status_def reset_row_def option.map_ident)
  qed simp_all
  from assms(1) show "b = Forward \<Longrightarrow> op_status s x \<in> {None, Some ''failed'', Some ''not_applied''}"
    by (cases rule: op_begin_cases) (auto simp: op_status_def)
qed

lemma op_status_settle:
  assumes "settle_with s x st result masked now = Ok (s', b)" "store_ok s"
  shows "op_status s' y = (if b \<and> y = x then Some (op_state_as_str st) else op_status s y)"
    and "b \<longleftrightarrow> op_status s x = Some ''in_flight''"
    and "st \<in> {Done, Failed, Unknown}"
proof -
  have srt: "sorted_keys (os_rows s)" using assms(2) by (simp add: store_ok_def)
  from assms(1) show b: "b \<longleftrightarrow> op_status s x = Some ''in_flight''"
    using settle_changed [OF srt, of x] by (auto simp: settle_with_def op_status_def split: if_splits)
  from assms(1) have s': "op_status s' y = map_option (\<lambda>r. if is_in_flight x y r
      then op_state_as_str st else rr_state r) (map_of (os_rows s) y)"
    by (cases "map_of (os_rows s) y") (auto simp: settle_with_def op_status_def split: if_splits)
  show "op_status s' y = (if b \<and> y = x then Some (op_state_as_str st) else op_status s y)"
    unfolding s' b by (cases "map_of (os_rows s) y") (auto simp: is_in_flight_def op_status_def)
  show "st \<in> {Done, Failed, Unknown}" using assms(1) by (auto simp: settle_with_def split: if_splits)
qed

lemma op_status_reconcile:
  assumes "reconcile s x st force ev now = Ok s'"
  shows "op_status s' y = (if y = x then Some (op_state_as_str st) else op_status s y)"
    and "op_status s x \<in> {Some ''in_flight'', Some ''unknown''}"
    and "op_status s x = Some ''in_flight'' \<Longrightarrow> force"
    and "st \<in> {Done, NotApplied}" "ev = Ok ()"
  using assms by (auto simp: reconcile_def op_status_def reset_row_def op_state_parse_iff
      option.map_ident split: if_splits)

lemma op_status_recover:
  assumes "recover s free now = Ok (s', ids)"
  shows "op_status s' y = (if op_status s y = Some ''in_flight'' then Some ''unknown'' else op_status s y)"
proof -
  from assms obtain s0 where "claim_for_gate s free = Ok s0"
    "s' = s0\<lparr>os_rows := update_where (\<lambda>_ r. rr_state r = ''in_flight'')
      (\<lambda>r. r\<lparr>rr_state := ''unknown'', rr_updated_at := now\<rparr>) (os_rows s0)\<rparr>"
    by (auto simp: recover_def)
  moreover from this have "os_rows s0 = os_rows s" by (auto simp: claim_for_gate_def split: if_splits)
  ultimately show ?thesis by (cases "map_of (os_rows s) y") (simp_all add: op_status_def)
qed

lemma op_status_other [simp]:
  "op_status (release_gate s) y = op_status s y" "op_status (op_open (Some s) key) y = op_status s y"
  by (simp_all add: op_status_def release_gate_def op_open_def)

lemmas op_statuses = op_status_begin op_status_settle op_status_reconcile op_status_recover

interpretation at_most_once: retry_guard op_step store_ok event_ok "op_held x" "forwards x" "retryable x" for x
proof unfold_locales
  fix s e
  assume ok: "store_ok s"
  show "store_ok (fst (op_step s e))" if "event_ok e" by (rule store_ok_step [OF ok that])
  show "\<not> op_held x s" if "forwards x e (snd (op_step s e))"
    using that op_status_begin(2) [OF _ ok refl]
    by (fastforce simp: forwards_def op_held_def split: sum.splits prod.splits)
  show "op_held x (fst (op_step s e))" if "event_ok e" "forwards x e (snd (op_step s e))"
    using that op_status_begin(1) [OF _ ok, where y = x]
    by (auto simp: forwards_def op_held_def split: sum.splits prod.splits)
  show "op_held x (fst (op_step s e))" if "event_ok e" "op_held x s" "\<not> retryable x e (snd (op_step s e))"
  proof (cases e)
    case (EBegin y t d now)
    with that show ?thesis using op_status_begin(1) [OF _ ok, where y = x]
      by (auto simp: op_held_def split: sum.splits prod.splits)
  next
    case (ESettle y st result masked now)
    show ?thesis
    proof (cases "settle_with s y st result masked now")
      case (Inr r)
      obtain s' b where r: "r = (s', b)" by (cases r)
      note settled = op_status_settle(1,3) [OF Inr [unfolded r] ok]
      show ?thesis using that settled(1) [where y = x] settled(2)
        by (auto simp: ESettle Inr r op_held_def retryable_def)
    qed (use that ESettle in simp)
  next
    case (EReconcile y st force ev now)
    with that show ?thesis using op_status_reconcile(1) [where y = x] op_status_reconcile(4)
      by (fastforce simp: op_held_def retryable_def split: sum.splits prod.splits)
  next
    case (ERecover free now)
    with that show ?thesis using op_status_recover [where y = x]
      by (auto simp: op_held_def split: sum.splits prod.splits)
  qed (use that in \<open>simp_all add: op_held_def\<close>)
qed

text \<open>A finished operation stays finished, and the call an operation names never changes.\<close>

lemma op_done_step:
  assumes ok: "store_ok s" and fin: "op_status s x = Some ''done''"
  shows "op_status (fst (op_step s e)) x = Some ''done''"
proof (cases e)
  case (EBegin y t d now)
  show ?thesis
    using op_status_begin(1) [OF _ ok, of y t d now _ _ x] op_status_begin(2) [OF _ ok refl, of y t d now] fin
    by (fastforce simp: EBegin split: sum.splits prod.splits)
next
  case (ESettle y st result masked now)
  show ?thesis
    using op_status_settle(1) [OF _ ok, of y st result masked now _ _ x]
      op_status_settle(2) [OF _ ok, of y st result masked now] fin
    by (cases "settle_with s y st result masked now") (fastforce simp: ESettle)+
next
  case (EReconcile y st force ev now)
  show ?thesis
    using op_status_reconcile(1) [of s y st force ev now _ x] op_status_reconcile(2) [of s y st force ev now] fin
    by (cases "reconcile s y st force ev now") (auto simp: EReconcile)
next
  case (ERecover free now)
  show ?thesis
    using op_status_recover [of s free now _ _ x] fin
    by (auto simp: ERecover split: sum.splits prod.splits)
qed (simp_all add: fin)

lemma op_call_update:
  "(\<And>r. rr_tool (f r) = rr_tool r \<and> rr_digest (f r) = rr_digest r) \<Longrightarrow>
     op_call (s\<lparr>os_rows := update_where P f (os_rows s)\<rparr>) x = op_call s x"
  by (cases "map_of (os_rows s) x") (simp_all add: op_call_def)

lemma op_call_begin:
  assumes "op_begin s y t d now = Ok (s', b)" "store_ok s" "op_call s x = Some c"
  shows "op_call s' x = Some c"
  using assms(1)
proof (cases rule: op_begin_cases)
  case absent
  with assms(2,3) show ?thesis by (auto simp: op_call_def store_ok_def)
next
  case (retry r st)
  with assms(3) show ?thesis by (simp add: op_call_update reset_row_def)
qed (use assms(3) in simp_all)

lemma op_call_step:
  assumes ok: "store_ok s" and c: "op_call s x = Some c"
  shows "op_call (fst (op_step s e)) x = Some c"
proof (cases e)
  case (EBegin y t d now)
  then show ?thesis using op_call_begin [OF _ ok c] c by (auto split: sum.splits prod.splits)
next
  case (ESettle y st result masked now)
  then show ?thesis using c by (auto simp: settle_with_def op_call_update split: sum.splits if_splits)
next
  case (EReconcile y st force ev now)
  show ?thesis
    using c by (cases "reconcile s y st force ev now")
      (auto simp: EReconcile reconcile_def op_call_update reset_row_def split: if_splits)
next
  case (ERecover free now)
  have "os_rows s0 = os_rows s" if "claim_for_gate s free = Inr s0" for s0
    using that by (auto simp: claim_for_gate_def split: if_splits)
  then have "op_call s0 x = Some c" if "claim_for_gate s free = Inr s0" for s0
    using that c by (simp add: op_call_def)
  then show ?thesis
    using c by (cases "recover s free now") (auto simp: ERecover recover_def op_call_update)
qed (use c in \<open>simp_all add: op_call_def release_gate_def op_open_def\<close>)

lemma run_ok: "store_ok s \<Longrightarrow> list_all event_ok es \<Longrightarrow> store_ok (run_state op_step s es)"
  by (induction es arbitrary: s) (simp_all add: store_ok_step)

lemma reachable_run: "op_reachable s \<Longrightarrow> list_all event_ok es \<Longrightarrow> op_reachable (run_state op_step s es)"
  by (induction es arbitrary: s) (auto simp del: op_step.simps intro: op_reachable.step)

lemma op_done_run:
  "store_ok s \<Longrightarrow> list_all event_ok es \<Longrightarrow> op_status s x = Some ''done'' \<Longrightarrow>
     op_status (run_state op_step s es) x = Some ''done''"
  by (induction es arbitrary: s) (simp_all add: store_ok_step op_done_step)

lemma op_call_run:
  "store_ok s \<Longrightarrow> list_all event_ok es \<Longrightarrow> op_call s x = Some c \<Longrightarrow>
     op_call (run_state op_step s es) x = Some c"
  by (induction es arbitrary: s) (simp_all add: store_ok_step op_call_step)

text \<open>Whatever the store holds, \<open>begin\<close> answers, and the answer is the row's.\<close>

lemma op_begin_total: "store_ok s \<Longrightarrow> \<exists>r. op_begin s x t d now = Ok r"
proof -
  assume "store_ok s"
  from op_get_total [OF this, of x] obtain row where "op_get s x = Ok row" by blast
  then show ?thesis by (auto simp: op_begin_def split: option.splits op_state.splits)
qed

lemma op_begin_other_call:
  assumes "store_ok s" "op_call s x = Some (t, d)" "t' \<noteq> t \<or> d' \<noteq> d"
  shows "op_begin s x t' d' now = Ok (s, Conflict)"
proof -
  obtain s' b where "op_begin s x t' d' now = Ok (s', b)" using op_begin_total [OF assms(1)] by (metis surj_pair)
  moreover from this have "s' = s \<and> b = Conflict"
    using assms(2,3) by (cases rule: op_begin_cases) (auto simp: op_call_def)
  ultimately show ?thesis by simp
qed

lemma op_begin_replay:
  assumes "store_ok s" "map_of (os_rows s) x = Some r" "rr_state r = ''done''"
  shows "op_begin s x (rr_tool r) (rr_digest r) now =
    Ok (s, Replay (rr_result r) (rr_result r \<noteq> None \<and> rr_masked r \<noteq> Some False))"
proof -
  obtain s' b where "op_begin s x (rr_tool r) (rr_digest r) now = Ok (s', b)"
    using op_begin_total [OF assms(1)] by (metis surj_pair)
  moreover from this have "s' = s \<and> b = Replay (rr_result r) (rr_result r \<noteq> None \<and> rr_masked r \<noteq> Some False)"
    using assms(2,3) by (cases rule: op_begin_cases) auto
  ultimately show ?thesis by simp
qed

lemma masked_results_iff:
  assumes "store_ok s"
  shows "x \<in> set (masked_results s) \<longleftrightarrow>
    (\<exists>t d now result. op_begin s x t d now = Ok (s, Replay (Some result) True))"
proof
  assume "x \<in> set (masked_results s)"
  then obtain r where r: "(x, r) \<in> set (os_rows s)" "rr_state r = ''done''" "rr_result r \<noteq> None"
    "rr_masked r \<noteq> Some False"
    by (auto simp: masked_results_def)
  have "map_of (os_rows s) x = Some r"
    using r(1) assms by (simp add: store_ok_def sorted_keys_distinct)
  from op_begin_replay [OF assms this r(2)] r(3,4)
  show "\<exists>t d now result. op_begin s x t d now = Ok (s, Replay (Some result) True)" by fastforce
next
  assume "\<exists>t d now result. op_begin s x t d now = Ok (s, Replay (Some result) True)"
  then obtain t d now result where "op_begin s x t d now = Ok (s, Replay (Some result) True)" by blast
  then obtain r where "map_of (os_rows s) x = Some r" "rr_state r = ''done''" "rr_result r \<noteq> None"
    "rr_masked r \<noteq> Some False"
    by (cases rule: op_begin_cases) auto
  moreover from this have "(x, r) \<in> set (os_rows s)" by (simp add: map_of_SomeD)
  moreover have "rr_masked r = None \<or> rr_masked r = Some True" using calculation(4) by (cases "rr_masked r") auto
  ultimately show "x \<in> set (masked_results s)" by (auto simp: masked_results_def image_iff)
qed

text \<open>The rules that evaluate the operations on a concrete store.\<close>

lemmas op_eval = op_open_def op_begin_def op_get_def new_row_def to_row_def settle_with_def
  is_in_flight_def update_where_def op_state_parse_def reset_row_def op_status_def op_call_def

end
