(* ===== verification/Gate.thy ===== *)
theory Gate
  imports Manifest_V1 Release Policy Counters Approval Operations
begin

text \<open>
  The tool gate (\<open>cloakpipe-mcp/src/gate.rs\<close>): its configuration, and the decision on one call.
  The order is: declared tool, contracts loaded, contract, Cedar policy, approval, operation.

  What the gate asks of the world around it is the record \<open>gate_world\<close>: the hash functions, the
  regex engine, the receipt operations, the receipt file of a fingerprint and its decoding, whether
  an approver's denial holds, Cedar, and whether the counter store answers. The legacy
  \<open>certification\<close> feature, off by default, is not modelled.
\<close>

section \<open>Denials\<close>

datatype gate_mode = Enforce | Shadow

datatype denial =
    UndeclaredTool
  | DArgumentMissing "string option"
  | DUndeclaredArgument "string option"
  | DArgumentInvalid "string option"
  | DScopeMismatch "string option"
  | DTaskContextMissing "string option"
  | ApprovalRequired
  | ApprovalInvalid
  | ApprovalExpired
  | ApprovalDenied
  | ContractMissing
  | OperationConflict string
  | DReconcileBeforeRetry string
  | OperationsUnavailable
  | RequestIdMissing
  | RequestIdInUse
  | PolicyDenied "string list"
  | FailClosed
  | ToolDrift string
  | ToolUnavailable

fun denial_code :: "denial \<Rightarrow> string" where
  "denial_code UndeclaredTool = ''undeclared_tool''"
| "denial_code (DArgumentMissing _) = violation_code_str ArgumentMissing"
| "denial_code (DUndeclaredArgument _) = violation_code_str UndeclaredArgument"
| "denial_code (DArgumentInvalid _) = violation_code_str ArgumentInvalid"
| "denial_code (DScopeMismatch _) = violation_code_str ScopeMismatch"
| "denial_code (DTaskContextMissing _) = violation_code_str TaskContextMissing"
| "denial_code ApprovalRequired = ''approval_required''"
| "denial_code ApprovalInvalid = ''approval_invalid''"
| "denial_code ApprovalExpired = ''approval_expired''"
| "denial_code ApprovalDenied = ''approval_denied''"
| "denial_code ContractMissing = ''contract_missing''"
| "denial_code (OperationConflict _) = ''operation_conflict''"
| "denial_code (DReconcileBeforeRetry _) = ''reconcile_before_retry''"
| "denial_code OperationsUnavailable = ''operations_unavailable''"
| "denial_code RequestIdMissing = ''request_id_missing''"
| "denial_code RequestIdInUse = ''request_id_in_use''"
| "denial_code (PolicyDenied _) = ''policy_denied''"
| "denial_code FailClosed = ''fail_closed''"
| "denial_code (ToolDrift _) = ''tool_drift''"
| "denial_code ToolUnavailable = ''tool_unavailable''"

fun denial_server :: "denial \<Rightarrow> string option" where
  "denial_server (ToolDrift s) = Some s"
| "denial_server _ = None"

definition is_upstream :: "denial \<Rightarrow> bool" where
  "is_upstream d = (case d of ToolDrift _ \<Rightarrow> True | ToolUnavailable \<Rightarrow> True | _ \<Rightarrow> False)"

fun denial_operation_id :: "denial \<Rightarrow> string option" where
  "denial_operation_id (OperationConflict i) = Some i"
| "denial_operation_id (DReconcileBeforeRetry i) = Some i"
| "denial_operation_id _ = None"

fun denial_policies :: "denial \<Rightarrow> string list option" where
  "denial_policies (PolicyDenied ps) = Some ps"
| "denial_policies _ = None"

fun denial_path :: "denial \<Rightarrow> string option" where
  "denial_path (DArgumentMissing p) = p"
| "denial_path (DUndeclaredArgument p) = p"
| "denial_path (DArgumentInvalid p) = p"
| "denial_path (DScopeMismatch p) = p"
| "denial_path (DTaskContextMissing p) = p"
| "denial_path _ = None"

definition denial_of_violation :: "violation \<Rightarrow> denial" where
  "denial_of_violation v =
     (case v_code v of
        ArgumentMissing \<Rightarrow> DArgumentMissing (v_path v)
      | UndeclaredArgument \<Rightarrow> DUndeclaredArgument (v_path v)
      | ArgumentInvalid \<Rightarrow> DArgumentInvalid (v_path v)
      | ScopeMismatch \<Rightarrow> DScopeMismatch (v_path v)
      | TaskContextMissing \<Rightarrow> DTaskContextMissing (v_path v))"

section \<open>The gate\<close>

record approved_call =
  ac_receipt_digest :: string
  ac_operation_id :: string
  ac_call :: string

record operation_key =
  ok_operation_id :: string
  ok_fingerprint :: string

record authorization =
  au_approval :: "approved_call option"
  au_operation :: "operation_key option"

record approval_request =
  rq_approvers :: "string list"
  rq_fingerprint :: string

datatype gate_config_error =
    NotInRelease string
  | NotSupplied string
  | AmbiguousTool string
  | OperationsRequired string
  | OperationsStore operations_error
  | TaskContextNotObject
  | BadPolicy
  | PolicyNotLoaded

datatype policy_verdict = VAllow | VRequireApproval "string list"

record policy_state =
  ps_engine :: "cedar_policy list"
  ps_counters :: counters

record tool_gate =
  g_mode :: gate_mode
  g_release :: string
  g_release_name :: string
  g_version :: string
  g_policy_digest :: "string option"
  g_policy_source :: "string option"
  g_policy :: "policy_state option"
  g_tools :: "string list"
  g_contract_refs :: "string list"
  g_contracts_loaded :: bool
  g_rules :: "(string \<times> tool_rule) list"
  g_task :: "json option"
  g_approvals :: "trusted_key list option"
  g_broker :: bool
  g_operations :: "op_store option"
  g_recovered :: "string list"
  g_operation_id_key :: "string option"

record call_input =
  ci_release :: string
  ci_tool :: string
  ci_fingerprint :: string
  ci_args :: "json option"
  ci_task :: "json option"
  ci_counters :: "(string \<times> window) list"
  ci_now_unix :: int

datatype receipt_file = NoFile | Unreadable | FileBytes string

record gate_world =
  gw_digests :: digests
  gw_regex :: regex_ops
  gw_receipts :: receipt_ops
  gw_file :: "string \<Rightarrow> receipt_file"
  gw_envelope :: "string \<Rightarrow> envelope option"
  gw_broker_denied :: "string \<Rightarrow> int \<Rightarrow> bool"
  gw_marker_denied :: "string \<Rightarrow> int \<Rightarrow> bool"
  gw_cedar :: "call_input \<Rightarrow> policy_error + cedar_response"
  gw_counters_ok :: bool

section \<open>Building a gate\<close>

definition gate_new :: "digests \<Rightarrow> (string \<Rightarrow> string) \<Rightarrow> gate_mode \<Rightarrow> agent_release \<Rightarrow> tool_gate" where
  "gate_new D nfc mode m =
     (let refs = btree_set (filter is_tool_contract_ref (sp_policies (rl_spec m)))
      in \<lparr>g_mode = mode, g_release = hash_display (manifest_hash D nfc m),
          g_release_name = md_agent (rl_metadata m), g_version = md_version (rl_metadata m),
          g_policy_digest = None, g_policy_source = None, g_policy = None,
          g_tools = btree_set (List.map_filter (\<lambda>t. map_option ref_name (result_ok (reference_parse t)))
                                 (sp_tools (rl_spec m))),
          g_contract_refs = refs, g_contracts_loaded = (refs = []), g_rules = [], g_task = None,
          g_approvals = None, g_broker = False, g_operations = None, g_recovered = [],
          g_operation_id_key = None\<rparr>)"

definition gate_from_manifest :: "gate_mode \<Rightarrow> manifest \<Rightarrow> tool_gate" where
  "gate_from_manifest mode m =
     \<lparr>g_mode = mode, g_release = hash_display (m_digest m), g_release_name = m_release m,
      g_version = m_version m, g_policy_digest = map_option hash_display (manifest_policy_digest m),
      g_policy_source = map_option pf_source (m_policy m), g_policy = None,
      g_tools = map fst (m_tools m), g_contract_refs = [], g_contracts_loaded = True,
      g_rules = m_tools m, g_task = None, g_approvals = None, g_broker = False,
      g_operations = None, g_recovered = [], g_operation_id_key = None\<rparr>"

definition with_task_context :: "json option \<Rightarrow> tool_gate \<Rightarrow> gate_config_error + tool_gate" where
  "with_task_context task g =
     (if is_some_and (\<lambda>t. \<not> is_object t) task then Err TaskContextNotObject
      else Ok (g\<lparr>g_task := task\<rparr>))"

text \<open>\<open>parse\<close> is Cedar's parser on UTF-8 source.\<close>

definition with_policy ::
  "(string \<Rightarrow> cedar_set option) \<Rightarrow> counters \<Rightarrow> tool_gate \<Rightarrow> gate_config_error + tool_gate" where
  "with_policy parse counters g =
     (case g_policy_source g of
        None \<Rightarrow> Ok g
      | Some src \<Rightarrow>
          rbind (ok_or BadPolicy (parse (tool_as_action src))) (\<lambda>set.
          rbind (map_err (\<lambda>_. BadPolicy) (engine_parse set)) (\<lambda>engine.
          Ok (g\<lparr>g_policy := Some \<lparr>ps_engine = engine, ps_counters = counters\<rparr>\<rparr>))))"

fun add_tools :: "(string \<times> tool_rule) list \<Rightarrow> (string \<times> tool_rule) list
    \<Rightarrow> gate_config_error + (string \<times> tool_rule) list" where
  "add_tools by_tool [] = Ok by_tool"
| "add_tools by_tool (t # ts) =
     (if fst t \<in> fst ` set by_tool then Err (AmbiguousTool (fst t))
      else add_tools (bt_insert (fst t) (snd t) by_tool) ts)"

fun load_contracts ::
  "digests \<Rightarrow> string list \<Rightarrow> string list \<Rightarrow> (string \<times> tool_rule) list \<Rightarrow> tool_contract list
   \<Rightarrow> gate_config_error + (string list \<times> (string \<times> tool_rule) list)" where
  "load_contracts D refs supplied by_tool [] = Ok (supplied, by_tool)"
| "load_contracts D refs supplied by_tool (c # cs) =
     (if policy_ref D c \<notin> set refs then Err (NotInRelease (policy_ref D c))
      else rbind (add_tools by_tool (tc_tools c)) (\<lambda>by_tool'.
           load_contracts D refs (policy_ref D c # supplied) by_tool' cs))"

definition with_contracts ::
  "digests \<Rightarrow> tool_contract list \<Rightarrow> json option \<Rightarrow> tool_gate \<Rightarrow> gate_config_error + tool_gate" where
  "with_contracts D contracts task g =
     (if is_some_and (\<lambda>t. \<not> is_object t) task then Err TaskContextNotObject
      else rbind (load_contracts D (g_contract_refs g) [] [] contracts) (\<lambda>(supplied, by_tool).
           case filter (\<lambda>r. r \<notin> set supplied) (g_contract_refs g) of
             missing # _ \<Rightarrow> Err (NotSupplied missing)
           | [] \<Rightarrow> Ok (g\<lparr>g_rules := by_tool, g_task := task, g_contracts_loaded := True\<rparr>)))"

definition with_approvals :: "trusted_key list \<Rightarrow> tool_gate \<Rightarrow> tool_gate" where
  "with_approvals approvers g = g\<lparr>g_approvals := Some approvers\<rparr>"

definition with_broker :: "tool_gate \<Rightarrow> tool_gate" where
  "with_broker g = g\<lparr>g_broker := True\<rparr>"

definition with_operations ::
  "op_store \<Rightarrow> bool \<Rightarrow> string \<Rightarrow> tool_gate \<Rightarrow> gate_config_error + tool_gate" where
  "with_operations store lock_free now g =
     rbind (map_err OperationsStore (recover store lock_free now)) (\<lambda>(store', ids).
       Ok (g\<lparr>g_recovered := ids, g_operation_id_key := Some (os_key store'), g_operations := Some store'\<rparr>))"

definition gate_ready :: "tool_gate \<Rightarrow> gate_config_error + unit" where
  "gate_ready g =
     (case (if g_operations g = None then List.find (\<lambda>t. tr_side_effect (snd t)) (g_rules g) else None) of
        Some t \<Rightarrow> Err (OperationsRequired (fst t))
      | None \<Rightarrow>
          if g_policy_source g \<noteq> None \<and> g_policy g = None then Err PolicyNotLoaded else Ok ())"

section \<open>Deciding a call\<close>

definition gate_task_id :: "tool_gate \<Rightarrow> string option" where
  "gate_task_id g =
     Option.bind (g_task g) (\<lambda>t. Option.bind (json_get t ''taskId'') as_str)"

text \<open>Whole seconds since the epoch; \<open>timestamp()\<close> rounds down.\<close>

definition gate_unix :: "gate_world \<Rightarrow> string \<Rightarrow> denial + int" where
  "gate_unix W now = ok_or FailClosed (map_option (\<lambda>t. t div NANOS) (parse_rfc3339 (gw_receipts W) now))"

definition or_null :: "json option \<Rightarrow> json" where
  "or_null a = (case a of Some v \<Rightarrow> v | None \<Rightarrow> JNull)"

definition record_forwarded ::
  "gate_world \<Rightarrow> tool_gate \<Rightarrow> string \<Rightarrow> string \<Rightarrow> denial + (tool_gate \<times> int option)" where
  "record_forwarded W g tool now =
     (case g_policy g of
        None \<Rightarrow> if g_policy_source g \<noteq> None then Err FailClosed else Ok (g, None)
      | Some p \<Rightarrow>
          rbind (gate_unix W now) (\<lambda>t.
          if \<not> gw_counters_ok W then Err FailClosed
          else let (c, i) = counters_record (ps_counters p) (g_release_name g) tool t
               in Ok (g\<lparr>g_policy := Some (p\<lparr>ps_counters := c\<rparr>)\<rparr>, Some i)))"

definition forget_forwarded :: "gate_world \<Rightarrow> tool_gate \<Rightarrow> int \<Rightarrow> tool_gate" where
  "forget_forwarded W g i =
     (case g_policy g of
        None \<Rightarrow> g
      | Some p \<Rightarrow>
          if gw_counters_ok W then g\<lparr>g_policy := Some (p\<lparr>ps_counters := counters_forget (ps_counters p) i\<rparr>)\<rparr>
          else g)"

definition gate_call_input :: "gate_world \<Rightarrow> tool_gate \<Rightarrow> policy_state \<Rightarrow> string \<Rightarrow> json option
    \<Rightarrow> release_hash \<Rightarrow> int \<Rightarrow> call_input" where
  "gate_call_input W g p tool arguments release now_unix =
     \<lparr>ci_release = g_release_name g, ci_tool = tool,
      ci_fingerprint = hash_display (fingerprint (gw_digests W) release tool (or_null arguments)),
      ci_args = arguments, ci_task = g_task g,
      ci_counters = counters_snapshot (ps_counters p) (g_release_name g) (g_tools g) now_unix,
      ci_now_unix = now_unix\<rparr>"

definition evaluate_policy ::
  "gate_world \<Rightarrow> tool_gate \<Rightarrow> string \<Rightarrow> json option \<Rightarrow> string \<Rightarrow> denial + policy_verdict" where
  "evaluate_policy W g tool arguments now =
     (case g_policy g of
        None \<Rightarrow> if g_policy_source g \<noteq> None then Err FailClosed else Ok VAllow
      | Some p \<Rightarrow>
          rbind (gate_unix W now) (\<lambda>now_unix.
          rbind (ok_or FailClosed (hash_parse (g_release g))) (\<lambda>release.
          if \<not> gw_counters_ok W then Err FailClosed
          else (case policy_evaluate (gw_cedar W) (ps_engine p)
                       (gate_call_input W g p tool arguments release now_unix) of
                  Inr (Allow _) \<Rightarrow> Ok VAllow
                | Inr (RequireApproval approvers _) \<Rightarrow> Ok (VRequireApproval approvers)
                | Inr (Deny policies) \<Rightarrow> Err (PolicyDenied policies)
                | Inl _ \<Rightarrow> Err FailClosed))))"

definition merge_routes :: "string list \<Rightarrow> string list \<Rightarrow> string list" where
  "merge_routes routes cedar = foldl (\<lambda>rs r. if r \<in> set rs then rs else rs @ [r]) routes cedar"

definition approval_needed :: "tool_rule \<Rightarrow> json option \<Rightarrow> policy_verdict \<Rightarrow> string list option" where
  "approval_needed rule arguments verdict =
     (let by_manifest = needs_approval rule arguments;
          routes = (if by_manifest then (case tr_approval rule of None \<Rightarrow> [] | Some a \<Rightarrow> ar_approvers a) else [])
      in case verdict of
           VRequireApproval cedar \<Rightarrow> Some (merge_routes routes cedar)
         | VAllow \<Rightarrow> if by_manifest then Some routes else None)"

text \<open>\<open>Duration::num_seconds\<close>: whole seconds, towards zero.\<close>

definition num_seconds :: "int \<Rightarrow> int" where
  "num_seconds d = (if 0 \<le> d then d div NANOS else - ((- d) div NANOS))"

definition within_ttl :: "receipt_ops \<Rightarrow> tool_rule \<Rightarrow> string \<Rightarrow> string \<Rightarrow> bool" where
  "within_ttl S rule approved_at not_after =
     (case Option.bind (tr_approval rule) ar_ttl_secs of
        None \<Rightarrow> True
      | Some ttl \<Rightarrow>
          (case (parse_rfc3339 S approved_at, parse_rfc3339 S not_after) of
             (Some t0, Some t1) \<Rightarrow> num_seconds (t1 - t0) \<le> min (int ttl) (2 ^ 63 - 1)
           | _ \<Rightarrow> False))"

definition denial_holds :: "gate_world \<Rightarrow> tool_gate \<Rightarrow> string \<Rightarrow> string \<Rightarrow> bool" where
  "denial_holds W g hex now =
     is_some_and (\<lambda>t. g_broker g \<and> gw_broker_denied W hex (t div NANOS) \<or> gw_marker_denied W hex (t div NANOS))
       (parse_rfc3339 (gw_receipts W) now)"

text \<open>What the verifier's answer on the receipt's bytes means for the call \<open>fp\<close>.\<close>

definition accept_receipt ::
  "gate_world \<Rightarrow> tool_rule \<Rightarrow> string \<Rightarrow> string \<Rightarrow> approval_error + approval \<Rightarrow> denial + approved_call" where
  "accept_receipt W rule fp bytes verdict =
     (case verdict of
        Inr a \<Rightarrow>
          if \<not> within_ttl (gw_receipts W) rule (ap_approved_at a) (ap_not_after a)
          then Err ApprovalInvalid
          else Ok \<lparr>ac_receipt_digest = dg_sha256 (gw_digests W) bytes,
                   ac_operation_id = ap_operation_id a, ac_call = fp\<rparr>
      | Inl Expired \<Rightarrow> Err ApprovalExpired
      | Inl (Invalid _) \<Rightarrow> Err ApprovalInvalid)"

definition approve ::
  "gate_world \<Rightarrow> tool_gate \<Rightarrow> tool_rule \<Rightarrow> string \<Rightarrow> json \<Rightarrow> string \<Rightarrow> denial + approved_call" where
  "approve W g rule tool arguments now =
     rbind (ok_or ApprovalRequired (g_approvals g)) (\<lambda>approvers.
     rbind (ok_or ApprovalInvalid (hash_parse (g_release g))) (\<lambda>release.
     let fp = fingerprint (gw_digests W) release tool arguments
     in if denial_holds W g (hex_encode fp) now then Err ApprovalDenied
        else (case gw_file W (hex_encode fp) of
                NoFile \<Rightarrow> Err ApprovalRequired
              | Unreadable \<Rightarrow> Err ApprovalInvalid
              | FileBytes bytes \<Rightarrow>
                  rbind (ok_or (DTaskContextMissing None) (gate_task_id g)) (\<lambda>task_id.
                  rbind (ok_or ApprovalInvalid (gw_envelope W bytes)) (\<lambda>env.
                  accept_receipt W rule fp bytes (verify_approval (gw_receipts W) env
                    \<lparr>ac_fingerprint = fp, ac_release = g_release g, ac_tool = tool,
                     ac_task_id = task_id, ac_approvers = approvers, ac_now = now\<rparr>))))))"

definition gate_operation_key ::
  "gate_world \<Rightarrow> tool_gate \<Rightarrow> tool_rule \<Rightarrow> string \<Rightarrow> json option \<Rightarrow> approved_call option
   \<Rightarrow> denial + operation_key" where
  "gate_operation_key W g rule tool raw approval =
     (case approval of
        Some a \<Rightarrow> Ok \<lparr>ok_operation_id = ac_operation_id a, ok_fingerprint = ac_call a\<rparr>
      | None \<Rightarrow>
          rbind (ok_or OperationsUnavailable (hash_parse (g_release g))) (\<lambda>release.
          let D = gw_digests W; fp = fingerprint D release tool (or_null raw)
          in case tr_idempotency_key rule of
               Some template \<Rightarrow>
                 rbind (map_err denial_of_violation (render (dg_sha256 D) (dg_jcs D) template raw (g_task g))) (\<lambda>rendered.
                 rbind (ok_or OperationsUnavailable (g_operation_id_key g)) (\<lambda>key.
                 Ok \<lparr>ok_operation_id = derive_idempotent_operation_id D key (g_release_name g) tool rendered,
                     ok_fingerprint = fp\<rparr>))
             | None \<Rightarrow>
                 rbind (ok_or (DTaskContextMissing None) (gate_task_id g)) (\<lambda>task_id.
                 rbind (ok_or OperationsUnavailable (g_operation_id_key g)) (\<lambda>key.
                 Ok \<lparr>ok_operation_id = derive_operation_id D key task_id fp, ok_fingerprint = fp\<rparr>))))"

definition authorize ::
  "gate_world \<Rightarrow> tool_gate \<Rightarrow> string \<Rightarrow> json option \<Rightarrow> string \<Rightarrow> denial + authorization" where
  "authorize W g tool arguments now =
     (if tool \<notin> set (g_tools g) then Err UndeclaredTool
      else if \<not> g_contracts_loaded g then Err ContractMissing
      else (case map_of (g_rules g) tool of
              None \<Rightarrow> Ok \<lparr>au_approval = None, au_operation = None\<rparr>
            | Some rule \<Rightarrow>
                rbind (map_err denial_of_violation (rule_check (gw_regex W) rule arguments (g_task g))) (\<lambda>_.
                rbind (evaluate_policy W g tool arguments now) (\<lambda>verdict.
                rbind (if approval_needed rule arguments verdict \<noteq> None
                       then rbind (approve W g rule tool (or_null arguments) now) (\<lambda>a. Ok (Some a))
                       else Ok None) (\<lambda>approval.
                rbind (if tr_side_effect rule
                       then rbind (gate_operation_key W g rule tool arguments approval) (\<lambda>k. Ok (Some k))
                       else Ok None) (\<lambda>operation.
                Ok \<lparr>au_approval = approval, au_operation = operation\<rparr>))))))"

definition gate_check :: "gate_world \<Rightarrow> tool_gate \<Rightarrow> string \<Rightarrow> json option \<Rightarrow> string \<Rightarrow> denial + unit" where
  "gate_check W g tool arguments now = rbind (authorize W g tool arguments now) (\<lambda>_. Ok ())"

definition gate_operation ::
  "gate_world \<Rightarrow> tool_gate \<Rightarrow> string \<Rightarrow> json option \<Rightarrow> string \<Rightarrow> denial + operation_key option" where
  "gate_operation W g tool arguments now =
     (case map_of (g_rules g) tool of
        None \<Rightarrow> Ok None
      | Some rule \<Rightarrow>
          if \<not> tr_side_effect rule then Ok None
          else let verdict = (case evaluate_policy W g tool arguments now of Inr v \<Rightarrow> v | Inl _ \<Rightarrow> VAllow);
                   approval = (if approval_needed rule arguments verdict \<noteq> None
                               then result_ok (approve W g rule tool (or_null arguments) now) else None)
               in rbind (gate_operation_key W g rule tool arguments approval) (\<lambda>k. Ok (Some k)))"

definition gate_approval_request ::
  "gate_world \<Rightarrow> tool_gate \<Rightarrow> string \<Rightarrow> json option \<Rightarrow> string \<Rightarrow> approval_request option" where
  "gate_approval_request W g tool arguments now =
     (if tool \<notin> set (g_tools g) then None
      else Option.bind (map_of (g_rules g) tool) (\<lambda>rule.
           Option.bind (result_ok (evaluate_policy W g tool arguments now)) (\<lambda>verdict.
           Option.bind (approval_needed rule arguments verdict) (\<lambda>approvers.
           Option.bind (hash_parse (g_release g)) (\<lambda>release.
           Some \<lparr>rq_approvers = approvers,
                 rq_fingerprint = hash_display (fingerprint (gw_digests W) release tool (or_null arguments))\<rparr>)))))"

definition approval_ttls :: "tool_gate \<Rightarrow> (string \<times> nat option) list" where
  "approval_ttls g =
     map (\<lambda>t. (fst t, Option.bind (tr_approval (snd t)) ar_ttl_secs))
       (filter (\<lambda>t. fst t \<in> set (g_tools g)) (g_rules g))"

definition release_bytes :: "tool_gate \<Rightarrow> string" where
  "release_bytes g = (case hash_parse (g_release g) of Some h \<Rightarrow> h | None \<Rightarrow> replicate 32 (CHR 0x00))"

section \<open>Loading contracts\<close>

lemma add_tools_Ok:
  assumes "add_tools bt ts = Ok bt'" "sorted_keys bt" "distinct (map fst ts)"
  shows "sorted_keys bt' \<and> fst ` set bt \<inter> fst ` set ts = {}
    \<and> map_of bt' = (\<lambda>t. case map_of ts t of Some r \<Rightarrow> Some r | None \<Rightarrow> map_of bt t)"
  using assms
proof (induction bt ts rule: add_tools.induct)
  case (2 bt t ts)
  from 2(2) have fresh: "fst t \<notin> fst ` set bt" and rest: "add_tools (bt_insert (fst t) (snd t) bt) ts = Ok bt'"
    by (auto split: if_splits)
  have srt: "sorted_keys (bt_insert (fst t) (snd t) bt)" using 2(3) by (rule sorted_keys_bt_insert)
  have d: "distinct (map fst ts)" "fst t \<notin> fst ` set ts" using 2(4) by auto
  have none: "map_of ts (fst t) = None" using d(2) by (simp add: map_of_eq_None_iff)
  from 2(1) [OF fresh rest srt d(1), unfolded map_of_bt_insert [OF 2(3)]] have
    IH: "sorted_keys bt'" "fst ` set (bt_insert (fst t) (snd t) bt) \<inter> fst ` set ts = {}"
    "map_of bt' = (\<lambda>u. case map_of ts u of Some r \<Rightarrow> Some r | None \<Rightarrow> ((map_of bt)(fst t \<mapsto> snd t)) u)"
    by blast+
  have "map_of bt' = (\<lambda>u. case map_of (t # ts) u of Some r \<Rightarrow> Some r | None \<Rightarrow> map_of bt u)"
    unfolding IH(3) using none by (auto simp: fun_eq_iff split: option.split)
  with IH(1,2) fresh show ?case by (simp add: set_bt_insert)
qed (auto simp: fun_eq_iff)

lemma map_of_dom_fst: "map_of m k = Some v \<Longrightarrow> k \<in> fst ` set m"
  by (force dest: map_of_SomeD)

lemma load_contracts_Ok:
  assumes "load_contracts D refs given bt cs = Ok (given', bt')" "sorted_keys bt"
    "\<forall>c\<in>set cs. distinct (map fst (tc_tools c))"
  shows "set given' = set given \<union> policy_ref D ` set cs \<and> policy_ref D ` set cs \<subseteq> set refs
    \<and> (\<forall>t r. map_of bt' t = Some r \<longleftrightarrow>
         map_of bt t = Some r \<or> (\<exists>c\<in>set cs. map_of (tc_tools c) t = Some r))"
  using assms
proof (induction D refs given bt cs rule: load_contracts.induct)
  case (2 D refs given bt c cs)
  from 2(2) obtain bt1 where ref: "policy_ref D c \<in> set refs"
    and add: "add_tools bt (tc_tools c) = Ok bt1"
    and rest: "load_contracts D refs (policy_ref D c # given) bt1 cs = Ok (given', bt')"
    by (auto split: if_splits)
  have d: "distinct (map fst (tc_tools c))" using 2(4) by simp
  from add_tools_Ok [OF add 2(3) d] have bt1: "sorted_keys bt1" "fst ` set bt \<inter> fst ` set (tc_tools c) = {}"
    "map_of bt1 = (\<lambda>t. case map_of (tc_tools c) t of Some r \<Rightarrow> Some r | None \<Rightarrow> map_of bt t)"
    by simp_all
  have step: "map_of bt1 t = Some r \<longleftrightarrow> map_of bt t = Some r \<or> map_of (tc_tools c) t = Some r" for t r
    using bt1(2,3) map_of_dom_fst [of bt t r] map_of_dom_fst [of "tc_tools c" t]
    by (auto split: option.splits)
  have "set given' = set (policy_ref D c # given) \<union> policy_ref D ` set cs \<and> policy_ref D ` set cs \<subseteq> set refs
    \<and> (\<forall>t r. map_of bt' t = Some r \<longleftrightarrow>
         map_of bt1 t = Some r \<or> (\<exists>c\<in>set cs. map_of (tc_tools c) t = Some r))"
    using ref add rest bt1(1) 2(4) by (intro 2(1)) auto
  then show ?case using ref step by auto
qed simp

text \<open>After \<open>with_contracts\<close> the rules are those of the contracts the release binds, all of them
  and no others.\<close>

lemma with_contracts_Ok:
  assumes "with_contracts D cs task g = Ok g'" "\<forall>c\<in>set cs. distinct (map fst (tc_tools c))"
  shows "policy_ref D ` set cs = set (g_contract_refs g)"
    and "map_of (g_rules g') t = Some r \<longleftrightarrow> (\<exists>c\<in>set cs. map_of (tc_tools c) t = Some r)"
    and "g_contracts_loaded g'" "g_task g' = task" "g_tools g' = g_tools g"
proof -
  from assms(1) obtain given bt where load: "load_contracts D (g_contract_refs g) [] [] cs = Ok (given, bt)"
    and body: "(case filter (\<lambda>r. r \<notin> set given) (g_contract_refs g) of missing # _ \<Rightarrow> Err (NotSupplied missing)
      | [] \<Rightarrow> Ok (g\<lparr>g_rules := bt, g_task := task, g_contracts_loaded := True\<rparr>)) = Ok g'"
    by (auto simp: with_contracts_def split: if_splits)
  from body have all: "filter (\<lambda>r. r \<notin> set given) (g_contract_refs g) = []"
    and g': "g' = g\<lparr>g_rules := bt, g_task := task, g_contracts_loaded := True\<rparr>"
    by (auto split: list.splits)
  have "sorted_keys ([] :: (string \<times> tool_rule) list)" by (simp add: sorted_keys_def)
  from load_contracts_Ok [OF load this assms(2)] all
  show "policy_ref D ` set cs = set (g_contract_refs g)"
    "map_of (g_rules g') t = Some r \<longleftrightarrow> (\<exists>c\<in>set cs. map_of (tc_tools c) t = Some r)"
    by (auto simp: g' filter_empty_conv)
  show "g_contracts_loaded g'" "g_task g' = task" "g_tools g' = g_tools g" by (simp_all add: g')
qed

section \<open>What an authorized call has passed\<close>

text \<open>The receipt the gate found for this exact call: its file decodes to an envelope that verifies,
  no denial holds, and its validity window fits the tool's approval ttl.\<close>

definition receipt_for ::
  "gate_world \<Rightarrow> tool_gate \<Rightarrow> tool_rule \<Rightarrow> string \<Rightarrow> json \<Rightarrow> string \<Rightarrow> approved_call \<Rightarrow> bool" where
  "receipt_for W g rule tool args now ac \<longleftrightarrow>
     (\<exists>approvers release task_id bytes env a.
        g_approvals g = Some approvers \<and> hash_parse (g_release g) = Some release
        \<and> gate_task_id g = Some task_id
        \<and> ac_call ac = fingerprint (gw_digests W) release tool args
        \<and> \<not> denial_holds W g (hex_encode (ac_call ac)) now
        \<and> gw_file W (hex_encode (ac_call ac)) = FileBytes bytes \<and> gw_envelope W bytes = Some env
        \<and> ac_receipt_digest ac = dg_sha256 (gw_digests W) bytes
        \<and> verify_approval (gw_receipts W) env \<lparr>ac_fingerprint = ac_call ac, ac_release = g_release g,
            ac_tool = tool, ac_task_id = task_id, ac_approvers = approvers, ac_now = now\<rparr> = Ok a
        \<and> ac_operation_id ac = ap_operation_id a
        \<and> within_ttl (gw_receipts W) rule (ap_approved_at a) (ap_not_after a))"

lemma accept_receipt_Ok:
  "accept_receipt W rule fp bytes r = Ok ac \<longleftrightarrow>
     (\<exists>a. r = Ok a \<and> within_ttl (gw_receipts W) rule (ap_approved_at a) (ap_not_after a)
        \<and> ac = \<lparr>ac_receipt_digest = dg_sha256 (gw_digests W) bytes,
                 ac_operation_id = ap_operation_id a, ac_call = fp\<rparr>)"
  by (auto simp: accept_receipt_def split: sum.splits approval_error.splits)

lemma approved_call_eq:
  "(ac :: approved_call) = \<lparr>ac_receipt_digest = d, ac_operation_id = x, ac_call = fp\<rparr> \<longleftrightarrow>
     ac_receipt_digest ac = d \<and> ac_operation_id ac = x \<and> ac_call ac = fp"
  by (cases ac) simp

lemma approve_Ok: "approve W g rule tool args now = Ok ac \<longleftrightarrow> receipt_for W g rule tool args now ac"
proof -
  have onfile: "(case f of NoFile \<Rightarrow> Err ApprovalRequired | Unreadable \<Rightarrow> Err ApprovalInvalid
      | FileBytes bytes \<Rightarrow> k bytes) = Ok ac \<longleftrightarrow> (\<exists>bytes. f = FileBytes bytes \<and> k bytes = Ok ac)" for f k
    by (cases f) simp_all
  have cond: "(if b then Err e else r) = Ok ac \<longleftrightarrow> \<not> b \<and> r = Ok ac" for b e r by simp
  show ?thesis
    unfolding approve_def Let_def rbind_eq_Ok ok_or_eq_Ok cond onfile accept_receipt_Ok approved_call_eq
      receipt_for_def
    by auto
qed

lemma authorize_Ok:
  "authorize W g tool args now = Ok auth \<longleftrightarrow>
     tool \<in> set (g_tools g) \<and> g_contracts_loaded g
     \<and> (case map_of (g_rules g) tool of
          None \<Rightarrow> auth = \<lparr>au_approval = None, au_operation = None\<rparr>
        | Some rule \<Rightarrow>
            rule_check (gw_regex W) rule args (g_task g) = Ok ()
            \<and> (\<exists>verdict. evaluate_policy W g tool args now = Ok verdict
                 \<and> (if approval_needed rule args verdict = None then au_approval auth = None
                    else \<exists>ac. au_approval auth = Some ac \<and> receipt_for W g rule tool (or_null args) now ac)
                 \<and> (if tr_side_effect rule
                    then \<exists>k. au_operation auth = Some k
                           \<and> gate_operation_key W g rule tool args (au_approval auth) = Ok k
                    else au_operation auth = None)))"
  by (cases auth) (auto simp: authorize_def approve_Ok split: option.split if_splits)

lemma approval_needed_iff:
  "approval_needed rule args verdict \<noteq> None \<longleftrightarrow> needs_approval rule args \<or> verdict \<noteq> VAllow"
  by (auto simp: approval_needed_def Let_def split: policy_verdict.split)

lemma evaluate_policy_Ok:
  assumes "evaluate_policy W g tool args now = Ok verdict"
  shows "g_policy g = None \<and> g_policy_source g = None \<and> verdict = VAllow
    \<or> (\<exists>p t release ids. g_policy g = Some p \<and> gate_unix W now = Ok t \<and> hash_parse (g_release g) = Some release
         \<and> policy_evaluate (gw_cedar W) (ps_engine p) (gate_call_input W g p tool args release t) =
             Ok (case verdict of VAllow \<Rightarrow> Allow ids | VRequireApproval rs \<Rightarrow> RequireApproval rs ids))"
  using assms
  by (fastforce simp: evaluate_policy_def
      split: option.splits if_splits sum.splits policy_decision.splits)

text \<open>The operation of a call is the same whether the gate decides on it or only tracks it.\<close>

lemma operation_of_authorized:
  assumes "authorize W g tool args now = Ok auth"
  shows "gate_operation W g tool args now = Ok (au_operation auth)"
proof (cases "map_of (g_rules g) tool")
  case None
  with assms show ?thesis by (auto simp: authorize_Ok gate_operation_def)
next
  case (Some rule)
  with assms obtain verdict where v: "evaluate_policy W g tool args now = Ok verdict"
    and ap: "if approval_needed rule args verdict = None then au_approval auth = None
      else \<exists>ac. au_approval auth = Some ac \<and> receipt_for W g rule tool (or_null args) now ac"
    and op: "if tr_side_effect rule then \<exists>k. au_operation auth = Some k
        \<and> gate_operation_key W g rule tool args (au_approval auth) = Ok k
      else au_operation auth = None"
    by (auto simp: authorize_Ok)
  have "(if approval_needed rule args verdict \<noteq> None
      then result_ok (approve W g rule tool (or_null args) now) else None) = au_approval auth"
    using ap by (auto simp: approve_Ok [symmetric] split: if_splits)
  with Some v op show ?thesis by (auto simp: gate_operation_def Let_def split: if_splits)
qed

lemma num_seconds_le:
  assumes "0 \<le> d"
  shows "num_seconds d \<le> n \<longleftrightarrow> d < (n + 1) * NANOS"
proof -
  define q r where "q = d div NANOS" and "r = d mod NANOS"
  then have "d = NANOS * q + r" "0 \<le> r" "r < NANOS" by (simp_all add: NANOS_def)
  then have "q \<le> n \<longleftrightarrow> d < (n + 1) * NANOS" unfolding NANOS_def by (simp add: algebra_simps) linarith
  then show ?thesis using assms by (simp add: num_seconds_def q_def)
qed

end
