(* ===== verification/Tool_Catalog.thy ===== *)
theory Tool_Catalog
  imports Gate "HOL-Library.AList"
begin

text \<open>
  The upstream tools: what each server listed at start-up (\<open>cloakpipe-mcp/src/servers.rs\<close>), the tools
  lock that pinned reviewed definitions (\<open>tools_lock.rs\<close>), and the catalogue that routes calls and watches
  definitions for drift (\<open>catalog.rs\<close>). The JSON reader and the pretty printer are parameters; the
  catalogue's mutex is held for a whole operation, so an operation is one step.
\<close>

section \<open>Servers\<close>

record server_tools =
  sv_name :: string
  sv_init :: json
  sv_tools :: "json list"

datatype server_name_error = NameEmpty | NameCharacter string | NameSeparator string

definition check_server_name :: "string \<Rightarrow> server_name_error + unit" where
  "check_server_name name =
     (if name = [] then Err NameEmpty
      else if \<not> list_all (\<lambda>b. is_ascii_alphanumeric b \<or> b = CHR ''-'' \<or> b = CHR ''_'') name then Err (NameCharacter name)
      else if contains_str ''__'' name then Err (NameSeparator name)
      else Ok ())"

definition tool_name :: "json \<Rightarrow> string option" where
  "tool_name t = Option.bind (json_get t ''name'') as_str"

definition per_server :: "string \<Rightarrow> string \<Rightarrow> string" where
  "per_server server tool = server @ ''__'' @ tool"

text \<open>\<open>owners\<close>: tool name to the indexes of the servers that list it, each once.\<close>

definition add_owner :: "nat \<Rightarrow> string \<Rightarrow> (string \<times> nat list) list \<Rightarrow> (string \<times> nat list) list" where
  "add_owner i name owners =
     (let o' = (case map_of owners name of Some o' \<Rightarrow> o' | None \<Rightarrow> [])
      in bt_insert name (if i \<in> set o' then o' else o' @ [i]) owners)"

definition owners_of :: "server_tools list \<Rightarrow> (string \<times> nat list) list" where
  "owners_of listing =
     fold (\<lambda>(i, s). fold (add_owner i) (List.map_filter tool_name (sv_tools s))) (enumerate 0 listing) []"

record collision =
  co_tool :: string
  co_servers :: "string list"
  co_per_server :: "string list"

definition collisions :: "server_tools list \<Rightarrow> (string \<Rightarrow> bool) \<Rightarrow> string set \<times> collision list" where
  "collisions listing declares =
     (let shared = filter (\<lambda>m. 1 < length (snd m)) (owners_of listing);
          names = (\<lambda>m. map (\<lambda>i. per_server (sv_name (listing ! i)) (fst m)) (snd m));
          declared = (\<lambda>m. list_ex declares (names m))
      in (fst ` set (filter declared shared),
          map (\<lambda>m. \<lparr>co_tool = fst m, co_servers = map (\<lambda>i. sv_name (listing ! i)) (snd m), co_per_server = names m\<rparr>)
            (filter (\<lambda>m. \<not> declared m) shared)))"

section \<open>The tools lock\<close>

definition TOOLS_LOCK_SCHEMA :: string where "TOOLS_LOCK_SCHEMA = ''cloakpipe.tools-lock/v1''"

definition PINNED_MEMBERS :: "string list" where
  "PINNED_MEMBERS = [''name'', ''description'', ''inputSchema'', ''annotations'']"

definition pinned_part :: "json \<Rightarrow> json" where
  "pinned_part t = JObject (List.map_filter (\<lambda>m. map_option (Pair m) (json_get t m)) PINNED_MEMBERS)"

definition tool_hash :: "digests \<Rightarrow> json \<Rightarrow> string" where
  "tool_hash D t = hash_display (dg_sha256 D (dg_jcs D (pinned_part t)))"

datatype lock_error = LockSyntax | LockSchema string | LockDigest string string

record tools_lock =
  tk_servers :: "(string \<times> (string \<times> string) list) list"

datatype change_kind = Added | Removed | Changed

record lock_change =
  ch_server :: string
  ch_tool :: string
  ch_kind :: change_kind
  ch_before :: "string option"
  ch_after :: "string option"

definition tools_at :: "(string \<times> (string \<times> string) list) list \<Rightarrow> string \<Rightarrow> (string \<times> string) list" where
  "tools_at servers s = (case map_of servers s of Some ts \<Rightarrow> ts | None \<Rightarrow> [])"

definition pin_tool :: "digests \<Rightarrow> json \<Rightarrow> (string \<times> string) list \<Rightarrow> (string \<times> string) list" where
  "pin_tool D t pinned = (case tool_name t of None \<Rightarrow> pinned | Some n \<Rightarrow> bt_insert n (tool_hash D t) pinned)"

definition lock_from_servers :: "digests \<Rightarrow> server_tools list \<Rightarrow> tools_lock" where
  "lock_from_servers D listing =
     \<lparr>tk_servers = fold (\<lambda>s servers. bt_insert (sv_name s) (fold (pin_tool D) (sv_tools s) (tools_at servers (sv_name s))) servers)
        listing []\<rparr>"

definition lock_body :: "tools_lock \<Rightarrow> json" where
  "lock_body l = JObject [(''schema'', JString TOOLS_LOCK_SCHEMA),
     (''servers'', JObject (map (\<lambda>s. (fst s, JObject (map (\<lambda>t. (fst t, JString (snd t))) (snd s)))) (tk_servers l)))]"

definition lock_digest :: "digests \<Rightarrow> tools_lock \<Rightarrow> string" where
  "lock_digest D l = hash_display (dg_sha256 D (dg_jcs D (lock_body l)))"

definition set_member :: "string \<Rightarrow> json \<Rightarrow> json \<Rightarrow> json" where
  "set_member k x v = (case v of JObject ms \<Rightarrow> JObject (AList.update k x ms) | _ \<Rightarrow> v)"

definition lock_to_json_string :: "digests \<Rightarrow> (json \<Rightarrow> string) \<Rightarrow> tools_lock \<Rightarrow> string" where
  "lock_to_json_string D pretty l = pretty (set_member ''digest'' (JString (lock_digest D l)) (lock_body l)) @ [CHR 0x0A]"

text \<open>\<open>serde_json::from_value\<close> into maps of maps of strings.\<close>

definition map_value :: "(json \<Rightarrow> 'v option) \<Rightarrow> json \<Rightarrow> (string \<times> 'v) list option" where
  "map_value f v =
     Option.bind (as_object v) (\<lambda>ms.
       map_option (\<lambda>vs. fold (\<lambda>(k, x). bt_insert k x) vs [])
         (those (map (\<lambda>m. map_option (Pair (fst m)) (f (snd m))) ms)))"

definition lock_parse :: "digests \<Rightarrow> (string \<Rightarrow> json option) \<Rightarrow> string \<Rightarrow> lock_error + tools_lock" where
  "lock_parse D parse s =
     rbind (ok_or LockSyntax (parse s)) (\<lambda>v.
     let schema = (case Option.bind (json_get v ''schema'') as_str of Some t \<Rightarrow> t | None \<Rightarrow> []) in
     if schema \<noteq> TOOLS_LOCK_SCHEMA then Err (LockSchema schema)
     else rbind (ok_or LockSyntax (map_value (map_value as_str) (or_null (json_get v ''servers'')))) (\<lambda>servers.
          let lock = \<lparr>tk_servers = servers\<rparr>;
              recorded = (case Option.bind (json_get v ''digest'') as_str of Some t \<Rightarrow> t | None \<Rightarrow> []);
              computed = lock_digest D lock
          in if recorded \<noteq> computed then Err (LockDigest recorded computed) else Ok lock))"

definition hash_of :: "tools_lock \<Rightarrow> string \<Rightarrow> string \<Rightarrow> string option" where
  "hash_of l server tool = Option.bind (map_of (tk_servers l) server) (\<lambda>ts. map_of ts tool)"

definition has_server :: "tools_lock \<Rightarrow> string \<Rightarrow> bool" where
  "has_server l server \<longleftrightarrow> map_of (tk_servers l) server \<noteq> None"

definition tool_count :: "tools_lock \<Rightarrow> nat" where
  "tool_count l = sum_list (map (\<lambda>s. length (snd s)) (tk_servers l))"

text \<open>\<open>sort\<close> then \<open>dedup\<close> of the keys of two maps.\<close>

definition merged_keys :: "(string \<times> 'a) list \<Rightarrow> (string \<times> 'b) list \<Rightarrow> string list" where
  "merged_keys a b = remdups_adj (sort (map fst a @ map fst b))"

definition tool_change :: "string \<Rightarrow> string \<Rightarrow> string option \<Rightarrow> string option \<Rightarrow> lock_change option" where
  "tool_change server tool b a =
     (let c = (\<lambda>k. \<lparr>ch_server = server, ch_tool = tool, ch_kind = k, ch_before = b, ch_after = a\<rparr>)
      in case (b, a) of
           (None, Some _) \<Rightarrow> Some (c Added)
         | (Some _, None) \<Rightarrow> Some (c Removed)
         | (Some x, Some y) \<Rightarrow> if x \<noteq> y then Some (c Changed) else None
         | _ \<Rightarrow> None)"

definition lock_diff :: "tools_lock \<Rightarrow> tools_lock \<Rightarrow> lock_change list" where
  "lock_diff old newer =
     concat (map (\<lambda>server.
        let before = tools_at (tk_servers old) server; after = tools_at (tk_servers newer) server
        in List.map_filter (\<lambda>tool. tool_change server tool (map_of before tool) (map_of after tool)) (merged_keys before after))
      (merged_keys (tk_servers old) (tk_servers newer)))"

section \<open>The catalogue\<close>

record drift =
  df_server :: string
  df_tool :: string

record catalog =
  cg_servers :: "string list"
  cg_routed :: bool
  cg_lock :: "tools_lock option"
  cg_baseline :: "nat \<times> string \<rightharpoonup> string"
  cg_blocked :: "(nat \<times> string) set"
  cg_exposed :: "string \<rightharpoonup> nat \<times> string"
  cg_namespaced :: "string set"

definition DEFAULT_SERVER :: string where "DEFAULT_SERVER = ''default''"

definition passthrough :: catalog where
  "passthrough = \<lparr>cg_servers = [DEFAULT_SERVER], cg_routed = False, cg_lock = None, cg_baseline = Map.empty,
     cg_blocked = {}, cg_exposed = Map.empty, cg_namespaced = {}\<rparr>"

definition server_index :: "catalog \<Rightarrow> string \<Rightarrow> nat option" where
  "server_index c server = map_option fst (List.find (\<lambda>m. snd m = server) (enumerate 0 (cg_servers c)))"

definition agent_name :: "catalog \<Rightarrow> nat \<Rightarrow> string \<Rightarrow> string" where
  "agent_name c server tool =
     (if cg_routed c \<and> tool \<in> cg_namespaced c then per_server (cg_servers c ! server) tool else tool)"

definition matches_pin :: "catalog \<Rightarrow> nat \<Rightarrow> string \<Rightarrow> string \<Rightarrow> bool" where
  "matches_pin c server name h =
     (case cg_lock c of
        Some lock \<Rightarrow> hash_of lock (cg_servers c ! server) name = Some h
      | None \<Rightarrow> cg_baseline c (server, name) = Some h)"

text \<open>Owning a name: \<open>None\<close> when another server has it.\<close>

definition expose :: "catalog \<Rightarrow> nat \<Rightarrow> string \<Rightarrow> string \<Rightarrow> catalog option" where
  "expose c server agent name =
     (if \<not> cg_routed c then Some c
      else (case cg_exposed c agent of
              Some (owner, _) \<Rightarrow> if owner \<noteq> server then None else Some c
            | None \<Rightarrow> Some (c\<lparr>cg_exposed := (cg_exposed c)(agent \<mapsto> (server, name))\<rparr>)))"

definition first_seen :: "catalog \<Rightarrow> nat \<Rightarrow> string \<Rightarrow> string \<Rightarrow> catalog" where
  "first_seen c server name h =
     (if cg_lock c = None \<and> cg_baseline c (server, name) = None
      then c\<lparr>cg_baseline := (cg_baseline c)((server, name) \<mapsto> h)\<rparr> else c)"

fun observe_all :: "digests \<Rightarrow> nat \<Rightarrow> json list \<Rightarrow> catalog \<Rightarrow> catalog \<times> json list \<times> drift list \<times> string list" where
  "observe_all D server [] c = (c, [], [], [])"
| "observe_all D server (t # ts) c =
     (case tool_name t of
        None \<Rightarrow> observe_all D server ts c
      | Some name \<Rightarrow>
          let agent = agent_name c server name in
          (case expose c server agent name of
             None \<Rightarrow> (let (c', vs, ds, cl) = observe_all D server ts c in (c', vs, ds, agent # cl))
           | Some c \<Rightarrow>
               if (server, name) \<in> cg_blocked c then observe_all D server ts c
               else let h = tool_hash D t; c = first_seen c server name h in
                    if \<not> matches_pin c server name h
                    then (let (c', vs, ds, cl) = observe_all D server ts (c\<lparr>cg_blocked := insert (server, name) (cg_blocked c)\<rparr>)
                          in (c', vs, \<lparr>df_server = cg_servers c ! server, df_tool = agent\<rparr> # ds, cl))
                    else (let (c', vs, ds, cl) = observe_all D server ts c
                          in (c', (if agent \<noteq> name then set_member ''name'' (JString agent) t else t) # vs, ds, cl))))"

definition observe :: "digests \<Rightarrow> nat \<Rightarrow> json list \<Rightarrow> catalog \<Rightarrow> catalog \<times> json list \<times> drift list" where
  "observe D server ts c = (let (c', vs, ds, _) = observe_all D server ts c in (c', vs, ds))"

definition catalog_route :: "catalog \<Rightarrow> string \<Rightarrow> (nat \<times> string) option" where
  "catalog_route c tool = (if \<not> cg_routed c then Some (0, tool) else cg_exposed c tool)"

definition catalog_refuse :: "catalog \<Rightarrow> string \<Rightarrow> denial option" where
  "catalog_refuse c tool =
     (case (if cg_routed c then cg_exposed c tool else Some (0, tool)) of
        None \<Rightarrow> Some ToolUnavailable
      | Some (server, name) \<Rightarrow>
          if (server, name) \<in> cg_blocked c then Some (ToolDrift (cg_servers c ! server)) else None)"

definition catalog_lock_digest :: "digests \<Rightarrow> catalog \<Rightarrow> string option" where
  "catalog_lock_digest D c = map_option (lock_digest D) (cg_lock c)"

datatype catalog_error =
    NoServer
  | BadServerName server_name_error
  | ServerTwice string
  | ToolCollision "collision list"
  | ServedByTwo string

fun check_names :: "string list \<Rightarrow> server_tools list \<Rightarrow> catalog_error + unit" where
  "check_names seen [] = Ok ()"
| "check_names seen (s # ss) =
     rbind (map_err BadServerName (check_server_name (sv_name s))) (\<lambda>_.
     if sv_name s \<in> set seen then Err (ServerTwice (sv_name s)) else check_names (sv_name s # seen) ss)"

fun observe_servers :: "digests \<Rightarrow> (nat \<times> server_tools) list \<Rightarrow> catalog \<Rightarrow> catalog_error + (catalog \<times> drift list)" where
  "observe_servers D [] c = Ok (c, [])"
| "observe_servers D (s # ss) c =
     (let (c', _, ds, clashes) = observe_all D (fst s) (sv_tools (snd s)) c
      in case clashes of
           name # _ \<Rightarrow> Err (ServedByTwo name)
         | [] \<Rightarrow> rbind (observe_servers D ss c') (\<lambda>(c'', ds'). Ok (c'', ds @ ds')))"

definition catalog_routed ::
  "digests \<Rightarrow> server_tools list \<Rightarrow> tools_lock option \<Rightarrow> (string \<Rightarrow> bool) \<Rightarrow> catalog_error + (catalog \<times> drift list)" where
  "catalog_routed D listing lock declares =
     (if listing = [] then Err NoServer
      else rbind (check_names [] listing) (\<lambda>_.
           let (shared, refused) = collisions listing declares in
           if refused \<noteq> [] then Err (ToolCollision refused)
           else observe_servers D (enumerate 0 listing)
                  \<lparr>cg_servers = map sv_name listing, cg_routed = True, cg_lock = lock, cg_baseline = Map.empty,
                   cg_blocked = {}, cg_exposed = Map.empty, cg_namespaced = shared\<rparr>))"

section \<open>What a lock says\<close>

definition lock_ok :: "tools_lock \<Rightarrow> bool" where
  "lock_ok l \<longleftrightarrow> sorted_keys (tk_servers l) \<and> (\<forall>s\<in>set (tk_servers l). sorted_keys (snd s))"

lemma sorted_keys_Nil [simp]: "sorted_keys []"
  by (simp add: sorted_keys_def)

lemma set_bt_insert_subset: "set (bt_insert k v m) \<subseteq> insert (k, v) (set m)"
  by (induction k v m rule: bt_insert.induct) auto

lemma sorted_keys_tools_at: "lock_ok l \<Longrightarrow> sorted_keys (tools_at (tk_servers l) s)"
  by (force simp: lock_ok_def tools_at_def split: option.split dest: map_of_SomeD)

lemma sorted_keys_pin: "sorted_keys pinned \<Longrightarrow> sorted_keys (fold (pin_tool D) ts pinned)"
  by (induction ts arbitrary: pinned) (simp_all add: pin_tool_def sorted_keys_bt_insert split: option.split)

lemma lock_from_servers_ok: "lock_ok (lock_from_servers D listing)"
proof -
  have "lock_ok \<lparr>tk_servers = m\<rparr> \<Longrightarrow> lock_ok \<lparr>tk_servers = fold (\<lambda>s servers. bt_insert (sv_name s)
      (fold (pin_tool D) (sv_tools s) (tools_at servers (sv_name s))) servers) listing m\<rparr>" for m
  proof (induction listing arbitrary: m)
    case (Cons s listing)
    have pin: "sorted_keys (fold (pin_tool D) (sv_tools s) (tools_at m (sv_name s)))"
      using sorted_keys_tools_at [OF Cons.prems] by (simp add: sorted_keys_pin)
    have "lock_ok \<lparr>tk_servers = bt_insert (sv_name s) (fold (pin_tool D) (sv_tools s) (tools_at m (sv_name s))) m\<rparr>"
      using Cons.prems pin set_bt_insert_subset
      by (fastforce simp: lock_ok_def sorted_keys_bt_insert)
    then show ?case using Cons.IH by simp
  qed simp
  from this [of "[]"] show ?thesis by (simp add: lock_from_servers_def lock_ok_def)
qed

lemma set_merged_keys [simp]: "set (merged_keys a b) = fst ` set a \<union> fst ` set b"
  by (auto simp: merged_keys_def)

lemma sorted_remdups_adj_strict: "sorted xs \<Longrightarrow> sorted_wrt (<) (remdups_adj xs)"
  by (induction xs rule: remdups_adj.induct) (auto simp: less_le)

lemma merged_keys_sorted: "sorted_wrt (<) (merged_keys a b)"
  by (simp add: merged_keys_def sorted_remdups_adj_strict)

lemma hash_of_tools_at: "hash_of l s t = map_of (tools_at (tk_servers l) s) t"
  by (simp add: hash_of_def tools_at_def split: option.split)

lemma hash_of_Some: "hash_of l s t = Some h \<Longrightarrow> s \<in> fst ` set (tk_servers l) \<and> t \<in> fst ` set (tools_at (tk_servers l) s)"
  by (force simp: hash_of_def tools_at_def Option.bind_eq_Some_conv dest: map_of_SomeD)

definition kind_of_change :: "string option \<Rightarrow> string option \<Rightarrow> change_kind" where
  "kind_of_change b a = (if b = None then Added else if a = None then Removed else Changed)"

lemma tool_change_Some:
  "tool_change s t b a = Some c \<longleftrightarrow>
     b \<noteq> a \<and> c = \<lparr>ch_server = s, ch_tool = t, ch_kind = kind_of_change b a, ch_before = b, ch_after = a\<rparr>"
  by (auto simp: tool_change_def kind_of_change_def split: option.splits)

lemma in_map_filter: "y \<in> set (List.map_filter f xs) \<longleftrightarrow> (\<exists>x\<in>set xs. f x = Some y)"
  by (induction xs) (auto simp: List.map_filter_simps split: option.split)

lemma in_concat_map: "y \<in> set (concat (map f xs)) \<longleftrightarrow> (\<exists>x\<in>set xs. y \<in> set (f x))"
  by simp

lemma bex2_all:
  assumes "\<And>s t. Q s t \<Longrightarrow> s \<in> K \<and> t \<in> T s"
  shows "(\<exists>s\<in>K. \<exists>t\<in>T s. Q s t) \<longleftrightarrow> (\<exists>s t. Q s t)"
  using assms by blast

lemma lock_diff_members:
  "c \<in> set (lock_diff a b) \<longleftrightarrow>
     hash_of a (ch_server c) (ch_tool c) \<noteq> hash_of b (ch_server c) (ch_tool c)
     \<and> ch_before c = hash_of a (ch_server c) (ch_tool c) \<and> ch_after c = hash_of b (ch_server c) (ch_tool c)
     \<and> ch_kind c = kind_of_change (ch_before c) (ch_after c)"
proof -
  have in_keys: "hash_of a s t \<noteq> hash_of b s t \<Longrightarrow> s \<in> fst ` set (tk_servers a) \<union> fst ` set (tk_servers b)
      \<and> t \<in> fst ` set (tools_at (tk_servers a) s) \<union> fst ` set (tools_at (tk_servers b) s)" for s t
    using hash_of_Some [of a s t] hash_of_Some [of b s t] by (cases "hash_of a s t"; cases "hash_of b s t") auto
  have "c \<in> set (lock_diff a b) \<longleftrightarrow>
      (\<exists>s\<in>fst ` set (tk_servers a) \<union> fst ` set (tk_servers b).
         \<exists>t\<in>fst ` set (tools_at (tk_servers a) s) \<union> fst ` set (tools_at (tk_servers b) s).
         tool_change s t (hash_of a s t) (hash_of b s t) = Some c)"
    by (simp only: lock_diff_def Let_def in_concat_map in_map_filter set_merged_keys hash_of_tools_at)
  also have "\<dots> \<longleftrightarrow> (\<exists>s t. tool_change s t (hash_of a s t) (hash_of b s t) = Some c)"
    by (rule bex2_all) (unfold tool_change_Some, rule in_keys, erule conjunct1)
  also have "\<dots> \<longleftrightarrow> tool_change (ch_server c) (ch_tool c)
      (hash_of a (ch_server c) (ch_tool c)) (hash_of b (ch_server c) (ch_tool c)) = Some c"
    by (metis lock_change.select_convs(1,2) tool_change_Some)
  also have "\<dots> \<longleftrightarrow> hash_of a (ch_server c) (ch_tool c) \<noteq> hash_of b (ch_server c) (ch_tool c)
     \<and> ch_before c = hash_of a (ch_server c) (ch_tool c) \<and> ch_after c = hash_of b (ch_server c) (ch_tool c)
     \<and> ch_kind c = kind_of_change (ch_before c) (ch_after c)"
    by (cases c) (auto simp: tool_change_Some)
  finally show ?thesis .
qed

definition change_before :: "lock_change \<Rightarrow> lock_change \<Rightarrow> bool" where
  "change_before c d \<longleftrightarrow> ch_server c < ch_server d \<or> ch_server c = ch_server d \<and> ch_tool c < ch_tool d"

lemma map_filter_sorted:
  "sorted_wrt R xs \<Longrightarrow> (\<And>x y c d. R x y \<Longrightarrow> f x = Some c \<Longrightarrow> f y = Some d \<Longrightarrow> S c d)
     \<Longrightarrow> sorted_wrt S (List.map_filter f xs)"
  by (induction xs) (auto simp: List.map_filter_simps in_map_filter split: option.split, blast)

lemma concat_sorted:
  "sorted_wrt R xs \<Longrightarrow> (\<And>x. sorted_wrt S (f x)) \<Longrightarrow> (\<And>x y c d. R x y \<Longrightarrow> c \<in> set (f x) \<Longrightarrow> d \<in> set (f y) \<Longrightarrow> S c d)
     \<Longrightarrow> sorted_wrt S (concat (map f xs))"
  by (induction xs) (auto simp: sorted_wrt_append)

lemma lock_diff_sorted: "sorted_wrt change_before (lock_diff a b)"
  unfolding lock_diff_def Let_def
  by (rule concat_sorted [OF merged_keys_sorted], rule map_filter_sorted [OF merged_keys_sorted])
    (auto simp: tool_change_Some change_before_def in_map_filter)

section \<open>A lock reads back, and its digest is binding\<close>

lemma fold_bt_insert_sorted:
  "sorted_keys (fold (\<lambda>(k, x). bt_insert k x) vs m)" if "sorted_keys m"
  using that by (induction vs arbitrary: m) (auto simp: sorted_keys_bt_insert)

lemma map_of_fold_bt_insert:
  "sorted_keys m \<Longrightarrow> distinct (map fst vs) \<Longrightarrow>
     map_of (fold (\<lambda>(k, x). bt_insert k x) vs m) = map_of m ++ map_of vs"
proof (induction vs arbitrary: m)
  case (Cons v vs)
  obtain k x where v: "v = (k, x)" by force
  with Cons have "k \<notin> dom (map_of vs)" by (simp add: dom_map_of_conv_image_fst)
  with Cons show ?case by (auto simp: v sorted_keys_bt_insert map_add_def fun_eq_iff split: option.split)
qed simp

lemma fold_bt_insert_id: "sorted_keys vs \<Longrightarrow> fold (\<lambda>(k, x). bt_insert k x) vs [] = vs"
  by (rule sorted_keys_map_of_inject)
    (simp_all add: fold_bt_insert_sorted map_of_fold_bt_insert sorted_keys_distinct)

lemma those_map_Some: "(\<And>x. x \<in> set xs \<Longrightarrow> f x = Some (g x)) \<Longrightarrow> those (map f xs) = Some (map g xs)"
  by (induction xs) auto

lemma map_value_object:
  assumes "sorted_keys vs" "\<And>m. m \<in> set vs \<Longrightarrow> f (e (snd m)) = Some (snd m)"
  shows "map_value f (JObject (map (\<lambda>m. (fst m, e (snd m))) vs)) = Some vs"
proof -
  have "those (map (\<lambda>m. map_option (Pair (fst m)) (f (snd m))) (map (\<lambda>m. (fst m, e (snd m))) vs)) = Some (map (\<lambda>m. m) vs)"
    unfolding map_map o_def by (rule those_map_Some) (simp add: assms(2))
  then show ?thesis by (simp add: map_value_def fold_bt_insert_id assms(1))
qed

lemma servers_value:
  assumes "lock_ok l"
  shows "map_value (map_value as_str)
     (JObject (map (\<lambda>s. (fst s, JObject (map (\<lambda>t. (fst t, JString (snd t))) (snd s)))) (tk_servers l))) = Some (tk_servers l)"
proof (rule map_value_object)
  fix s assume "s \<in> set (tk_servers l)"
  then show "map_value as_str (JObject (map (\<lambda>t. (fst t, JString (snd t))) (snd s))) = Some (snd s)"
    using assms by (intro map_value_object) (auto simp: lock_ok_def)
qed (use assms in \<open>simp add: lock_ok_def\<close>)

text \<open>The document a lock is written as.\<close>

definition lock_document :: "digests \<Rightarrow> tools_lock \<Rightarrow> json" where
  "lock_document D l = set_member ''digest'' (JString (lock_digest D l)) (lock_body l)"

lemma lock_reads_back:
  assumes "lock_ok l" "parse (lock_to_json_string D pretty l) = Some (lock_document D l)"
  shows "lock_parse D parse (lock_to_json_string D pretty l) = Ok l"
proof -
  have same: "\<lparr>tk_servers = tk_servers l\<rparr> = l" by (cases l) simp
  show ?thesis
    using servers_value [OF assms(1)]
    by (simp add: same lock_parse_def assms(2) lock_document_def lock_body_def set_member_def or_null_def Let_def)
qed

lemma map_of_map_snd: "map_of (map (\<lambda>m. (fst m, e (snd m))) vs) k = map_option e (map_of vs k)"
  by (induction vs) auto

lemma json_eq_object_inject:
  assumes "json_eq (JObject (map (\<lambda>m. (fst m, e (snd m))) a)) (JObject (map (\<lambda>m. (fst m, e (snd m))) b))"
    and sorted: "sorted_keys a" "sorted_keys b"
    and inject: "\<And>k x y. map_of a k = Some x \<Longrightarrow> map_of b k = Some y \<Longrightarrow> json_eq (e x) (e y) \<Longrightarrow> x = y"
  shows "a = b"
proof (rule sorted_keys_map_of_inject [OF sorted])
  have d: "distinct (map fst (map (\<lambda>m. (fst m, e (snd m))) a))" "distinct (map fst (map (\<lambda>m. (fst m, e (snd m))) b))"
    using sorted by (simp_all add: o_def sorted_keys_distinct)
  show "map_of a = map_of b"
  proof
    fix k show "map_of a k = map_of b k"
    proof (cases "map_of a k")
      case None
      with json_eq_object_None [OF assms(1) d, of k] show ?thesis by (simp add: map_of_map_snd)
    next
      case (Some x)
      then have "map_of (map (\<lambda>m. (fst m, e (snd m))) a) k = Some (e x)" by (simp add: map_of_map_snd)
      from json_eq_object_lookup [OF assms(1) this] obtain y where "map_of b k = Some y" "json_eq (e x) (e y)"
        by (auto simp: map_of_map_snd)
      with inject [OF Some] Some show ?thesis by simp
    qed
  qed
qed

lemma lock_body_inject:
  assumes "json_eq (lock_body l) (lock_body l')" "lock_ok l" "lock_ok l'"
  shows "l = l'"
proof -
  let ?e = "\<lambda>ts. JObject (map (\<lambda>t. (fst t, JString (snd t))) ts)"
  let ?S = "\<lambda>l. JObject (map (\<lambda>s. (fst s, ?e (snd s))) (tk_servers l))"
  have body: "lock_body l = JObject [(''schema'', JString TOOLS_LOCK_SCHEMA), (''servers'', ?S l)]" for l
    by (simp add: lock_body_def)
  have "json_eq (?S l) (?S l')"
    using json_eq_object_lookup [OF assms(1) [unfolded body], of "''servers''"] by (simp del: json_eq.simps)
  then have "tk_servers l = tk_servers l'"
  proof (rule json_eq_object_inject)
    fix k x y assume xy: "map_of (tk_servers l) k = Some x" "map_of (tk_servers l') k = Some y" "json_eq (?e x) (?e y)"
    have "sorted_keys x" "sorted_keys y"
      using assms(2,3) xy(1,2) by (force simp: lock_ok_def dest: map_of_SomeD)+
    with xy(3) show "x = y" by (rule json_eq_object_inject) simp
  qed (use assms in \<open>simp_all add: lock_ok_def\<close>)
  then show ?thesis by (cases l; cases l') simp
qed

lemma lock_digest_binds:
  assumes "lock_digest D l = lock_digest D l'" "lock_ok l" "lock_ok l'"
    "no_collision (dg_sha256 D) (dg_jcs D (lock_body l)) (dg_jcs D (lock_body l'))"
    "jcs_separates (dg_jcs D) (lock_body l) (lock_body l')"
  shows "l = l'"
  using assms lock_body_inject by (auto simp: lock_digest_def no_collision_def jcs_separates_def)

lemma lock_parse_ok:
  assumes "lock_parse D parse s = Ok l"
  shows "lock_ok l"
proof -
  from assms obtain v where v: "map_value (map_value as_str) v = Some (tk_servers l)"
    by (auto simp: lock_parse_def ok_or_def Let_def split: option.splits if_splits)
  then obtain ms vs where ms: "v = JObject ms" "those (map (\<lambda>m. map_option (Pair (fst m)) (map_value as_str (snd m))) ms) = Some vs"
    "tk_servers l = fold (\<lambda>(k, x). bt_insert k x) vs []"
    by (auto simp: map_value_def Option.bind_eq_Some_conv)
  have inner: "sorted_keys (snd m)" if "m \<in> set vs" for m
    using ms(2) that
  proof (induction ms arbitrary: vs)
    case (Cons x ms)
    then obtain y ys where y: "map_value as_str (snd x) = Some y" "those (map (\<lambda>m. map_option (Pair (fst m)) (map_value as_str (snd m))) ms) = Some ys"
      "vs = (fst x, y) # ys" by (auto split: option.splits)
    from y(1) have "sorted_keys y" by (auto simp: map_value_def Option.bind_eq_Some_conv fold_bt_insert_sorted)
    with Cons y(2,3) show ?case by auto
  qed simp
  have "set (fold (\<lambda>(k, x). bt_insert k x) ws m) \<subseteq> set m \<union> set ws" for ws and m :: "(string \<times> (string \<times> string) list) list"
  proof (induction ws arbitrary: m)
    case (Cons w ws)
    from Cons [of "bt_insert (fst w) (snd w) m"] set_bt_insert_subset [of "fst w" "snd w" m] show ?case
      by (auto simp: case_prod_beta)
  qed simp
  from this [of vs "[]"] inner show ?thesis
    unfolding lock_ok_def ms(3) by (auto simp: fold_bt_insert_sorted)
qed

section \<open>Monitors that never forget\<close>

text \<open>What a monitor promises: its state only grows, what it has just seen it accounts for, and what it
  accounts for it accounts for ever.\<close>

locale monitor =
  fixes see :: "'s \<Rightarrow> 'o \<Rightarrow> 's" and le :: "'s \<Rightarrow> 's \<Rightarrow> bool" and inv :: "'s \<Rightarrow> bool"
    and accounts :: "'s \<Rightarrow> 'o \<Rightarrow> bool"
  assumes le_refl: "le s s"
    and le_trans: "le s t \<Longrightarrow> le t u \<Longrightarrow> le s u"
    and le_see: "inv s \<Longrightarrow> le s (see s x)"
    and inv_see: "inv s \<Longrightarrow> inv (see s x)"
    and accounts_see: "inv s \<Longrightarrow> accounts (see s x) x"
    and accounts_le: "le s t \<Longrightarrow> accounts s x \<Longrightarrow> accounts t x"
begin

lemma run_keeps: "inv s \<Longrightarrow> inv (foldl see s xs) \<and> le s (foldl see s xs)"
proof (induction xs arbitrary: s)
  case (Cons x xs)
  have "inv (foldl see (see s x) xs)" "le (see s x) (foldl see (see s x) xs)"
    using Cons.IH [OF inv_see [OF Cons.prems]] by blast+
  with le_trans [OF le_see [OF Cons.prems]] show ?case by simp
qed (simp add: le_refl)

lemma run_accounts: "inv s \<Longrightarrow> x \<in> set xs \<Longrightarrow> accounts (foldl see s xs) x"
proof (induction xs arbitrary: s)
  case (Cons y ys)
  show ?case
  proof (cases "x \<in> set ys")
    case True
    with Cons.IH [OF inv_see [OF Cons.prems(1)]] show ?thesis by simp
  next
    case False
    with Cons.prems have "x = y" by simp
    with accounts_see [OF Cons.prems(1)] run_keeps [OF inv_see [OF Cons.prems(1)]] accounts_le show ?thesis by force
  qed
qed simp

end

section \<open>The catalogue is a monitor of tool definitions\<close>

definition catalog_ok :: "catalog \<Rightarrow> bool" where
  "catalog_ok c \<longleftrightarrow> (\<forall>a i n. cg_exposed c a = Some (i, n) \<longrightarrow> agent_name c i n = a)"

definition catalog_le :: "catalog \<Rightarrow> catalog \<Rightarrow> bool" where
  "catalog_le c c' \<longleftrightarrow> cg_servers c' = cg_servers c \<and> cg_routed c' = cg_routed c \<and> cg_lock c' = cg_lock c
     \<and> cg_namespaced c' = cg_namespaced c \<and> cg_blocked c \<subseteq> cg_blocked c'
     \<and> cg_baseline c \<subseteq>\<^sub>m cg_baseline c' \<and> cg_exposed c \<subseteq>\<^sub>m cg_exposed c'"

text \<open>A definition listed by a server matches its pin, or its tool is blocked, or the name it would be
  called by belongs to another server.\<close>

definition accounted :: "digests \<Rightarrow> catalog \<Rightarrow> nat \<Rightarrow> json \<Rightarrow> bool" where
  "accounted D c i t \<longleftrightarrow>
     (case tool_name t of
        None \<Rightarrow> True
      | Some n \<Rightarrow> (i, n) \<in> cg_blocked c \<or> matches_pin c i n (tool_hash D t)
          \<or> cg_routed c \<and> (\<exists>j m. cg_exposed c (agent_name c i n) = Some (j, m) \<and> j \<noteq> i))"

lemma agent_name_update [simp]:
  "agent_name (c\<lparr>cg_exposed := e\<rparr>) i n = agent_name c i n"
  "agent_name (c\<lparr>cg_baseline := b\<rparr>) i n = agent_name c i n"
  "agent_name (c\<lparr>cg_blocked := k\<rparr>) i n = agent_name c i n"
  by (simp_all add: agent_name_def)

lemma agent_name_le: "catalog_le c c' \<Longrightarrow> agent_name c' i n = agent_name c i n"
  by (simp add: catalog_le_def agent_name_def)

lemma map_le_Some: "m \<subseteq>\<^sub>m m' \<Longrightarrow> m x = Some y \<Longrightarrow> m' x = Some y"
  by (metis domI map_le_def)

lemma matches_pin_le: "catalog_le c c' \<Longrightarrow> matches_pin c i n h \<Longrightarrow> matches_pin c' i n h"
  by (auto simp: matches_pin_def catalog_le_def map_le_Some split: option.splits)

lemma accounted_le: "catalog_le c c' \<Longrightarrow> accounted D c i t \<Longrightarrow> accounted D c' i t"
  using matches_pin_le [of c c'] agent_name_le [of c c']
  by (fastforce simp: accounted_def catalog_le_def dest: map_le_Some split: option.splits)

lemma catalog_le_refl: "catalog_le c c"
  by (simp add: catalog_le_def)

lemma catalog_le_trans: "catalog_le c d \<Longrightarrow> catalog_le d e \<Longrightarrow> catalog_le c e"
  by (auto simp: catalog_le_def intro: map_le_trans)

lemma map_le_fresh: "m x = None \<Longrightarrow> m \<subseteq>\<^sub>m m(x \<mapsto> y)"
  by (auto simp: map_le_def)

lemma expose_le:
  assumes "expose c i (agent_name c i n) n = Some c'" "catalog_ok c"
  shows "catalog_le c c' \<and> catalog_ok c'"
  using assms by (auto simp: expose_def catalog_le_def catalog_ok_def map_le_fresh split: if_splits option.splits)

lemma first_seen_le: "catalog_ok c \<Longrightarrow> catalog_le c (first_seen c i n h) \<and> catalog_ok (first_seen c i n h)"
  by (auto simp: first_seen_def catalog_le_def catalog_ok_def map_le_fresh)

lemma block_le: "catalog_ok c \<Longrightarrow> catalog_le c (c\<lparr>cg_blocked := insert k (cg_blocked c)\<rparr>) \<and> catalog_ok (c\<lparr>cg_blocked := insert k (cg_blocked c)\<rparr>)"
  by (auto simp: catalog_le_def catalog_ok_def)

lemma expose_None:
  assumes "expose c i (agent_name c i n) n = None" "tool_name t = Some n"
  shows "accounted D c i t"
  using assms by (auto simp: expose_def accounted_def split: if_splits option.splits)

text \<open>The state in which a definition has been dealt with: the one step of the loop.\<close>

definition see_tool :: "digests \<Rightarrow> nat \<Rightarrow> json \<Rightarrow> catalog \<Rightarrow> catalog" where
  "see_tool D i t c =
     (case tool_name t of
        None \<Rightarrow> c
      | Some n \<Rightarrow>
          (case expose c i (agent_name c i n) n of
             None \<Rightarrow> c
           | Some c \<Rightarrow>
               if (i, n) \<in> cg_blocked c then c
               else let h = tool_hash D t; c = first_seen c i n h
                    in if matches_pin c i n h then c else c\<lparr>cg_blocked := insert (i, n) (cg_blocked c)\<rparr>))"

lemma observe_all_state: "fst (observe_all D i ts c) = fold (see_tool D i) ts c"
  by (induction D i ts c rule: observe_all.induct)
    (auto simp: see_tool_def Let_def case_prod_beta split: option.splits)

lemma see_tool_le:
  assumes "catalog_ok c"
  shows "catalog_le c (see_tool D i t c) \<and> catalog_ok (see_tool D i t c) \<and> accounted D (see_tool D i t c) i t"
proof (cases "tool_name t")
  case None
  with assms show ?thesis by (simp add: see_tool_def accounted_def catalog_le_refl)
next
  case (Some n)
  show ?thesis
  proof (cases "expose c i (agent_name c i n) n")
    case None
    with Some assms show ?thesis by (simp add: see_tool_def catalog_le_refl expose_None)
  next
    case (Some c1)
    note name = \<open>tool_name t = Some n\<close>
    from expose_le [OF Some assms] have c1: "catalog_le c c1" "catalog_ok c1" by blast+
    show ?thesis
    proof (cases "(i, n) \<in> cg_blocked c1")
      case True
      with Some name c1 show ?thesis by (simp add: see_tool_def accounted_def)
    next
      case False
      let ?h = "tool_hash D t" let ?c2 = "first_seen c1 i n ?h"
      have c2: "catalog_le c1 ?c2" "catalog_ok ?c2" using first_seen_le [OF c1(2)] by blast+
      from block_le [OF c2(2)] have c3: "catalog_le ?c2 (?c2\<lparr>cg_blocked := insert (i, n) (cg_blocked ?c2)\<rparr>)"
        "catalog_ok (?c2\<lparr>cg_blocked := insert (i, n) (cg_blocked ?c2)\<rparr>)" by blast+
      from False Some name have "see_tool D i t c =
          (if matches_pin ?c2 i n ?h then ?c2 else ?c2\<lparr>cg_blocked := insert (i, n) (cg_blocked ?c2)\<rparr>)"
        by (simp add: see_tool_def Let_def)
      with c1 c2 c3 name show ?thesis by (auto simp: accounted_def intro: catalog_le_trans)
    qed
  qed
qed

interpretation tools: monitor "\<lambda>c t. see_tool D (fst t) (snd t) c" catalog_le catalog_ok
    "\<lambda>c t. accounted D c (fst t) (snd t)" for D
proof
  show "catalog_le c d \<Longrightarrow> catalog_le d e \<Longrightarrow> catalog_le c e" for c d e by (rule catalog_le_trans)
qed (simp_all add: catalog_le_refl see_tool_le accounted_le)

text \<open>The definitions of a listing, in the order they were seen.\<close>

definition listed :: "nat \<times> json list \<Rightarrow> (nat \<times> json) list" where
  "listed l = map (Pair (fst l)) (snd l)"

definition observe_run :: "digests \<Rightarrow> (nat \<times> json list) list \<Rightarrow> catalog \<Rightarrow> catalog" where
  "observe_run D ls c = foldl (\<lambda>c l. fst (observe D (fst l) (snd l) c)) c ls"

lemma observe_state: "fst (observe D i ts c) = foldl (\<lambda>c t. see_tool D (fst t) (snd t) c) c (listed (i, ts))"
proof -
  have "fst (observe D i ts c) = fold (see_tool D i) ts c"
    by (simp add: observe_def case_prod_beta Let_def observe_all_state)
  also have "\<dots> = foldl (\<lambda>c t. see_tool D (fst t) (snd t) c) c (listed (i, ts))"
    by (simp add: listed_def foldl_conv_fold fold_map o_def)
  finally show ?thesis .
qed

lemma observe_run_state:
  "observe_run D ls c = foldl (\<lambda>c t. see_tool D (fst t) (snd t) c) c (concat (map listed ls))"
  by (induction ls arbitrary: c) (simp_all add: observe_run_def observe_state)

text \<open>A call that is not refused goes to a tool all of whose definitions, in every listing so far, match
  its pin.\<close>

lemma admitted_matches:
  assumes ok: "catalog_ok c" and free: "catalog_refuse (observe_run D ls c) tool = None"
    and route: "catalog_route (observe_run D ls c) tool = Some (i, n)"
    and seen: "(i, ts) \<in> set ls" "t \<in> set ts" "tool_name t = Some n"
  shows "matches_pin (observe_run D ls c) i n (tool_hash D t)"
proof -
  let ?c = "observe_run D ls c" let ?ts = "concat (map listed ls)"
  have "(i, t) \<in> set ?ts" using seen(1,2) by (force simp: listed_def)
  from tools.run_accounts [OF ok this, of D] have acc: "accounted D ?c i t" by (simp add: observe_run_state)
  from tools.run_keeps [OF ok, of D ?ts] have ok': "catalog_ok ?c" by (simp add: observe_run_state)
  show ?thesis
  proof (cases "cg_routed ?c")
    case False
    with acc free route seen(3) show ?thesis
      by (auto simp: accounted_def catalog_refuse_def catalog_route_def split: if_splits)
  next
    case True
    with route have ex: "cg_exposed ?c tool = Some (i, n)" by (simp add: catalog_route_def)
    with ok' have "agent_name ?c i n = tool" by (simp add: catalog_ok_def)
    with True acc free ex seen(3) show ?thesis by (auto simp: accounted_def catalog_refuse_def split: if_splits)
  qed
qed

text \<open>The catalogue the gate starts with has seen the start-up listing.\<close>

definition startup :: "server_tools list \<Rightarrow> (nat \<times> json list) list" where
  "startup listing = map (\<lambda>s. (fst s, sv_tools (snd s))) (enumerate 0 listing)"

lemma observe_servers_state:
  "observe_servers D ss c = Ok (c', ds) \<Longrightarrow> c' = observe_run D (map (\<lambda>s. (fst s, sv_tools (snd s))) ss) c"
proof (induction ss arbitrary: c ds)
  case (Cons s ss)
  let ?o = "observe_all D (fst s) (sv_tools (snd s)) c"
  obtain c1 vs d1 cl where o: "?o = (c1, vs, d1, cl)" by (cases ?o) auto
  from Cons.prems o have cl: "cl = []" by (auto split: list.splits)
  with Cons.prems o obtain d2 where "observe_servers D ss c1 = Ok (c', d2)"
    by (auto simp: rbind_def split: sum.splits)
  from Cons.IH [OF this] o show ?case by (simp add: observe_run_def observe_def)
qed (simp add: observe_run_def)

lemma catalog_routed_Ok:
  assumes "catalog_routed D listing lock declares = Ok (c, ds)"
  obtains c0 where "c = observe_run D (startup listing) c0" "catalog_ok c0" "cg_routed c0" "cg_lock c0 = lock"
    "cg_servers c0 = map sv_name listing"
proof -
  let ?c0 = "\<lparr>cg_servers = map sv_name listing, cg_routed = True, cg_lock = lock, cg_baseline = Map.empty,
     cg_blocked = {}, cg_exposed = Map.empty, cg_namespaced = fst (collisions listing declares)\<rparr>"
  from assms have "observe_servers D (enumerate 0 listing) ?c0 = Ok (c, ds)"
    by (auto simp: catalog_routed_def case_prod_beta Let_def rbind_def split: if_splits sum.splits)
  then have "c = observe_run D (startup listing) ?c0" unfolding startup_def by (rule observe_servers_state)
  then show thesis by (rule that) (simp_all add: catalog_ok_def)
qed

lemma observe_run_append: "observe_run D (xs @ ys) c = observe_run D ys (observe_run D xs c)"
  by (simp add: observe_run_def)

lemma observe_run_le: "catalog_ok c \<Longrightarrow> catalog_le c (observe_run D ls c)"
  using tools.run_keeps [of c D] by (simp add: observe_run_state)

lemma admitted_route: "catalog_refuse c tool = None \<Longrightarrow> \<exists>i n. catalog_route c tool = Some (i, n)"
  by (auto simp: catalog_refuse_def catalog_route_def split: option.splits if_splits)

text \<open>The pinned part of a definition is what its hash speaks of.\<close>

lemma pinned_part_get: "m \<in> set PINNED_MEMBERS \<Longrightarrow> json_get (pinned_part t) m = json_get t m"
proof -
  have "map_of (List.map_filter (\<lambda>m. map_option (Pair m) (json_get t m)) ms) k = (if k \<in> set ms then json_get t k else None)"
    for ms k
    by (induction ms) (auto simp: List.map_filter_simps split: option.split)
  then show "m \<in> set PINNED_MEMBERS \<Longrightarrow> json_get (pinned_part t) m = json_get t m" by (simp add: pinned_part_def)
qed

end
