(* ===== verification/Canonical_Json.thy ===== *)
theory Canonical_Json
  imports Json
begin

text \<open>
  The canonical JSON that evidence is hashed over: keys sorted, no white space. The ledger writes it
  (\<open>cloakpipe-ledger/src/decision.rs\<close>) and the offline verifier writes it again with code of its own
  (\<open>cloakpipe-verify/src/decisions.rs\<close>). \<open>ser\<close> is \<open>serde_json::to_string\<close> on a scalar. The two writers
  agree, and the text determines the value up to member order.
\<close>

section \<open>The writer of the ledger\<close>

function canonical_json :: "(json \<Rightarrow> string) \<Rightarrow> json \<Rightarrow> string" where
  "canonical_json ser (JObject ms) =
     ''{'' @ join_with '','' (map (\<lambda>m. ser (JString (fst m)) @ '':'' @ canonical_json ser (snd m))
       (sort_key fst ms)) @ ''}''"
| "canonical_json ser (JArray vs) = ''['' @ join_with '','' (map (canonical_json ser) vs) @ '']''"
| "canonical_json ser JNull = ser JNull"
| "canonical_json ser (JBool b) = ser (JBool b)"
| "canonical_json ser (JNumber n) = ser (JNumber n)"
| "canonical_json ser (JString s) = ser (JString s)"
  by pat_completeness auto
termination
  by (relation "measure (size \<circ> snd)")
    (auto simp: less_Suc_eq_le dest: size_member_snd size_list_estimation' [where f = size, OF _ order_refl])

section \<open>The writer of the verifier\<close>

text \<open>\<open>o.iter().collect::<BTreeMap<_, _>>()\<close>.\<close>

definition btree_of :: "members \<Rightarrow> members" where
  "btree_of ms = fold (\<lambda>m. bt_insert (fst m) (snd m)) ms []"

lemma set_bt_insert_pairs: "set (bt_insert k v m) \<subseteq> insert (k, v) (set m)"
  by (induction k v m rule: bt_insert.induct) auto

lemma set_btree_of: "set (btree_of ms) \<subseteq> set ms"
proof -
  have "set (fold (\<lambda>m. bt_insert (fst m) (snd m)) ms acc) \<subseteq> set ms \<union> set acc" for acc
  proof (induction ms arbitrary: acc)
    case (Cons m ms)
    show ?case using Cons [of "bt_insert (fst m) (snd m) acc"] set_bt_insert_pairs [of "fst m" "snd m" acc] by auto
  qed simp
  from this [of "[]"] show ?thesis by (simp add: btree_of_def)
qed

function verify_canonical :: "(json \<Rightarrow> string) \<Rightarrow> json \<Rightarrow> string" where
  "verify_canonical ser (JObject ms) =
     ''{'' @ join_with '','' (map (\<lambda>m. ser (JString (fst m)) @ '':'' @ verify_canonical ser (snd m))
       (btree_of ms)) @ ''}''"
| "verify_canonical ser (JArray vs) = ''['' @ join_with '','' (map (verify_canonical ser) vs) @ '']''"
| "verify_canonical ser JNull = ser JNull"
| "verify_canonical ser (JBool b) = ser (JBool b)"
| "verify_canonical ser (JNumber n) = ser (JNumber n)"
| "verify_canonical ser (JString s) = ser (JString s)"
  by pat_completeness auto
termination
  by (relation "measure (size \<circ> snd)")
    (auto simp: less_Suc_eq_le dest!: subsetD [OF set_btree_of] dest: size_member_snd
      size_list_estimation' [where f = size, OF _ order_refl])

declare canonical_json.simps(1) [simp del] verify_canonical.simps(1) [simp del]

section \<open>The two writers agree\<close>

lemma sorted_keys_sort_key: "distinct (map fst ms) \<Longrightarrow> sorted_keys (sort_key fst ms)"
  by (simp add: sorted_keys_def strict_sorted_iff distinct_map inj_on_def)

lemma btree_of_fold:
  "sorted_keys acc \<Longrightarrow>
     sorted_keys (fold (\<lambda>m. bt_insert (fst m) (snd m)) ms acc)
     \<and> map_of (fold (\<lambda>m. bt_insert (fst m) (snd m)) ms acc) = map_of acc ++ map_of (rev ms)"
  by (induction ms arbitrary: acc) (auto simp: sorted_keys_bt_insert map_add_def fun_eq_iff split: option.split)

lemma btree_of_sort:
  assumes "distinct (map fst ms)"
  shows "btree_of ms = sort_key fst ms"
proof (rule sorted_keys_map_of_inject)
  have "map_of (rev ms) = map_of ms"
    using assms by (metis map_of_inject_set distinct_rev rev_map set_rev)
  moreover have "map_of (sort_key fst ms) = map_of ms"
    using assms sorted_keys_distinct [OF sorted_keys_sort_key [OF assms]]
    by (metis map_of_inject_set set_sort)
  ultimately show "map_of (btree_of ms) = map_of (sort_key fst ms)"
    using btree_of_fold [of "[]" ms] by (simp add: btree_of_def sorted_keys_def)
  show "sorted_keys (btree_of ms)"
    using btree_of_fold [of "[]" ms] by (simp add: btree_of_def sorted_keys_def)
  show "sorted_keys (sort_key fst ms)" by (rule sorted_keys_sort_key [OF assms])
qed

lemma verify_canonical_eq: "wf_json v \<Longrightarrow> verify_canonical ser v = canonical_json ser v"
proof (induction ser v rule: canonical_json.induct)
  case (1 ser ms)
  have "map (\<lambda>m. ser (JString (fst m)) @ '':'' @ verify_canonical ser (snd m)) (sort_key fst ms) =
      map (\<lambda>m. ser (JString (fst m)) @ '':'' @ canonical_json ser (snd m)) (sort_key fst ms)"
    using 1 by (auto simp: list_all_iff)
  with 1(2) show ?case
    unfolding canonical_json.simps(1) verify_canonical.simps(1) by (simp only: btree_of_sort wf_json.simps)
next
  case (2 ser vs)
  then have "map (verify_canonical ser) vs = map (canonical_json ser) vs" by (auto simp: list_all_iff)
  then show ?case by (simp only: canonical_json.simps verify_canonical.simps)
qed simp_all

section \<open>The text determines the value\<close>

text \<open>What \<open>serde_json\<close> writes for scalars: a string starts with a quote and shows where it ends; an
  atom has none of the characters that delimit values and no opening character first; different
  scalars have different texts.\<close>

definition is_atom :: "json \<Rightarrow> bool" where
  "is_atom v \<longleftrightarrow> v = JNull \<or> (\<exists>b. v = JBool b) \<or> (\<exists>n. v = JNumber n \<and> wf_number n)"

definition self_delimiting :: "(json \<Rightarrow> string) \<Rightarrow> bool" where
  "self_delimiting ser \<longleftrightarrow>
     (\<forall>s t x y. ser (JString s) @ x = ser (JString t) @ y \<longrightarrow> s = t \<and> x = y)
     \<and> (\<forall>s. ser (JString s) \<noteq> [] \<and> hd (ser (JString s)) = CHR 0x22)
     \<and> (\<forall>v. is_atom v \<longrightarrow> ser v \<noteq> [] \<and> hd (ser v) \<notin> set [CHR 0x22, CHR ''{'', CHR ''['']
          \<and> set (ser v) \<inter> set '',]}'' = {})
     \<and> (\<forall>v w. is_atom v \<longrightarrow> is_atom w \<longrightarrow> ser v = ser w \<longrightarrow> v = w)"

lemma self_delimitingD:
  assumes "self_delimiting ser"
  shows "ser (JString s) @ x = ser (JString t) @ y \<Longrightarrow> s = t \<and> x = y"
    and "\<exists>r. ser (JString s) = CHR 0x22 # r"
    and "is_atom v \<Longrightarrow> \<exists>c r. ser v = c # r \<and> c \<notin> set [CHR 0x22, CHR ''{'', CHR ''['']
          \<and> set (c # r) \<inter> set '',]}'' = {}"
    and "is_atom v \<Longrightarrow> is_atom w \<Longrightarrow> ser v = ser w \<Longrightarrow> v = w"
proof -
  show "ser (JString s) @ x = ser (JString t) @ y \<Longrightarrow> s = t \<and> x = y"
    "is_atom v \<Longrightarrow> is_atom w \<Longrightarrow> ser v = ser w \<Longrightarrow> v = w"
    using assms unfolding self_delimiting_def by blast+
  have "ser (JString s) \<noteq> [] \<and> hd (ser (JString s)) = CHR 0x22" using assms unfolding self_delimiting_def by blast
  then show "\<exists>r. ser (JString s) = CHR 0x22 # r" by (cases "ser (JString s)") auto
  show "\<exists>c r. ser v = c # r \<and> c \<notin> set [CHR 0x22, CHR ''{'', CHR ''['']
          \<and> set (c # r) \<inter> set '',]}'' = {}" if "is_atom v"
  proof -
    have "ser v \<noteq> [] \<and> hd (ser v) \<notin> set [CHR 0x22, CHR ''{'', CHR ''[''] \<and> set (ser v) \<inter> set '',]}'' = {}"
      using assms that unfolding self_delimiting_def by blast
    then show ?thesis by (cases "ser v") auto
  qed
qed

text \<open>What may follow a value.\<close>

definition delim :: "string \<Rightarrow> bool" where
  "delim x \<longleftrightarrow> x = [] \<or> hd x \<in> set '',]}''"

lemma delim_simps [simp]: "delim []" "delim (c # x) \<longleftrightarrow> c \<in> set '',]}''"
  by (simp_all add: delim_def)

text \<open>Texts up to the first delimiter.\<close>

lemma atom_text_inject:
  assumes "set a \<inter> set '',]}'' = {}" "set b \<inter> set '',]}'' = {}" "delim x" "delim y" "a @ x = b @ y"
  shows "a = b \<and> x = y"
proof -
  let ?P = "\<lambda>c. c \<notin> set '',]}''"
  have split: "takeWhile ?P (c @ z) = c" if "set c \<inter> set '',]}'' = {}" "delim z" for c z
    using that by (cases z) (auto simp: takeWhile_append)
  have "a = b" using split [OF assms(1,3)] split [OF assms(2,4)] assms(5) by simp
  with assms(5) show ?thesis by simp
qed

text \<open>A list of encoded elements, closed by \<open>cl\<close>, has one reading.\<close>

definition enc_tail :: "('a \<Rightarrow> string) \<Rightarrow> char \<Rightarrow> 'a list \<Rightarrow> string \<Rightarrow> string" where
  "enc_tail enc cl vs x = concat (map (\<lambda>v. CHR '','' # enc v) vs) @ cl # x"

lemma enc_tail_simps [simp]:
  "enc_tail enc cl [] x = cl # x"
  "enc_tail enc cl (v # vs) x = CHR '','' # enc v @ enc_tail enc cl vs x"
  by (simp_all add: enc_tail_def)

lemma join_enc_tail: "join_with '','' (map enc (v # vs)) @ cl # x = enc v @ enc_tail enc cl vs x"
  by (induction vs arbitrary: v) simp_all

lemma delim_enc_tail: "cl \<in> set '']}'' \<Longrightarrow> delim (enc_tail enc cl vs x)"
  by (cases vs) auto

lemma enc_tail_inject:
  assumes cl: "cl \<in> set '']}''"
    and one: "\<And>v w x y. v \<in> set vs \<Longrightarrow> w \<in> set ws \<Longrightarrow> delim x \<Longrightarrow> delim y \<Longrightarrow> enc v @ x = enc w @ y \<Longrightarrow> R v w \<and> x = y"
    and eq: "enc_tail enc cl vs x = enc_tail enc cl ws y"
  shows "list_all2 R vs ws \<and> x = y"
  using one eq
proof (induction vs arbitrary: ws)
  case Nil
  then show ?case using cl by (cases ws) auto
next
  case (Cons v vs)
  then obtain w us where ws: "ws = w # us" using cl by (cases ws) auto
  have "R v w \<and> enc_tail enc cl vs x = enc_tail enc cl us y"
    using Cons.prems(2) unfolding ws by (intro Cons.prems(1)) (auto simp: ws delim_enc_tail [OF cl])
  moreover from this have "list_all2 R vs us \<and> x = y"
    by (intro Cons.IH Cons.prems(1)) (auto simp: ws)
  ultimately show ?case by (simp add: ws)
qed

lemma join_inject:
  assumes cl: "cl \<in> set '']}''"
    and first: "\<And>v. v \<in> set vs \<union> set ws \<Longrightarrow> \<exists>c r. enc v = c # r \<and> c \<noteq> cl"
    and one: "\<And>v w x y. v \<in> set vs \<Longrightarrow> w \<in> set ws \<Longrightarrow> delim x \<Longrightarrow> delim y \<Longrightarrow> enc v @ x = enc w @ y \<Longrightarrow> R v w \<and> x = y"
    and eq: "join_with '','' (map enc vs) @ cl # x = join_with '','' (map enc ws) @ cl # y"
  shows "list_all2 R vs ws \<and> x = y"
proof (cases "vs = [] \<or> ws = []")
  case True
  have "vs = [] \<longleftrightarrow> ws = []"
  proof (rule ccontr)
    assume "\<not> (vs = [] \<longleftrightarrow> ws = [])"
    with True consider v r where "ws = v # r" "vs = []" | v r where "vs = v # r" "ws = []"
      by (cases vs; cases ws) auto
    then show False using eq first
      by cases (metis UnI1 UnI2 append_Cons append_Nil join_enc_tail join_with.simps(1) list.inject
          list.set_intros(1) list.simps(8))+
  qed
  with True eq show ?thesis by simp
next
  case False
  then obtain v r w u where vs: "vs = v # r" and ws: "ws = w # u" by (cases vs; cases ws) auto
  from eq have "enc_tail enc cl vs x = enc_tail enc cl ws y"
    unfolding vs ws join_enc_tail by simp
  with cl one show ?thesis by (rule enc_tail_inject)
qed

text \<open>The first character tells the kind of the value.\<close>

lemma canonical_first:
  assumes "self_delimiting ser" "wf_json v"
  obtains c r where "canonical_json ser v = c # r"
    "c = CHR ''{'' \<longleftrightarrow> is_object v" "c = CHR ''['' \<longleftrightarrow> is_array v" "c = CHR 0x22 \<longleftrightarrow> (\<exists>s. v = JString s)"
    "c \<notin> set '']}''"
proof (cases "is_atom v")
  case True
  with self_delimitingD(3) [OF assms(1) True] that show ?thesis
    by (auto simp: is_atom_def)
next
  case False
  with self_delimitingD(2) [OF assms(1)] assms(2) that show ?thesis
    by (cases v) (auto simp: canonical_json.simps(1) is_atom_def)
qed

definition member_text :: "(json \<Rightarrow> string) \<Rightarrow> string \<times> json \<Rightarrow> string" where
  "member_text ser m = ser (JString (fst m)) @ '':'' @ canonical_json ser (snd m)"

lemma canonical_object:
  "canonical_json ser (JObject ms) @ x = CHR ''{'' # join_with '','' (map (member_text ser) (sort_key fst ms)) @ CHR ''}'' # x"
  unfolding canonical_json.simps(1) member_text_def by simp

lemma canonical_array:
  "canonical_json ser (JArray vs) @ x = CHR ''['' # join_with '','' (map (canonical_json ser) vs) @ CHR '']'' # x"
  by simp

lemma json_eq_sorted_members:
  assumes "list_all2 (\<lambda>m n. fst m = fst n \<and> json_eq (snd m) (snd n)) (sort_key fst a) (sort_key fst b)"
    and "distinct (map fst b)"
  shows "json_eq (JObject a) (JObject b)"
proof (rule json_eq_objectI)
  show "length a = length b" using list_all2_lengthD [OF assms(1)] by simp
  fix k v
  assume "(k, v) \<in> set a"
  then have "(k, v) \<in> set (sort_key fst a)" by simp
  then obtain i where i: "i < length (sort_key fst a)" "sort_key fst a ! i = (k, v)"
    by (metis in_set_conv_nth)
  let ?n = "sort_key fst b ! i"
  have n: "fst ?n = k" "json_eq v (snd ?n)" using list_all2_nthD [OF assms(1) i(1)] i(2) by auto
  have "?n \<in> set b" using i(1) list_all2_lengthD [OF assms(1)] by (metis nth_mem set_sort)
  with n assms(2) show "\<exists>w. map_of b k = Some w \<and> json_eq v w" by (metis map_of_eq_Some_iff prod.collapse)
qed

lemma canonical_kinds:
  assumes "self_delimiting ser" "wf_json v" "wf_json w" "canonical_json ser v @ x = canonical_json ser w @ y"
  shows "is_object v \<longleftrightarrow> is_object w" "is_array v \<longleftrightarrow> is_array w" "(\<exists>s. v = JString s) \<longleftrightarrow> (\<exists>s. w = JString s)"
  using canonical_first [OF assms(1,2)] canonical_first [OF assms(1,3)] assms(4)
  by (metis append_Cons list.inject)+

lemma canonical_inject_delim:
  assumes ser: "self_delimiting ser"
  shows "wf_json v \<Longrightarrow> wf_json w \<Longrightarrow> delim x \<Longrightarrow> delim y \<Longrightarrow>
    canonical_json ser v @ x = canonical_json ser w @ y \<Longrightarrow> json_eq v w \<and> x = y"
proof (induction "size v" arbitrary: v w x y rule: less_induct)
  case less
  note kinds = canonical_kinds [OF ser less.prems(1,2,5)]
  consider (object) a where "v = JObject a" | (array) a where "v = JArray a" | (str) s where "v = JString s" | (atom) "is_atom v"
    using less.prems(1) by (cases v) (auto simp: is_atom_def)
  then show ?case
  proof cases
    case object
    with kinds(1) obtain b where w: "w = JObject b" by (auto simp: is_object_iff)
    have wf: "wf_json (snd m)" if "m \<in> set a \<union> set b" for m
      using less.prems(1,2) that by (auto simp: object w list_all_iff)
    have "list_all2 (\<lambda>m n. fst m = fst n \<and> json_eq (snd m) (snd n)) (sort_key fst a) (sort_key fst b) \<and> x = y"
    proof (rule join_inject)
      show "join_with '','' (map (member_text ser) (sort_key fst a)) @ CHR ''}'' # x =
          join_with '','' (map (member_text ser) (sort_key fst b)) @ CHR ''}'' # y"
        using less.prems(5) unfolding object w canonical_object by simp
      show "\<exists>c r. member_text ser m = c # r \<and> c \<noteq> CHR ''}''" for m
        using self_delimitingD(2) [OF ser, of "fst m"] by (auto simp: member_text_def)
      fix m n x y
      assume m: "m \<in> set (sort_key fst a)" and n: "n \<in> set (sort_key fst b)" and d: "delim x" "delim y"
        and eq: "member_text ser m @ x = member_text ser n @ y"
      from eq have same: "fst m = fst n" "canonical_json ser (snd m) @ x = canonical_json ser (snd n) @ y"
        using self_delimitingD(1) [OF ser, of "fst m" "'':'' @ canonical_json ser (snd m) @ x" "fst n"
            "'':'' @ canonical_json ser (snd n) @ y"] by (simp_all add: member_text_def)
      have "size (snd m) < size v" using m by (simp add: object size_member_snd)
      from less.hyps [OF this wf wf d same(2)] m n same(1)
      show "(fst m = fst n \<and> json_eq (snd m) (snd n)) \<and> x = y" by simp
    qed simp
    with json_eq_sorted_members [of a b] less.prems(2) show ?thesis by (simp only: object w wf_json.simps)
  next
    case array
    with kinds(2) obtain b where w: "w = JArray b" by (cases w) auto
    have wf: "wf_json u" if "u \<in> set a \<union> set b" for u
      using less.prems(1,2) that by (auto simp: array w list_all_iff)
    have "list_all2 json_eq a b \<and> x = y"
    proof (rule join_inject)
      show "join_with '','' (map (canonical_json ser) a) @ CHR '']'' # x =
          join_with '','' (map (canonical_json ser) b) @ CHR '']'' # y"
        using less.prems(5) unfolding array w canonical_array by simp
      show "\<exists>c r. canonical_json ser u = c # r \<and> c \<noteq> CHR '']''" if "u \<in> set a \<union> set b" for u
        using canonical_first [OF ser wf [OF that]] by (metis insertI1 list.simps(15))
      fix u t x y
      assume u: "u \<in> set a" and t: "t \<in> set b" and d: "delim x" "delim y"
        and eq: "canonical_json ser u @ x = canonical_json ser t @ y"
      have "size u < size v" using u by (simp add: array less_Suc_eq_le size_list_estimation')
      from less.hyps [OF this wf wf d eq] u t show "json_eq u t \<and> x = y" by simp
    qed simp
    then show ?thesis by (simp only: array w json_eq_array)
  next
    case str
    with kinds(3) obtain t where w: "w = JString t" by auto
    with str less.prems(5) self_delimitingD(1) [OF ser, of s x t y] show ?thesis by simp
  next
    case atom
    with kinds have "is_atom w" using less.prems(2) by (cases w) (auto simp: is_atom_def)
    moreover have plain: "canonical_json ser u = ser u" if "is_atom u" for u using that by (auto simp: is_atom_def)
    ultimately have "ser v = ser w \<and> x = y"
      using less.prems(3-5) atom self_delimitingD(3) [OF ser] by (intro atom_text_inject) fastforce+
    with \<open>is_atom w\<close> atom have "v = w" using self_delimitingD(4) [OF ser] by blast
    with \<open>ser v = ser w \<and> x = y\<close> json_eq_refl less.prems(1) show ?thesis by simp
  qed
qed

lemma canonical_inject:
  assumes "self_delimiting ser" "wf_json v" "wf_json w" "canonical_json ser v = canonical_json ser w"
  shows "json_eq v w"
  using canonical_inject_delim [OF assms(1-3), of "[]" "[]"] assms(4) by simp

end
