(* ===== verification/Hash_Chain.thy ===== *)
theory Hash_Chain
  imports Cloak_Prelude
begin

text \<open>
  Chains of records that name their predecessor's hash: the legacy records, the decision entries and
  the epochs of the ledger. A chain is linked when sequence numbers count up from its start and each
  record carries the hash of the one before it. The last hash commits to the whole chain.
\<close>

fun linked :: "('e \<Rightarrow> nat) \<Rightarrow> ('e \<Rightarrow> string) \<Rightarrow> ('e \<Rightarrow> string) \<Rightarrow> nat \<Rightarrow> string \<Rightarrow> 'e list \<Rightarrow> bool" where
  "linked seq prev own n p [] = True"
| "linked seq prev own n p (x # xs) = (seq x = n \<and> prev x = p \<and> linked seq prev own (n + 1) (own x) xs)"

fun chain_head :: "('e \<Rightarrow> string) \<Rightarrow> string \<Rightarrow> 'e list \<Rightarrow> string" where
  "chain_head own p [] = p"
| "chain_head own p (x # xs) = chain_head own (own x) xs"

lemma chain_head_snoc [simp]: "chain_head own p (xs @ [x]) = own x"
  by (induction xs arbitrary: p) simp_all

lemma chain_head_last: "xs \<noteq> [] \<Longrightarrow> chain_head own p xs = own (last xs)"
  by (cases xs rule: rev_cases) simp_all

lemma linked_append:
  "linked seq prev own n p (xs @ ys) \<longleftrightarrow>
     linked seq prev own n p xs \<and> linked seq prev own (n + length xs) (chain_head own p xs) ys"
  by (induction xs arbitrary: n p) auto

lemma linked_nth:
  assumes "linked seq prev own n p xs" "i < length xs"
  shows "seq (xs ! i) = n + i" "prev (xs ! i) = chain_head own p (take i xs)"
proof -
  have "xs = take i xs @ xs ! i # drop (Suc i) xs" using assms(2) by (rule id_take_nth_drop)
  with assms(1) have "linked seq prev own n p (take i xs @ xs ! i # drop (Suc i) xs)" by simp
  then show "seq (xs ! i) = n + i" "prev (xs ! i) = chain_head own p (take i xs)"
    using assms(2) by (simp_all add: linked_append)
qed

text \<open>
  What a client relies on: records the chain takes for the same have the same number and the same
  predecessor.
\<close>

locale hash_chain =
  fixes seq :: "'e \<Rightarrow> nat" and prev :: "'e \<Rightarrow> string" and own :: "'e \<Rightarrow> string" and same :: "'e \<Rightarrow> 'e \<Rightarrow> bool"
  assumes same_seq: "same x y \<Longrightarrow> seq x = seq y"
    and same_prev: "same x y \<Longrightarrow> prev x = prev y"
begin

lemma head_commits:
  assumes "linked seq prev own n p xs" "linked seq prev own n p ys"
    and "xs \<noteq> []" "ys \<noteq> []" "chain_head own p xs = chain_head own p ys"
    and "\<And>x y. x \<in> set xs \<Longrightarrow> y \<in> set ys \<Longrightarrow> own x = own y \<Longrightarrow> same x y"
  shows "list_all2 same xs ys"
  using assms
proof (induction xs arbitrary: ys rule: rev_induct)
  case (snoc x xs)
  obtain zs y where ys: "ys = zs @ [y]" using snoc.prems(4) by (cases ys rule: rev_cases) auto
  have eq: "own x = own y" using snoc.prems(5) by (simp add: ys)
  have s: "same x y" using snoc.prems(6) eq by (simp add: ys)
  have l: "linked seq prev own n p xs" "linked seq prev own n p zs"
    "seq x = n + length xs" "seq y = n + length zs"
    "prev x = chain_head own p xs" "prev y = chain_head own p zs"
    using snoc.prems(1,2) by (simp_all add: ys linked_append)
  have len: "length xs = length zs" using l(3,4) same_seq [OF s] by simp
  show ?case
  proof (cases "xs = []")
    case True
    with len s show ?thesis by (simp add: ys)
  next
    case False
    with len have "zs \<noteq> []" by auto
    moreover have "chain_head own p xs = chain_head own p zs" using l(5,6) same_prev [OF s] by simp
    ultimately have "list_all2 same xs zs"
      using snoc.IH [OF l(1,2) False] snoc.prems(6) by (simp add: ys)
    with s show ?thesis by (simp add: ys list_all2_appendI)
  qed
qed simp

end

end
