(* ===== verification/Decisions.thy ===== *)
theory Decisions
  imports Canonical_Json Hash_Chain
begin

text \<open>
  The decision ledger: entries of the gate's decisions, chained and signed as they are appended
  (\<open>cloakpipe-ledger/src/decision.rs\<close>, \<open>gate_key.rs\<close>), sealed into epochs (\<open>epoch.rs\<close>), kept in two
  tables of one SQLite file (\<open>store.rs\<close>). A table is a list of rows sorted by its integer key; a JSON
  column holds what its text decodes to, \<open>None\<close> when it does not decode. Signing, SHA-256 and the
  scalar texts of \<open>serde_json\<close> are the fields of \<open>ledger_ops\<close>. Times are texts.
\<close>

section \<open>Entries\<close>

definition DECISION_KIND :: string where "DECISION_KIND = ''cloakpipe.decision/v1''"
definition DECISION_HASH_DOMAIN :: string where "DECISION_HASH_DOMAIN = ''cloakpipe.decision.v1''"
definition GENESIS :: string where "GENESIS = replicate 64 (CHR ''0'')"

record ledger_ops =
  lg_sha256 :: "string \<Rightarrow> string"
  lg_ser :: "json \<Rightarrow> string"
  lg_sign :: "string \<Rightarrow> string \<Rightarrow> string"
  lg_public :: "string \<Rightarrow> string"
  lg_point :: "string \<Rightarrow> bool"
  lg_verify :: "string \<Rightarrow> string \<Rightarrow> string \<Rightarrow> bool"

datatype decision = DecAllow | DecDeny | DecRequireApproval
datatype decision_mode = ModeEnforce | ModeShadow
datatype decision_outcome = OutCommitted | OutFailed | OutUnknown
datatype decision_event = EvCall | EvReplay | EvOutcome | EvReconcile

text \<open>The names serde gives the variants (\<open>rename_all = "snake_case"\<close>).\<close>

fun decision_str :: "decision \<Rightarrow> string" where
  "decision_str DecAllow = ''allow''"
| "decision_str DecDeny = ''deny''"
| "decision_str DecRequireApproval = ''require_approval''"

fun mode_str :: "decision_mode \<Rightarrow> string" where
  "mode_str ModeEnforce = ''enforce''"
| "mode_str ModeShadow = ''shadow''"

fun outcome_str :: "decision_outcome \<Rightarrow> string" where
  "outcome_str OutCommitted = ''committed''"
| "outcome_str OutFailed = ''failed''"
| "outcome_str OutUnknown = ''unknown''"

fun event_str :: "decision_event \<Rightarrow> string" where
  "event_str EvCall = ''call''"
| "event_str EvReplay = ''replay''"
| "event_str EvOutcome = ''outcome''"
| "event_str EvReconcile = ''reconcile''"

record decision_draft =
  dd_ts :: "string option"
  dd_event :: decision_event
  dd_release :: "string option"
  dd_tool :: "string option"
  dd_args_fingerprint :: "string option"
  dd_decision :: decision
  dd_reason :: string
  dd_path :: "string option"
  dd_policy_version :: "string option"
  dd_policy_digest :: "string option"
  dd_mode :: "decision_mode option"
  dd_task_id :: "string option"
  dd_operation_id :: "string option"
  dd_approval :: "string option"
  dd_outcome :: "decision_outcome option"
  dd_forwarded :: bool
  dd_tools_lock :: "string option"

definition draft_new :: "decision_event \<Rightarrow> string \<Rightarrow> decision_draft" where
  "draft_new event reason =
     \<lparr>dd_ts = None, dd_event = event, dd_release = None, dd_tool = None, dd_args_fingerprint = None,
      dd_decision = DecAllow, dd_reason = reason, dd_path = None, dd_policy_version = None,
      dd_policy_digest = None, dd_mode = None, dd_task_id = None, dd_operation_id = None,
      dd_approval = None, dd_outcome = None, dd_forwarded = False, dd_tools_lock = None\<rparr>"

definition draft_call :: decision_draft where "draft_call = draft_new EvCall ''ok''"
definition draft_outcome :: decision_draft where "draft_outcome = draft_new EvOutcome ''ok''"
definition draft_reconcile :: decision_draft where "draft_reconcile = draft_new EvReconcile ''reconciled''"

record decision_entry =
  de_kind :: string
  de_seq :: nat
  de_ts :: string
  de_event :: decision_event
  de_release :: "string option"
  de_tool :: "string option"
  de_args_fingerprint :: "string option"
  de_decision :: decision
  de_reason :: string
  de_path :: "string option"
  de_policy_version :: "string option"
  de_policy_digest :: "string option"
  de_mode :: "decision_mode option"
  de_task_id :: "string option"
  de_operation_id :: "string option"
  de_approval :: "string option"
  de_outcome :: "decision_outcome option"
  de_forwarded :: bool
  de_tools_lock :: "string option"
  de_signer :: string
  de_prev_hash :: string
  de_entry_hash :: string
  de_sig :: string

definition opt_json :: "('a \<Rightarrow> string) \<Rightarrow> 'a option \<Rightarrow> json" where
  "opt_json f x = (case x of None \<Rightarrow> JNull | Some s \<Rightarrow> JString (f s))"

text \<open>\<open>serde_json::to_value\<close> of an entry: a tools lock is a member only when there is one.\<close>

definition entry_json :: "decision_entry \<Rightarrow> json" where
  "entry_json e = JObject
     ([(''kind'', JString (de_kind e)), (''seq'', JNumber (PosInt (de_seq e))), (''ts'', JString (de_ts e)),
       (''event'', JString (event_str (de_event e))), (''release'', opt_json id (de_release e)),
       (''tool'', opt_json id (de_tool e)), (''args_fingerprint'', opt_json id (de_args_fingerprint e)),
       (''decision'', JString (decision_str (de_decision e))), (''reason'', JString (de_reason e)),
       (''path'', opt_json id (de_path e)), (''policy_version'', opt_json id (de_policy_version e)),
       (''policy_digest'', opt_json id (de_policy_digest e)), (''mode'', opt_json mode_str (de_mode e)),
       (''task_id'', opt_json id (de_task_id e)), (''operation_id'', opt_json id (de_operation_id e)),
       (''approval'', opt_json id (de_approval e)), (''outcome'', opt_json outcome_str (de_outcome e)),
       (''forwarded'', JBool (de_forwarded e))]
      @ (case de_tools_lock e of None \<Rightarrow> [] | Some l \<Rightarrow> [(''tools_lock'', JString l)])
      @ [(''signer'', JString (de_signer e)), (''prev_hash'', JString (de_prev_hash e)),
         (''entry_hash'', JString (de_entry_hash e)), (''sig'', JString (de_sig e))])"

text \<open>The members a hash covers: all but the named ones.\<close>

definition without :: "string list \<Rightarrow> json \<Rightarrow> json" where
  "without ks v = (case v of JObject ms \<Rightarrow> JObject (filter (\<lambda>m. fst m \<notin> set ks) ms) | _ \<Rightarrow> v)"

definition entry_preimage :: "ledger_ops \<Rightarrow> json \<Rightarrow> string" where
  "entry_preimage L entry =
     DECISION_HASH_DOMAIN @ [CHR 0x0A] @ canonical_json (lg_ser L) (without [''entry_hash'', ''sig''] entry)"

definition entry_hash_of :: "ledger_ops \<Rightarrow> json \<Rightarrow> string" where
  "entry_hash_of L entry = lg_sha256 L (entry_preimage L entry)"

definition entry_compute_hash :: "ledger_ops \<Rightarrow> decision_entry \<Rightarrow> string" where
  "entry_compute_hash L e = hex_encode (entry_hash_of L (entry_json e))"

definition entry_link ::
  "ledger_ops \<Rightarrow> decision_draft \<Rightarrow> nat \<Rightarrow> string \<Rightarrow> string \<Rightarrow> string \<Rightarrow> decision_entry" where
  "entry_link L draft seq prev_hash signer now =
     (let e = \<lparr>de_kind = DECISION_KIND, de_seq = seq,
               de_ts = (case dd_ts draft of Some t \<Rightarrow> t | None \<Rightarrow> now), de_event = dd_event draft,
               de_release = dd_release draft, de_tool = dd_tool draft,
               de_args_fingerprint = dd_args_fingerprint draft, de_decision = dd_decision draft,
               de_reason = dd_reason draft, de_path = dd_path draft,
               de_policy_version = (case dd_policy_version draft of None \<Rightarrow> dd_release draft | v \<Rightarrow> v),
               de_policy_digest = dd_policy_digest draft, de_mode = dd_mode draft,
               de_task_id = dd_task_id draft, de_operation_id = dd_operation_id draft,
               de_approval = dd_approval draft, de_outcome = dd_outcome draft,
               de_forwarded = dd_forwarded draft, de_tools_lock = dd_tools_lock draft,
               de_signer = signer, de_prev_hash = prev_hash, de_entry_hash = [], de_sig = []\<rparr>
      in e\<lparr>de_entry_hash := entry_compute_hash L e\<rparr>)"

section \<open>The signing key\<close>

definition keyid_of :: "ledger_ops \<Rightarrow> string \<Rightarrow> string" where
  "keyid_of L public = ''ed25519:'' @ take 16 (hex_encode (lg_sha256 L public))"

definition gate_keyid :: "ledger_ops \<Rightarrow> string \<Rightarrow> string" where
  "gate_keyid L key = keyid_of L (lg_public L key)"

text \<open>\<open>u8::from_str_radix(_, 16)\<close> on two bytes takes digits of either case, and a plus sign before
  a single one.\<close>

definition radix16_pair :: "char \<Rightarrow> char \<Rightarrow> char option" where
  "radix16_pair a b =
     (case hex_value b of
        None \<Rightarrow> None
      | Some lo \<Rightarrow>
          if a = CHR ''+'' then Some (char_of lo)
          else map_option (\<lambda>hi. char_of (16 * hi + lo)) (hex_value a))"

fun radix16 :: "string \<Rightarrow> string option" where
  "radix16 [] = Some []"
| "radix16 [c] = None"
| "radix16 (a # b # s) =
     Option.bind (radix16_pair a b) (\<lambda>c. map_option (\<lambda>r. c # r) (radix16 s))"

definition decode_hex_32 :: "string \<Rightarrow> string option" where
  "decode_hex_32 s = (if length s \<noteq> 64 then None else radix16 s)"

section \<open>Epochs\<close>

definition EPOCH_KIND :: string where "EPOCH_KIND = ''cloakpipe.epoch/v1''"
definition EPOCH_HASH_DOMAIN :: string where "EPOCH_HASH_DOMAIN = ''cloakpipe.epoch.v1''"
definition EPOCH_GENESIS :: string where "EPOCH_GENESIS = GENESIS"

record epoch_head =
  eh_kind :: string
  eh_epoch :: nat
  eh_first_seq :: nat
  eh_last_seq :: nat
  eh_entries_head :: string
  eh_prev_epoch :: string
  eh_sealed_at :: string
  eh_signer :: string
  eh_epoch_hash :: string
  eh_sig :: string

definition epoch_json :: "epoch_head \<Rightarrow> json" where
  "epoch_json h = JObject
     [(''kind'', JString (eh_kind h)), (''epoch'', JNumber (PosInt (eh_epoch h))),
      (''first_seq'', JNumber (PosInt (eh_first_seq h))), (''last_seq'', JNumber (PosInt (eh_last_seq h))),
      (''entries_head'', JString (eh_entries_head h)), (''prev_epoch'', JString (eh_prev_epoch h)),
      (''sealed_at'', JString (eh_sealed_at h)), (''signer'', JString (eh_signer h)),
      (''epoch_hash'', JString (eh_epoch_hash h)), (''sig'', JString (eh_sig h))]"

definition epoch_hash_of :: "ledger_ops \<Rightarrow> json \<Rightarrow> string" where
  "epoch_hash_of L head =
     lg_sha256 L (EPOCH_HASH_DOMAIN @ [CHR 0x0A]
       @ canonical_json (lg_ser L) (without [''epoch_hash'', ''sig''] head))"

definition epoch_compute_hash :: "ledger_ops \<Rightarrow> epoch_head \<Rightarrow> string" where
  "epoch_compute_hash L h = hex_encode (epoch_hash_of L (epoch_json h))"

definition epoch_artifact :: "ledger_ops \<Rightarrow> epoch_head \<Rightarrow> string" where
  "epoch_artifact L h = canonical_json (lg_ser L) (epoch_json h)"

definition epoch_id :: "epoch_head \<Rightarrow> string" where
  "epoch_id h = ''epoch-'' @ show_nat (eh_epoch h)"

text \<open>An external receipt by its kind; the rest of it is opaque here.\<close>

datatype external_receipt = Rfc3161 string | Rekor string

fun receipt_kind :: "external_receipt \<Rightarrow> string" where
  "receipt_kind (Rfc3161 _) = ''rfc3161''"
| "receipt_kind (Rekor _) = ''rekor''"

section \<open>The store\<close>

record decision_row =
  dr_hash :: string
  dr_prev :: string
  dr_entry :: "decision_entry option"

record epoch_row =
  er_first :: nat
  er_last :: nat
  er_head :: "epoch_head option"
  er_anchors :: "external_receipt list option"
  er_error :: "string option"

record ledger_store =
  ls_decisions :: "(nat \<times> decision_row) list"
  ls_epochs :: "(nat \<times> epoch_row) list"

datatype ledger_error =
    CorruptDecision nat
  | CorruptEpoch nat
  | NoEpoch nat
  | HashNotHex

definition ledger_new :: ledger_store where
  "ledger_new = \<lparr>ls_decisions = [], ls_epochs = []\<rparr>"

text \<open>\<open>ORDER BY seq DESC LIMIT 1\<close>.\<close>

definition last_row :: "('k \<times> 'r) list \<Rightarrow> ('k \<times> 'r) option" where
  "last_row rows = (if rows = [] then None else Some (last rows))"

text \<open>\<open>HashNotHex\<close> is the panic of \<open>expect\<close>.\<close>

definition append_decision ::
  "ledger_ops \<Rightarrow> ledger_store \<Rightarrow> decision_draft \<Rightarrow> string \<Rightarrow> string \<Rightarrow> ledger_error + (ledger_store \<times> decision_entry)" where
  "append_decision L s draft key now =
     (let (seq, prev) = (case last_row (ls_decisions s) of
            Some (n, r) \<Rightarrow> (n + 1, dr_hash r)
          | None \<Rightarrow> (0, GENESIS));
          entry = entry_link L draft seq prev (gate_keyid L key) now
      in rbind (ok_or HashNotHex (decode_hex_32 (de_entry_hash entry))) (\<lambda>digest.
         let entry = entry\<lparr>de_sig := hex_encode (lg_sign L key digest)\<rparr>
         in Ok (s\<lparr>ls_decisions := bt_insert seq
                    \<lparr>dr_hash = de_entry_hash entry, dr_prev = de_prev_hash entry, dr_entry = Some entry\<rparr>
                    (ls_decisions s)\<rparr>, entry)))"

definition decisions_from :: "ledger_store \<Rightarrow> nat \<Rightarrow> ledger_error + decision_entry list" where
  "decisions_from s seq =
     try_map (\<lambda>row. ok_or (CorruptDecision (fst row)) (dr_entry (snd row)))
       (filter (\<lambda>row. seq \<le> fst row) (ls_decisions s))"

definition decisions :: "ledger_store \<Rightarrow> ledger_error + decision_entry list" where
  "decisions s = decisions_from s 0"

definition decision_head_seq :: "ledger_store \<Rightarrow> nat option" where
  "decision_head_seq s = map_option fst (last_row (ls_decisions s))"

definition decisions_between :: "ledger_store \<Rightarrow> nat \<Rightarrow> nat \<Rightarrow> ledger_error + decision_entry list" where
  "decisions_between s first last_seq =
     rbind (decisions_from s first) (\<lambda>es. Ok (takeWhile (\<lambda>e. de_seq e \<le> last_seq) es))"

definition next_unsealed_seq :: "ledger_store \<Rightarrow> nat" where
  "next_unsealed_seq s =
     (if ls_epochs s = [] then 0 else Max (set (map (\<lambda>row. er_last (snd row)) (ls_epochs s))) + 1)"

definition seal_epoch ::
  "ledger_ops \<Rightarrow> ledger_store \<Rightarrow> string \<Rightarrow> string \<Rightarrow> ledger_error + (ledger_store \<times> epoch_head option)" where
  "seal_epoch L s key now =
     rbind (case last_row (ls_epochs s) of
              None \<Rightarrow> Ok (0, 0, EPOCH_GENESIS)
            | Some (n, r) \<Rightarrow>
                rbind (ok_or (CorruptEpoch n) (er_head r)) (\<lambda>h. Ok (n + 1, er_last r + 1, eh_epoch_hash h)))
       (\<lambda>(epoch, first_seq, prev_epoch).
     case (case last_row (ls_decisions s) of
             Some (n, r) \<Rightarrow> if first_seq \<le> n then Some (n, dr_hash r) else None
           | None \<Rightarrow> None) of
       None \<Rightarrow> Ok (s, None)
     | Some (last_seq, entries_head) \<Rightarrow>
         let h = \<lparr>eh_kind = EPOCH_KIND, eh_epoch = epoch, eh_first_seq = first_seq, eh_last_seq = last_seq,
                  eh_entries_head = entries_head, eh_prev_epoch = prev_epoch, eh_sealed_at = now,
                  eh_signer = gate_keyid L key, eh_epoch_hash = [], eh_sig = []\<rparr>;
             h = h\<lparr>eh_epoch_hash := epoch_compute_hash L h\<rparr>
         in rbind (ok_or HashNotHex (decode_hex_32 (eh_epoch_hash h))) (\<lambda>digest.
            let h = h\<lparr>eh_sig := hex_encode (lg_sign L key digest)\<rparr>
            in Ok (s\<lparr>ls_epochs := bt_insert epoch
                       \<lparr>er_first = first_seq, er_last = last_seq, er_head = Some h, er_anchors = Some [], er_error = None\<rparr>
                       (ls_epochs s)\<rparr>, Some h)))"

definition epochs :: "ledger_store \<Rightarrow> ledger_error + (epoch_head \<times> external_receipt list \<times> string option) list" where
  "epochs s =
     try_map (\<lambda>row.
       rbind (ok_or (CorruptEpoch (fst row)) (er_head (snd row))) (\<lambda>h.
       rbind (ok_or (CorruptEpoch (fst row)) (er_anchors (snd row))) (\<lambda>as.
       Ok (h, as, er_error (snd row))))) (ls_epochs s)"

definition add_anchors :: "external_receipt list \<Rightarrow> external_receipt list \<Rightarrow> external_receipt list" where
  "add_anchors held new =
     foldl (\<lambda>as r. if list_ex (\<lambda>a. receipt_kind a = receipt_kind r) as then as else as @ [r]) held new"

definition add_epoch_anchors ::
  "ledger_store \<Rightarrow> nat \<Rightarrow> external_receipt list \<Rightarrow> string option \<Rightarrow> ledger_error + ledger_store" where
  "add_epoch_anchors s epoch receipts err =
     rbind (ok_or (NoEpoch epoch) (map_of (ls_epochs s) epoch)) (\<lambda>row.
     rbind (ok_or (CorruptEpoch epoch) (er_anchors row)) (\<lambda>held.
     Ok (s\<lparr>ls_epochs := map (\<lambda>r. if fst r = epoch
              then (fst r, (snd r)\<lparr>er_anchors := Some (add_anchors held receipts), er_error := err\<rparr>)
              else r) (ls_epochs s)\<rparr>)))"

section \<open>What a signed entry and a signed head are\<close>

definition entry_digest :: "ledger_ops \<Rightarrow> decision_entry \<Rightarrow> string" where
  "entry_digest L e = entry_hash_of L (entry_json e)"

definition entry_ok :: "ledger_ops \<Rightarrow> string set \<Rightarrow> decision_entry \<Rightarrow> bool" where
  "entry_ok L keys e \<longleftrightarrow>
     de_kind e = DECISION_KIND \<and> de_entry_hash e = entry_compute_hash L e
     \<and> (\<exists>key\<in>keys. de_signer e = gate_keyid L key \<and> de_sig e = hex_encode (lg_sign L key (entry_digest L e)))"

definition head_ok :: "ledger_ops \<Rightarrow> string set \<Rightarrow> decision_entry list \<Rightarrow> epoch_head \<Rightarrow> bool" where
  "head_ok L keys es h \<longleftrightarrow>
     eh_kind h = EPOCH_KIND \<and> eh_epoch_hash h = epoch_compute_hash L h
     \<and> (\<exists>key\<in>keys. eh_signer h = gate_keyid L key \<and> eh_sig h = hex_encode (lg_sign L key (epoch_hash_of L (epoch_json h))))
     \<and> eh_last_seq h < length es \<and> eh_entries_head h = de_entry_hash (es ! eh_last_seq h)"

fun epoch_spans :: "nat \<Rightarrow> epoch_head list \<Rightarrow> bool" where
  "epoch_spans n [] = True"
| "epoch_spans n (h # hs) = (eh_first_seq h = n \<and> n \<le> eh_last_seq h \<and> epoch_spans (eh_last_seq h + 1) hs)"

fun spans_end :: "nat \<Rightarrow> epoch_head list \<Rightarrow> nat" where
  "spans_end n [] = n"
| "spans_end n (h # hs) = spans_end (eh_last_seq h + 1) hs"

lemma epoch_spans_append:
  "epoch_spans n (hs @ gs) \<longleftrightarrow> epoch_spans n hs \<and> epoch_spans (spans_end n hs) gs"
  by (induction hs arbitrary: n) auto

lemma spans_end_snoc [simp]: "spans_end n (hs @ [h]) = eh_last_seq h + 1"
  by (induction hs arbitrary: n) auto

lemma entry_link_hash:
  "de_entry_hash (entry_link L draft seq prev signer now) =
     hex_encode (entry_hash_of L (entry_json (entry_link L draft seq prev signer now)))"
  by (simp add: entry_link_def Let_def entry_compute_hash_def entry_hash_of_def entry_preimage_def
      without_def entry_json_def split: option.split)

text \<open>The hash does not cover itself and the signature.\<close>

lemma entry_hash_uncovered [simp]:
  "entry_hash_of L (entry_json (e\<lparr>de_entry_hash := h\<rparr>)) = entry_hash_of L (entry_json e)"
  "entry_hash_of L (entry_json (e\<lparr>de_sig := s\<rparr>)) = entry_hash_of L (entry_json e)"
  by (simp_all add: entry_hash_of_def entry_preimage_def without_def entry_json_def split: option.split)

lemma epoch_hash_uncovered [simp]:
  "epoch_hash_of L (epoch_json (g\<lparr>eh_epoch_hash := h\<rparr>)) = epoch_hash_of L (epoch_json g)"
  "epoch_hash_of L (epoch_json (g\<lparr>eh_sig := s\<rparr>)) = epoch_hash_of L (epoch_json g)"
  by (simp_all add: epoch_hash_of_def without_def epoch_json_def)

lemma radix16_pair_hex [simp]:
  "radix16_pair (hex_digit (byte_of c div 16)) (hex_digit (byte_of c mod 16)) = Some c"
proof -
  have "hex_digit n \<noteq> CHR ''+''" if "n < 16" for n
    using hex_digit_lower [OF that] by (auto simp: is_lower_hex_char_def is_ascii_digit_def)
  then show ?thesis using byte_nibbles [of c] by (simp add: radix16_pair_def)
qed

lemma radix16_hex [simp]: "radix16 (hex_encode bs) = Some bs"
  by (induction bs) (simp_all add: hex_byte_def)

lemma decode_hex_32_encode: "decode_hex_32 (hex_encode bs) = (if length bs = 32 then Some bs else None)"
  by (simp add: decode_hex_32_def)

lemma bt_insert_snoc: "(\<And>r. r \<in> set m \<Longrightarrow> fst r < k) \<Longrightarrow> bt_insert k v m = m @ [(k, v)]"
  by (induction m) fastforce+

section \<open>Reachable ledgers\<close>

inductive ledger_reachable :: "ledger_ops \<Rightarrow> string set \<Rightarrow> ledger_store \<Rightarrow> bool" for L keys where
  fresh: "ledger_reachable L keys ledger_new"
| appended: "ledger_reachable L keys s \<Longrightarrow> key \<in> keys \<Longrightarrow> append_decision L s draft key now = Ok (s', e) \<Longrightarrow>
    ledger_reachable L keys s'"
| sealed: "ledger_reachable L keys s \<Longrightarrow> key \<in> keys \<Longrightarrow> seal_epoch L s key now = Ok (s', h) \<Longrightarrow>
    ledger_reachable L keys s'"
| anchored: "ledger_reachable L keys s \<Longrightarrow> add_epoch_anchors s n receipts err = Ok s' \<Longrightarrow> ledger_reachable L keys s'"

definition entry_row :: "decision_entry \<Rightarrow> nat \<times> decision_row" where
  "entry_row e = (de_seq e, \<lparr>dr_hash = de_entry_hash e, dr_prev = de_prev_hash e, dr_entry = Some e\<rparr>)"

text \<open>The store holds the entries \<open>es\<close> and the epochs \<open>hs\<close>.\<close>

definition ledger_view :: "ledger_ops \<Rightarrow> string set \<Rightarrow> ledger_store \<Rightarrow> decision_entry list \<Rightarrow> epoch_head list \<Rightarrow> bool" where
  "ledger_view L keys s es hs \<longleftrightarrow>
     ls_decisions s = map entry_row es \<and> linked de_seq de_prev_hash de_entry_hash 0 GENESIS es
     \<and> list_all (entry_ok L keys) es
     \<and> map (\<lambda>(n, r). (n, er_first r, er_last r, er_head r)) (ls_epochs s) =
        map (\<lambda>h. (eh_epoch h, eh_first_seq h, eh_last_seq h, Some h)) hs
     \<and> list_all (\<lambda>row. er_anchors (snd row) \<noteq> None) (ls_epochs s)
     \<and> linked eh_epoch eh_prev_epoch eh_epoch_hash 0 EPOCH_GENESIS hs
     \<and> epoch_spans 0 hs \<and> list_all (head_ok L keys es) hs"

lemma ledger_view_new: "ledger_view L keys ledger_new [] []"
  by (simp add: ledger_view_def ledger_new_def)

lemma last_row_simps [simp]: "last_row [] = None" "last_row (m @ [r]) = Some r"
  by (simp_all add: last_row_def)

lemma linked_seq_bound: "linked seq prev own n p xs \<Longrightarrow> x \<in> set xs \<Longrightarrow> seq x < n + length xs"
  by (metis in_set_conv_nth linked_nth(1) nat_add_left_cancel_less)

lemma last_entry_row:
  assumes "linked de_seq de_prev_hash de_entry_hash 0 GENESIS es"
  shows "(case last_row (map entry_row es) of Some (n, r) \<Rightarrow> (n + 1, dr_hash r) | None \<Rightarrow> (0, GENESIS)) =
     (length es, chain_head de_entry_hash GENESIS es)"
  using assms by (cases es rule: rev_cases) (simp_all add: entry_row_def linked_append)

lemma append_decision_Ok:
  assumes v: "ledger_view L keys s es hs" and key: "key \<in> keys" and a: "append_decision L s draft key now = Ok (s', e)"
  shows "ledger_view L keys s' (es @ [e]) hs" "e = (entry_link L draft (length es) (chain_head de_entry_hash GENESIS es) (gate_keyid L key) now)
      \<lparr>de_sig := hex_encode (lg_sign L key (entry_digest L e))\<rparr>"
proof -
  have v': "ls_decisions s = map entry_row es" "linked de_seq de_prev_hash de_entry_hash 0 GENESIS es"
    "list_all (entry_ok L keys) es" "list_all (head_ok L keys es) hs"
    using v by (simp_all add: ledger_view_def)
  let ?l = "entry_link L draft (length es) (chain_head de_entry_hash GENESIS es) (gate_keyid L key) now"
  have hash: "de_entry_hash ?l = hex_encode (entry_hash_of L (entry_json ?l))"
    by (rule entry_link_hash)
  have e: "e = ?l\<lparr>de_sig := hex_encode (lg_sign L key (entry_hash_of L (entry_json ?l)))\<rparr>"
    and s': "s' = s\<lparr>ls_decisions := bt_insert (length es) (snd (entry_row e)) (ls_decisions s)\<rparr>"
    using a unfolding append_decision_def v'(1) last_entry_row [OF v'(2)]
    by (auto simp: Let_def hash decode_hex_32_encode entry_row_def split: if_splits)
  then show "e = ?l\<lparr>de_sig := hex_encode (lg_sign L key (entry_digest L e))\<rparr>"
    by (simp add: entry_digest_def)
  have fields: "de_seq e = length es" "de_prev_hash e = chain_head de_entry_hash GENESIS es" "de_kind e = DECISION_KIND"
    "de_signer e = gate_keyid L key"
    by (simp_all add: e entry_link_def Let_def)
  have "entry_ok L keys e"
    using key fields hash by (auto simp: entry_ok_def entry_compute_hash_def entry_digest_def e)
  moreover have "ls_decisions s' = map entry_row (es @ [e])"
    unfolding s' v'(1)
    using linked_seq_bound [OF v'(2)] fields(1) by (subst bt_insert_snoc) (auto simp: entry_row_def v'(1))
  moreover have "head_ok L keys (es @ [e]) h" if "head_ok L keys es h" for h
    using that by (auto simp: head_ok_def nth_append)
  ultimately show "ledger_view L keys s' (es @ [e]) hs"
    using v fields unfolding ledger_view_def by (auto simp: linked_append s' list_all_iff)
qed


lemma epoch_link_hash:
  "epoch_compute_hash L (h\<lparr>eh_epoch_hash := x\<rparr>) = epoch_compute_hash L h"
  "epoch_compute_hash L (h\<lparr>eh_sig := x\<rparr>) = epoch_compute_hash L h"
  by (simp_all add: epoch_compute_hash_def)

lemma last_epoch_row:
  assumes "ledger_view L keys s es hs"
  shows "(case last_row (ls_epochs s) of
            None \<Rightarrow> Ok (0, 0, EPOCH_GENESIS)
          | Some (n, r) \<Rightarrow>
              rbind (ok_or (CorruptEpoch n) (er_head r)) (\<lambda>h. Ok (n + 1, er_last r + 1, eh_epoch_hash h))) =
     Ok (length hs, spans_end 0 hs, chain_head eh_epoch_hash EPOCH_GENESIS hs)"
proof -
  have rows: "map (\<lambda>(n, r). (n, er_first r, er_last r, er_head r)) (ls_epochs s) =
        map (\<lambda>h. (eh_epoch h, eh_first_seq h, eh_last_seq h, Some h)) hs"
    and linked: "linked eh_epoch eh_prev_epoch eh_epoch_hash 0 EPOCH_GENESIS hs"
    using assms by (simp_all add: ledger_view_def)
  show ?thesis
  proof (cases hs rule: rev_cases)
    case Nil
    with rows show ?thesis by simp
  next
    case (snoc gs h)
    with rows obtain rs n r where "ls_epochs s = rs @ [(n, r)]" "n = eh_epoch h" "er_last r = eh_last_seq h" "er_head r = Some h"
      by (cases "ls_epochs s" rule: rev_cases) auto
    with snoc linked show ?thesis by (simp add: linked_append)
  qed
qed

lemma spans_end_bound:
  "epoch_spans n hs \<Longrightarrow> (\<And>h. h \<in> set hs \<Longrightarrow> eh_last_seq h < m) \<Longrightarrow> n \<le> m \<Longrightarrow> spans_end n hs \<le> m"
  by (induction hs arbitrary: n) (auto simp: Suc_le_eq)

definition epoch_link :: "ledger_ops \<Rightarrow> string \<Rightarrow> string \<Rightarrow> decision_entry list \<Rightarrow> epoch_head list \<Rightarrow> epoch_head" where
  "epoch_link L key now es hs = 
     (let h = \<lparr>eh_kind = EPOCH_KIND, eh_epoch = length hs, eh_first_seq = spans_end 0 hs, eh_last_seq = length es - 1,
               eh_entries_head = de_entry_hash (last es), eh_prev_epoch = chain_head eh_epoch_hash EPOCH_GENESIS hs,
               eh_sealed_at = now, eh_signer = gate_keyid L key, eh_epoch_hash = [], eh_sig = []\<rparr>
      in h\<lparr>eh_epoch_hash := epoch_compute_hash L h,
           eh_sig := hex_encode (lg_sign L key (epoch_hash_of L (epoch_json h)))\<rparr>)"

lemma tail_row:
  assumes "linked de_seq de_prev_hash de_entry_hash 0 GENESIS es"
  shows "(case last_row (map entry_row es) of
             Some (n, r) \<Rightarrow> if first_seq \<le> n then Some (n, dr_hash r) else None | None \<Rightarrow> None) =
     (if first_seq < length es then Some (length es - 1, de_entry_hash (last es)) else None)"
  using assms by (cases es rule: rev_cases) (auto simp: entry_row_def linked_append)

lemma seal_epoch_eq:
  assumes v: "ledger_view L keys s es hs"
  shows "seal_epoch L s key now =
     (if spans_end 0 hs < length es then
        rbind (ok_or HashNotHex (decode_hex_32 (eh_epoch_hash (epoch_link L key now es hs)))) (\<lambda>_.
          let h = epoch_link L key now es hs in
          Ok (s\<lparr>ls_epochs := bt_insert (length hs) \<lparr>er_first = eh_first_seq h, er_last = eh_last_seq h, er_head = Some h,
                  er_anchors = Some [], er_error = None\<rparr> (ls_epochs s)\<rparr>, Some h))
      else Ok (s, None))"
proof -
  have v': "ls_decisions s = map entry_row es" "linked de_seq de_prev_hash de_entry_hash 0 GENESIS es"
    using v by (simp_all add: ledger_view_def)
  show ?thesis
    unfolding seal_epoch_def last_epoch_row [OF v] v'(1)
    by (simp only: rbind_simps prod.case tail_row [OF v'(2)])
      (simp add: Let_def epoch_link_def epoch_compute_hash_def decode_hex_32_encode)
qed


lemma epoch_link_fields [simp]:
  "eh_kind (epoch_link L key now es hs) = EPOCH_KIND" "eh_epoch (epoch_link L key now es hs) = length hs"
  "eh_first_seq (epoch_link L key now es hs) = spans_end 0 hs" "eh_last_seq (epoch_link L key now es hs) = length es - 1"
  "eh_entries_head (epoch_link L key now es hs) = de_entry_hash (last es)"
  "eh_prev_epoch (epoch_link L key now es hs) = chain_head eh_epoch_hash EPOCH_GENESIS hs"
  by (simp_all add: epoch_link_def Let_def)

lemma epoch_link_ok:
  assumes "key \<in> keys" "es \<noteq> []"
  shows "head_ok L keys es (epoch_link L key now es hs)"
proof -
  define h where "h = \<lparr>eh_kind = EPOCH_KIND, eh_epoch = length hs, eh_first_seq = spans_end 0 hs, eh_last_seq = length es - 1,
      eh_entries_head = de_entry_hash (last es), eh_prev_epoch = chain_head eh_epoch_hash EPOCH_GENESIS hs,
      eh_sealed_at = now, eh_signer = gate_keyid L key, eh_epoch_hash = [], eh_sig = []\<rparr>"
  have link: "epoch_link L key now es hs = h\<lparr>eh_epoch_hash := epoch_compute_hash L h,
      eh_sig := hex_encode (lg_sign L key (epoch_hash_of L (epoch_json h)))\<rparr>"
    by (simp only: epoch_link_def h_def Let_def)
  have "eh_epoch_hash (epoch_link L key now es hs) = epoch_compute_hash L (epoch_link L key now es hs)"
    unfolding link epoch_link_hash by simp
  moreover have "eh_signer (epoch_link L key now es hs) = gate_keyid L key" unfolding link by (simp add: h_def)
  moreover have "eh_sig (epoch_link L key now es hs) =
      hex_encode (lg_sign L key (epoch_hash_of L (epoch_json (epoch_link L key now es hs))))"
    unfolding link epoch_hash_uncovered by simp
  ultimately show ?thesis using assms by (auto simp: head_ok_def last_conv_nth)
qed

lemma epoch_keys:
  assumes "ledger_view L keys s es hs"
  shows "map fst (ls_epochs s) = [0..<length hs]"
proof -
  have rows: "map (\<lambda>(n, r). (n, er_first r, er_last r, er_head r)) (ls_epochs s) =
        map (\<lambda>h. (eh_epoch h, eh_first_seq h, eh_last_seq h, Some h)) hs"
    and linked: "linked eh_epoch eh_prev_epoch eh_epoch_hash 0 EPOCH_GENESIS hs"
    using assms by (simp_all add: ledger_view_def)
  have "map fst (ls_epochs s) = map eh_epoch hs"
    using arg_cong [OF rows, of "map fst"] by (simp add: comp_def case_prod_unfold)
  also have "\<dots> = [0..<length hs]"
    using linked_nth(1) [OF linked] by (auto intro: nth_equalityI)
  finally show ?thesis .
qed

lemma seal_epoch_view:
  assumes v: "ledger_view L keys s es hs" and key: "key \<in> keys" and a: "seal_epoch L s key now = Ok (s', h)"
  shows "ledger_view L keys s' es (hs @ (case h of None \<Rightarrow> [] | Some g \<Rightarrow> [g]))"
    "h = (if spans_end 0 hs < length es then Some (epoch_link L key now es hs) else None)"
proof -
  let ?l = "epoch_link L key now es hs"
  show h: "h = (if spans_end 0 hs < length es then Some ?l else None)"
    using a unfolding seal_epoch_eq [OF v] by (auto simp: Let_def split: if_splits)
  show "ledger_view L keys s' es (hs @ (case h of None \<Rightarrow> [] | Some g \<Rightarrow> [g]))"
  proof (cases "spans_end 0 hs < length es")
    case False
    with a v h show ?thesis unfolding seal_epoch_eq [OF v] by simp
  next
    case True
    then have ok: "head_ok L keys es ?l" using key by (intro epoch_link_ok) auto
    let ?row = "\<lparr>er_first = eh_first_seq ?l, er_last = eh_last_seq ?l, er_head = Some ?l, er_anchors = Some [], er_error = None\<rparr>"
    have s': "s' = s\<lparr>ls_epochs := ls_epochs s @ [(length hs, ?row)]\<rparr>"
    proof -
      have "fst r < length hs" if "r \<in> set (ls_epochs s)" for r
        using that arg_cong [OF epoch_keys [OF v], of set] by fastforce
      with a True show ?thesis unfolding seal_epoch_eq [OF v] by (auto simp: Let_def bt_insert_snoc)
    qed
    from v ok True h show ?thesis
      unfolding ledger_view_def s' by (simp add: linked_append epoch_spans_append)
  qed
qed

lemma add_epoch_anchors_view:
  assumes v: "ledger_view L keys s es hs" and a: "add_epoch_anchors s n receipts err = Ok s'"
  shows "ledger_view L keys s' es hs"
proof -
  obtain held where s': "s' = s\<lparr>ls_epochs := map (\<lambda>r. if fst r = n
              then (fst r, (snd r)\<lparr>er_anchors := Some (add_anchors held receipts), er_error := err\<rparr>)
              else r) (ls_epochs s)\<rparr>"
    using a by (auto simp: add_epoch_anchors_def)
  have "map (\<lambda>(n, r). (n, er_first r, er_last r, er_head r)) (ls_epochs s') =
      map (\<lambda>(n, r). (n, er_first r, er_last r, er_head r)) (ls_epochs s)"
    by (simp add: s' comp_def case_prod_unfold)
  moreover have "list_all (\<lambda>row. er_anchors (snd row) \<noteq> None) (ls_epochs s) \<Longrightarrow>
      list_all (\<lambda>row. er_anchors (snd row) \<noteq> None) (ls_epochs s')"
    by (auto simp: s' list_all_iff)
  ultimately show ?thesis using v unfolding ledger_view_def by (simp add: s')
qed

lemma reachable_view: "ledger_reachable L keys s \<Longrightarrow> \<exists>es hs. ledger_view L keys s es hs"
proof (induction rule: ledger_reachable.induct)
  case fresh
  show ?case using ledger_view_new by blast
next
  case appended
  then show ?case using append_decision_Ok(1) by blast
next
  case sealed
  then show ?case using seal_epoch_view(1) by blast
next
  case anchored
  then show ?case using add_epoch_anchors_view by blast
qed

section \<open>What the readers return\<close>

lemma view_decisions_from:
  assumes v: "ledger_view L keys s es hs"
  shows "decisions_from s n = Ok (drop n es)"
proof -
  have rows: "ls_decisions s = map entry_row es" and linked: "linked de_seq de_prev_hash de_entry_hash 0 GENESIS es"
    using v by (simp_all add: ledger_view_def)
  have filter: "filter (\<lambda>e. n \<le> de_seq e) es = drop n es"
  proof -
    have "filter (\<lambda>e. n \<le> de_seq e) (take n es) = []" "filter (\<lambda>e. n \<le> de_seq e) (drop n es) = drop n es"
      using linked_nth(1) [OF linked] by (auto simp: filter_empty_conv filter_id_conv in_set_conv_nth)
    then show ?thesis by (metis append_take_drop_id filter_append append_Nil)
  qed
  have "filter (\<lambda>row. n \<le> fst row) (map entry_row es) = map entry_row (drop n es)"
    unfolding filter [symmetric] by (simp add: filter_map comp_def entry_row_def)
  moreover have "try_map (\<lambda>row. ok_or (CorruptDecision (fst row)) (dr_entry (snd row))) (map entry_row xs) = Ok xs" for xs
    by (induction xs) (simp_all add: entry_row_def)
  ultimately show ?thesis by (simp add: decisions_from_def rows)
qed

lemma view_decisions: "ledger_view L keys s es hs \<Longrightarrow> decisions s = Ok es"
  by (simp add: decisions_def view_decisions_from)

lemma view_decisions_between:
  assumes v: "ledger_view L keys s es hs"
  shows "decisions_between s m n = Ok (drop m (take (Suc n) es))"
proof -
  have linked: "linked de_seq de_prev_hash de_entry_hash 0 GENESIS es" using v by (simp add: ledger_view_def)
  have "takeWhile (\<lambda>e. de_seq e \<le> n) (drop m es) = take (Suc n - m) (drop m es)"
    using linked_nth(1) [OF linked] by (auto intro!: takeWhile_eq_take_P_nth)
  then show ?thesis by (simp add: decisions_between_def view_decisions_from [OF v] drop_take)
qed

lemma view_head_seq:
  assumes v: "ledger_view L keys s es hs"
  shows "decision_head_seq s = (if es = [] then None else Some (length es - 1))"
  using v by (cases es rule: rev_cases)
    (simp_all add: decision_head_seq_def ledger_view_def entry_row_def linked_append)

lemma spans_last_mono: "epoch_spans n hs \<Longrightarrow> h \<in> set hs \<Longrightarrow> eh_last_seq h < spans_end n hs"
proof (induction hs arbitrary: n)
  case (Cons g hs)
  have "n \<le> spans_end n gs" if "epoch_spans n gs" for n gs
    using that by (induction gs arbitrary: n) fastforce+
  with Cons show ?case by fastforce
qed simp

lemma view_next_unsealed:
  assumes v: "ledger_view L keys s es hs"
  shows "next_unsealed_seq s = spans_end 0 hs"
proof -
  have rows: "map (\<lambda>(n, r). (n, er_first r, er_last r, er_head r)) (ls_epochs s) =
        map (\<lambda>h. (eh_epoch h, eh_first_seq h, eh_last_seq h, Some h)) hs" and spans: "epoch_spans 0 hs"
    using v by (simp_all add: ledger_view_def)
  have lasts: "map (\<lambda>row. er_last (snd row)) (ls_epochs s) = map eh_last_seq hs"
    using arg_cong [OF rows, of "map (fst \<circ> snd \<circ> snd)"] by (simp add: comp_def case_prod_unfold)
  show ?thesis
  proof (cases hs rule: rev_cases)
    case Nil
    with rows show ?thesis by (simp add: next_unsealed_seq_def)
  next
    case (snoc gs h)
    have "Max (set (map eh_last_seq hs)) = eh_last_seq h"
      using spans_last_mono [OF spans] by (intro Max_eqI) (auto simp: snoc less_Suc_eq_le)
    with rows show ?thesis by (auto simp: next_unsealed_seq_def lasts snoc)
  qed
qed

lemma view_epochs:
  assumes v: "ledger_view L keys s es hs"
  obtains held where "epochs s = Ok held" "map fst held = hs"
proof -
  have rows: "map (\<lambda>(n, r). (n, er_first r, er_last r, er_head r)) (ls_epochs s) =
        map (\<lambda>h. (eh_epoch h, eh_first_seq h, eh_last_seq h, Some h)) hs"
    and held: "list_all (\<lambda>row. er_anchors (snd row) \<noteq> None) (ls_epochs s)"
    using v by (simp_all add: ledger_view_def)
  have heads: "map (er_head \<circ> snd) (ls_epochs s) = map Some hs"
    using arg_cong [OF rows, of "map (snd \<circ> snd \<circ> snd)"] by (simp add: comp_def case_prod_unfold)
  then have some: "row \<in> set (ls_epochs s) \<Longrightarrow> \<exists>h. er_head (snd row) = Some h" for row
    by (auto dest!: arg_cong [where f = set] simp: set_eq_iff image_iff) metis
  let ?f = "\<lambda>row. (the (er_head (snd row)), the (er_anchors (snd row)), er_error (snd row))"
  have "epochs s = Ok (map ?f (ls_epochs s))"
    unfolding epochs_def using some held by (intro try_map_Ok_total) (fastforce simp: list_all_iff)
  moreover have "map fst (map ?f (ls_epochs s)) = hs"
    using arg_cong [OF heads, of "map the"] by (simp add: comp_def)
  ultimately show ?thesis by (rule that)
qed

lemma spans_start_le: "epoch_spans n hs \<Longrightarrow> n \<le> spans_end n hs"
  by (induction hs arbitrary: n) fastforce+

lemma spans_cover_once:
  "epoch_spans m hs \<Longrightarrow>
     length (filter (\<lambda>h. eh_first_seq h \<le> n \<and> n \<le> eh_last_seq h) hs) = (if m \<le> n \<and> n < spans_end m hs then 1 else 0)"
proof (induction hs arbitrary: m)
  case (Cons h hs)
  then have "eh_first_seq h = m" "m \<le> eh_last_seq h" "epoch_spans (eh_last_seq h + 1) hs" by simp_all
  with Cons.IH [of "eh_last_seq h + 1"] spans_start_le [of "eh_last_seq h + 1" hs] show ?case by auto
qed simp

lemma spans_order: "epoch_spans n hs \<Longrightarrow> h \<in> set hs \<Longrightarrow> eh_first_seq h \<le> eh_last_seq h"
  by (induction hs arbitrary: n) auto

lemma epoch_entries:
  assumes v: "ledger_view L keys s es hs" and h: "h \<in> set hs"
  obtains xs where "decisions_between s (eh_first_seq h) (eh_last_seq h) = Ok xs" "xs \<noteq> []"
    "length xs = eh_last_seq h + 1 - eh_first_seq h" "eh_entries_head h = de_entry_hash (last xs)"
proof (rule that)
  have v': "epoch_spans 0 hs" "head_ok L keys es h" using v h by (auto simp: ledger_view_def list_all_iff)
  have order: "eh_first_seq h \<le> eh_last_seq h"
    using v'(1) h spans_order by blast
  let ?xs = "drop (eh_first_seq h) (take (Suc (eh_last_seq h)) es)"
  show "decisions_between s (eh_first_seq h) (eh_last_seq h) = Ok ?xs" by (rule view_decisions_between [OF v])
  show "length ?xs = eh_last_seq h + 1 - eh_first_seq h" using v'(2) by (simp add: head_ok_def)
  then show "?xs \<noteq> []" using order by (metis Suc_diff_le Suc_eq_plus1 list.size(3) nat.distinct(1))
  show "eh_entries_head h = de_entry_hash (last ?xs)"
    using v'(2) order by (simp add: head_ok_def last_drop take_Suc_conv_app_nth)
qed

text \<open>Sealing leaves nothing unsealed.\<close>

lemma seal_epoch_all:
  assumes v: "ledger_view L keys s es hs" and key: "key \<in> keys" and a: "seal_epoch L s key now = Ok (s', h)"
  shows "next_unsealed_seq s' = length es"
proof -
  note v2 = seal_epoch_view [OF v key a]
  have "spans_end 0 hs \<le> length es"
    using v by (intro spans_end_bound) (auto simp: ledger_view_def list_all_iff head_ok_def)
  with v2(2) show ?thesis unfolding view_next_unsealed [OF v2(1)] by auto
qed

lemma append_decision_total:
  assumes "\<And>x. length (lg_sha256 L x) = 32"
  shows "\<exists>s' e. append_decision L s draft key now = Ok (s', e)"
  using assms by (auto simp: append_decision_def Let_def entry_link_hash decode_hex_32_encode entry_hash_of_def split: prod.split)

text \<open>An epoch keeps the first receipt of each kind.\<close>

lemma add_anchors_prefix: "\<exists>xs. add_anchors held new = held @ xs"
proof (induction new arbitrary: held)
  case (Cons r new)
  show ?case using Cons [of held] Cons [of "held @ [r]"] by (auto simp: add_anchors_def)
qed (simp add: add_anchors_def)

lemma add_anchors_distinct:
  "distinct (map receipt_kind held) \<Longrightarrow> distinct (map receipt_kind (add_anchors held new))"
proof (induction new arbitrary: held)
  case (Cons r new)
  show ?case using Cons.IH [of held] Cons.IH [of "held @ [r]"] Cons.prems
    by (fastforce simp: add_anchors_def list_ex_iff)
qed (simp add: add_anchors_def)

end
