(* ===== verification/Gate_Events.thy ===== *)
theory Gate_Events
  imports Decisions Digests
begin

text \<open>
  Gate events (\<open>cloakpipe-mcp/src/events/mod.rs\<close>): what a sink is handed about a decision, and the
  fingerprint that groups repeats of one failure. Delivery is not here: a sink queues and sends on a
  thread of its own, and never changes a decision.
\<close>

datatype event_kind =
    DecisionDeny
  | ApprovalRequested
  | ApprovalMismatch
  | SideEffectUnknown
  | SideEffectReplayed
  | ShadowFinding
  | ToolDriftEvent
  | AnchorFailed

fun event_kind_str :: "event_kind \<Rightarrow> string" where
  "event_kind_str DecisionDeny = ''decision.deny''"
| "event_kind_str ApprovalRequested = ''approval.requested''"
| "event_kind_str ApprovalMismatch = ''approval.mismatch''"
| "event_kind_str SideEffectUnknown = ''side_effect.unknown''"
| "event_kind_str SideEffectReplayed = ''side_effect.replayed''"
| "event_kind_str ShadowFinding = ''shadow.finding''"
| "event_kind_str ToolDriftEvent = ''tool.drift''"
| "event_kind_str AnchorFailed = ''anchor.failed''"

record gate_event =
  ge_kind :: event_kind
  ge_fingerprint :: string
  ge_ts :: string
  ge_release :: "string option"
  ge_release_digest :: "string option"
  ge_policy_version :: "string option"
  ge_tool :: "string option"
  ge_server :: "string option"
  ge_reason :: string
  ge_path :: "string option"
  ge_decision :: "decision option"
  ge_mode :: "decision_mode option"
  ge_operation_id :: "string option"
  ge_ledger_seq :: "nat option"
  ge_entry_hash :: "string option"

definition or_empty :: "string option \<Rightarrow> string" where
  "or_empty x = (case x of Some s \<Rightarrow> s | None \<Rightarrow> [])"

definition event_preimage :: "event_kind \<Rightarrow> string \<Rightarrow> string option \<Rightarrow> string option \<Rightarrow> string option \<Rightarrow> string" where
  "event_preimage kind reason tool path policy_version =
     join_with ''|'' [event_kind_str kind, reason, or_empty tool, or_empty path, or_empty policy_version]"

definition event_fingerprint ::
  "digests \<Rightarrow> event_kind \<Rightarrow> string \<Rightarrow> string option \<Rightarrow> string option \<Rightarrow> string option \<Rightarrow> string" where
  "event_fingerprint D kind reason tool path policy_version =
     hash_display (dg_sha256 D (event_preimage kind reason tool path policy_version))"

definition gate_event_new ::
  "digests \<Rightarrow> string \<Rightarrow> event_kind \<Rightarrow> string \<Rightarrow> string option \<Rightarrow> string option \<Rightarrow> string option \<Rightarrow> gate_event" where
  "gate_event_new D now kind reason tool path policy_version =
     \<lparr>ge_kind = kind, ge_fingerprint = event_fingerprint D kind reason tool path policy_version, ge_ts = now,
      ge_release = None, ge_release_digest = None, ge_policy_version = policy_version, ge_tool = tool,
      ge_server = None, ge_reason = reason, ge_path = path, ge_decision = None, ge_mode = None,
      ge_operation_id = None, ge_ledger_seq = None, ge_entry_hash = None\<rparr>"

definition event_with_server :: "digests \<Rightarrow> string \<Rightarrow> gate_event \<Rightarrow> gate_event" where
  "event_with_server D server e =
     e\<lparr>ge_fingerprint := event_fingerprint D (ge_kind e) (ge_reason e) (Some (server @ ''/'' @ or_empty (ge_tool e)))
         (ge_path e) (ge_policy_version e),
       ge_server := Some server\<rparr>"

record decision_record =
  dc_ts :: string
  dc_tool :: "string option"
  dc_decision :: decision
  dc_reason :: string
  dc_path :: "string option"
  dc_mode :: "decision_mode option"
  dc_release :: "string option"
  dc_release_digest :: "string option"
  dc_policy_version :: "string option"
  dc_operation_id :: "string option"
  dc_forwarded :: bool
  dc_ledger_seq :: "nat option"
  dc_entry_hash :: "string option"
  dc_event :: "event_kind option"
  dc_fingerprint :: "string option"

end
