(* ===== verification/Record_Chain.thy ===== *)
theory Record_Chain
  imports Decisions Digests
begin

text \<open>
  The legacy evidence records (\<open>cloakpipe-ledger/src/record.rs\<close>), their canonical bytes
  (\<open>canonical.rs\<close>), the hash chain per tenant (\<open>chain.rs\<close>, \<open>store.rs\<close>) and signatures over a record
  (\<open>sign.rs\<close>). A UUID is its 16 bytes. A time is the Unix second and the nanoseconds in it; chrono's
  text of a second is the parameter \<open>rfc3339\<close>, with SHA-256 in a \<open>record_ops\<close>.
\<close>

section \<open>Records\<close>

datatype hop =
    LlmPrompt | LlmResponse | McpToolCall | McpToolResult | SubAgentMsg | MemoryWrite | RetrievalResult
  | Unmask | ReleaseRegistered | ReleasePromoted | ReleaseCertified | CertificationRevoked | OperationReconciled

fun hop_tag :: "hop \<Rightarrow> string" where
  "hop_tag LlmPrompt = ''llm_prompt''"
| "hop_tag LlmResponse = ''llm_response''"
| "hop_tag McpToolCall = ''mcp_tool_call''"
| "hop_tag McpToolResult = ''mcp_tool_result''"
| "hop_tag SubAgentMsg = ''sub_agent_msg''"
| "hop_tag MemoryWrite = ''memory_write''"
| "hop_tag RetrievalResult = ''retrieval_result''"
| "hop_tag Unmask = ''unmask''"
| "hop_tag ReleaseRegistered = ''release_registered''"
| "hop_tag ReleasePromoted = ''release_promoted''"
| "hop_tag ReleaseCertified = ''release_certified''"
| "hop_tag CertificationRevoked = ''certification_revoked''"
| "hop_tag OperationReconciled = ''operation_reconciled''"

datatype detector = DRegex | DChecksum | DOnnxBert | DGliner | DCustom

fun detector_tag :: "detector \<Rightarrow> string" where
  "detector_tag DRegex = ''regex''"
| "detector_tag DChecksum = ''checksum''"
| "detector_tag DOnnxBert = ''onnx_bert''"
| "detector_tag DGliner = ''gliner''"
| "detector_tag DCustom = ''custom''"

datatype action_kind = Pseudonymize | Block | Passthrough | FpeToken

fun action_kind_tag :: "action_kind \<Rightarrow> string" where
  "action_kind_tag Pseudonymize = ''pseudonymize''"
| "action_kind_tag Block = ''block''"
| "action_kind_tag Passthrough = ''passthrough''"
| "action_kind_tag FpeToken = ''fpe_token''"

datatype record_decision = PAllow | PDeny | PFlag

fun record_decision_tag :: "record_decision \<Rightarrow> string" where
  "record_decision_tag PAllow = ''allow''"
| "record_decision_tag PDeny = ''deny''"
| "record_decision_tag PFlag = ''flag''"

record record_action =
  ac_entity_type :: string
  ac_kind :: action_kind
  ac_token_ref :: "string option"

record detection =
  dt_entity_type :: string
  dt_count :: nat
  dt_detector :: detector

record record_policy =
  po_pack_id :: string
  po_pack_version :: string
  po_rule_id :: string
  po_decision :: record_decision

record identity =
  idn_agent_id :: string
  idn_human_principal :: "string option"
  idn_upstream :: string
  idn_region :: string

record egress =
  eg_destination :: string
  eg_bytes_out_hash :: string

datatype metadata_value = MBool bool | MInteger int | MHash string | MOpaqueId string

type_synonym timestamp = "int \<times> nat"
type_synonym record_metadata = "(string \<times> metadata_value) list"

record ledger_record =
  lr_seq :: nat
  lr_ts :: timestamp
  lr_tenant_id :: string
  lr_hop :: hop
  lr_detections :: "detection list"
  lr_actions :: "record_action list"
  lr_policy :: record_policy
  lr_identities :: identity
  lr_egress :: egress
  lr_metadata :: record_metadata
  lr_prev_hash :: string
  lr_record_hash :: string

definition RELEASE_HASH_KEY :: string where "RELEASE_HASH_KEY = ''release_hash''"

definition lr_release_hash :: "ledger_record \<Rightarrow> string option" where
  "lr_release_hash r =
     (case map_of (lr_metadata r) RELEASE_HASH_KEY of Some (MHash h) \<Rightarrow> Some h | _ \<Rightarrow> None)"

section \<open>The builder\<close>

datatype record_error =
    PiiInMetadata string string
  | OpaqueIdTooLong string
  | MetadataDelimiter string
  | BadMetadataKey string

record record_builder =
  rb_seq :: "nat option"
  rb_ts :: "timestamp option"
  rb_tenant_id :: "string option"
  rb_hop :: "hop option"
  rb_detections :: "detection list"
  rb_actions :: "record_action list"
  rb_policy :: "record_policy option"
  rb_identities :: "identity option"
  rb_egress :: "egress option"
  rb_metadata :: record_metadata

definition builder_new :: record_builder where
  "builder_new =
     \<lparr>rb_seq = None, rb_ts = None, rb_tenant_id = None, rb_hop = None, rb_detections = [], rb_actions = [],
      rb_policy = None, rb_identities = None, rb_egress = None, rb_metadata = []\<rparr>"

definition with_seq :: "nat \<Rightarrow> record_builder \<Rightarrow> record_builder" where
  "with_seq n b = b\<lparr>rb_seq := Some n\<rparr>"

definition with_ts :: "timestamp \<Rightarrow> record_builder \<Rightarrow> record_builder" where
  "with_ts t b = b\<lparr>rb_ts := Some t\<rparr>"

definition with_tenant :: "string \<Rightarrow> record_builder \<Rightarrow> record_builder" where
  "with_tenant t b = b\<lparr>rb_tenant_id := Some t\<rparr>"

definition with_hop :: "hop \<Rightarrow> record_builder \<Rightarrow> record_builder" where
  "with_hop h b = b\<lparr>rb_hop := Some h\<rparr>"

definition with_detection :: "detection \<Rightarrow> record_builder \<Rightarrow> record_builder" where
  "with_detection d b = b\<lparr>rb_detections := rb_detections b @ [d]\<rparr>"

definition with_detections :: "detection list \<Rightarrow> record_builder \<Rightarrow> record_builder" where
  "with_detections ds b = b\<lparr>rb_detections := rb_detections b @ ds\<rparr>"

definition with_action :: "record_action \<Rightarrow> record_builder \<Rightarrow> record_builder" where
  "with_action a b = b\<lparr>rb_actions := rb_actions b @ [a]\<rparr>"

definition with_record_policy :: "record_policy \<Rightarrow> record_builder \<Rightarrow> record_builder" where
  "with_record_policy p b = b\<lparr>rb_policy := Some p\<rparr>"

definition with_identities :: "identity \<Rightarrow> record_builder \<Rightarrow> record_builder" where
  "with_identities i b = b\<lparr>rb_identities := Some i\<rparr>"

definition with_egress :: "egress \<Rightarrow> record_builder \<Rightarrow> record_builder" where
  "with_egress e b = b\<lparr>rb_egress := Some e\<rparr>"

definition with_metadata :: "string \<Rightarrow> metadata_value \<Rightarrow> record_builder \<Rightarrow> record_builder" where
  "with_metadata k v b = b\<lparr>rb_metadata := bt_insert k v (rb_metadata b)\<rparr>"

definition with_release :: "string \<Rightarrow> record_builder \<Rightarrow> record_builder" where
  "with_release h = with_metadata RELEASE_HASH_KEY (MHash h)"

definition validate_metadata_key :: "string \<Rightarrow> record_error + unit" where
  "validate_metadata_key key =
     (if key \<noteq> [] \<and> list_all (\<lambda>b. is_ascii_graphic b \<and> b \<noteq> CHR '';'' \<and> b \<noteq> CHR ''='') key
      then Ok () else Err (BadMetadataKey key))"

definition pii_markers :: "string list" where
  "pii_markers = [''@'', ''aadhaar'', ''pan'', ''ifsc'', ''upi://'', ''gstin'', ''ssn'', ''phone'', ''email'', ''name='']"

text \<open>A character of white space starts somewhere in the text.\<close>

fun has_white :: "string \<Rightarrow> bool" where
  "has_white [] = False"
| "has_white (c # s) = (0 < white_len (c # s) \<or> has_white s)"

definition validate_opaque_id :: "string \<Rightarrow> string \<Rightarrow> record_error + unit" where
  "validate_opaque_id key s =
     (if 128 < length s then Err (OpaqueIdTooLong key)
      else case find (\<lambda>marker. contains_str marker (to_ascii_lowercase s)) pii_markers of
        Some marker \<Rightarrow> Err (PiiInMetadata key marker)
      | None \<Rightarrow>
          if has_white s then Err (PiiInMetadata key ''whitespace'')
          else if CHR '';'' \<in> set s \<or> CHR ''='' \<in> set s then Err (MetadataDelimiter key)
          else Ok ())"

definition NIL_UUID :: string where "NIL_UUID = replicate 16 (CHR 0x00)"

definition record_build :: "record_builder \<Rightarrow> timestamp \<Rightarrow> record_error + ledger_record" where
  "record_build b now =
     rbind (try_each (\<lambda>m.
        rbind (validate_metadata_key (fst m)) (\<lambda>_.
        case snd m of MOpaqueId s \<Rightarrow> validate_opaque_id (fst m) s | _ \<Rightarrow> Ok ())) (rb_metadata b)) (\<lambda>_.
     Ok \<lparr>lr_seq = (case rb_seq b of Some n \<Rightarrow> n | None \<Rightarrow> 0),
         lr_ts = (case rb_ts b of Some t \<Rightarrow> t | None \<Rightarrow> now),
         lr_tenant_id = (case rb_tenant_id b of Some t \<Rightarrow> t | None \<Rightarrow> NIL_UUID),
         lr_hop = (case rb_hop b of Some h \<Rightarrow> h | None \<Rightarrow> LlmPrompt),
         lr_detections = rb_detections b, lr_actions = rb_actions b,
         lr_policy = (case rb_policy b of Some p \<Rightarrow> p
           | None \<Rightarrow> \<lparr>po_pack_id = ''default'', po_pack_version = ''0000000'', po_rule_id = ''default-allow'', po_decision = PAllow\<rparr>),
         lr_identities = (case rb_identities b of Some i \<Rightarrow> i
           | None \<Rightarrow> \<lparr>idn_agent_id = NIL_UUID, idn_human_principal = None, idn_upstream = ''unknown'', idn_region = ''unknown''\<rparr>),
         lr_egress = (case rb_egress b of Some e \<Rightarrow> e
           | None \<Rightarrow> \<lparr>eg_destination = ''unknown'', eg_bytes_out_hash = replicate 32 (CHR 0x00)\<rparr>),
         lr_metadata = rb_metadata b,
         lr_prev_hash = replicate 32 (CHR 0x00), lr_record_hash = replicate 32 (CHR 0x00)\<rparr>)"

section \<open>Canonical bytes\<close>

record record_ops =
  ro_sha256 :: "string \<Rightarrow> string"
  ro_rfc3339 :: "int \<Rightarrow> string"

definition uuid_lower :: "string \<Rightarrow> string" where
  "uuid_lower u =
     (let h = hex_encode u
      in take 8 h @ ''-'' @ take 4 (drop 8 h) @ ''-'' @ take 4 (drop 12 h) @ ''-'' @ take 4 (drop 16 h) @ ''-'' @ drop 20 h)"

definition show_int :: "int \<Rightarrow> string" where
  "show_int i = (if i < 0 then ''-'' @ show_nat (nat (- i)) else show_nat (nat i))"

definition detection_text :: "detection \<Rightarrow> string" where
  "detection_text d = ''('' @ dt_entity_type d @ ''|'' @ show_nat (dt_count d) @ ''|'' @ detector_tag (dt_detector d) @ ''|<confidence>)''"

definition action_text :: "record_action \<Rightarrow> string" where
  "action_text a = ''('' @ ac_entity_type a @ ''|'' @ action_kind_tag (ac_kind a) @ ''|''
     @ (case ac_token_ref a of Some t \<Rightarrow> t | None \<Rightarrow> []) @ '')''"

fun metadata_entry :: "string \<times> metadata_value \<Rightarrow> string" where
  "metadata_entry (k, MBool b) = k @ ''=bool:'' @ (if b then ''true'' else ''false'') @ '';''"
| "metadata_entry (k, MInteger i) = k @ ''=int:'' @ show_int i @ '';''"
| "metadata_entry (k, MHash h) = k @ ''=hash:'' @ hex_encode h @ '';''"
| "metadata_entry (k, MOpaqueId s) = k @ ''=id:'' @ s @ '';''"

definition canonicalize :: "record_ops \<Rightarrow> ledger_record \<Rightarrow> string" where
  "canonicalize R r =
     ''seq='' @ show_nat (lr_seq r)
     @ CHR 0x0A # ''ts='' @ ro_rfc3339 R (fst (lr_ts r))
     @ CHR 0x0A # ''tenant_id='' @ uuid_lower (lr_tenant_id r)
     @ CHR 0x0A # ''hop='' @ hop_tag (lr_hop r)
     @ CHR 0x0A # ''detections='' @ concat (map detection_text (lr_detections r))
     @ CHR 0x0A # ''actions='' @ concat (map action_text (lr_actions r))
     @ CHR 0x0A # ''policy='' @ ''('' @ po_pack_id (lr_policy r) @ ''|'' @ po_pack_version (lr_policy r) @ ''|''
         @ po_rule_id (lr_policy r) @ ''|'' @ record_decision_tag (po_decision (lr_policy r)) @ '')''
     @ CHR 0x0A # ''identities='' @ ''('' @ uuid_lower (idn_agent_id (lr_identities r)) @ ''|''
         @ (case idn_human_principal (lr_identities r) of Some u \<Rightarrow> uuid_lower u | None \<Rightarrow> ''-'') @ ''|''
         @ idn_upstream (lr_identities r) @ ''|'' @ idn_region (lr_identities r) @ '')''
     @ CHR 0x0A # ''egress='' @ ''('' @ eg_destination (lr_egress r) @ ''|'' @ hex_encode (eg_bytes_out_hash (lr_egress r)) @ '')''
     @ CHR 0x0A # ''prev_hash='' @ hex_encode (lr_prev_hash r)
     @ CHR 0x0A # ''metadata='' @ concat (map metadata_entry (lr_metadata r))"

section \<open>The chain\<close>

definition GENESIS_HASH :: string where "GENESIS_HASH = replicate 32 (CHR 0x00)"

datatype chain_link_error = SeqMismatch nat nat | PrevHashMismatch

definition record_hash_of :: "record_ops \<Rightarrow> ledger_record \<Rightarrow> string" where
  "record_hash_of R r = ro_sha256 R (canonicalize R r)"

definition link_and_hash :: "record_ops \<Rightarrow> string \<Rightarrow> ledger_record \<Rightarrow> ledger_record \<times> string" where
  "link_and_hash R prev r =
     (let r = r\<lparr>lr_prev_hash := prev\<rparr>; r = r\<lparr>lr_record_hash := record_hash_of R r\<rparr>
      in (r, lr_record_hash r))"

fun verify_records :: "record_ops \<Rightarrow> nat \<Rightarrow> string \<Rightarrow> ledger_record list \<Rightarrow> chain_link_error + string" where
  "verify_records R n prev [] = Ok prev"
| "verify_records R n prev (r # rs) =
     (if lr_seq r \<noteq> n then Err (SeqMismatch n (lr_seq r))
      else if lr_prev_hash r \<noteq> prev then Err PrevHashMismatch
      else if record_hash_of R r \<noteq> lr_record_hash r then Err PrevHashMismatch
      else verify_records R (n + 1) (record_hash_of R r) rs)"

definition verify_chain :: "record_ops \<Rightarrow> ledger_record list \<Rightarrow> chain_link_error + string" where
  "verify_chain R rs = verify_records R 0 GENESIS_HASH rs"

section \<open>The records table\<close>

record record_row =
  rw_id :: nat
  rw_tenant :: string
  rw_seq :: nat
  rw_hash :: string
  rw_prev :: string
  rw_record :: "ledger_record option"

text \<open>Rows in the order they were inserted, and the counter of \<open>AUTOINCREMENT\<close>.\<close>

record record_store =
  rs_rows :: "record_row list"
  rs_next_id :: nat

datatype store_error = SeqOutOfOrder nat | StoredHashMismatch | RecordHashMismatch | CorruptRecord

definition record_store_new :: record_store where
  "record_store_new = \<lparr>rs_rows = [], rs_next_id = 1\<rparr>"

definition tenant_rows :: "record_store \<Rightarrow> string \<Rightarrow> record_row list" where
  "tenant_rows s tenant = sort_key rw_seq (filter (\<lambda>r. rw_tenant r = uuid_lower tenant) (rs_rows s))"

definition records_head :: "record_store \<Rightarrow> string \<Rightarrow> store_error + (nat option \<times> string)" where
  "records_head s tenant =
     (case tenant_rows s tenant of
        [] \<Rightarrow> Ok (None, GENESIS_HASH)
      | rows \<Rightarrow> rbind (ok_or StoredHashMismatch (decode_hex_32 (rw_hash (last rows)))) (\<lambda>hash.
          Ok (Some (rw_seq (last rows)), hash)))"

definition record_append ::
  "record_ops \<Rightarrow> record_store \<Rightarrow> string \<Rightarrow> ledger_record \<Rightarrow> store_error + (record_store \<times> ledger_record \<times> nat)" where
  "record_append R s tenant r =
     rbind (records_head s tenant) (\<lambda>(head_seq, head_hash).
     let expected = (case head_seq of Some n \<Rightarrow> n + 1 | None \<Rightarrow> 0)
     in if lr_seq r \<noteq> expected then Err (SeqOutOfOrder expected)
        else let r = r\<lparr>lr_prev_hash := head_hash\<rparr>;
                 r = r\<lparr>lr_record_hash := record_hash_of R r\<rparr>
             in if record_hash_of R r \<noteq> lr_record_hash r then Err RecordHashMismatch
                else Ok (\<lparr>rs_rows = rs_rows s @ [\<lparr>rw_id = rs_next_id s, rw_tenant = uuid_lower tenant, rw_seq = lr_seq r,
                            rw_hash = hex_encode (lr_record_hash r), rw_prev = hex_encode (lr_prev_hash r), rw_record = Some r\<rparr>],
                          rs_next_id = rs_next_id s + 1\<rparr>, r, rs_next_id s))"

definition records_for_tenant :: "record_store \<Rightarrow> string \<Rightarrow> store_error + (nat \<times> ledger_record) list" where
  "records_for_tenant s tenant =
     try_map (\<lambda>row. rbind (ok_or CorruptRecord (rw_record row)) (\<lambda>r. Ok (rw_id row, r))) (tenant_rows s tenant)"

section \<open>Signatures\<close>

datatype record_signature = Ed25519Sig string string

datatype sign_error = Ed25519Error | VerificationFailed

definition record_sign :: "record_ops \<Rightarrow> ledger_ops \<Rightarrow> string \<Rightarrow> ledger_record \<Rightarrow> record_signature" where
  "record_sign R L key r = Ed25519Sig (lg_public L key) (lg_sign L key (canonicalize R r))"

text \<open>\<open>verify_strict\<close> is dalek's.\<close>

definition record_verify ::
  "record_ops \<Rightarrow> (string \<Rightarrow> bool) \<Rightarrow> (string \<Rightarrow> string \<Rightarrow> string \<Rightarrow> bool) \<Rightarrow> ledger_record \<Rightarrow> record_signature \<Rightarrow> sign_error + unit" where
  "record_verify R point verify_strict r sig =
     (case sig of Ed25519Sig pk s \<Rightarrow>
        if \<not> point pk then Err Ed25519Error
        else if \<not> verify_strict pk (canonicalize R r) s then Err VerificationFailed
        else Ok ())"

section \<open>The check of a chain\<close>

lemma record_hash_uncovered [simp]: "record_hash_of R (r\<lparr>lr_record_hash := x\<rparr>) = record_hash_of R r"
  by (simp add: record_hash_of_def canonicalize_def)

lemma verify_records_Ok:
  "verify_records R n p rs = Ok h \<longleftrightarrow>
     linked lr_seq lr_prev_hash lr_record_hash n p rs \<and> list_all (\<lambda>r. lr_record_hash r = record_hash_of R r) rs
     \<and> h = chain_head lr_record_hash p rs"
  by (induction rs arbitrary: n p) auto

section \<open>Metadata reads one way\<close>

definition plain_entry :: "string \<times> metadata_value \<Rightarrow> bool" where
  "plain_entry m \<longleftrightarrow> CHR ''='' \<notin> set (fst m) \<and> CHR '';'' \<notin> set (fst m)
     \<and> (case snd m of MOpaqueId s \<Rightarrow> CHR '';'' \<notin> set s | _ \<Rightarrow> True)"

text \<open>What follows the equals sign, without the semicolon.\<close>

fun metadata_tail :: "metadata_value \<Rightarrow> string" where
  "metadata_tail (MBool b) = ''bool:'' @ (if b then ''true'' else ''false'')"
| "metadata_tail (MInteger i) = ''int:'' @ show_int i"
| "metadata_tail (MHash h) = ''hash:'' @ hex_encode h"
| "metadata_tail (MOpaqueId s) = ''id:'' @ s"

lemma metadata_entry_tail: "metadata_entry m = (fst m @ CHR ''='' # metadata_tail (snd m)) @ [CHR '';'']"
  by (cases m rule: metadata_entry.cases) simp_all

lemma show_int_sign: "CHR ''-'' \<in> set (show_int i) \<longleftrightarrow> i < 0"
  by (auto simp: show_int_def is_ascii_digit_def dest: show_nat_digits)

lemma show_int_inject [simp]: "show_int i = show_int j \<longleftrightarrow> i = j"
proof
  assume eq: "show_int i = show_int j"
  with show_int_sign [of i] show_int_sign [of j] have "i < 0 \<longleftrightarrow> j < 0" by simp
  with eq show "i = j" by (auto simp: show_int_def split: if_splits)
qed simp

lemma metadata_tail_inject: "metadata_tail v = metadata_tail w \<longleftrightarrow> v = w"
  by (cases v; cases w) (auto split: if_splits)

lemma show_int_plain: "CHR '';'' \<notin> set (show_int i)" "CHR 0x0A \<notin> set (show_int i)"
  by (auto simp: show_int_def is_ascii_digit_def split: if_splits dest: show_nat_digits)

lemma hex_plain: "CHR '';'' \<notin> set (hex_encode h)" "CHR 0x0A \<notin> set (hex_encode h)"
  using hex_encode_lower [of "CHR '';''" h] hex_encode_lower [of "CHR 0x0A" h]
  by (auto simp: is_lower_hex_char_def is_ascii_digit_def)

lemma plain_entry_no_semicolon:
  "plain_entry m \<Longrightarrow> CHR '';'' \<notin> set (fst m @ CHR ''='' # metadata_tail (snd m))"
  by (cases "snd m") (auto simp: plain_entry_def show_int_plain hex_plain)

lemma split_once_inject:
  fixes d :: char
  assumes "d \<notin> set a" "d \<notin> set b" "a @ d # x = b @ d # y"
  shows "a = b \<and> x = y"
  using split_once_append [OF assms(1), of x] split_once_append [OF assms(2), of y] assms(3)
  by (metis option.inject prod.inject)

lemma plain_entry_inject:
  assumes "plain_entry m" "plain_entry n" "fst m @ CHR ''='' # metadata_tail (snd m) = fst n @ CHR ''='' # metadata_tail (snd n)"
  shows "m = n"
  using split_once_inject [OF _ _ assms(3)] assms(1,2)
  by (simp add: plain_entry_def metadata_tail_inject prod_eq_iff)

lemma metadata_text_Cons:
  "concat (map metadata_entry (m # ms)) = (fst m @ CHR ''='' # metadata_tail (snd m)) @ CHR '';'' # concat (map metadata_entry ms)"
  by (simp add: metadata_entry_tail [of m])

lemma metadata_text_inject:
  assumes "list_all plain_entry a" "list_all plain_entry b" "concat (map metadata_entry a) = concat (map metadata_entry b)"
  shows "a = b"
  using assms
proof (induction a arbitrary: b)
  case Nil
  then show ?case by (cases b) (simp_all add: metadata_entry_tail)
next
  case (Cons m a)
  then obtain n c where b: "b = n # c" by (cases b) (auto simp: metadata_entry_tail)
  have plain: "plain_entry m" "plain_entry n" "list_all plain_entry a" "list_all plain_entry c"
    using Cons.prems(1,2) by (simp_all add: b)
  from split_once_inject [OF plain(1,2) [THEN plain_entry_no_semicolon] Cons.prems(3) [unfolded b metadata_text_Cons]]
  have "m = n" "concat (map metadata_entry a) = concat (map metadata_entry c)"
    using plain_entry_inject [OF plain(1,2)] by blast+
  with Cons.IH [OF plain(3,4)] show ?case by (simp add: b)
qed

section \<open>What the builder accepts\<close>

lemma validate_metadata_key_Ok:
  "validate_metadata_key k = Ok u \<longleftrightarrow> k \<noteq> [] \<and> list_all (\<lambda>b. is_ascii_graphic b \<and> b \<noteq> CHR '';'' \<and> b \<noteq> CHR ''='') k"
  by (simp add: validate_metadata_key_def)

lemma validate_opaque_id_Ok:
  "validate_opaque_id k s = Ok u \<longleftrightarrow>
     length s \<le> 128 \<and> list_all (\<lambda>m. \<not> sublist m (to_ascii_lowercase s)) pii_markers \<and> \<not> has_white s
     \<and> CHR '';'' \<notin> set s \<and> CHR ''='' \<notin> set s"
proof (cases "find (\<lambda>marker. contains_str marker (to_ascii_lowercase s)) pii_markers")
  case None
  then have "list_all (\<lambda>m. \<not> sublist m (to_ascii_lowercase s)) pii_markers"
    by (auto simp: find_None_iff contains_str_iff list_all_iff)
  with None show ?thesis by (auto simp: validate_opaque_id_def)
next
  case (Some marker)
  then have "marker \<in> set pii_markers" "sublist marker (to_ascii_lowercase s)"
    by (auto simp: find_Some_iff contains_str_iff)
  with Some show ?thesis by (auto simp: validate_opaque_id_def list_all_iff)
qed

definition metadata_ok :: "string \<times> metadata_value \<Rightarrow> bool" where
  "metadata_ok m \<longleftrightarrow> fst m \<noteq> [] \<and> list_all (\<lambda>b. is_ascii_graphic b \<and> b \<noteq> CHR '';'' \<and> b \<noteq> CHR ''='') (fst m)
     \<and> (case snd m of
          MOpaqueId s \<Rightarrow> length s \<le> 128 \<and> list_all (\<lambda>k. \<not> sublist k (to_ascii_lowercase s)) pii_markers
            \<and> \<not> has_white s \<and> CHR '';'' \<notin> set s \<and> CHR ''='' \<notin> set s
        | _ \<Rightarrow> True)"

lemma validate_entry_Ok:
  "rbind (validate_metadata_key (fst m)) (\<lambda>_. case snd m of MOpaqueId s \<Rightarrow> validate_opaque_id (fst m) s | _ \<Rightarrow> Ok ()) = Ok u
     \<longleftrightarrow> metadata_ok m"
  by (cases "snd m") (simp_all add: validate_metadata_key_Ok validate_opaque_id_Ok metadata_ok_def)

lemma record_build_Ok: "is_ok (record_build b now) \<longleftrightarrow> list_all metadata_ok (rb_metadata b)"
proof -
  have "is_ok (rbind r (\<lambda>_. Ok x)) \<longleftrightarrow> (\<exists>u. r = Ok u)" for r :: "record_error + unit" and x :: ledger_record
    by (auto simp: is_ok_iff)
  then show ?thesis unfolding record_build_def by (simp only: try_each_eq_Ok validate_entry_Ok list_all_iff) blast
qed

lemma record_build_metadata:
  assumes "record_build b now = Ok r"
  shows "lr_metadata r = rb_metadata b" "list_all metadata_ok (lr_metadata r)"
    "lr_seq r = (case rb_seq b of Some n \<Rightarrow> n | None \<Rightarrow> 0)"
proof -
  show "lr_seq r = (case rb_seq b of Some n \<Rightarrow> n | None \<Rightarrow> 0)" using assms by (auto simp: record_build_def)
  show eq: "lr_metadata r = rb_metadata b" using assms by (auto simp: record_build_def)
  show "list_all metadata_ok (lr_metadata r)" using assms record_build_Ok [of b now] by (simp add: eq)
qed

lemma metadata_ok_plain: "metadata_ok m \<Longrightarrow> plain_entry m"
  by (auto simp: metadata_ok_def plain_entry_def list_all_iff split: metadata_value.splits)

lemma white_newline: "white_len (CHR 0x0A # s) = 1"
  by (simp add: white_len_def)

lemma has_white_newline: "\<not> has_white s \<Longrightarrow> CHR 0x0A \<notin> set s"
  by (induction s) (auto simp: white_newline)

lemma metadata_ok_no_newline:
  assumes "list_all metadata_ok ms"
  shows "CHR 0x0A \<notin> set (concat (map metadata_entry ms))"
  using assms
proof (induction ms)
  case (Cons m ms)
  then have ok: "metadata_ok m" by simp
  have "list_all is_ascii_graphic (fst m)" using ok by (simp add: metadata_ok_def list_all_iff)
  moreover have "\<not> is_ascii_graphic (CHR 0x0A)" by (simp add: is_ascii_graphic_def)
  ultimately have "CHR 0x0A \<notin> set (fst m)" unfolding list_all_iff by blast
  moreover have "CHR 0x0A \<notin> set (metadata_tail (snd m))"
    using ok by (cases "snd m") (simp_all add: metadata_ok_def show_int_plain hex_plain has_white_newline)
  ultimately show ?case using Cons unfolding metadata_text_Cons by simp
qed simp


section \<open>The bytes determine the link\<close>

lemma canonicalize_start:
  "\<exists>x. canonicalize R r = (''seq='' @ show_nat (lr_seq r)) @ CHR 0x0A # x"
  by (simp add: canonicalize_def)

lemma canonicalize_end:
  "\<exists>x. canonicalize R r = (x @ hex_encode (lr_prev_hash r)) @ CHR 0x0A # ''metadata='' @ concat (map metadata_entry (lr_metadata r))"
  unfolding canonicalize_def
  by (rule exI [where x = "''seq='' @ show_nat (lr_seq r)
     @ CHR 0x0A # ''ts='' @ ro_rfc3339 R (fst (lr_ts r))
     @ CHR 0x0A # ''tenant_id='' @ uuid_lower (lr_tenant_id r)
     @ CHR 0x0A # ''hop='' @ hop_tag (lr_hop r)
     @ CHR 0x0A # ''detections='' @ concat (map detection_text (lr_detections r))
     @ CHR 0x0A # ''actions='' @ concat (map action_text (lr_actions r))
     @ CHR 0x0A # ''policy='' @ ''('' @ po_pack_id (lr_policy r) @ ''|'' @ po_pack_version (lr_policy r) @ ''|''
         @ po_rule_id (lr_policy r) @ ''|'' @ record_decision_tag (po_decision (lr_policy r)) @ '')''
     @ CHR 0x0A # ''identities='' @ ''('' @ uuid_lower (idn_agent_id (lr_identities r)) @ ''|''
         @ (case idn_human_principal (lr_identities r) of Some u \<Rightarrow> uuid_lower u | None \<Rightarrow> ''-'') @ ''|''
         @ idn_upstream (lr_identities r) @ ''|'' @ idn_region (lr_identities r) @ '')''
     @ CHR 0x0A # ''egress='' @ ''('' @ eg_destination (lr_egress r) @ ''|'' @ hex_encode (eg_bytes_out_hash (lr_egress r)) @ '')''
     @ CHR 0x0A # ''prev_hash=''"]) (simp only: append_assoc append_Cons append_Nil)

lemma rsplit_inject:
  fixes d :: char
  assumes "d \<notin> set x" "d \<notin> set y" "a @ d # x = b @ d # y"
  shows "a = b \<and> x = y"
proof -
  have "rev x @ d # rev a = rev y @ d # rev b" using arg_cong [OF assms(3), of rev] by simp
  from split_once_inject [OF _ _ this] assms(1,2) show ?thesis by simp
qed

text \<open>Records with the same bytes, as far as a chain is concerned: built by the builder, on a hash of
  32 bytes.\<close>

definition same_bytes :: "record_ops \<Rightarrow> ledger_record \<Rightarrow> ledger_record \<Rightarrow> bool" where
  "same_bytes R r s \<longleftrightarrow> canonicalize R r = canonicalize R s
     \<and> list_all metadata_ok (lr_metadata r) \<and> list_all metadata_ok (lr_metadata s)
     \<and> length (lr_prev_hash r) = 32 \<and> length (lr_prev_hash s) = 32"

lemma show_nat_no_newline: "CHR 0x0A \<notin> set (show_nat n)"
  by (auto simp: is_ascii_digit_def dest: show_nat_digits)

lemma same_bytes_fields:
  assumes "same_bytes R r s"
  shows "lr_seq r = lr_seq s" "lr_prev_hash r = lr_prev_hash s" "lr_metadata r = lr_metadata s"
proof -
  have eq: "canonicalize R r = canonicalize R s" using assms by (simp add: same_bytes_def)
  obtain x y where "canonicalize R r = (''seq='' @ show_nat (lr_seq r)) @ CHR 0x0A # x"
    "canonicalize R s = (''seq='' @ show_nat (lr_seq s)) @ CHR 0x0A # y" using canonicalize_start by blast
  with eq have "''seq='' @ show_nat (lr_seq r) = ''seq='' @ show_nat (lr_seq s)"
    using split_once_inject [of "CHR 0x0A" "''seq='' @ show_nat (lr_seq r)" "''seq='' @ show_nat (lr_seq s)" x y]
    by (simp add: show_nat_no_newline)
  then show "lr_seq r = lr_seq s" by simp
  let ?m = "\<lambda>r. ''metadata='' @ concat (map metadata_entry (lr_metadata r))"
  obtain a b where ends: "canonicalize R r = (a @ hex_encode (lr_prev_hash r)) @ CHR 0x0A # ?m r"
    "canonicalize R s = (b @ hex_encode (lr_prev_hash s)) @ CHR 0x0A # ?m s" using canonicalize_end by blast
  have "CHR 0x0A \<notin> set (?m q)" if "list_all metadata_ok (lr_metadata q)" for q
    using metadata_ok_no_newline [OF that] by simp
  then have "CHR 0x0A \<notin> set (?m r)" "CHR 0x0A \<notin> set (?m s)" using assms unfolding same_bytes_def by blast+
  from rsplit_inject [OF this] eq ends
  have tails: "a @ hex_encode (lr_prev_hash r) = b @ hex_encode (lr_prev_hash s)" "?m r = ?m s" by metis+
  from tails(1) assms show "lr_prev_hash r = lr_prev_hash s"
    by (simp add: same_bytes_def append_eq_append_conv)
  from tails(2) assms show "lr_metadata r = lr_metadata s"
    by (intro metadata_text_inject) (auto simp: same_bytes_def list_all_iff intro: metadata_ok_plain)
qed

interpretation record_chain: hash_chain lr_seq lr_prev_hash lr_record_hash "same_bytes R" for R
  by unfold_locales (simp_all add: same_bytes_fields)

lemma record_head_commits:
  assumes "verify_chain R rs = Ok h" "verify_chain R ss = Ok h" "rs \<noteq> []" "ss \<noteq> []"
    and "\<And>x. length (ro_sha256 R x) = 32"
    and "list_all (\<lambda>r. list_all metadata_ok (lr_metadata r)) (rs @ ss)"
    and "\<And>r s. r \<in> set rs \<Longrightarrow> s \<in> set ss \<Longrightarrow> no_collision (ro_sha256 R) (canonicalize R r) (canonicalize R s)"
  shows "list_all2 (same_bytes R) rs ss"
proof -
  have len: "length (lr_prev_hash r) = 32" if "linked lr_seq lr_prev_hash lr_record_hash n p rs" "length p = 32"
    "list_all (\<lambda>r. lr_record_hash r = record_hash_of R r) rs" "r \<in> set rs" for n p rs r
    using that by (induction rs arbitrary: n p) (auto simp: record_hash_of_def assms(5))
  have v: "linked lr_seq lr_prev_hash lr_record_hash 0 GENESIS_HASH qs" "h = chain_head lr_record_hash GENESIS_HASH qs"
    "list_all (\<lambda>r. lr_record_hash r = record_hash_of R r) qs" if "qs = rs \<or> qs = ss" for qs
    using assms(1,2) that by (auto simp: verify_chain_def verify_records_Ok)
  show ?thesis
  proof (rule record_chain.head_commits)
    show "linked lr_seq lr_prev_hash lr_record_hash 0 GENESIS_HASH rs" "linked lr_seq lr_prev_hash lr_record_hash 0 GENESIS_HASH ss"
      using v(1) by simp_all
    show "chain_head lr_record_hash GENESIS_HASH rs = chain_head lr_record_hash GENESIS_HASH ss" using v(2) by metis
    show "same_bytes R r s" if "r \<in> set rs" "s \<in> set ss" "lr_record_hash r = lr_record_hash s" for r s
    proof -
      have "canonicalize R r = canonicalize R s"
        using v(3) [of rs] v(3) [of ss] that assms(7) by (simp add: list_all_iff record_hash_of_def no_collision_def)
      moreover have "length (lr_prev_hash r) = 32" "length (lr_prev_hash s) = 32"
        using len [OF v(1) _ v(3) that(1)] len [OF v(1) _ v(3) that(2)] by (simp_all add: GENESIS_HASH_def)
      moreover have "list_all metadata_ok (lr_metadata q)" if "q \<in> set rs \<union> set ss" for q
        using assms(6) that by (auto simp: list_all_iff)
      ultimately show ?thesis using that(1,2) by (simp add: same_bytes_def)
    qed
  qed (use assms(3,4) in simp_all)
qed

section \<open>The table keeps one chain per tenant\<close>

inductive record_reachable :: "record_ops \<Rightarrow> record_store \<Rightarrow> bool" for R where
  fresh: "record_reachable R record_store_new"
| appended: "record_reachable R s \<Longrightarrow> record_append R s tenant r = Ok (s', r', n) \<Longrightarrow> record_reachable R s'"

definition record_row_ok :: "record_row \<Rightarrow> bool" where
  "record_row_ok row \<longleftrightarrow> (case rw_record row of None \<Rightarrow> False
     | Some r \<Rightarrow> rw_seq row = lr_seq r \<and> rw_hash row = hex_encode (lr_record_hash r) \<and> rw_prev row = hex_encode (lr_prev_hash r))"

definition chain_of :: "record_store \<Rightarrow> string \<Rightarrow> ledger_record list" where
  "chain_of s t = map (\<lambda>row. the (rw_record row)) (filter (\<lambda>row. rw_tenant row = t) (rs_rows s))"

definition records_ok :: "record_ops \<Rightarrow> record_store \<Rightarrow> bool" where
  "records_ok R s \<longleftrightarrow> list_all record_row_ok (rs_rows s)
     \<and> (\<forall>t. linked lr_seq lr_prev_hash lr_record_hash 0 GENESIS_HASH (chain_of s t)
          \<and> list_all (\<lambda>r. lr_record_hash r = record_hash_of R r) (chain_of s t))"

lemma linked_sorted: "linked seq prev own n p xs \<Longrightarrow> sorted (map seq xs)"
proof (induction xs arbitrary: n p)
  case (Cons x xs)
  have "n + 1 \<le> seq y" if "linked seq prev own (n + 1) (own x) xs" "y \<in> set xs" for y
    using that linked_nth(1) by (metis in_set_conv_nth le_add1)
  with Cons show ?case by force
qed simp

lemma tenant_rows_eq:
  assumes "records_ok R s"
  shows "tenant_rows s tenant = filter (\<lambda>row. rw_tenant row = uuid_lower tenant) (rs_rows s)"
proof -
  let ?rows = "filter (\<lambda>row. rw_tenant row = uuid_lower tenant) (rs_rows s)"
  have "map rw_seq ?rows = map lr_seq (chain_of s (uuid_lower tenant))"
    using assms by (auto simp: records_ok_def chain_of_def list_all_iff record_row_ok_def split: option.splits)
  moreover have "sorted (map lr_seq (chain_of s (uuid_lower tenant)))"
    using assms by (auto simp: records_ok_def intro: linked_sorted)
  ultimately show ?thesis by (simp add: tenant_rows_def sort_key_id_if_sorted)
qed

lemma records_head_eq:
  assumes ok: "records_ok R s" and len: "\<And>x. length (ro_sha256 R x) = 32"
  shows "records_head s tenant =
     (let rs = chain_of s (uuid_lower tenant)
      in Ok (if rs = [] then None else Some (length rs - 1), chain_head lr_record_hash GENESIS_HASH rs))"
proof (cases "filter (\<lambda>row. rw_tenant row = uuid_lower tenant) (rs_rows s)" rule: rev_cases)
  case Nil
  then show ?thesis by (simp add: records_head_def tenant_rows_eq [OF ok] chain_of_def)
next
  case (snoc rows row)
  then have "row \<in> set (rs_rows s)" by (metis filter_is_subset in_set_conv_decomp subsetD)
  with ok obtain r where r: "rw_record row = Some r" "rw_seq row = lr_seq r" "rw_hash row = hex_encode (lr_record_hash r)"
    by (auto simp: records_ok_def list_all_iff record_row_ok_def split: option.splits)
  have chain: "chain_of s (uuid_lower tenant) = map (\<lambda>row. the (rw_record row)) rows @ [r]"
    by (simp add: chain_of_def snoc r)
  have "lr_seq r = length rows" "lr_record_hash r = record_hash_of R r"
    using ok chain by (auto simp: records_ok_def linked_append dest!: spec [of _ "uuid_lower tenant"])
  with r have last_row: "rw_seq row = length rows" "decode_hex_32 (rw_hash row) = Some (lr_record_hash r)"
    by (simp_all add: decode_hex_32_encode len record_hash_of_def)
  obtain x xs where "rows @ [row] = x # xs" by (cases rows) auto
  moreover from this have "last (x # xs) = row" by (metis last_snoc)
  ultimately show ?thesis
    using last_row by (simp add: records_head_def tenant_rows_eq [OF ok] snoc chain del: last.simps)
qed

lemma record_append_Ok:
  assumes ok: "records_ok R s" and len: "\<And>x. length (ro_sha256 R x) = 32"
    and a: "record_append R s tenant r = Ok (s', r', n)"
  shows "records_ok R s'" "chain_of s' (uuid_lower tenant) = chain_of s (uuid_lower tenant) @ [r']"
    "\<And>t. t \<noteq> uuid_lower tenant \<Longrightarrow> chain_of s' t = chain_of s t"
proof -
  let ?rs = "chain_of s (uuid_lower tenant)"
  have s': "rs_rows s' = rs_rows s @ [\<lparr>rw_id = rs_next_id s, rw_tenant = uuid_lower tenant, rw_seq = lr_seq r',
        rw_hash = hex_encode (lr_record_hash r'), rw_prev = hex_encode (lr_prev_hash r'), rw_record = Some r'\<rparr>]"
    and seq: "lr_seq r' = length ?rs" and prev: "lr_prev_hash r' = chain_head lr_record_hash GENESIS_HASH ?rs"
    and hash: "lr_record_hash r' = record_hash_of R r'"
    using a unfolding record_append_def records_head_eq [OF ok len]
    by (auto simp: Let_def split: if_splits)
  show own: "chain_of s' (uuid_lower tenant) = ?rs @ [r']" by (simp add: chain_of_def s')
  show other: "chain_of s' t = chain_of s t" if "t \<noteq> uuid_lower tenant" for t using that by (simp add: chain_of_def s')
  have "linked lr_seq lr_prev_hash lr_record_hash 0 GENESIS_HASH (chain_of s' t)
      \<and> list_all (\<lambda>r. lr_record_hash r = record_hash_of R r) (chain_of s' t)" for t
    using ok own other [of t] seq prev hash
    by (cases "t = uuid_lower tenant") (simp_all add: records_ok_def linked_append)
  moreover have "list_all record_row_ok (rs_rows s')"
    using ok by (simp add: s' records_ok_def record_row_ok_def)
  ultimately show "records_ok R s'" by (simp add: records_ok_def)
qed

lemma reachable_records_ok:
  assumes "record_reachable R s" "\<And>x. length (ro_sha256 R x) = 32"
  shows "records_ok R s"
  using assms(1)
proof (induction rule: record_reachable.induct)
  case fresh
  show ?case by (simp add: records_ok_def record_store_new_def chain_of_def)
next
  case appended
  then show ?case using record_append_Ok(1) assms(2) by blast
qed

lemma stored_records:
  assumes "records_ok R s"
  shows "\<exists>ids. records_for_tenant s tenant = Ok (zip ids (chain_of s (uuid_lower tenant))) \<and> length ids = length (chain_of s (uuid_lower tenant))"
proof -
  let ?rows = "filter (\<lambda>row. rw_tenant row = uuid_lower tenant) (rs_rows s)"
  have "rw_record row = Some (the (rw_record row))" if "row \<in> set ?rows" for row
    using assms that by (auto simp: records_ok_def list_all_iff record_row_ok_def split: option.splits)
  then have "records_for_tenant s tenant = Ok (map (\<lambda>row. (rw_id row, the (rw_record row))) ?rows)"
    unfolding records_for_tenant_def tenant_rows_eq [OF assms] by (intro try_map_Ok_total) (metis ok_or_simps(2) rbind_simps(2))
  moreover have "map (\<lambda>row. (rw_id row, the (rw_record row))) ?rows = zip (map rw_id ?rows) (chain_of s (uuid_lower tenant))"
    by (simp add: chain_of_def zip_map_map zip_same_conv_map)
  ultimately show ?thesis by (metis chain_of_def length_map)
qed

lemma stored_records_verify:
  assumes "records_ok R s"
  shows "verify_chain R (chain_of s t) = Ok (chain_head lr_record_hash GENESIS_HASH (chain_of s t))"
  using assms by (simp add: verify_chain_def verify_records_Ok records_ok_def)

section \<open>Free text in a record\<close>

text \<open>An entity type is any text, and the bytes do not delimit it: two actions can be spelled as one,
  in records that the builder accepts and that differ in what they say was done.\<close>

lemma canonical_collision:
  "\<exists>b c r s. record_build b (0, 0) = Ok r \<and> record_build c (0, 0) = Ok s
     \<and> length (lr_actions r) = 1 \<and> length (lr_actions s) = 2 \<and> canonicalize R r = canonicalize R s"
proof -
  let ?a = "\<lambda>t tok. \<lparr>ac_entity_type = t, ac_kind = Block, ac_token_ref = tok\<rparr>"
  let ?b = "with_action (?a ''PAN|block|x)(AADHAAR'' None) builder_new"
  let ?c = "with_action (?a ''AADHAAR'' None) (with_action (?a ''PAN'' (Some ''x'')) builder_new)"
  have ok: "is_ok (record_build ?b (0, 0))" "is_ok (record_build ?c (0, 0))"
    by (simp_all add: record_build_Ok with_action_def builder_new_def)
  then obtain r s where "record_build ?b (0, 0) = Ok r" "record_build ?c (0, 0) = Ok s" by (auto simp: is_ok_iff)
  moreover from this have "length (lr_actions r) = 1 \<and> length (lr_actions s) = 2 \<and> canonicalize R r = canonicalize R s"
    by (auto simp: record_build_def with_action_def builder_new_def canonicalize_def action_text_def)
  ultimately show ?thesis by blast
qed

text \<open>Neither the nanoseconds of a record nor an empty token reference is covered.\<close>

lemma canonical_uncovered:
  "canonicalize R (r\<lparr>lr_ts := (t, n)\<rparr>) = canonicalize R (r\<lparr>lr_ts := (t, m)\<rparr>)"
  "action_text (a\<lparr>ac_token_ref := Some []\<rparr>) = action_text (a\<lparr>ac_token_ref := None\<rparr>)"
  by (simp_all add: canonicalize_def action_text_def)

lemma record_sign_verifies:
  assumes "point (lg_public L key)" "\<And>m. verify_strict (lg_public L key) m (lg_sign L key m)"
  shows "record_verify R point verify_strict r (record_sign R L key r) = Ok ()"
  using assms by (simp add: record_verify_def record_sign_def)

end
