(* ===== verification/Civil_Time.thy ===== *)
theory Civil_Time
  imports Cloak_Prelude "HOL-Library.Signed_Division"
begin

text \<open>
  Calendar arithmetic of the offline verifier (\<open>cloakpipe-verify/src/time.rs\<close>): days since 1970-01-01
  and civil dates, RFC 3339 text and DER GeneralizedTime. \<open>sdiv\<close> is the division of \<open>i64\<close>, which
  truncates towards zero; \<open>div\<close> and \<open>mod\<close> are \<open>div_euclid\<close> and \<open>rem_euclid\<close> by a positive number.
\<close>

section \<open>Dates\<close>

definition days_from_civil :: "int \<Rightarrow> int \<Rightarrow> int \<Rightarrow> int" where
  "days_from_civil y m d =
     (let y = (if m \<le> 2 then y - 1 else y);
          era = (if y \<ge> 0 then y else y - 399) sdiv 400;
          yoe = y - era * 400;
          doy = (153 * (if m > 2 then m - 3 else m + 9) + 2) sdiv 5 + d - 1;
          doe = yoe * 365 + yoe sdiv 4 - yoe sdiv 100 + doy
      in era * 146097 + doe - 719468)"

definition civil_from_days :: "int \<Rightarrow> int \<times> int \<times> int" where
  "civil_from_days z =
     (let z = z + 719468;
          era = (if z \<ge> 0 then z else z - 146096) sdiv 146097;
          doe = z - era * 146097;
          yoe = (doe - doe sdiv 1460 + doe sdiv 36524 - doe sdiv 146096) sdiv 365;
          y = yoe + era * 400;
          doy = doe - (365 * yoe + yoe sdiv 4 - yoe sdiv 100);
          mp = (5 * doy + 2) sdiv 153;
          d = doy - (153 * mp + 2) sdiv 5 + 1;
          m = (if mp < 10 then mp + 3 else mp - 9)
      in (if m \<le> 2 then y + 1 else y, m, d))"

definition is_leap_year :: "int \<Rightarrow> bool" where
  "is_leap_year y \<longleftrightarrow> (y smod 4 = 0 \<and> y smod 100 \<noteq> 0) \<or> y smod 400 = 0"

definition days_in_month :: "int \<Rightarrow> int \<Rightarrow> int" where
  "days_in_month y m =
     (if m \<in> {1, 3, 5, 7, 8, 10, 12} then 31
      else if m \<in> {4, 6, 9, 11} then 30
      else if is_leap_year y then 29 else 28)"

definition unix_from_parts :: "int \<Rightarrow> int \<Rightarrow> int \<Rightarrow> int \<Rightarrow> int \<Rightarrow> int \<Rightarrow> int option" where
  "unix_from_parts y mo d h mi s =
     (if 1 \<le> mo \<and> mo \<le> 12 \<and> 1 \<le> d \<and> d \<le> days_in_month y mo \<and> 0 \<le> h \<and> h < 24 \<and> 0 \<le> mi \<and> mi < 60 \<and> 0 \<le> s \<and> s < 60
      then Some (days_from_civil y mo d * 86400 + h * 3600 + mi * 60 + s) else None)"

section \<open>Text\<close>

text \<open>\<open>{:02}\<close> and \<open>{:04}\<close>: zeros on the left, after the sign.\<close>

definition pad_nat :: "nat \<Rightarrow> nat \<Rightarrow> string" where
  "pad_nat w n = replicate (w - length (show_nat n)) (CHR ''0'') @ show_nat n"

definition pad_int :: "nat \<Rightarrow> int \<Rightarrow> string" where
  "pad_int w i = (if i < 0 then CHR ''-'' # pad_nat (w - 1) (nat (- i)) else pad_nat w (nat i))"

definition rfc3339_from_unix :: "int \<Rightarrow> string" where
  "rfc3339_from_unix t =
     (let (y, m, d) = civil_from_days (t div 86400); s = t mod 86400
      in pad_int 4 y @ ''-'' @ pad_int 2 m @ ''-'' @ pad_int 2 d @ ''T''
         @ pad_int 2 (s sdiv 3600) @ '':'' @ pad_int 2 (s sdiv 60 smod 60) @ '':'' @ pad_int 2 (s smod 60) @ ''Z'')"

definition digits :: "string \<Rightarrow> int option" where
  "digits b =
     (if b = [] \<or> \<not> list_all is_ascii_digit b then None
      else let n = digits_value b in if n < 2 ^ 63 then Some (int n) else None)"

definition parts_of :: "string \<Rightarrow> string \<Rightarrow> string \<Rightarrow> string \<Rightarrow> string \<Rightarrow> string \<Rightarrow> int option" where
  "parts_of y mo d h mi s =
     Option.bind (digits y) (\<lambda>y. Option.bind (digits mo) (\<lambda>mo. Option.bind (digits d) (\<lambda>d.
     Option.bind (digits h) (\<lambda>h. Option.bind (digits mi) (\<lambda>mi. Option.bind (digits s) (\<lambda>s.
       unix_from_parts y mo d h mi s))))))"

text \<open>What may follow the seconds: an optional fraction, then a zone.\<close>

definition skip_fraction :: "string \<Rightarrow> string option" where
  "skip_fraction rest =
     (case strip_prefix ''.'' rest of
        None \<Rightarrow> Some rest
      | Some frac \<Rightarrow>
          if takeWhile is_ascii_digit frac = [] then None else Some (dropWhile is_ascii_digit frac))"

definition zone_offset :: "string \<Rightarrow> int option" where
  "zone_offset rest =
     (if rest = ''Z'' then Some 0
      else case rest of
        [sg, h1, h2, c, m1, m2] \<Rightarrow>
          if (sg = CHR ''+'' \<or> sg = CHR ''-'') \<and> c = CHR '':'' then
            Option.bind (digits [h1, h2]) (\<lambda>h. Option.bind (digits [m1, m2]) (\<lambda>m.
              if h > 23 \<or> m > 59 then None
              else let off = h * 3600 + m * 60 in Some (if sg = CHR ''+'' then off else - off)))
          else None
      | _ \<Rightarrow> None)"

definition parse_rfc3339_secs :: "string \<Rightarrow> int option" where
  "parse_rfc3339_secs b =
     (if length b < 20 \<or> b ! 4 \<noteq> CHR ''-'' \<or> b ! 7 \<noteq> CHR ''-'' \<or> b ! 10 \<noteq> CHR ''T''
         \<or> b ! 13 \<noteq> CHR '':'' \<or> b ! 16 \<noteq> CHR '':'' then None
      else Option.bind (parts_of (slice b 0 4) (slice b 5 7) (slice b 8 10) (slice b 11 13) (slice b 14 16) (slice b 17 19)) (\<lambda>base.
        Option.bind (skip_fraction (drop 19 b)) (\<lambda>rest.
        Option.bind (zone_offset rest) (\<lambda>offset. Some (base - offset)))))"

definition parse_generalized_time :: "string \<Rightarrow> int option" where
  "parse_generalized_time b =
     (if length b < 15 \<or> last b \<noteq> CHR ''Z'' then None
      else let (whole, frac) = (case split_once (CHR ''.'') (butlast b) of Some (w, f) \<Rightarrow> (w, Some f) | None \<Rightarrow> (butlast b, None))
        in if length whole \<noteq> 14 \<or> is_some_and (\<lambda>f. f = [] \<or> \<not> list_all is_ascii_digit f) frac then None
           else parts_of (slice whole 0 4) (slice whole 4 6) (slice whole 6 8) (slice whole 8 10) (slice whole 10 12) (slice whole 12 14))"

section \<open>Dates and days are inverse\<close>

lemma sdiv_nonneg: "0 \<le> a \<Longrightarrow> 0 \<le> b \<Longrightarrow> a sdiv b = a div b" for a b :: int
  by (cases "b = 0") (simp_all add: signed_divide_int_def sgn_if)

lemma smod_nonneg: "0 \<le> a \<Longrightarrow> 0 \<le> b \<Longrightarrow> a smod b = a mod b" for a b :: int
  by (cases "a = 0") (simp_all add: signed_modulo_int_def sgn_if)

text \<open>The correction of a negative number before a truncating division gives the floor.\<close>

lemma sdiv_floor:
  fixes z k :: int
  assumes "0 < k"
  shows "(if z \<ge> 0 then z else z - (k - 1)) sdiv k = z div k"
proof (cases "z \<ge> 0")
  case True
  with assms show ?thesis by (simp add: sdiv_nonneg)
next
  case False
  have "(z - (k - 1)) sdiv k = - ((k - 1 - z) div k)"
    using assms False by (simp add: signed_divide_int_def sgn_if abs_if)
  also have "(k - 1 - z) div k = - (z div k)"
  proof -
    have "0 \<le> z mod k" "z mod k < k" using assms by simp_all
    then show ?thesis by (intro int_div_pos_eq [where r = "k - 1 - z mod k"]) (simp_all add: algebra_simps)
  qed
  finally show ?thesis using False by simp
qed

text \<open>Years of an era start on March 1. The years of an era are finite: the formulas are evaluated at both
  ends of every year. Within a year they are linear on each of the twelve months.\<close>

definition year_start :: "int \<Rightarrow> int" where
  "year_start y = 365 * y + y div 4 - y div 100"

definition year_end :: "int \<Rightarrow> int" where
  "year_end y = (if y = 399 then 146097 else year_start (y + 1))"

definition year_index :: "int \<Rightarrow> int" where
  "year_index n = n - n div 1460 + n div 36524 - n div 146096"

lemma year_ends:
  "list_all (\<lambda>y. year_index (year_start y) div 365 = y \<and> year_index (year_end y - 1) div 365 = y
     \<and> year_start y < year_end y) [0..399]"
  by code_simp

lemma year_index_step:
  assumes "0 \<le> n" "n < 146096"
  shows "year_index n \<le> year_index (n + 1)"
proof (cases "n = 146095")
  case True
  then show ?thesis by (simp add: year_index_def)
next
  case False
  with assms have "n div 146096 = 0" "(n + 1) div 146096 = 0" by simp_all
  moreover have "(n + 1) div 1460 \<le> n div 1460 + 1"
  proof -
    have "(n + 1) div 1460 \<le> (n + 1460) div 1460" by (rule zdiv_mono1) simp_all
    also have "\<dots> = n div 1460 + 1" by (rule div_add_self2) simp
    finally show ?thesis .
  qed
  moreover have "n div 36524 \<le> (n + 1) div 36524"
    by (rule zdiv_mono1) simp_all
  moreover have "n - a + b - 0 \<le> n + 1 - a' + b' - 0" if "a' \<le> a + 1" "b \<le> b'" for a a' b b' :: int
    using that by linarith
  ultimately show ?thesis unfolding year_index_def by presburger
qed

lemma year_index_mono:
  assumes "a \<le> b" "0 \<le> a" "b \<le> 146096"
  shows "year_index a \<le> year_index b"
  using assms
proof (induction b rule: int_ge_induct)
  case (step b)
  then show ?case using year_index_step [of b] by simp
qed simp

lemma year_facts:
  assumes "0 \<le> y" "y \<le> 399"
  shows "year_index (year_start y) div 365 = y" "year_index (year_end y - 1) div 365 = y" "0 \<le> year_start y" "year_end y \<le> 146097"
proof -
  have y: "y \<in> set [0..399]" using assms by simp
  show "year_index (year_start y) div 365 = y" "year_index (year_end y - 1) div 365 = y"
    using year_ends y unfolding list_all_iff by blast+
  have "list_all (\<lambda>y. 0 \<le> year_start y \<and> year_end y \<le> 146097) [0..399]" by code_simp
  then show "0 \<le> year_start y" "year_end y \<le> 146097" using y unfolding list_all_iff by blast+
qed

lemma year_of_day:
  assumes "0 \<le> y" "y \<le> 399" "year_start y \<le> n" "n < year_end y"
  shows "year_index n div 365 = y"
proof (rule antisym)
  note y = year_facts [OF assms(1,2)]
  have "year_index n \<le> year_index (year_end y - 1)" using assms y by (intro year_index_mono) simp_all
  from zdiv_mono1 [OF this, of 365] y(2) show "year_index n div 365 \<le> y" by simp
  have "year_index (year_start y) \<le> year_index n" using assms y by (intro year_index_mono) simp_all
  from zdiv_mono1 [OF this, of 365] y(1) show "y \<le> year_index n div 365" by simp
qed

lemma year_exists_upto:
  assumes "0 \<le> k" "k \<le> 399" "0 \<le> n" "n < year_end k"
  shows "\<exists>y. 0 \<le> y \<and> y \<le> k \<and> year_start y \<le> n \<and> n < year_end y"
  using assms
proof (induction k rule: int_ge_induct)
  case base
  then show ?case by (intro exI [of _ 0]) (simp add: year_start_def)
next
  case (step k)
  show ?case
  proof (cases "n < year_end k")
    case True
    with step show ?thesis by force
  next
    case False
    with step have "year_start (k + 1) \<le> n" by (simp add: year_end_def)
    with step show ?thesis by (intro exI [of _ "k + 1"]) simp
  qed
qed

lemma year_exists:
  assumes "0 \<le> n" "n < 146097"
  obtains y where "0 \<le> y" "y \<le> 399" "year_start y \<le> n" "n < year_end y"
  using year_exists_upto [of 399 n] assms by (auto simp: year_end_def)

section \<open>Months\<close>

definition month_of :: "int \<Rightarrow> int" where
  "month_of doy = (let mp = (5 * doy + 2) div 153 in if mp < 10 then mp + 3 else mp - 9)"

definition day_of :: "int \<Rightarrow> int" where
  "day_of doy = doy - (153 * ((5 * doy + 2) div 153) + 2) div 5 + 1"

definition day_index :: "int \<Rightarrow> int \<Rightarrow> int" where
  "day_index m d = (153 * (if m > 2 then m - 3 else m + 9) + 2) div 5 + d - 1"

definition month_length :: "bool \<Rightarrow> int \<Rightarrow> int" where
  "month_length leap m = (if m \<in> {1, 3, 5, 7, 8, 10, 12} then 31 else if m \<in> {4, 6, 9, 11} then 30 else if leap then 29 else 28)"

lemma month_table:
  assumes "0 \<le> doy" "doy < (if leap then 366 else 365)"
  shows "day_index (month_of doy) (day_of doy) = doy \<and> 1 \<le> month_of doy \<and> month_of doy \<le> 12 \<and>
    1 \<le> day_of doy \<and> day_of doy \<le> month_length leap (month_of doy)"
proof -
  define k where "k = (5 * doy + 2) div 153"
  have b: "153 * k \<le> 5 * doy + 2" "5 * doy + 2 < 153 * k + 153" unfolding k_def by linarith+
  have le: "doy \<le> 365" using assms by (auto split: if_splits)
  have "0 \<le> k" "k \<le> 11" using b assms(1) le by linarith+
  then have "k \<in> {0, 1, 2, 3, 4, 5, 6, 7, 8, 9, 10, 11}" unfolding insert_iff empty_iff by presburger
  then show ?thesis
    using b assms le unfolding month_of_def day_of_def day_index_def k_def [symmetric] month_length_def Let_def
    by (elim insertE emptyE; hypsubst; simp split: if_splits; linarith?)
qed

lemma month_facts:
  assumes "0 \<le> doy" "doy < (if leap then 366 else 365)"
  shows "day_index (month_of doy) (day_of doy) = doy" "1 \<le> month_of doy" "month_of doy \<le> 12"
    "1 \<le> day_of doy" "day_of doy \<le> month_length leap (month_of doy)"
  using month_table [OF assms] by blast+

lemma date_table:
  assumes "1 \<le> m" "m \<le> 12" "1 \<le> d" "d \<le> month_length leap m"
  shows "0 \<le> day_index m d \<and> day_index m d < (if leap then 366 else 365) \<and>
    month_of (day_index m d) = m \<and> day_of (day_index m d) = d"
proof -
  define k where "k = (if m > 2 then m - 3 else m + 9)"
  have "m \<in> {1, 2, 3, 4, 5, 6, 7, 8, 9, 10, 11, 12}" using assms(1,2) unfolding insert_iff empty_iff by presburger
  moreover have "(5 * day_index m d + 2) div 153 = k"
  proof -
    have "153 * k \<le> 5 * day_index m d + 2 \<and> 5 * day_index m d + 2 < 153 * k + 153"
      using calculation assms(3,4) unfolding day_index_def k_def [symmetric] month_length_def unfolding k_def
      by (elim insertE emptyE; hypsubst; simp split: if_splits; linarith?)
    then show ?thesis by linarith
  qed
  ultimately show ?thesis
    using assms(3,4) unfolding month_of_def day_of_def Let_def day_index_def month_length_def k_def
    by (elim insertE emptyE; hypsubst; simp split: if_splits; linarith?)
qed

lemma date_facts:
  assumes "1 \<le> m" "m \<le> 12" "1 \<le> d" "d \<le> month_length leap m"
  shows "0 \<le> day_index m d" "day_index m d < (if leap then 366 else 365)"
    "month_of (day_index m d) = m" "day_of (day_index m d) = d"
  using date_table [OF assms] by blast+

lemma year_length:
  assumes "0 \<le> y" "y \<le> 399"
  shows "year_end y - year_start y = (if is_leap_year (y + 1) then 366 else 365)"
proof -
  have "list_all (\<lambda>y. year_end y - year_start y = (if is_leap_year (y + 1) then 366 else 365)) [0..399]" by code_simp
  moreover have "y \<in> set [0..399]" using assms by simp
  ultimately show ?thesis unfolding list_all_iff by blast
qed

lemma smod_eq_0: "a smod b = 0 \<longleftrightarrow> b dvd a" for a b :: int
proof -
  have "\<bar>a\<bar> mod \<bar>b\<bar> = 0 \<longleftrightarrow> b dvd a" by (simp only: dvd_eq_mod_eq_0 [symmetric] abs_dvd_iff dvd_abs_iff)
  moreover have "sgn a = 0 \<longleftrightarrow> a = 0" by (rule sgn_0_0)
  ultimately show ?thesis unfolding signed_modulo_int_def mult_eq_0_iff by (metis dvd_0_right)
qed

lemma is_leap_year_era: "is_leap_year (y + 400 * e) \<longleftrightarrow> is_leap_year y"
proof -
  have "k dvd y + 400 * e \<longleftrightarrow> k dvd y" if "k dvd 400" for k :: int
    using that by (simp add: dvd_add_left_iff)
  then show ?thesis by (simp add: is_leap_year_def smod_eq_0)
qed

lemma days_in_month_length: "1 \<le> m \<Longrightarrow> m \<le> 12 \<Longrightarrow> days_in_month y m = month_length (is_leap_year y) m"
  by (simp add: days_in_month_def month_length_def)

lemma month_after_february:
  assumes "\<not> m \<le> 2" "m \<le> 12"
  shows "days_in_month y m = month_length leap m"
proof -
  have "m = 3 \<or> m = 4 \<or> m = 5 \<or> m = 6 \<or> m = 7 \<or> m = 8 \<or> m = 9 \<or> m = 10 \<or> m = 11 \<or> m = 12"
    using assms by presburger
  then show ?thesis by (auto simp: days_in_month_def month_length_def)
qed

section \<open>Round trips\<close>

text \<open>The definitions in terms of the floor and of the two tables.\<close>

lemma era_floor:
  "(if y \<ge> 0 then y else y - 399) sdiv 400 = y div 400" "(if z \<ge> 0 then z else z - 146096) sdiv 146097 = z div 146097" for y z :: int
proof -
  have "(400::int) - 1 = 399" "(146097::int) - 1 = 146096" by simp_all
  then show "(if y \<ge> 0 then y else y - 399) sdiv 400 = y div 400" "(if z \<ge> 0 then z else z - 146096) sdiv 146097 = z div 146097"
    using sdiv_floor [of 400 y] sdiv_floor [of 146097 z] by (metis zero_less_numeral)+
qed

lemma year_start_sdiv: "0 \<le> y \<Longrightarrow> y * 365 + y sdiv 4 - y sdiv 100 = year_start y"
  by (simp add: year_start_def sdiv_nonneg)

lemma days_from_civil_eq:
  assumes "1 \<le> m"
  shows "days_from_civil y m d =
     (let y = (if m \<le> 2 then y - 1 else y)
      in (y div 400) * 146097 + (year_start (y mod 400) + day_index m d) - 719468)"
proof -
  have month: "(153 * (if m > 2 then m - 3 else m + 9) + 2) sdiv 5 = (153 * (if m > 2 then m - 3 else m + 9) + 2) div 5"
    using assms by (intro sdiv_nonneg) simp_all
  have year: "z - z div 400 * 400 = z mod 400" "0 \<le> z mod 400" for z :: int by (simp_all add: minus_div_mult_eq_mod)
  show ?thesis
    unfolding days_from_civil_def Let_def era_floor month year(1) year_start_sdiv [OF year(2)] day_index_def
    by (simp only: add_diff_eq)
qed

lemma civil_from_days_eq:
  "civil_from_days z =
     (let era = (z + 719468) div 146097; doe = (z + 719468) mod 146097; yoe = year_index doe div 365;
          doy = doe - year_start yoe; y = yoe + era * 400
      in (if month_of doy \<le> 2 then y + 1 else y, month_of doy, day_of doy))"
  (is "_ = ?r")
proof -
  define era where "era = (z + 719468) div 146097"
  define doe where "doe = (z + 719468) mod 146097"
  have doe: "0 \<le> doe" "doe < 146097" "z + 719468 - era * 146097 = doe"
    by (simp_all add: doe_def era_def minus_div_mult_eq_mod)
  obtain y where y: "0 \<le> y" "y \<le> 399" "year_start y \<le> doe" "doe < year_end y" using year_exists [OF doe(1,2)] .
  have index: "doe - doe sdiv 1460 + doe sdiv 36524 - doe sdiv 146096 = year_index doe"
    using doe(1) by (simp add: year_index_def sdiv_nonneg)
  have pos: "0 \<le> year_index doe"
    using year_index_mono [of 0 doe] doe by (simp add: year_index_def)
  then have yoe: "year_index doe sdiv 365 = y" by (simp add: sdiv_nonneg year_of_day [OF y])
  have start: "365 * y + y sdiv 4 - y sdiv 100 = year_start y" using year_start_sdiv [OF y(1)] by (simp add: mult.commute)
  have doy: "0 \<le> 5 * (doe - year_start y) + 2" using y by simp
  have mp: "(5 * (doe - year_start y) + 2) sdiv 153 = (5 * (doe - year_start y) + 2) div 153" by (rule sdiv_nonneg [OF doy]) simp
  have "0 \<le> (5 * (doe - year_start y) + 2) div 153" using doy by (simp add: pos_imp_zdiv_nonneg_iff)
  then have day: "(153 * ((5 * (doe - year_start y) + 2) div 153) + 2) sdiv 5 = (153 * ((5 * (doe - year_start y) + 2) div 153) + 2) div 5"
    by (intro sdiv_nonneg) simp_all
  have "civil_from_days z = (if month_of (doe - year_start y) \<le> 2 then y + era * 400 + 1 else y + era * 400,
      month_of (doe - year_start y), day_of (doe - year_start y))"
    unfolding civil_from_days_def Let_def era_floor era_def [symmetric] doe(3) index yoe start mp day month_of_def day_of_def ..
  also have "\<dots> = ?r"
    unfolding Let_def era_def [symmetric] doe_def [symmetric] year_of_day [OF y] ..
  finally show ?thesis .
qed

text \<open>A date of the calendar.\<close>

definition valid_date :: "int \<Rightarrow> int \<Rightarrow> int \<Rightarrow> bool" where
  "valid_date y m d \<longleftrightarrow> 1 \<le> m \<and> m \<le> 12 \<and> 1 \<le> d \<and> d \<le> days_in_month y m"

lemma days_of_civil:
  assumes "civil_from_days z = (y, m, d)"
  shows "days_from_civil y m d = z" "valid_date y m d"
proof -
  define era where "era = (z + 719468) div 146097"
  define doe where "doe = (z + 719468) mod 146097"
  have doe: "0 \<le> doe" "doe < 146097" "era * 146097 + doe = z + 719468" by (simp_all add: doe_def era_def)
  obtain yoe where yoe: "0 \<le> yoe" "yoe \<le> 399" "year_start yoe \<le> doe" "doe < year_end yoe" using year_exists [OF doe(1,2)] .
  define doy where "doy = doe - year_start yoe"
  have parts: "(if month_of doy \<le> 2 then yoe + era * 400 + 1 else yoe + era * 400) = y" "month_of doy = m" "day_of doy = d"
    using assms
    unfolding civil_from_days_eq Let_def era_def [symmetric] doe_def [symmetric] year_of_day [OF yoe] doy_def [symmetric] prod.inject
    by blast+
  then have civil: "y = (if m \<le> 2 then yoe + era * 400 + 1 else yoe + era * 400)" "m = month_of doy" "d = day_of doy"
    by (simp_all only:)
  have doy: "0 \<le> doy" "doy < (if is_leap_year (yoe + 1) then 366 else 365)"
    using yoe year_length [OF yoe(1,2)] by (simp_all add: doy_def)
  note month = month_facts [OF doy]
  have shifted: "(if m \<le> 2 then y - 1 else y) = yoe + era * 400" using civil(1) by simp
  have split: "(yoe + era * 400) div 400 = era" "(yoe + era * 400) mod 400 = yoe" using yoe(1,2) by simp_all
  have m1: "1 \<le> m" using month(2) civil(2) by simp
  have "day_index m d = doy" using month(1) civil(2,3) by simp
  then have "days_from_civil y m d = era * 146097 + (year_start yoe + doy) - 719468"
    unfolding days_from_civil_eq [OF m1] Let_def shifted split by simp
  with doe(3) show "days_from_civil y m d = z" by (simp add: doy_def)
  have "days_in_month y m = month_length (is_leap_year (yoe + 1)) m"
  proof (cases "m \<le> 2")
    case True
    then have "y = (yoe + 1) + 400 * era" using civil(1) by simp
    then have "is_leap_year y \<longleftrightarrow> is_leap_year (yoe + 1)" by (simp only: is_leap_year_era)
    with month(2,3) civil(2) show ?thesis by (simp add: days_in_month_length)
  next
    case False
    with month(3) civil(2) show ?thesis by (intro month_after_february) simp_all
  qed
  with month civil show "valid_date y m d" by (simp add: valid_date_def)
qed

lemma civil_of_days:
  assumes "valid_date y m d"
  shows "civil_from_days (days_from_civil y m d) = (y, m, d)"
proof -
  define Y where "Y = (if m \<le> 2 then y - 1 else y)"
  define yoe where "yoe = Y mod 400"
  have m: "1 \<le> m" "m \<le> 12" "1 \<le> d" using assms by (simp_all add: valid_date_def)
  have yoe: "0 \<le> yoe" "yoe \<le> 399" and Y: "Y = yoe + Y div 400 * 400" by (simp_all add: yoe_def)
  have d: "d \<le> month_length (is_leap_year (yoe + 1)) m"
  proof (cases "m \<le> 2")
    case True
    then have "y = (yoe + 1) + 400 * (Y div 400)" using Y by (simp add: Y_def)
    then have "is_leap_year y \<longleftrightarrow> is_leap_year (yoe + 1)" by (metis is_leap_year_era)
    with assms m show ?thesis by (simp add: valid_date_def days_in_month_length)
  next
    case False
    then have "days_in_month y m = month_length (is_leap_year (yoe + 1)) m" using m(2) by (rule month_after_february)
    with assms show ?thesis by (simp add: valid_date_def)
  qed
  note date = date_facts [OF m d]
  define doe where "doe = year_start yoe + day_index m d"
  have range: "year_start yoe \<le> doe" "doe < year_end yoe"
    using date(1,2) year_length [OF yoe] by (simp_all add: doe_def)
  have doe: "0 \<le> doe" "doe < 146097" using range year_facts(3,4) [OF yoe] by simp_all
  have days: "days_from_civil y m d + 719468 = Y div 400 * 146097 + doe"
    by (simp add: days_from_civil_eq [OF m(1)] Y_def [symmetric] yoe_def [symmetric] doe_def Let_def)
  have split: "(days_from_civil y m d + 719468) div 146097 = Y div 400" "(days_from_civil y m d + 719468) mod 146097 = doe"
    using doe unfolding days by simp_all
  have "doe - year_start yoe = day_index m d" by (simp add: doe_def)
  moreover have "y = (if m \<le> 2 then Y + 1 else Y)" by (simp add: Y_def)
  ultimately show ?thesis
    unfolding civil_from_days_eq Let_def split year_of_day [OF yoe range] Y [symmetric]
    by (simp only: date(3,4))
qed

section \<open>Text round trip\<close>

lemma digits_value_zeros: "digits_value (replicate k (CHR ''0'') @ s) = digits_value s"
  by (induction k) (simp_all add: digits_value_def)

lemma length_show_nat: "n < 10 ^ Suc w \<Longrightarrow> length (show_nat n) \<le> Suc w"
proof (induction w arbitrary: n)
  case 0
  then show ?case by (simp add: show_nat.simps [of n])
next
  case (Suc w)
  then have "length (show_nat (n div 10)) \<le> Suc w" by (intro Suc.IH) (simp add: less_mult_imp_div_less)
  then show ?case by (simp add: show_nat.simps [of n])
qed

lemma pad_nat_facts:
  assumes "n < 10 ^ Suc w"
  shows "length (pad_nat (Suc w) n) = Suc w" "list_all is_ascii_digit (pad_nat (Suc w) n)" "digits_value (pad_nat (Suc w) n) = n"
  using length_show_nat [OF assms]
  by (auto simp: pad_nat_def digits_value_zeros list_all_iff is_ascii_digit_def dest: show_nat_digits)

lemma pad_int_digits:
  assumes "0 \<le> i" "i < 10 ^ Suc w" "Suc w \<le> 18"
  shows "length (pad_int (Suc w) i) = Suc w" "digits (pad_int (Suc w) i) = Some i"
proof -
  have n: "nat i < 10 ^ Suc w" using assms(1,2) by (simp add: nat_less_iff)
  have "(10::nat) ^ Suc w \<le> 10 ^ 18" using assms(3) by (rule power_increasing) simp
  with n have "nat i < 2 ^ 63" by simp
  with pad_nat_facts [OF n] assms(1)
  show "length (pad_int (Suc w) i) = Suc w" "digits (pad_int (Suc w) i) = Some i"
    by (auto simp: pad_int_def digits_def)
qed

lemma digits2: "0 \<le> i \<Longrightarrow> i < 100 \<Longrightarrow> length (pad_int 2 i) = 2 \<and> digits (pad_int 2 i) = Some i"
  using pad_int_digits [of i 1] by (simp add: numeral_2_eq_2)

lemma digits4: "0 \<le> i \<Longrightarrow> i < 10000 \<Longrightarrow> length (pad_int 4 i) = 4 \<and> digits (pad_int 4 i) = Some i"
  using pad_int_digits [of i 3] by (simp add: numeral_eq_Suc)

text \<open>The fixed layout: six fields of known width between fixed separators.\<close>

lemma layout_slices:
  assumes "length y = 4" "length mo = 2" "length d = 2" "length h = 2" "length mi = 2" "length s = 2"
  defines "b \<equiv> y @ ''-'' @ mo @ ''-'' @ d @ ''T'' @ h @ '':'' @ mi @ '':'' @ s @ ''Z''"
  shows "length b = 20" "b ! 4 = CHR ''-''" "b ! 7 = CHR ''-''" "b ! 10 = CHR ''T''" "b ! 13 = CHR '':''" "b ! 16 = CHR '':''"
    "slice b 0 4 = y" "slice b 5 7 = mo" "slice b 8 10 = d" "slice b 11 13 = h" "slice b 14 16 = mi" "slice b 17 19 = s"
    "drop 19 b = ''Z''"
  using assms by (simp_all add: b_def slice_def nth_append take_append drop_append)

lemma time_of_day:
  fixes s :: int
  assumes "0 \<le> s" "s < 86400"
  shows "s sdiv 3600 = s div 3600" "s sdiv 60 smod 60 = s div 60 mod 60" "s smod 60 = s mod 60"
    "s div 3600 * 3600 + s div 60 mod 60 * 60 + s mod 60 = s"
proof -
  show "s sdiv 3600 = s div 3600" "s smod 60 = s mod 60" using assms by (simp_all add: sdiv_nonneg smod_nonneg)
  have "s sdiv 60 = s div 60" "0 \<le> s div 60" using assms by (simp_all add: sdiv_nonneg pos_imp_zdiv_nonneg_iff)
  then show "s sdiv 60 smod 60 = s div 60 mod 60" by (simp add: smod_nonneg)
  have hours: "s div 3600 = s div 60 div 60" by (simp add: zdiv_zmult2_eq [of 60 s 60, simplified])
  have "q * 3600 + r * 60 = p * 60" if "q * 60 + r = p" for p q r :: int using that by auto
  from this [OF div_mult_mod_eq] show "s div 3600 * 3600 + s div 60 mod 60 * 60 + s mod 60 = s"
    unfolding hours by (simp only: div_mult_mod_eq)
qed

lemma zone_Z [simp]: "skip_fraction ''Z'' = Some ''Z''" "zone_offset ''Z'' = Some 0"
  by (simp_all add: skip_fraction_def zone_offset_def)

lemma parse_layout:
  assumes "0 \<le> y" "y \<le> 9999" "valid_date y m d" "0 \<le> h" "h < 24" "0 \<le> mi" "mi < 60" "0 \<le> s" "s < 60"
  shows "parse_rfc3339_secs (pad_int 4 y @ ''-'' @ pad_int 2 m @ ''-'' @ pad_int 2 d @ ''T''
      @ pad_int 2 h @ '':'' @ pad_int 2 mi @ '':'' @ pad_int 2 s @ ''Z'') =
    Some (days_from_civil y m d * 86400 + (h * 3600 + mi * 60 + s))"
proof -
  have date: "1 \<le> m" "m \<le> 12" "1 \<le> d" "d \<le> days_in_month y m" using assms(3) by (simp_all add: valid_date_def)
  have "days_in_month y m \<le> 31" by (simp add: days_in_month_def)
  with date have d: "d < 100" by simp
  have f: "length (pad_int 4 y) = 4 \<and> digits (pad_int 4 y) = Some y" "length (pad_int 2 m) = 2 \<and> digits (pad_int 2 m) = Some m"
    "length (pad_int 2 d) = 2 \<and> digits (pad_int 2 d) = Some d" "length (pad_int 2 h) = 2 \<and> digits (pad_int 2 h) = Some h"
    "length (pad_int 2 mi) = 2 \<and> digits (pad_int 2 mi) = Some mi" "length (pad_int 2 s) = 2 \<and> digits (pad_int 2 s) = Some s"
    using assms date d by (intro digits4 digits2; simp)+
  have "unix_from_parts y m d h mi s = Some (days_from_civil y m d * 86400 + (h * 3600 + mi * 60 + s))"
    using assms date by (simp add: unix_from_parts_def add.assoc)
  then show ?thesis
    unfolding parse_rfc3339_secs_def layout_slices [OF f [THEN conjunct1]] parts_of_def f [THEN conjunct2] by simp
qed

lemma rfc3339_round_trip:
  assumes civil: "civil_from_days (t div 86400) = (y, m, d)" and y: "0 \<le> y" "y \<le> 9999"
  shows "parse_rfc3339_secs (rfc3339_from_unix t) = Some t"
proof -
  define s where "s = t mod 86400"
  have s: "0 \<le> s" "s < 86400" by (simp_all add: s_def)
  note tod = time_of_day [OF s]
  have date: "days_from_civil y m d = t div 86400" "valid_date y m d" using days_of_civil [OF civil] by simp_all
  have "s div 3600 \<le> 86399 div 3600" using s(2) by (intro zdiv_mono1) simp_all
  then have h: "0 \<le> s div 3600" "s div 3600 < 24" using s(1) by (simp_all add: pos_imp_zdiv_nonneg_iff)
  have "rfc3339_from_unix t = pad_int 4 y @ ''-'' @ pad_int 2 m @ ''-'' @ pad_int 2 d @ ''T''
      @ pad_int 2 (s div 3600) @ '':'' @ pad_int 2 (s div 60 mod 60) @ '':'' @ pad_int 2 (s mod 60) @ ''Z''"
    unfolding rfc3339_from_unix_def civil Let_def s_def [symmetric] tod(1-3) by simp
  also have "parse_rfc3339_secs \<dots> = Some (t div 86400 * 86400 + (s div 3600 * 3600 + s div 60 mod 60 * 60 + s mod 60))"
    unfolding date(1) [symmetric] by (rule parse_layout [OF y date(2) h]) simp_all
  also have "t div 86400 * 86400 + (s div 3600 * 3600 + s div 60 mod 60 * 60 + s mod 60) = t"
    unfolding tod(4) unfolding s_def by (rule div_mult_mod_eq)
  finally show ?thesis .
qed

end
