(* ===== verification/Pii_Vault.thy ===== *)
theory Pii_Vault
  imports Complex_Main Civil_Time "HOL-Library.AList" "HOL-Library.Multiset"
begin

text \<open>
  The mapping vault of the privacy core (\<open>crates/cloakpipe-core/src\<close>): the shared types of \<open>lib.rs\<close>, the
  fuzzy resolver (\<open>resolver.rs\<close>), the format-preserving fakes (\<open>format_preserving.rs\<close>) and the vault itself
  (\<open>vault.rs\<close>), in memory and on disk.

  A \<open>HashMap\<close> is an association list with distinct keys; where the code iterates over one, the order is an
  argument \<open>ord\<close> of the definition, and the lemmas hold for every \<open>ord\<close>. An \<open>f64\<close> is its value, a rational
  (the scores and confidences are finite). Unicode case mapping and trimming, the \<open>strsim\<close> metric and the
  rounded addition are the fields of \<open>text_lib\<close>; AES-256-GCM and the JSON codec of the vault file are those of
  \<open>vault_io\<close>.
\<close>

section \<open>Entities and tokens\<close>

datatype entity_category = Person | Organization | Location | Amount | Percentage | Date | Email | PhoneNumber
  | IpAddress | Secret | Url | Project | Business | Infra | Custom string

datatype detection_source = PatternSource | FinancialSource | NerSource | CustomSource

record detected_entity =
  en_original :: string
  en_start :: nat
  en_end :: nat
  en_category :: entity_category
  en_confidence :: rat
  en_source :: detection_source

record pseudo_token =
  pt_token :: string
  pt_category :: entity_category
  pt_id :: nat

record text_lib =
  tl_lower :: "string \<Rightarrow> string"
  tl_upper :: "string \<Rightarrow> string"
  tl_trim :: "string \<Rightarrow> string"
  tl_jaro_winkler :: "string \<Rightarrow> string \<Rightarrow> rat"
  tl_add :: "rat \<Rightarrow> rat \<Rightarrow> rat"

section \<open>The fuzzy resolver\<close>

record resolver_config =
  rc_enabled :: bool
  rc_threshold :: rat
  rc_min_prefix_len :: nat
  rc_aliases :: "string list list"

definition default_resolver_config :: resolver_config where
  "default_resolver_config = \<lparr>rc_enabled = False, rc_threshold = 9 / 10, rc_min_prefix_len = 4, rc_aliases = []\<rparr>"

record entity_resolver =
  rv_config :: resolver_config
  rv_alias_map :: "(string \<times> string) list"

definition normalized :: "text_lib \<Rightarrow> string \<Rightarrow> string" where
  "normalized E s = tl_trim E (tl_lower E s)"

definition alias_entries :: "text_lib \<Rightarrow> string list \<Rightarrow> (string \<times> string) list" where
  "alias_entries E grp = (if length grp < 2 then [] else map (\<lambda>variant. (normalized E variant, hd grp)) grp)"

definition resolver_new :: "text_lib \<Rightarrow> resolver_config \<Rightarrow> entity_resolver" where
  "resolver_new E config = \<lparr>rv_config = config, rv_alias_map =
     fold (\<lambda>(variant, canonical). AList.update variant canonical) (concat (map (alias_entries E) (rc_aliases config))) []\<rparr>"

definition similarity :: "text_lib \<Rightarrow> entity_resolver \<Rightarrow> string \<Rightarrow> string \<Rightarrow> rat" where
  "similarity E r a b =
    (let a_lower = tl_lower E a; b_lower = tl_lower E b;
         score = tl_jaro_winkler E a_lower b_lower;
         shorter = min (length a_lower) (length b_lower);
         score = (if rc_min_prefix_len (rv_config r) \<le> shorter \<and> (prefix b_lower a_lower \<or> prefix a_lower b_lower)
                  then tl_add E score (8 / 100) else score)
     in min score 1)"

text \<open>One round of the search for the best match: the score has to beat the best one so far and to reach the
  threshold.\<close>

definition better_match :: "text_lib \<Rightarrow> entity_resolver \<Rightarrow> string \<Rightarrow> entity_category \<Rightarrow>
    string \<times> entity_category \<Rightarrow> string option \<times> rat \<Rightarrow> string option \<times> rat" where
  "better_match E r original category entry best =
    (if snd entry \<noteq> category \<or> fst entry = original then best
     else let score = similarity E r original (fst entry) in
       if snd best < score \<and> rc_threshold (rv_config r) \<le> score then (Some (fst entry), score) else best)"

definition resolve :: "text_lib \<Rightarrow> entity_resolver \<Rightarrow> string \<Rightarrow> entity_category \<Rightarrow>
    (string \<times> entity_category) list \<Rightarrow> string option" where
  "resolve E r original category existing =
    (if \<not> rc_enabled (rv_config r) then None
     else case map_of (rv_alias_map r) (normalized E original) of
       Some canonical \<Rightarrow> Some canonical
     | None \<Rightarrow> fst (fold (better_match E r original category) existing (None, 0)))"

section \<open>Format-preserving fakes\<close>

definition rupee_sign :: string where "rupee_sign = [CHR 0xE2, CHR 0x82, CHR 0xB9]"
definition euro_sign :: string where "euro_sign = [CHR 0xE2, CHR 0x82, CHR 0xAC]"
definition pound_sign :: string where "pound_sign = [CHR 0xC2, CHR 0xA3]"

definition fake_phone :: "string \<Rightarrow> nat \<Rightarrow> string" where
  "fake_phone original n =
    (if starts_with ''+91'' original \<or> contains_str ''91 '' original
     then ''+91 '' @ pad_nat 5 (55500 + n mod 99999) @ '' '' @ pad_nat 5 (10000 + n * 7 mod 89999)
     else if starts_with ''+1'' original \<or> starts_with ''1-'' original
     then ''+1-555-'' @ pad_nat 3 (100 + n mod 899) @ ''-'' @ pad_nat 4 (1000 + n * 3 mod 8999)
     else pad_nat 10 (5550000000 + n * 13 mod 9999999))"

definition fake_aadhaar :: "nat \<Rightarrow> string" where
  "fake_aadhaar n = pad_nat 4 (5555 + n mod 4444) @ '' '' @ pad_nat 4 (1000 + n * 7 mod 8999) @ '' ''
     @ pad_nat 4 (1000 + n * 13 mod 8999)"

definition pan_letters :: string where "pan_letters = ''ABCDEFGHJKLMNPQRSTUVWXYZ''"

definition pan_letter :: "nat \<Rightarrow> nat \<Rightarrow> char" where
  "pan_letter n i = pan_letters ! ((n + i * 7) mod length pan_letters)"

definition fake_pan :: "nat \<Rightarrow> string" where
  "fake_pan n = map (pan_letter n) [0..<5]
     @ concat (map show_nat [n mod 10, n div 10 mod 10, n div 100 mod 10, n div 1000 mod 10]) @ [pan_letter n 5]"

definition fake_gstin :: "nat \<Rightarrow> string" where
  "fake_gstin n = pad_nat 2 (n mod 36 + 1) @ fake_pan n @ ''1ZV''"

definition cents :: "nat \<Rightarrow> string" where
  "cents n = show_nat (n div 100) @ ''.'' @ pad_nat 2 (n mod 100)"

definition fake_amount :: "text_lib \<Rightarrow> string \<Rightarrow> nat \<Rightarrow> string" where
  "fake_amount E original num =
    (let n = num * 1234 + 100 in
     if contains_str rupee_sign original \<or> contains_str ''inr'' (tl_lower E original) then rupee_sign @ show_nat n
     else if contains_str ''$'' original then ''$'' @ cents n
     else if contains_str euro_sign original then euro_sign @ cents n
     else if contains_str pound_sign original then pound_sign @ cents n
     else cents n)"

definition secret_alphabet :: string where "secret_alphabet = ''ABCDEFGHJKLMNPQRSTUVWXYZ0123456789''"

definition fake_secret :: "string \<Rightarrow> nat \<Rightarrow> string" where
  "fake_secret original num =
    (case find (\<lambda>p. starts_with p original) [''sk-'', ''pk-'', ''AKIA'', ''Bearer '', ''ghp_'', ''glpat-''] of
       Some p \<Rightarrow> p @ map (\<lambda>i. secret_alphabet ! ((num + i * 7) mod length secret_alphabet))
                        [0..<min (length original - length p) 20]
     | None \<Rightarrow> ''MASKED-SECRET-'' @ pad_nat 4 num)"

fun fp_prefix :: "entity_category \<Rightarrow> string" where
  "fp_prefix Person = ''PERSON''" | "fp_prefix Organization = ''ORG''" | "fp_prefix Location = ''LOC''"
| "fp_prefix Amount = ''AMOUNT''" | "fp_prefix Percentage = ''PCT''" | "fp_prefix Date = ''DATE''"
| "fp_prefix Email = ''EMAIL''" | "fp_prefix PhoneNumber = ''PHONE''" | "fp_prefix IpAddress = ''IP''"
| "fp_prefix Secret = ''SECRET''" | "fp_prefix Url = ''URL''" | "fp_prefix Project = ''PROJECT''"
| "fp_prefix Business = ''BUSINESS''" | "fp_prefix Infra = ''INFRA''" | "fp_prefix (Custom _) = ''CUSTOM''"

definition fake_custom :: "string \<Rightarrow> nat \<Rightarrow> string" where
  "fake_custom name n =
    (if name \<in> {''AADHAAR'', ''AADHAAR_NUMBER''} then fake_aadhaar n
     else if name \<in> {''PAN'', ''PAN_CARD''} then fake_pan n
     else if name = ''GSTIN'' then fake_gstin n
     else if name \<in> {''UPI'', ''UPI_ID''} then ''user'' @ pad_nat 3 n @ ''@okmasked''
     else name @ ''-'' @ pad_nat 3 n)"

definition generate :: "text_lib \<Rightarrow> string \<Rightarrow> entity_category \<Rightarrow> nat \<Rightarrow> string" where
  "generate E original category num = (case category of
      PhoneNumber \<Rightarrow> fake_phone original num
    | Email \<Rightarrow> ''user'' @ pad_nat 3 num @ ''@masked.invalid''
    | IpAddress \<Rightarrow> ''10.'' @ show_nat (num div 256 mod 256) @ ''.'' @ show_nat (num mod 256) @ ''.1''
    | Amount \<Rightarrow> fake_amount E original num
    | Date \<Rightarrow> ''DATE_'' @ pad_nat 3 num
    | Url \<Rightarrow> ''https://masked-'' @ pad_nat 3 num @ ''.invalid''
    | Secret \<Rightarrow> fake_secret original num
    | Person \<Rightarrow> ''User-'' @ pad_nat 3 num
    | Organization \<Rightarrow> ''Org-'' @ pad_nat 3 num
    | Location \<Rightarrow> ''Location-'' @ pad_nat 3 num
    | Custom name \<Rightarrow> fake_custom (tl_upper E name) num
    | _ \<Rightarrow> fp_prefix category @ ''-'' @ pad_nat 3 num)"

section \<open>The vault in memory\<close>

record vault =
  va_forward :: "(string \<times> pseudo_token) list"
  va_reverse :: "(string \<times> string) list"
  va_counters :: "(string \<times> nat) list"
  va_path :: "string option"
  va_key :: string
  va_resolver :: "entity_resolver option"

definition empty_vault :: "string option \<Rightarrow> string \<Rightarrow> vault" where
  "empty_vault path key = \<lparr>va_forward = [], va_reverse = [], va_counters = [], va_path = path, va_key = key,
     va_resolver = None\<rparr>"

definition set_resolver :: "vault \<Rightarrow> entity_resolver \<Rightarrow> vault" where
  "set_resolver v r = v\<lparr>va_resolver := Some r\<rparr>"

fun category_prefix :: "text_lib \<Rightarrow> entity_category \<Rightarrow> string" where
  "category_prefix E Person = ''PERSON''"
| "category_prefix E Organization = ''ORG''"
| "category_prefix E Location = ''LOC''"
| "category_prefix E Amount = ''AMOUNT''"
| "category_prefix E Percentage = ''PCT''"
| "category_prefix E Date = ''DATE''"
| "category_prefix E Email = ''EMAIL''"
| "category_prefix E PhoneNumber = ''PHONE''"
| "category_prefix E IpAddress = ''IP''"
| "category_prefix E Secret = ''SECRET''"
| "category_prefix E Url = ''URL''"
| "category_prefix E Project = ''PROJECT''"
| "category_prefix E Business = ''BIZ''"
| "category_prefix E Infra = ''INFRA''"
| "category_prefix E (Custom name) = tl_upper E name"

type_synonym hash_order = "(string \<times> pseudo_token) list \<Rightarrow> (string \<times> pseudo_token) list"

text \<open>The first two steps of both lookups: the exact match, then the token of the canonical form the resolver
  finds, which is stored as an alias of it.\<close>

definition known_token :: "text_lib \<Rightarrow> hash_order \<Rightarrow> vault \<Rightarrow> string \<Rightarrow> entity_category \<Rightarrow> (vault \<times> pseudo_token) option" where
  "known_token E ord v original category =
    (case map_of (va_forward v) original of
       Some t \<Rightarrow> Some (v, t)
     | None \<Rightarrow> (case va_resolver v of
         None \<Rightarrow> None
       | Some r \<Rightarrow>
         let existing = map (\<lambda>(k, t). (k, pt_category t)) (ord (va_forward v)) in
         case resolve E r original category existing of
           None \<Rightarrow> None
         | Some canonical \<Rightarrow> (case map_of (va_forward v) canonical of
             None \<Rightarrow> None
           | Some t \<Rightarrow> Some (v\<lparr>va_forward := AList.update original t (va_forward v)\<rparr>, t))))"

text \<open>\<open>*counter += 1\<close> on a \<open>u32\<close>, at its width.\<close>

definition bump :: "vault \<Rightarrow> string \<Rightarrow> vault \<times> nat" where
  "bump v p =
    (let n = ((case map_of (va_counters v) p of None \<Rightarrow> 0 | Some c \<Rightarrow> c) + 1) mod 2 ^ 32
     in (v\<lparr>va_counters := AList.update p n (va_counters v)\<rparr>, n))"

definition store_token :: "vault \<Rightarrow> string \<Rightarrow> pseudo_token \<Rightarrow> vault" where
  "store_token v original t = v\<lparr>va_forward := AList.update original t (va_forward v),
     va_reverse := AList.update (pt_token t) original (va_reverse v)\<rparr>"

definition get_or_create :: "text_lib \<Rightarrow> hash_order \<Rightarrow> vault \<Rightarrow> string \<Rightarrow> entity_category \<Rightarrow> vault \<times> pseudo_token" where
  "get_or_create E ord v original category =
    (case known_token E ord v original category of
       Some found \<Rightarrow> found
     | None \<Rightarrow>
       let p = category_prefix E category; (v', n) = bump v p;
           t = \<lparr>pt_token = p @ ''_'' @ show_nat n, pt_category = category, pt_id = n\<rparr>
       in (store_token v' original t, t))"

definition get_or_create_fp :: "text_lib \<Rightarrow> hash_order \<Rightarrow> vault \<Rightarrow> string \<Rightarrow> entity_category \<Rightarrow> vault \<times> pseudo_token" where
  "get_or_create_fp E ord v original category =
    (case known_token E ord v original category of
       Some found \<Rightarrow> found
     | None \<Rightarrow>
       let p = category_prefix E category; (v', n) = bump v p;
           t = \<lparr>pt_token = generate E original category n, pt_category = category, pt_id = n\<rparr>
       in (store_token v' original t, t))"

definition contains_original :: "vault \<Rightarrow> string \<Rightarrow> bool" where
  "contains_original v s \<longleftrightarrow> map_of (va_forward v) s \<noteq> None"

definition vault_lookup :: "vault \<Rightarrow> string \<Rightarrow> string option" where
  "vault_lookup v token = map_of (va_reverse v) token"

definition reverse_mappings :: "vault \<Rightarrow> (string \<times> string) list" where
  "reverse_mappings v = va_reverse v"

record vault_stats =
  vs_total_mappings :: nat
  vs_categories :: "(string \<times> nat) list"

definition stats :: "vault \<Rightarrow> vault_stats" where
  "stats v = \<lparr>vs_total_mappings = length (va_forward v), vs_categories = va_counters v\<rparr>"

section \<open>The vault on disk\<close>

record stored_token =
  st_token :: string
  st_category :: entity_category
  st_id :: nat
  st_original :: string

record vault_data =
  vd_forward :: "(string \<times> stored_token) list"
  vd_counters :: "(string \<times> nat) list"

text \<open>AES-256-GCM under a key and a nonce, and the JSON codec of \<open>VaultData\<close>.\<close>

record vault_io =
  vi_seal :: "string \<Rightarrow> string \<Rightarrow> string \<Rightarrow> string"
  vi_unseal :: "string \<Rightarrow> string \<Rightarrow> string \<Rightarrow> string option"
  vi_to_vec :: "vault_data \<Rightarrow> string"
  vi_from_slice :: "string \<Rightarrow> vault_data option"

datatype vault_error = BadKeyLength | ReadFailed | DataTooShort | InvalidKey | DecryptionFailed | DeserializeFailed

type_synonym files = "string \<rightharpoonup> string"

definition to_vault_data :: "hash_order \<Rightarrow> vault \<Rightarrow> vault_data" where
  "to_vault_data ord v = \<lparr>vd_forward = map (\<lambda>(original, t). (original, \<lparr>st_token = pt_token t,
       st_category = pt_category t, st_id = pt_id t, st_original = original\<rparr>)) (ord (va_forward v)),
     vd_counters = va_counters v\<rparr>"

definition encrypt :: "vault_io \<Rightarrow> string \<Rightarrow> string \<Rightarrow> string \<Rightarrow> vault_error + string" where
  "encrypt io key nonce plaintext =
    (if length key \<noteq> 32 then Err InvalidKey else Ok (nonce @ vi_seal io key nonce plaintext))"

definition decrypt_bytes :: "vault_io \<Rightarrow> string \<Rightarrow> string \<Rightarrow> vault_error + string" where
  "decrypt_bytes io key data =
    (if length data < 12 then Err DataTooShort
     else if length key \<noteq> 32 then Err InvalidKey
     else ok_or DecryptionFailed (vi_unseal io key (take 12 data) (drop 12 data)))"

definition load_entry :: "string \<times> stored_token \<Rightarrow> (string \<times> pseudo_token) list \<times> (string \<times> string) list
    \<Rightarrow> (string \<times> pseudo_token) list \<times> (string \<times> string) list" where
  "load_entry row maps =
    (let stored = snd row; t = \<lparr>pt_token = st_token stored, pt_category = st_category stored, pt_id = st_id stored\<rparr>
     in (AList.update (st_original stored) t (fst maps), AList.update (st_token stored) (st_original stored) (snd maps)))"

definition vault_load :: "vault_io \<Rightarrow> files \<Rightarrow> string \<Rightarrow> string \<Rightarrow> vault_error + vault" where
  "vault_load io fs path key =
    rbind (ok_or ReadFailed (fs path)) (\<lambda>encrypted.
    rbind (decrypt_bytes io key encrypted) (\<lambda>json.
    rbind (ok_or DeserializeFailed (vi_from_slice io json)) (\<lambda>data.
    let (forward, reverse) = fold load_entry (vd_forward data) ([], []) in
    Ok \<lparr>va_forward = forward, va_reverse = reverse, va_counters = vd_counters data, va_path = Some path, va_key = key,
        va_resolver = None\<rparr>)))"

definition vault_open :: "vault_io \<Rightarrow> files \<Rightarrow> string \<Rightarrow> string \<Rightarrow> vault_error + vault" where
  "vault_open io fs path key =
    (if length key \<noteq> 32 then Err BadKeyLength
     else if fs path \<noteq> None then vault_load io fs path key
     else Ok (empty_vault (Some path) key))"

text \<open>\<open>save\<close> as the steps it takes on the file system, so that a crash between or inside them can be stated.\<close>

datatype save_step = WriteFile string string | RenameFile string string

definition tmp_path :: "string \<Rightarrow> string" where
  "tmp_path path = path @ ''.tmp''"

definition save_steps :: "vault_io \<Rightarrow> hash_order \<Rightarrow> string \<Rightarrow> vault \<Rightarrow> vault_error + save_step list" where
  "save_steps io ord nonce v =
    (case va_path v of
       None \<Rightarrow> Ok []
     | Some path \<Rightarrow>
       rbind (encrypt io (va_key v) nonce (vi_to_vec io (to_vault_data ord v))) (\<lambda>encrypted.
       Ok [WriteFile (tmp_path path) encrypted, RenameFile (tmp_path path) path]))"

fun run_step :: "save_step \<Rightarrow> files \<Rightarrow> files" where
  "run_step (WriteFile p bytes) fs = fs(p \<mapsto> bytes)"
| "run_step (RenameFile p q) fs = (case fs p of None \<Rightarrow> fs | Some bytes \<Rightarrow> (fs(q \<mapsto> bytes))(p := None))"

definition vault_save :: "vault_io \<Rightarrow> hash_order \<Rightarrow> string \<Rightarrow> vault \<Rightarrow> files \<Rightarrow> vault_error + files" where
  "vault_save io ord nonce v fs = rbind (save_steps io ord nonce v) (\<lambda>steps. Ok (fold run_step steps fs))"

text \<open>The file systems a crash may leave: after some whole steps, or in the middle of a write.\<close>

inductive crash_state :: "files \<Rightarrow> save_step list \<Rightarrow> files \<Rightarrow> bool" where
  crash_here: "crash_state fs steps fs"
| crash_inside: "prefix written bytes \<Longrightarrow> crash_state fs (WriteFile p bytes # steps) (fs(p \<mapsto> written))"
| crash_later: "crash_state (run_step s fs) steps fs' \<Longrightarrow> crash_state fs (s # steps) fs'"

section \<open>Tokens\<close>

definition token_name :: "string \<Rightarrow> nat \<Rightarrow> string" where
  "token_name p n = p @ ''_'' @ show_nat n"

lemma show_nat_no_underscore [simp]: "CHR ''_'' \<notin> set (show_nat n)"
  using show_nat_digits [of "CHR ''_''" n] by (auto simp: is_ascii_digit_def)

lemma token_name_inject [simp]: "token_name p n = token_name q m \<longleftrightarrow> p = q \<and> n = m"
proof
  assume "token_name p n = token_name q m"
  then have "rev (show_nat n) @ CHR ''_'' # rev p = rev (show_nat m) @ CHR ''_'' # rev q"
    unfolding token_name_def by (metis append.assoc append_Cons append_Nil rev.simps(2) rev_append rev_is_rev_conv rev_rev_ident)
  then have "split_once (CHR ''_'') (rev (show_nat n) @ CHR ''_'' # rev p) = Some (rev (show_nat m), rev q)" by simp
  then show "p = q \<and> n = m" by (simp del: rev_append)
qed simp

section \<open>The interface of a vault\<close>

text \<open>What the replacer relies on: a value that has a token keeps it, and asking for it changes nothing.\<close>

fun get_all :: "('v \<Rightarrow> string \<Rightarrow> entity_category \<Rightarrow> 'v \<times> pseudo_token) \<Rightarrow> 'v \<Rightarrow> (string \<times> entity_category) list
    \<Rightarrow> 'v \<times> pseudo_token list" where
  "get_all get v [] = (v, [])"
| "get_all get v ((x, c) # rs) = (let (v', t) = get v x c; (v'', ts) = get_all get v' rs in (v'', t # ts))"

locale token_vault =
  fixes get :: "'v \<Rightarrow> string \<Rightarrow> entity_category \<Rightarrow> 'v \<times> pseudo_token"
    and known :: "'v \<Rightarrow> string \<Rightarrow> pseudo_token option"
  assumes get_known: "known v x = Some t \<Longrightarrow> get v x c = (v, t)"
    and get_stores: "get v x c = (v', t) \<Longrightarrow> known v' x = Some t"
    and get_keeps: "get v x c = (v', t) \<Longrightarrow> known v y = Some u \<Longrightarrow> known v' y = Some u"
begin

lemma get_all_keeps: "get_all get v rs = (v', ts) \<Longrightarrow> known v y = Some u \<Longrightarrow> known v' y = Some u"
  by (induction rs arbitrary: v ts) (auto split: prod.splits, metis get_keeps)

lemma get_all_length: "get_all get v rs = (v', ts) \<Longrightarrow> length ts = length rs"
  by (induction rs arbitrary: v ts) (auto split: prod.splits)

lemma get_all_known:
  "get_all get v rs = (v', ts) \<Longrightarrow> i < length rs \<Longrightarrow> known v' (fst (rs ! i)) = Some (ts ! i)"
proof (induction rs arbitrary: v ts i)
  case (Cons r rs)
  obtain x c where r: "r = (x, c)" by (cases r)
  obtain w t where g: "get v x c = (w, t)" by (cases "get v x c")
  obtain ts' where rest: "get_all get w rs = (v', ts')" and ts: "ts = t # ts'"
    using Cons(2) by (auto simp: r g split: prod.splits)
  show ?case using Cons(1) [OF rest] Cons(3) get_all_keeps [OF rest get_stores [OF g]] by (cases i) (simp_all add: r ts)
qed simp

lemma get_all_idle: "(\<And>i. i < length rs \<Longrightarrow> known v (fst (rs ! i)) = Some (ts ! i)) \<Longrightarrow> length ts = length rs \<Longrightarrow>
    get_all get v rs = (v, ts)"
proof (induction rs arbitrary: ts)
  case (Cons r rs)
  obtain x c where r: "r = (x, c)" by (cases r)
  obtain t ts' where ts: "ts = t # ts'" using Cons(3) by (cases ts) auto
  have "known v x = Some t" using Cons(2) [of 0] by (simp add: r ts)
  moreover have "get_all get v rs = (v, ts')" using Cons(1) [of ts'] Cons(2) [of "Suc _"] Cons(3) by (simp add: ts)
  ultimately show ?case by (simp add: r ts get_known)
qed simp

lemma get_all_again: "get_all get v rs = (v', ts) \<Longrightarrow> get_all get v' rs = (v', ts)"
  using get_all_idle get_all_known get_all_length by blast

lemma consistent:
  assumes "get_all get v rs = (v', ts)" "i < length rs" "j < length rs" "fst (rs ! i) = fst (rs ! j)"
  shows "ts ! i = ts ! j"
  using get_all_known [OF assms(1,2)] get_all_known [OF assms(1,3)] assms(4) by simp

end

text \<open>And what the rehydrator relies on: as long as there is room for a new number, the token of a value leads
  back to a value that has this token.\<close>

locale reversible_vault = token_vault get known
  for get :: "'v \<Rightarrow> string \<Rightarrow> entity_category \<Rightarrow> 'v \<times> pseudo_token" and known :: "'v \<Rightarrow> string \<Rightarrow> pseudo_token option" +
  fixes origin :: "'v \<Rightarrow> string \<Rightarrow> string option"
    and ok :: "'v \<Rightarrow> bool"
    and room :: "'v \<Rightarrow> entity_category \<Rightarrow> nat \<Rightarrow> bool"
  assumes get_ok: "ok v \<Longrightarrow> room v c (Suc n) \<Longrightarrow> get v x c = (v', t) \<Longrightarrow> ok v'"
    and get_room: "room v d (Suc n) \<Longrightarrow> get v x c = (v', t) \<Longrightarrow> room v' d n"
    and ok_back: "ok v \<Longrightarrow> known v x = Some t \<Longrightarrow> \<exists>y. origin v (pt_token t) = Some y \<and> known v y = Some t"
begin

lemma get_all_ok:
  "ok v \<Longrightarrow> get_all get v rs = (v', ts) \<Longrightarrow> \<forall>c\<in>snd ` set rs. room v c (length rs) \<Longrightarrow> ok v'"
proof (induction rs arbitrary: v ts)
  case (Cons r rs)
  obtain x c where r: "r = (x, c)" by (cases r)
  obtain w t where g: "get v x c = (w, t)" by (cases "get v x c")
  obtain ts' where rest: "get_all get w rs = (v', ts')"
    using Cons(3) by (auto simp: r g split: prod.splits)
  have "\<forall>d\<in>snd ` set rs. room w d (length rs)" using get_room [OF _ g] Cons(4) by simp
  moreover have "ok w" using get_ok [OF Cons(2) _ g, of "length rs"] Cons(4) by (simp add: r)
  ultimately show ?case using Cons(1) rest by blast
qed simp

lemma distinct_tokens:
  assumes "ok v" "known v x = Some t" "known v y = Some u" "pt_token t = pt_token u"
  shows "t = u"
  using ok_back [OF assms(1,2)] ok_back [OF assms(1,3)] assms(4) by auto

end

section \<open>The vault keeps its promises\<close>

definition known_to :: "vault \<Rightarrow> string \<Rightarrow> pseudo_token option" where
  "known_to v x = map_of (va_forward v) x"

definition counter_of :: "vault \<Rightarrow> string \<Rightarrow> nat" where
  "counter_of v p = (case map_of (va_counters v) p of None \<Rightarrow> 0 | Some c \<Rightarrow> c)"

definition vault_ok :: "vault \<Rightarrow> bool" where
  "vault_ok v \<longleftrightarrow> distinct (map fst (va_forward v))
     \<and> (\<forall>t x. vault_lookup v t = Some x \<longrightarrow> (\<exists>p n. t = token_name p n \<and> n \<le> counter_of v p))
     \<and> (\<forall>s x. vault_lookup v s = Some x \<longrightarrow> (\<exists>t. known_to v x = Some t \<and> pt_token t = s))
     \<and> (\<forall>x t. known_to v x = Some t \<longrightarrow> (\<exists>y. vault_lookup v (pt_token t) = Some y \<and> known_to v y = Some t))"

definition vault_room :: "text_lib \<Rightarrow> vault \<Rightarrow> entity_category \<Rightarrow> nat \<Rightarrow> bool" where
  "vault_room E v c n \<longleftrightarrow> counter_of v (category_prefix E c) + n < 2 ^ 32"

lemma known_token_cases:
  assumes "known_token E ord v x c = Some (v', t)"
  obtains "v' = v" "known_to v x = Some t"
  | y where "known_to v x = None" "known_to v y = Some t" "v' = v\<lparr>va_forward := AList.update x t (va_forward v)\<rparr>"
  using assms unfolding known_token_def known_to_def Let_def by (auto split: option.splits)

lemma known_token_known: "known_to v x = Some t \<Longrightarrow> known_token E ord v x c = Some (v, t)"
  by (simp add: known_token_def known_to_def)

lemma known_token_None: "known_token E ord v x c = None \<Longrightarrow> known_to v x = None"
  by (auto simp: known_token_def known_to_def split: option.splits)

lemma bump_facts:
  assumes "bump v p = (v', n)"
  shows "known_to v' = known_to v" "vault_lookup v' = vault_lookup v" "va_resolver v' = va_resolver v"
    "n = (counter_of v p + 1) mod 2 ^ 32" "counter_of v' q = (if q = p then n else counter_of v q)"
  using assms unfolding bump_def Let_def counter_of_def [symmetric]
  by (auto simp: known_to_def vault_lookup_def counter_of_def update_conv' fun_eq_iff)

lemma store_token_facts [simp]:
  "known_to (store_token v x t) y = (if y = x then Some t else known_to v y)"
  "vault_lookup (store_token v x t) s = (if s = pt_token t then Some x else vault_lookup v s)"
  "counter_of (store_token v x t) p = counter_of v p" "va_resolver (store_token v x t) = va_resolver v"
  by (auto simp: store_token_def known_to_def vault_lookup_def counter_of_def update_conv')

lemma alias_facts [simp]:
  "known_to (v\<lparr>va_forward := AList.update x t (va_forward v)\<rparr>) y = (if y = x then Some t else known_to v y)"
  "vault_lookup (v\<lparr>va_forward := AList.update x t (va_forward v)\<rparr>) s = vault_lookup v s"
  "counter_of (v\<lparr>va_forward := AList.update x t (va_forward v)\<rparr>) p = counter_of v p"
  by (auto simp: known_to_def vault_lookup_def counter_of_def update_conv')

text \<open>Both lookups end in one of three ways.\<close>

lemma get_or_create_cases:
  assumes "get_or_create E ord v x c = (v', t)"
  obtains (same) "v' = v" "known_to v x = Some t"
  | (merged) y where "known_to v x = None" "known_to v y = Some t" "v' = v\<lparr>va_forward := AList.update x t (va_forward v)\<rparr>"
  | (fresh) w n where "known_to v x = None" "bump v (category_prefix E c) = (w, n)" "v' = store_token w x t"
      "t = \<lparr>pt_token = token_name (category_prefix E c) n, pt_category = c, pt_id = n\<rparr>"
proof (cases "known_token E ord v x c")
  case None
  obtain w n where b: "bump v (category_prefix E c) = (w, n)" by (cases "bump v (category_prefix E c)")
  show ?thesis using assms by (intro fresh [OF known_token_None [OF None] b])
    (auto simp: get_or_create_def None b Let_def token_name_def)
next
  case (Some found)
  with assms have "known_token E ord v x c = Some (v', t)" by (simp add: get_or_create_def)
  then show ?thesis by (rule known_token_cases) (use same merged in blast)+
qed

lemma get_or_create_fp_cases:
  assumes "get_or_create_fp E ord v x c = (v', t)"
  obtains (same) "v' = v" "known_to v x = Some t"
  | (merged) y where "known_to v x = None" "known_to v y = Some t" "v' = v\<lparr>va_forward := AList.update x t (va_forward v)\<rparr>"
  | (fresh) w n where "known_to v x = None" "bump v (category_prefix E c) = (w, n)" "v' = store_token w x t"
      "t = \<lparr>pt_token = generate E x c n, pt_category = c, pt_id = n\<rparr>"
proof (cases "known_token E ord v x c")
  case None
  obtain w n where b: "bump v (category_prefix E c) = (w, n)" by (cases "bump v (category_prefix E c)")
  show ?thesis using assms by (intro fresh [OF known_token_None [OF None] b])
    (auto simp: get_or_create_fp_def None b Let_def)
next
  case (Some found)
  with assms have "known_token E ord v x c = Some (v', t)" by (simp add: get_or_create_fp_def)
  then show ?thesis by (rule known_token_cases) (use same merged in blast)+
qed

interpretation fp_vault: token_vault "get_or_create_fp E ord" known_to
proof
  show "get_or_create_fp E ord v x c = (v, t)" if "known_to v x = Some t" for v x t c
    using that by (simp add: get_or_create_fp_def known_token_known)
  show "known_to v' x = Some t" if "get_or_create_fp E ord v x c = (v', t)" for v x c v' t
    using that by (cases rule: get_or_create_fp_cases) auto
  show "known_to v' y = Some u" if "get_or_create_fp E ord v x c = (v', t)" "known_to v y = Some u" for v x c v' t y u
    using that by (cases rule: get_or_create_fp_cases) (auto simp: bump_facts(1))
qed

lemma fresh_token_unused:
  assumes "vault_ok v" "counter_of v p < n"
  shows "vault_lookup v (token_name p n) = None"
  using assms unfolding vault_ok_def by (cases "vault_lookup v (token_name p n)") fastforce+

lemma get_or_create_ok:
  assumes ok: "vault_ok v" and room: "vault_room E v c (Suc m)" and get: "get_or_create E ord v x c = (v', t)"
  shows "vault_ok v'"
  using get
proof (cases rule: get_or_create_cases)
  case (merged y)
  have "\<exists>z. vault_lookup v' (pt_token u) = Some z \<and> known_to v' z = Some u" if "known_to v' a = Some u" for a u
  proof -
    have "\<exists>b. known_to v b = Some u" using that merged by (auto split: if_splits)
    with ok obtain z where "vault_lookup v (pt_token u) = Some z" "known_to v z = Some u" unfolding vault_ok_def by blast
    then show ?thesis using merged(1) by (intro exI [of _ z]) (auto simp: merged(3))
  qed
  moreover have "\<exists>p n. s = token_name p n \<and> n \<le> counter_of v' p" if "vault_lookup v' s = Some z" for s z
    using that ok unfolding vault_ok_def by (simp add: merged(3)) 
  moreover have "\<exists>u. known_to v' z = Some u \<and> pt_token u = s" if "vault_lookup v' s = Some z" for s z
    using that ok merged(1) unfolding vault_ok_def by (fastforce simp: merged(3))
  moreover have "distinct (map fst (va_forward v'))" using ok by (simp add: vault_ok_def merged(3) distinct_update)
  ultimately show ?thesis unfolding vault_ok_def by blast
next
  case (fresh w n)
  let ?p = "category_prefix E c"
  note b = bump_facts [OF fresh(2)]
  have n: "n = counter_of v ?p + 1" using b(4) room by (simp add: vault_room_def)
  have unused: "vault_lookup v (pt_token t) = None" using fresh_token_unused [OF ok, of ?p n] n fresh(4) by simp
  have name: "\<exists>p n. s = token_name p n \<and> n \<le> counter_of v' p" if "vault_lookup v' s = Some z" for s z
  proof (cases "s = pt_token t")
    case True
    then show ?thesis using fresh(4) by (auto simp: fresh(3) b(5))
  next
    case False
    with that have "vault_lookup v s = Some z" by (simp add: fresh(3) b(2))
    with ok obtain p k where "s = token_name p k" "k \<le> counter_of v p" unfolding vault_ok_def by blast
    then show ?thesis by (intro exI [of _ p] exI [of _ k]) (auto simp: fresh(3) b(5) n)
  qed
  have origins: "\<exists>z. vault_lookup v' (pt_token u) = Some z \<and> known_to v' z = Some u" if "known_to v' y = Some u" for y u
  proof (cases "y = x")
    case True
    with that show ?thesis by (simp add: fresh(3))
  next
    case False
    with that have "known_to v y = Some u" by (simp add: fresh(3) b(1))
    with ok obtain z where "vault_lookup v (pt_token u) = Some z" "known_to v z = Some u" unfolding vault_ok_def by blast
    then show ?thesis using unused fresh(1) by (intro exI [of _ z]) (auto simp: fresh(3) b(1,2))
  qed
  have stored: "\<exists>u. known_to v' z = Some u \<and> pt_token u = s" if "vault_lookup v' s = Some z" for s z
    using that ok fresh(1) unfolding vault_ok_def by (fastforce simp: fresh(3) b(1,2) split: if_splits)
  have "va_forward w = va_forward v" using fresh(2) by (auto simp: bump_def Let_def)
  then have "distinct (map fst (va_forward v'))" using ok by (simp add: vault_ok_def fresh(3) store_token_def distinct_update)
  with name origins stored show ?thesis unfolding vault_ok_def by blast
qed (use ok in simp)

interpretation file_vault: reversible_vault "get_or_create E ord" known_to vault_lookup vault_ok "vault_room E"
proof
  show "get_or_create E ord v x c = (v, t)" if "known_to v x = Some t" for v x t c
    using that by (simp add: get_or_create_def known_token_known)
  show "known_to v' x = Some t" if "get_or_create E ord v x c = (v', t)" for v x c v' t
    using that by (cases rule: get_or_create_cases) auto
  show "known_to v' y = Some u" if "get_or_create E ord v x c = (v', t)" "known_to v y = Some u" for v x c v' t y u
    using that by (cases rule: get_or_create_cases) (auto simp: bump_facts(1))
  show "vault_ok v'" if "vault_ok v" "vault_room E v c (Suc n)" "get_or_create E ord v x c = (v', t)" for v c n x v' t
    using that by (rule get_or_create_ok)
  show "vault_room E v' d n" if "vault_room E v d (Suc n)" "get_or_create E ord v x c = (v', t)" for v d n x c v' t
    using that(2)
  proof (cases rule: get_or_create_cases)
    case (fresh w m)
    then show ?thesis using that(1) mod_less_eq_dividend [of "counter_of v (category_prefix E c) + 1" "2 ^ 32"]
      by (auto simp: vault_room_def bump_facts(4,5) [OF fresh(2)])
  qed (use that(1) in \<open>auto simp: vault_room_def\<close>)
  show "\<exists>y. vault_lookup v (pt_token t) = Some y \<and> known_to v y = Some t" if "vault_ok v" "known_to v x = Some t" for v x t
    using that unfolding vault_ok_def by blast
qed

lemma known_token_plain: "va_resolver v = None \<Longrightarrow> known_token E ord v x c = map_option (\<lambda>t. (v, t)) (known_to v x)"
  by (simp add: known_token_def known_to_def split: option.split)

text \<open>Without a resolver no two values share a token, and the token of a value leads back to this very value.\<close>

definition exact_vault :: "vault \<Rightarrow> bool" where
  "exact_vault v \<longleftrightarrow> vault_ok v \<and> va_resolver v = None \<and> distinct (map fst (va_reverse v))
     \<and> (\<forall>x t. known_to v x = Some t \<longrightarrow> vault_lookup v (pt_token t) = Some x)"

lemma empty_vault_exact: "exact_vault (empty_vault path key)"
  by (simp add: exact_vault_def empty_vault_def vault_ok_def known_to_def vault_lookup_def)

lemma get_or_create_plain_cases:
  assumes "va_resolver v = None" "get_or_create E ord v x c = (v', t)"
  obtains (same) "v' = v" "known_to v x = Some t"
  | (fresh) w n where "known_to v x = None" "bump v (category_prefix E c) = (w, n)" "v' = store_token w x t"
      "t = \<lparr>pt_token = token_name (category_prefix E c) n, pt_category = c, pt_id = n\<rparr>"
proof (cases "known_to v x")
  case (Some u)
  with assms show ?thesis by (intro same) (auto simp: get_or_create_def known_token_plain)
next
  case None
  obtain w n where b: "bump v (category_prefix E c) = (w, n)" by fastforce
  show ?thesis using assms None by (intro fresh [OF None b]) (auto simp: get_or_create_def known_token_plain b Let_def token_name_def)
qed

lemma get_or_create_exact:
  assumes ok: "exact_vault v" and room: "vault_room E v c (Suc m)" and get: "get_or_create E ord v x c = (v', t)"
  shows "exact_vault v'"
proof -
  have v: "vault_ok v" "va_resolver v = None" using ok by (simp_all add: exact_vault_def)
  have vok: "vault_ok v'" by (rule get_or_create_ok [OF v(1) room get])
  from v(2) get show ?thesis
  proof (cases rule: get_or_create_plain_cases)
    case (fresh w n)
    let ?p = "category_prefix E c"
    note f = bump_facts [OF fresh(2)]
    have w: "va_reverse w = va_reverse v" using fresh(2) by (auto simp: bump_def Let_def)
    have "counter_of v ?p < n" using room f(4) by (simp add: vault_room_def)
    then have unused: "vault_lookup v (pt_token t) = None" using fresh_token_unused [OF v(1)] by (simp add: fresh(4))
    have "vault_lookup v' (pt_token u) = Some y" if "known_to v' y = Some u" for y u
    proof (cases "y = x")
      case True
      with that show ?thesis by (simp add: fresh(3))
    next
      case False
      then have "vault_lookup v (pt_token u) = Some y" using that ok by (simp add: fresh(3) f(1) exact_vault_def)
      then show ?thesis using unused by (auto simp: fresh(3) f(2))
    qed
    moreover have "va_resolver v' = None" by (simp add: fresh(3) f(3) v(2))
    moreover have "distinct (map fst (va_reverse v'))"
      using ok by (simp add: fresh(3) store_token_def w distinct_update exact_vault_def)
    ultimately show ?thesis using vok unfolding exact_vault_def by blast
  qed (use ok in simp)
qed

interpretation exact: reversible_vault "get_or_create E ord" known_to vault_lookup exact_vault "vault_room E"
proof
  show "exact_vault v'" if "exact_vault v" "vault_room E v c (Suc n)" "get_or_create E ord v x c = (v', t)" for v c n x v' t
    using that by (rule get_or_create_exact)
  show "vault_room E v' d n" if "vault_room E v d (Suc n)" "get_or_create E ord v x c = (v', t)" for v d n x c v' t
    using that by (rule file_vault.get_room)
  show "\<exists>y. vault_lookup v (pt_token t) = Some y \<and> known_to v y = Some t" if "exact_vault v" "known_to v x = Some t" for v x t
    using that by (auto simp: exact_vault_def)
qed

section \<open>Saving and loading\<close>

inductive_simps crash_state_simps: "crash_state fs [] fs'" "crash_state fs (RenameFile p q # steps) fs'"
  "crash_state fs (WriteFile p bytes # steps) fs'"

lemma tmp_path_neq [simp]: "tmp_path p \<noteq> p" "p \<noteq> tmp_path p"
  by (simp_all add: tmp_path_def)

lemma save_result:
  assumes "va_path v = Some path" "length (va_key v) = 32"
  shows "vault_save io ord nonce v fs = Ok ((fs(path \<mapsto> nonce @ vi_seal io (va_key v) nonce (vi_to_vec io (to_vault_data ord v))))
    (tmp_path path := None))"
  using assms by (simp add: vault_save_def save_steps_def encrypt_def fun_eq_iff)

lemma save_crash_safe:
  assumes "va_path v = Some path" "save_steps io ord nonce v = Ok steps" "crash_state fs steps fs'"
  shows "fs' path = fs path \<or> Ok fs' = vault_save io ord nonce v fs"
    and "q \<noteq> path \<Longrightarrow> q \<noteq> tmp_path path \<Longrightarrow> fs' q = fs q"
  using assms
  by (auto simp: save_steps_def vault_save_def crash_state_simps split: if_splits)

text \<open>Loading what was stored. A later row of the file wins over an earlier one with the same key.\<close>

definition row_token :: "string \<times> stored_token \<Rightarrow> string \<times> pseudo_token" where
  "row_token row = (st_original (snd row),
     \<lparr>pt_token = st_token (snd row), pt_category = st_category (snd row), pt_id = st_id (snd row)\<rparr>)"

definition row_origin :: "string \<times> stored_token \<Rightarrow> string \<times> string" where
  "row_origin row = (st_token (snd row), st_original (snd row))"

lemma load_entries:
  "fold load_entry rows maps = (fold (\<lambda>(k, v). AList.update k v) (map row_token rows) (fst maps),
     fold (\<lambda>(k, v). AList.update k v) (map row_origin rows) (snd maps))"
  by (induction rows arbitrary: maps) (simp_all add: load_entry_def row_token_def row_origin_def Let_def)

lemma map_of_updates: "map_of (fold (\<lambda>(k, v). AList.update k v) kvs m) = map_of m ++ map_of (rev kvs)"
  by (induction kvs arbitrary: m) (auto simp: update_conv' fun_eq_iff map_add_def split: option.splits)

lemma rows_of_vault:
  "map row_token (vd_forward (to_vault_data ord v)) = ord (va_forward v)"
  "map row_origin (vd_forward (to_vault_data ord v)) = map (\<lambda>(x, t). (pt_token t, x)) (ord (va_forward v))"
  by (auto simp: to_vault_data_def row_token_def row_origin_def comp_def case_prod_unfold intro!: map_idI)

lemma map_of_permuted:
  assumes "mset xs = mset ys" "distinct (map fst ys)"
  shows "map_of (rev xs) = map_of ys"
proof -
  have "distinct (map fst (rev xs))" using assms by (metis distinct_rev mset_eq_imp_distinct_iff mset_map rev_map)
  moreover have "set (rev xs) = set ys" using assms(1) by (metis set_mset_mset set_rev)
  ultimately show ?thesis using assms(2) by (intro map_of_inject_set [THEN iffD2]) simp_all
qed

definition aliased :: "vault \<Rightarrow> bool" where
  "aliased v \<longleftrightarrow> (\<exists>x t. known_to v x = Some t \<and> vault_lookup v (pt_token t) \<noteq> Some x)"

lemma restart_keeps_tokens:
  assumes ok: "vault_ok v" and path: "va_path v = Some path" and key: "length (va_key v) = 32"
    and ord: "mset (ord (va_forward v)) = mset (va_forward v)" and nonce: "length nonce = 12"
    and unseal: "vi_unseal io (va_key v) nonce (vi_seal io (va_key v) nonce (vi_to_vec io (to_vault_data ord v)))
      = Some (vi_to_vec io (to_vault_data ord v))"
    and codec: "vi_from_slice io (vi_to_vec io (to_vault_data ord v)) = Some (to_vault_data ord v)"
    and save: "vault_save io ord nonce v fs = Ok fs'"
  obtains v' where "vault_open io fs' path (va_key v) = Ok v'" "known_to v' = known_to v" "va_counters v' = va_counters v"
    "va_path v' = Some path" "va_key v' = va_key v"
    "vault_lookup v' = map_of (rev (map (\<lambda>(x, t). (pt_token t, x)) (ord (va_forward v))))"
proof -
  have bytes: "fs' path = Some (nonce @ vi_seal io (va_key v) nonce (vi_to_vec io (to_vault_data ord v)))"
    using save by (simp add: save_result [OF path key]) fastforce
  let ?maps = "fold load_entry (vd_forward (to_vault_data ord v)) ([], [])"
  let ?v = "\<lparr>va_forward = fst ?maps, va_reverse = snd ?maps, va_counters = va_counters v, va_path = Some path,
    va_key = va_key v, va_resolver = None\<rparr>"
  have "vault_open io fs' path (va_key v) = Ok ?v"
    by (simp add: vault_open_def vault_load_def bytes key nonce decrypt_bytes_def unseal codec case_prod_unfold)
      (simp add: to_vault_data_def Let_def)
  moreover have "known_to ?v = known_to v"
    using map_of_permuted [OF ord] ok by (simp add: known_to_def fun_eq_iff load_entries rows_of_vault map_of_updates vault_ok_def)
  moreover have "vault_lookup ?v = map_of (rev (map (\<lambda>(x, t). (pt_token t, x)) (ord (va_forward v))))"
    by (simp add: vault_lookup_def fun_eq_iff load_entries rows_of_vault map_of_updates)
  ultimately show ?thesis by (intro that [of ?v]) simp_all
qed

lemma reload_lookup:
  assumes ok: "vault_ok v" and plain: "\<not> aliased v" and ord: "mset (ord (va_forward v)) = mset (va_forward v)"
  shows "map_of (rev (map (\<lambda>(x, t). (pt_token t, x)) (ord (va_forward v)))) = vault_lookup v"
proof
  fix s
  let ?rows = "rev (map (\<lambda>(x, t). (pt_token t, x)) (ord (va_forward v)))"
  have "set (ord (va_forward v)) = set (va_forward v)" using ord by (metis set_mset_mset)
  then have rows: "(s, x) \<in> set ?rows \<longleftrightarrow> (\<exists>t. known_to v x = Some t \<and> pt_token t = s)" for x
    using ok by (auto simp: vault_ok_def known_to_def)
  show "map_of ?rows s = vault_lookup v s"
  proof (cases "map_of ?rows s")
    case None
    then have "\<not> (\<exists>x. (s, x) \<in> set ?rows)" unfolding map_of_eq_None_iff by force
    with rows ok show ?thesis unfolding None vault_ok_def by (cases "vault_lookup v s") (simp, blast)
  next
    case (Some x)
    then have "(s, x) \<in> set ?rows" by (rule map_of_SomeD)
    with rows plain show ?thesis unfolding Some aliased_def by metis
  qed
qed

end
