(* ===== verification/Pii_Text.thy ===== *)
theory Pii_Text
  imports Pii_Vault
begin

text \<open>
  Masking a text and putting the values back (\<open>crates/cloakpipe-core/src/replacer.rs\<close> and \<open>rehydrator.rs\<close>):
  the replacer over any vault, the rehydrator of a whole response and that of a stream of chunks. The lemmas
  here are about the replacer: it never panics on well-placed entities, its output is the text around the
  entities woven with their tokens, and two documents that differ by a renaming of their values are masked to
  the same text.
\<close>

section \<open>Slices, search and replacement\<close>

definition is_char_boundary :: "string \<Rightarrow> nat \<Rightarrow> bool" where
  "is_char_boundary s i \<longleftrightarrow> i = 0 \<or> i = length s \<or> i < length s \<and> \<not> is_utf8_continuation (s ! i)"

text \<open>\<open>&text[i..j]\<close>, or a panic.\<close>

definition str_slice :: "string \<Rightarrow> nat \<Rightarrow> nat \<Rightarrow> string option" where
  "str_slice s i j = (if i \<le> j \<and> j \<le> length s \<and> is_char_boundary s i \<and> is_char_boundary s j then Some (slice s i j) else None)"

text \<open>\<open>str::replace\<close>: the occurrences from the left that do not overlap; the empty pattern occurs at every
  character boundary.\<close>

fun replace_empty :: "string \<Rightarrow> string \<Rightarrow> string" where
  "replace_empty x [] = x"
| "replace_empty x (c # cs) = (if is_utf8_continuation c then c # replace_empty x cs else x @ c # replace_empty x cs)"

function replace_from_left :: "string \<Rightarrow> string \<Rightarrow> string \<Rightarrow> string" where
  "replace_from_left p x [] = []"
| "replace_from_left p x (c # cs) =
     (if p \<noteq> [] \<and> prefix p (c # cs) then x @ replace_from_left p x (drop (length p - 1) cs)
      else c # replace_from_left p x cs)"
  by pat_completeness auto
termination by (relation "measure (\<lambda>(_, _, s). length s)") auto

definition str_replace :: "string \<Rightarrow> string \<Rightarrow> string \<Rightarrow> string" where
  "str_replace p x s = (if p = [] then replace_empty x s else replace_from_left p x s)"

section \<open>The replacer\<close>

datatype masking_strategy = TokenStrategy | FormatPreserving

record pseudonymized_text =
  ps_text :: string
  ps_mappings :: "(string \<times> string) list"
  ps_entities :: "detected_entity list"

text \<open>The loop over the entities, and the text after the last one. \<open>None\<close> is a panic of a slice.\<close>

fun replace_entities :: "('v \<Rightarrow> string \<Rightarrow> entity_category \<Rightarrow> 'v \<times> pseudo_token) \<Rightarrow> string \<Rightarrow> nat \<Rightarrow> detected_entity list
    \<Rightarrow> string \<Rightarrow> (string \<times> string) list \<Rightarrow> 'v \<Rightarrow> (string \<times> (string \<times> string) list \<times> 'v) option" where
  "replace_entities get s last_end [] out maps v =
     (if last_end < length s
      then (case str_slice s last_end (length s) of None \<Rightarrow> None | Some rest \<Rightarrow> Some (out @ rest, maps, v))
      else Some (out, maps, v))"
| "replace_entities get s last_end (e # es) out maps v =
     (case (if last_end < en_start e then str_slice s last_end (en_start e) else Some []) of
        None \<Rightarrow> None
      | Some gap \<Rightarrow>
        let (v', t) = get v (en_original e) (en_category e) in
        replace_entities get s (en_end e) es (out @ gap @ pt_token t)
          (AList.update (pt_token t) (en_original e) maps) v')"

definition pseudonymize_by :: "('v \<Rightarrow> string \<Rightarrow> entity_category \<Rightarrow> 'v \<times> pseudo_token) \<Rightarrow> string \<Rightarrow> detected_entity list
    \<Rightarrow> 'v \<Rightarrow> (pseudonymized_text \<times> 'v) option" where
  "pseudonymize_by get s es v =
    map_option (\<lambda>(out, maps, v'). (\<lparr>ps_text = out, ps_mappings = maps, ps_entities = es\<rparr>, v'))
      (replace_entities get s 0 es [] [] v)"

definition pseudonymize :: "text_lib \<Rightarrow> hash_order \<Rightarrow> string \<Rightarrow> detected_entity list \<Rightarrow> vault \<Rightarrow> (pseudonymized_text \<times> vault) option" where
  "pseudonymize E ord = pseudonymize_by (get_or_create E ord)"

definition pseudonymize_fp :: "text_lib \<Rightarrow> hash_order \<Rightarrow> string \<Rightarrow> detected_entity list \<Rightarrow> vault \<Rightarrow> (pseudonymized_text \<times> vault) option" where
  "pseudonymize_fp E ord = pseudonymize_by (get_or_create_fp E ord)"

definition pseudonymize_with_strategy :: "text_lib \<Rightarrow> hash_order \<Rightarrow> string \<Rightarrow> detected_entity list \<Rightarrow> vault
    \<Rightarrow> masking_strategy \<Rightarrow> (pseudonymized_text \<times> vault) option" where
  "pseudonymize_with_strategy E ord s es v strategy = (case strategy of
      TokenStrategy \<Rightarrow> pseudonymize E ord s es v
    | FormatPreserving \<Rightarrow> pseudonymize_fp E ord s es v)"

section \<open>The rehydrator\<close>

record rehydrated_text =
  rt_text :: string
  rt_count :: nat

type_synonym reverse_order = "(string \<times> string) list \<Rightarrow> (string \<times> string) list"

definition put_back :: "string \<times> string \<Rightarrow> string \<times> nat \<Rightarrow> string \<times> nat" where
  "put_back m acc = (if contains_str (fst m) (fst acc) then (str_replace (fst m) (snd m) (fst acc), snd acc + 1) else acc)"

definition longest_first :: "(string \<times> string) list \<Rightarrow> (string \<times> string) list" where
  "longest_first = sort_key (\<lambda>m. - int (length (fst m)))"

definition rehydrate :: "reverse_order \<Rightarrow> string \<Rightarrow> vault \<Rightarrow> rehydrated_text" where
  "rehydrate ord s v =
    (let (out, n) = fold put_back (longest_first (ord (reverse_mappings v))) (s, 0) in \<lparr>rt_text = out, rt_count = n\<rparr>)"

text \<open>The streaming side works on characters: a chunk is the list of its characters, each as its UTF-8 bytes.
  \<open>nd\<close> is the class \<open>\\d\<close> of the \<open>regex\<close> crate, the decimal digits of Unicode.\<close>

definition is_upper :: "string \<Rightarrow> bool" where
  "is_upper c = (case c of [b] \<Rightarrow> is_ascii_uppercase b | _ \<Rightarrow> False)"

text \<open>A whole match of \<open>[A-Z]+(_\\d*)?\<close>: the underscore is no letter, so the letters are the longest run.\<close>

definition is_tail :: "(string \<Rightarrow> bool) \<Rightarrow> string list \<Rightarrow> bool" where
  "is_tail nd s \<longleftrightarrow> takeWhile is_upper s \<noteq> [] \<and>
     (case dropWhile is_upper s of [] \<Rightarrow> True | c # r \<Rightarrow> c = ''_'' \<and> list_all nd r)"

fun hold_at :: "(string \<Rightarrow> bool) \<Rightarrow> string list \<Rightarrow> nat" where
  "hold_at nd [] = 0"
| "hold_at nd (c # cs) = (if is_tail nd (c # cs) then 0 else Suc (hold_at nd cs))"

text \<open>The match of \<open>[A-Z]+_\\d+\<close> at the start of a text.\<close>

definition token_match :: "(string \<Rightarrow> bool) \<Rightarrow> string list \<Rightarrow> string list option" where
  "token_match nd s =
    (case dropWhile is_upper s of
       [] \<Rightarrow> None
     | c # r \<Rightarrow> if takeWhile is_upper s \<noteq> [] \<and> c = ''_'' \<and> takeWhile nd r \<noteq> []
               then Some (takeWhile is_upper s @ c # takeWhile nd r) else None)"

text \<open>\<open>replace_all\<close>, with the flag the closure sets.\<close>

function replace_tokens :: "(string \<Rightarrow> bool) \<Rightarrow> (string \<Rightarrow> string option) \<Rightarrow> string list \<Rightarrow> string \<times> bool" where
  "replace_tokens nd look [] = ([], False)"
| "replace_tokens nd look (c # cs) =
     (case token_match nd (c # cs) of
        None \<Rightarrow> (let (out, found) = replace_tokens nd look cs in (c @ out, found))
      | Some m \<Rightarrow>
        let (out, found) = replace_tokens nd look (drop (length m - 1) cs) in
        case look (concat m) of Some original \<Rightarrow> (original @ out, True) | None \<Rightarrow> (concat m @ out, found))"
  by pat_completeness auto
termination by (relation "measure (\<lambda>(_, _, s). length s)") auto

definition rehydrate_chunk :: "(string \<Rightarrow> bool) \<Rightarrow> vault \<Rightarrow> string list \<Rightarrow> string list \<Rightarrow> string list \<times> string \<times> bool" where
  "rehydrate_chunk nd v chunk buffer =
    (let buffer = buffer @ chunk; h = hold_at nd buffer
     in (drop h buffer, replace_tokens nd (vault_lookup v) (take h buffer)))"

text \<open>A stream: the chunks in order, then what the buffer still holds through \<open>rehydrate\<close>
  (\<open>crates/cloakpipe-proxy/src/streaming.rs\<close>).\<close>

fun rehydrate_chunks :: "(string \<Rightarrow> bool) \<Rightarrow> vault \<Rightarrow> string list list \<Rightarrow> string list \<Rightarrow> string list \<times> string list" where
  "rehydrate_chunks nd v [] buffer = (buffer, [])"
| "rehydrate_chunks nd v (chunk # chunks) buffer =
     (let (buffer', out, _) = rehydrate_chunk nd v chunk buffer; (held, outs) = rehydrate_chunks nd v chunks buffer'
      in (held, out # outs))"

definition stream_text :: "(string \<Rightarrow> bool) \<Rightarrow> reverse_order \<Rightarrow> vault \<Rightarrow> string list list \<Rightarrow> string" where
  "stream_text nd ord v chunks =
    (let (held, outs) = rehydrate_chunks nd v chunks []
     in concat outs @ (if held = [] then [] else rt_text (rehydrate ord (concat held) v)))"

section \<open>What the replacer produces\<close>

fun well_placed :: "string \<Rightarrow> nat \<Rightarrow> detected_entity list \<Rightarrow> bool" where
  "well_placed s n [] \<longleftrightarrow> n \<le> length s \<and> is_char_boundary s n"
| "well_placed s n (e # es) \<longleftrightarrow> n \<le> en_start e \<and> en_start e \<le> en_end e \<and> is_char_boundary s n \<and> is_char_boundary s (en_start e)
     \<and> en_original e = slice s (en_start e) (en_end e) \<and> well_placed s (en_end e) es"

text \<open>The text between the entities: what is before the first, and what follows each.\<close>

fun gaps :: "string \<Rightarrow> nat \<Rightarrow> detected_entity list \<Rightarrow> string \<times> string list" where
  "gaps s n [] = (drop n s, [])"
| "gaps s n (e # es) = (let (g, gs) = gaps s (en_end e) es in (slice s n (en_start e), g # gs))"

definition weave :: "string \<Rightarrow> string list \<Rightarrow> string list \<Rightarrow> string" where
  "weave g us gs = g @ concat (map (\<lambda>(u, g). u @ g) (zip us gs))"

definition requests :: "detected_entity list \<Rightarrow> (string \<times> entity_category) list" where
  "requests es = map (\<lambda>e. (en_original e, en_category e)) es"

lemma weave_simps [simp]: "weave g [] gs = g" "weave g (u # us) (h # gs) = g @ u @ weave h us gs"
  by (simp_all add: weave_def)

lemma requests_simps [simp]: "requests [] = []" "requests (e # es) = (en_original e, en_category e) # requests es"
  by (simp_all add: requests_def)

lemma well_placed_le: "well_placed s n es \<Longrightarrow> n \<le> length s"
  by (induction es arbitrary: n) fastforce+

lemma well_placed_boundary: "well_placed s n es \<Longrightarrow> is_char_boundary s n"
  by (cases es) simp_all

lemma length_gaps: "length (snd (gaps s n es)) = length es"
  by (induction es arbitrary: n) (simp_all add: case_prod_unfold Let_def)

lemma weave_gaps: "well_placed s n es \<Longrightarrow> weave (fst (gaps s n es)) (map en_original es) (snd (gaps s n es)) = drop n s"
proof (induction es arbitrary: n)
  case (Cons e es)
  have le: "en_end e \<le> length s" using Cons(2) well_placed_le [of s "en_end e" es] by simp
  have "slice s n (en_start e) @ slice s (en_start e) (en_end e) @ drop (en_end e) s = drop n s"
    using Cons(2) append_take_drop_id [of "en_start e - n" "drop n s"]
      append_take_drop_id [of "en_end e - en_start e" "drop (en_start e) s"] by (simp add: slice_def)
  then show ?case using Cons by (simp add: case_prod_unfold Let_def)
qed simp

lemma replace_entities_total:
  assumes "well_placed s n es" "get_all get v (requests es) = (v', ts)"
  shows "\<exists>maps'. replace_entities get s n es out maps v =
    Some (out @ weave (fst (gaps s n es)) (map pt_token ts) (snd (gaps s n es)), maps', v')"
  using assms
proof (induction es arbitrary: n v ts out maps)
  case Nil
  then show ?case by (auto simp: str_slice_def slice_def is_char_boundary_def)
next
  case (Cons e es)
  obtain w t where g: "get v (en_original e) (en_category e) = (w, t)" by fastforce
  obtain ts' where rest: "get_all get w (requests es) = (v', ts')" and ts: "ts = t # ts'"
    using Cons(3) by (auto simp: g split: prod.splits)
  have placed: "well_placed s (en_end e) es" using Cons(2) by simp
  have "en_start e \<le> length s" using Cons(2) well_placed_le [OF placed] by simp
  then have gap: "(if n < en_start e then str_slice s n (en_start e) else Some []) = Some (slice s n (en_start e))"
    using Cons(2) by (auto simp: str_slice_def slice_def)
  show ?case using Cons(1) [OF placed rest, of "out @ slice s n (en_start e) @ pt_token t"
      "AList.update (pt_token t) (en_original e) maps"] by (simp add: gap g ts case_prod_unfold Let_def)
qed

lemma pseudonymize_by_total:
  assumes "well_placed s 0 es" "get_all get v (requests es) = (v', ts)"
  shows "\<exists>maps. pseudonymize_by get s es v =
    Some (\<lparr>ps_text = weave (fst (gaps s 0 es)) (map pt_token ts) (snd (gaps s 0 es)), ps_mappings = maps, ps_entities = es\<rparr>, v')"
  using replace_entities_total [OF assms, of "[]" "[]"] by (auto simp: pseudonymize_by_def)

section \<open>The masked text says nothing more\<close>

text \<open>Two vaults that differ by a renaming of the values, on the values at hand.\<close>

definition renamed :: "(string \<Rightarrow> string) \<Rightarrow> string set \<Rightarrow> vault \<Rightarrow> vault \<Rightarrow> bool" where
  "renamed f X v w \<longleftrightarrow> va_resolver v = None \<and> va_resolver w = None \<and> (\<forall>p. counter_of v p = counter_of w p)
     \<and> (\<forall>x\<in>X. known_to w (f x) = known_to v x)"

lemma get_renamed:
  assumes r: "renamed f X v w" and x: "x \<in> X" and inj: "inj_on f X" and get: "get_or_create E ord v x c = (v', t)"
  shows "\<exists>w'. get_or_create E ord w (f x) c = (w', t) \<and> renamed f X v' w'"
proof (cases "known_to v x")
  case (Some u)
  then show ?thesis using r x get by (auto simp: renamed_def get_or_create_def known_token_plain)
next
  case None
  obtain v1 n where b: "bump v (category_prefix E c) = (v1, n)" by fastforce
  obtain w1 m where b': "bump w (category_prefix E c) = (w1, m)" by fastforce
  note fv = bump_facts [OF b] and fw = bump_facts [OF b']
  have m: "m = n" using fv(4) fw(4) r by (simp add: renamed_def)
  have v': "v' = store_token v1 x t" and t: "t = \<lparr>pt_token = category_prefix E c @ ''_'' @ show_nat n, pt_category = c, pt_id = n\<rparr>"
    using get r None by (auto simp: renamed_def get_or_create_def known_token_plain b Let_def)
  have "get_or_create E ord w (f x) c = (store_token w1 (f x) t, t)"
    using r x None by (simp add: renamed_def get_or_create_def known_token_plain b' Let_def m t)
  moreover have "renamed f X v' (store_token w1 (f x) t)"
    using r x inj by (auto simp: renamed_def v' fv fw m inj_on_def)
  ultimately show ?thesis by blast
qed

lemma get_all_renamed:
  assumes "renamed f X v w" "inj_on f X" "fst ` set rs \<subseteq> X" "get_all (get_or_create E ord) v rs = (v', ts)"
  shows "\<exists>w'. get_all (get_or_create E ord) w (map (\<lambda>(x, c). (f x, c)) rs) = (w', ts) \<and> renamed f X v' w'"
  using assms
proof (induction rs arbitrary: v w ts)
  case (Cons r rs)
  obtain x c where r: "r = (x, c)" by (cases r)
  obtain u t where g: "get_or_create E ord v x c = (u, t)" by fastforce
  obtain ts' where rest: "get_all (get_or_create E ord) u rs = (v', ts')" and ts: "ts = t # ts'"
    using Cons(5) by (auto simp: r g split: prod.splits)
  obtain u' where g': "get_or_create E ord w (f x) c = (u', t)" and ren: "renamed f X u u'"
    using get_renamed [OF Cons(2) _ Cons(3) g] Cons(4) by (auto simp: r)
  obtain w' where "get_all (get_or_create E ord) u' (map (\<lambda>(x, c). (f x, c)) rs) = (w', ts')" "renamed f X v' w'"
    using Cons(1) [OF ren Cons(3) _ rest] Cons(4) by auto
  then show ?case by (simp add: r g' ts)
qed auto

end
