(* ===== verification/Relay.thy ===== *)
theory Relay
  imports Tool_Catalog Gate_Events Record_Chain Pii_Text
begin

text \<open>
  The interceptor between an agent and its tool servers (\<open>cloakpipe-mcp/src/proxy.rs\<close>): what it does with
  one message of the agent and one message of a server. A handler is a function of the interceptor's
  state and returns the messages to send. Locks are held for a whole handler, but for one place:
  \<open>coordinate\<close> gives the pending table free while the store decides, and the exit sweep may close it
  meanwhile (\<open>yw_closing\<close>).

  \<open>relay_world\<close> is what a handler finds around it: the gate's world, the time, the JSON codec, whether
  the two databases accept a write, the broker's answer, the detector. A result \<open>None\<close> is a panic.
\<close>

section \<open>State\<close>

record in_flight =
  if_operation_id :: string
  if_tool :: string
  if_fingerprint :: string

record pending_ops =
  pd_by_request :: "(string \<times> in_flight) list"
  pd_outstanding :: "(string \<times> nat) list"
  pd_closed :: bool

definition pending_default :: pending_ops where
  "pending_default = \<lparr>pd_by_request = [], pd_outstanding = [], pd_closed = False\<rparr>"

datatype coordinated = CoForward | CoReplay json | CoDeny denial

datatype relay_action = ToAgent string | ToUpstream string string

record decision_log =
  dl_store :: ledger_store
  dl_key :: string

record entry_base =
  eb_release :: string
  eb_release_name :: string
  eb_policy_digest :: "string option"
  eb_mode :: decision_mode
  eb_task_id :: "string option"
  eb_tools_lock :: "string option"

datatype waiting = WaitAgent json nat | WaitList nat nat

record list_job =
  lj_agent :: "json option"
  lj_remaining :: "nat set"
  lj_tools :: "(nat \<times> json list) list"
  lj_pages :: nat

record router =
  ro_init :: json
  ro_default :: "nat option"
  ro_next_id :: nat
  ro_next_job :: nat
  ro_waiting :: "(nat \<times> waiting) list"
  ro_jobs :: "(nat \<times> list_job) list"
  ro_gone :: "nat set"

record interceptor =
  ic_gate :: "tool_gate option"
  ic_base :: "entry_base option"
  ic_pii :: "vault option"
  ic_hops :: "record_store option"
  ic_log :: "decision_log option"
  ic_pending :: pending_ops
  ic_release :: "string option"
  ic_sinks :: bool
  ic_events :: "gate_event list"
  ic_reports :: "decision_record list"
  ic_catalog :: catalog
  ic_router :: "router option"
  ic_lists :: "string set"

datatype request_status = Requested | PendingRequest | DeniedRequest

fun request_status_str :: "request_status \<Rightarrow> string" where
  "request_status_str Requested = ''requested''"
| "request_status_str PendingRequest = ''pending''"
| "request_status_str DeniedRequest = ''denied''"

record relay_world =
  yw_gate :: gate_world
  yw_ledger :: ledger_ops
  yw_records :: record_ops
  yw_parse :: "string \<Rightarrow> json option"
  yw_ser :: "json \<Rightarrow> string"
  yw_lower :: "string \<Rightarrow> string"
  yw_lib :: text_lib
  yw_detect :: "string \<Rightarrow> detected_entity list option"
  yw_forward_order :: hash_order
  yw_reverse_order :: reverse_order
  yw_pending_order :: "(string \<times> in_flight) list \<Rightarrow> (string \<times> in_flight) list"
  yw_waiting_order :: "(nat \<times> waiting) list \<Rightarrow> (nat \<times> waiting) list"
  yw_job_order :: "nat list \<Rightarrow> nat list"
  yw_now :: string
  yw_stamp :: timestamp
  yw_token_ref :: string
  yw_region :: string
  yw_tenant :: string
  yw_agent :: string
  yw_version :: string
  yw_log_ok :: bool
  yw_begin_ok :: bool
  yw_settle_ok :: bool
  yw_closing :: bool
  yw_submit :: "string \<Rightarrow> request_status"

abbreviation yw_digests :: "relay_world \<Rightarrow> digests" where
  "yw_digests W \<equiv> gw_digests (yw_gate W)"

definition TOOL_REFUSED :: int where "TOOL_REFUSED = -32001"
definition RECONCILE_REQUIRED :: int where "RECONCILE_REQUIRED = -32002"
definition UPSTREAM_UNAVAILABLE :: int where "UPSTREAM_UNAVAILABLE = -32003"
definition METHOD_NOT_FOUND :: int where "METHOD_NOT_FOUND = -32601"
definition FAIL_CLOSED :: string where "FAIL_CLOSED = ''fail_closed''"
definition REPLAYED :: string where "REPLAYED = ''already_committed''"
definition UNKNOWN_REASON :: string where "UNKNOWN_REASON = ''operation_unknown''"
definition APPROVAL_REQUESTED_HINT :: string where
  "APPROVAL_REQUESTED_HINT = ''approval requested; retry the same call after approval''"
definition APPROVAL_DENIED_HINT :: string where
  "APPROVAL_DENIED_HINT = ''an approver denied this exact call; it will not be approved''"

definition json_int :: "int \<Rightarrow> json" where
  "json_int i = JNumber (if i < 0 then NegInt i else PosInt (nat i))"

text \<open>The operations store is shared by the gate and the interceptor.\<close>

definition operations :: "interceptor \<Rightarrow> op_store option" where
  "operations s = Option.bind (ic_gate s) g_operations"

definition put_operations :: "op_store \<Rightarrow> interceptor \<Rightarrow> interceptor" where
  "put_operations st s = s\<lparr>ic_gate := map_option (\<lambda>g. g\<lparr>g_operations := Some st\<rparr>) (ic_gate s)\<rparr>"

section \<open>The decision log\<close>

definition ARGS_FINGERPRINT_DOMAIN :: string where "ARGS_FINGERPRINT_DOMAIN = ''cloakpipe.args-fingerprint.v1''"

definition args_fingerprint :: "digests \<Rightarrow> string \<Rightarrow> string \<Rightarrow> string" where
  "args_fingerprint D key fp =
     ''hmac-sha256:'' @ hex_encode (dg_hmac D (dg_sha256 D (ARGS_FINGERPRINT_DOMAIN @ [CHR 0x0A] @ key)) fp)"

definition log_append ::
  "relay_world \<Rightarrow> decision_log \<Rightarrow> decision_draft \<Rightarrow> string option \<Rightarrow> unit + (decision_log \<times> decision_entry)" where
  "log_append W l draft raw =
     (let draft = (case raw of
            Some fp \<Rightarrow> draft\<lparr>dd_args_fingerprint := Some (args_fingerprint (yw_digests W) (dl_key l) fp)\<rparr>
          | None \<Rightarrow> draft)
      in if \<not> yw_log_ok W then Err ()
         else (case append_decision (yw_ledger W) (dl_store l) draft (dl_key l) (yw_now W) of
                 Inr (st, e) \<Rightarrow> Ok (l\<lparr>dl_store := st\<rparr>, e)
               | Inl _ \<Rightarrow> Err ()))"

definition log_decision ::
  "relay_world \<Rightarrow> decision_draft \<Rightarrow> string option \<Rightarrow> interceptor \<Rightarrow> unit + (interceptor \<times> decision_entry option)" where
  "log_decision W draft raw s =
     (case ic_log s of
        None \<Rightarrow> Ok (s, None)
      | Some l \<Rightarrow> rbind (log_append W l draft raw) (\<lambda>(l', e). Ok (s\<lparr>ic_log := Some l'\<rparr>, Some e)))"

definition entry_base_of :: "digests \<Rightarrow> catalog \<Rightarrow> tool_gate \<Rightarrow> entry_base" where
  "entry_base_of D c g =
     \<lparr>eb_release = g_release g, eb_release_name = g_release_name g, eb_policy_digest = g_policy_digest g,
      eb_mode = (case g_mode g of Enforce \<Rightarrow> ModeEnforce | Shadow \<Rightarrow> ModeShadow),
      eb_task_id = gate_task_id g, eb_tools_lock = catalog_lock_digest D c\<rparr>"

definition base_call :: "entry_base \<Rightarrow> string option \<Rightarrow> decision_draft" where
  "base_call b tool = draft_call\<lparr>dd_release := Some (eb_release b), dd_tool := tool, dd_policy_digest := eb_policy_digest b,
     dd_mode := Some (eb_mode b), dd_task_id := eb_task_id b, dd_tools_lock := eb_tools_lock b\<rparr>"

definition base_outcome :: "entry_base \<Rightarrow> in_flight \<Rightarrow> decision_outcome \<Rightarrow> decision_draft" where
  "base_outcome b op outcome = draft_outcome\<lparr>dd_release := Some (eb_release b),
     dd_tool := (if if_tool op = [] then None else Some (if_tool op)), dd_policy_digest := eb_policy_digest b,
     dd_mode := Some (eb_mode b), dd_task_id := eb_task_id b, dd_operation_id := Some (if_operation_id op),
     dd_outcome := Some outcome, dd_forwarded := True, dd_tools_lock := eb_tools_lock b\<rparr>"

section \<open>Events, reports and hops\<close>

definition emit ::
  "relay_world \<Rightarrow> entry_base \<Rightarrow> event_kind \<Rightarrow> string \<Rightarrow> decision_draft \<Rightarrow> decision_entry option \<Rightarrow> string option
   \<Rightarrow> interceptor \<Rightarrow> interceptor \<times> gate_event option" where
  "emit W b kind reason draft entry server s =
     (if \<not> ic_sinks s then (s, None)
      else let D = yw_digests W;
               e = gate_event_new D (yw_now W) kind reason (dd_tool draft) (dd_path draft) (eb_policy_digest b);
               e = (case server of None \<Rightarrow> e | Some sv \<Rightarrow> event_with_server D sv e);
               e = e\<lparr>ge_release := Some (eb_release_name b), ge_release_digest := Some (eb_release b),
                     ge_decision := Some (dd_decision draft), ge_mode := dd_mode draft, ge_operation_id := dd_operation_id draft\<rparr>;
               e = (case entry of None \<Rightarrow> e
                    | Some n \<Rightarrow> e\<lparr>ge_ts := de_ts n, ge_ledger_seq := Some (de_seq n), ge_entry_hash := Some (de_entry_hash n)\<rparr>)
           in (s\<lparr>ic_events := ic_events s @ [e]\<rparr>, Some e))"

definition report ::
  "relay_world \<Rightarrow> entry_base \<Rightarrow> decision_draft \<Rightarrow> string \<Rightarrow> decision_entry option \<Rightarrow> gate_event option
   \<Rightarrow> interceptor \<Rightarrow> interceptor" where
  "report W b draft reason entry event s =
     (if \<not> ic_sinks s then s
      else s\<lparr>ic_reports := ic_reports s @
        [\<lparr>dc_ts = (case entry of Some n \<Rightarrow> de_ts n | None \<Rightarrow> yw_now W), dc_tool = dd_tool draft, dc_decision = dd_decision draft,
          dc_reason = reason, dc_path = dd_path draft, dc_mode = dd_mode draft, dc_release = Some (eb_release_name b),
          dc_release_digest = Some (eb_release b), dc_policy_version = eb_policy_digest b,
          dc_operation_id = dd_operation_id draft, dc_forwarded = dd_forwarded draft,
          dc_ledger_seq = map_option de_seq entry, dc_entry_hash = map_option de_entry_hash entry,
          dc_event = map_option ge_kind event, dc_fingerprint = map_option ge_fingerprint event\<rparr>]\<rparr>)"

definition hop_builder ::
  "relay_world \<Rightarrow> string option \<Rightarrow> nat \<Rightarrow> hop \<Rightarrow> nat \<Rightarrow> action_kind \<Rightarrow> (string \<times> metadata_value) list \<Rightarrow> record_builder" where
  "hop_builder W release seq hop found kind entries =
     fold (\<lambda>(k, v). with_metadata k v) entries
       ((case release of Some r \<Rightarrow> with_release r | None \<Rightarrow> (\<lambda>b. b))
         (with_identities \<lparr>idn_agent_id = yw_agent W, idn_human_principal = None, idn_upstream = ''mcp'', idn_region = yw_region W\<rparr>
           (with_action \<lparr>ac_entity_type = ''mcp'', ac_kind = kind, ac_token_ref = Some (yw_token_ref W)\<rparr>
             (with_detection \<lparr>dt_entity_type = ''mcp'', dt_count = found mod 2 ^ 32, dt_detector = DRegex\<rparr>
               (with_hop hop (with_tenant (yw_tenant W) (with_seq seq builder_new)))))))"

definition append_hop ::
  "relay_world \<Rightarrow> string option \<Rightarrow> hop \<Rightarrow> nat \<Rightarrow> action_kind \<Rightarrow> (string \<times> metadata_value) list \<Rightarrow> record_store
   \<Rightarrow> unit + record_store" where
  "append_hop W release hop found kind entries st =
     rbind (map_err (\<lambda>_. ()) (records_head st (yw_tenant W))) (\<lambda>(head, _).
     let seq = (case head of Some n \<Rightarrow> n + 1 | None \<Rightarrow> 0);
         build = (\<lambda>es. record_build (hop_builder W release seq hop found kind es) (yw_stamp W));
         built = (case build entries of
             Inl e \<Rightarrow> if 1 < length entries then build (take 1 entries) else Inl e
           | r \<Rightarrow> r)
     in rbind (map_err (\<lambda>_. ()) built) (\<lambda>r.
        rbind (map_err (\<lambda>_. ()) (record_append (yw_records W) st (yw_tenant W) r)) (\<lambda>(st', _, _). Ok st')))"

definition record_hop ::
  "relay_world \<Rightarrow> hop \<Rightarrow> nat \<Rightarrow> action_kind \<Rightarrow> (string \<times> metadata_value) list \<Rightarrow> interceptor \<Rightarrow> interceptor" where
  "record_hop W hop found kind entries s =
     (case ic_hops s of
        None \<Rightarrow> s
      | Some st \<Rightarrow> (case append_hop W (ic_release s) hop found kind entries st of
                      Inr st' \<Rightarrow> s\<lparr>ic_hops := Some st'\<rparr>
                    | Inl _ \<Rightarrow> s))"

definition operation_meta :: "op_state \<Rightarrow> string \<Rightarrow> (string \<times> metadata_value) list" where
  "operation_meta state op = [(''operation_id'', MOpaqueId op), (''operation_state'', MOpaqueId (op_state_as_str state))]"

section \<open>Screening a line\<close>

definition CANONICAL_KEYS :: "string list" where
  "CANONICAL_KEYS = [''jsonrpc'', ''id'', ''method'', ''params'', ''result'', ''error'']"

definition CANONICAL_PARAMS :: "string list" where "CANONICAL_PARAMS = [''name'', ''arguments'']"

text \<open>The long s and the Kelvin sign, by their UTF-8 bytes.\<close>

fun fold_letters :: "string \<Rightarrow> string" where
  "fold_letters [] = []"
| "fold_letters (a # s) =
     (case s of
        b # t \<Rightarrow>
          if a = CHR 0xC5 \<and> b = CHR 0xBF then CHR ''s'' # fold_letters t
          else (case t of
                  c # u \<Rightarrow> if a = CHR 0xE2 \<and> b = CHR 0x84 \<and> c = CHR 0xAA then CHR ''k'' # fold_letters u
                           else a # fold_letters s
                | [] \<Rightarrow> a # fold_letters s)
      | [] \<Rightarrow> [a])"

definition fold_key :: "(string \<Rightarrow> string) \<Rightarrow> string \<Rightarrow> string" where
  "fold_key lower k = lower (fold_letters k)"

definition noncanonical :: "(string \<Rightarrow> string) \<Rightarrow> members \<Rightarrow> string list \<Rightarrow> bool" where
  "noncanonical lower ms canonical =
     list_ex (\<lambda>m. list_ex (\<lambda>c. fold_key lower (fst m) = c \<and> fst m \<noteq> c) canonical) ms"

definition screen :: "relay_world \<Rightarrow> string \<Rightarrow> (string \<times> int) + unit" where
  "screen W line =
     rbind (ok_or (''unreadable'', -32700) (yw_parse W line)) (\<lambda>msg.
     case msg of
       JObject obj \<Rightarrow>
         if noncanonical (yw_lower W) obj CANONICAL_KEYS then Err (''noncanonical'', -32600)
         else (case map_of obj ''params'' of
                 Some (JObject params) \<Rightarrow>
                   if noncanonical (yw_lower W) params CANONICAL_PARAMS then Err (''noncanonical'', -32600) else Ok ()
               | _ \<Rightarrow> Ok ())
     | JArray _ \<Rightarrow> Err (''batch'', -32600)
     | _ \<Rightarrow> Err (''not_an_object'', -32600))"

section \<open>The PII transform on JSON\<close>

fun mask_value :: "relay_world \<Rightarrow> json \<Rightarrow> vault \<Rightarrow> (json \<times> nat \<times> vault) option"
and mask_values :: "relay_world \<Rightarrow> json list \<Rightarrow> vault \<Rightarrow> (json list \<times> nat \<times> vault) option"
and mask_members :: "relay_world \<Rightarrow> members \<Rightarrow> vault \<Rightarrow> (members \<times> nat \<times> vault) option" where
  "mask_value W (JString t) v =
     (let found = (case yw_detect W t of Some es \<Rightarrow> es | None \<Rightarrow> []) in
      if found = [] then Some (JString t, 0, v)
      else map_option (\<lambda>(r, v'). (JString (ps_text r), length found, v'))
             (pseudonymize (yw_lib W) (yw_forward_order W) t found v))"
| "mask_value W (JArray xs) v = map_option (\<lambda>(ys, n, v'). (JArray ys, n, v')) (mask_values W xs v)"
| "mask_value W (JObject ms) v = map_option (\<lambda>(ns, n, v'). (JObject ns, n, v')) (mask_members W ms v)"
| "mask_value W x v = Some (x, 0, v)"
| "mask_values W [] v = Some ([], 0, v)"
| "mask_values W (x # xs) v =
     Option.bind (mask_value W x v) (\<lambda>(y, n, v1). map_option (\<lambda>(ys, k, v2). (y # ys, n + k, v2)) (mask_values W xs v1))"
| "mask_members W [] v = Some ([], 0, v)"
| "mask_members W (m # ms) v =
     Option.bind (mask_value W (snd m) v) (\<lambda>(y, n, v1).
       map_option (\<lambda>(ns, k, v2). ((fst m, y) # ns, n + k, v2)) (mask_members W ms v1))"

fun rehydrate_value :: "reverse_order \<Rightarrow> vault \<Rightarrow> json \<Rightarrow> json" where
  "rehydrate_value ord v (JString t) = JString (rt_text (rehydrate ord t v))"
| "rehydrate_value ord v (JArray xs) = JArray (map (rehydrate_value ord v) xs)"
| "rehydrate_value ord v (JObject ms) = JObject (map (\<lambda>m. (fst m, rehydrate_value ord v (snd m))) ms)"
| "rehydrate_value ord v x = x"

text \<open>\<open>pointer_mut\<close>: the value at a path of members, when it is there.\<close>

fun map_path :: "string list \<Rightarrow> (json \<Rightarrow> json) \<Rightarrow> json \<Rightarrow> json" where
  "map_path [] f v = f v"
| "map_path (k # ks) f v =
     (case json_get v k of None \<Rightarrow> v | Some w \<Rightarrow> set_member k (map_path ks f w) v)"

definition tool_of :: "json \<Rightarrow> string" where
  "tool_of msg = or_empty (Option.bind (json_path msg [''params'', ''name'']) as_str)"

definition arguments_of :: "json \<Rightarrow> json option" where
  "arguments_of msg = json_path msg [''params'', ''arguments'']"

definition method_of :: "json \<Rightarrow> string option" where
  "method_of msg = Option.bind (json_get msg ''method'') as_str"

section \<open>Operations of side-effecting calls\<close>

definition in_use :: "string \<Rightarrow> pending_ops \<Rightarrow> bool" where
  "in_use request p \<longleftrightarrow> request \<in> fst ` set (pd_by_request p)"

definition non_null :: "json option \<Rightarrow> json option" where
  "non_null i = (case i of Some JNull \<Rightarrow> None | _ \<Rightarrow> i)"

definition replayed :: "relay_world \<Rightarrow> string option \<Rightarrow> string \<Rightarrow> vault option \<Rightarrow> json option" where
  "replayed W stored operation_id vault =
     Option.bind (case stored of
         Some t \<Rightarrow> Option.bind (yw_parse W t) (\<lambda>v. if is_object v then Some v else None)
       | None \<Rightarrow> Some (JObject [(''content'', JArray [JObject [(''type'', JString ''text''),
           (''text'', JString (''This call already completed (operation '' @ operation_id
              @ '', reconciled by an operator); it was not run again.''))]])])) (\<lambda>result.
     let result = (case vault of None \<Rightarrow> result
                   | Some v \<Rightarrow> map_path [''content''] (rehydrate_value (yw_reverse_order W) v) result);
         meta = (case json_get result ''_meta'' of Some m \<Rightarrow> m | None \<Rightarrow> JObject []) in
     if \<not> is_object meta then None
     else let cloakpipe = (case json_get meta ''cloakpipe'' of Some m \<Rightarrow> m | None \<Rightarrow> JObject []) in
          if \<not> is_object cloakpipe then None
          else Some (set_member ''_meta'' (set_member ''cloakpipe''
                 (set_member ''operationId'' (JString operation_id) (set_member ''replayed'' (JBool True) cloakpipe)) meta) result))"

definition settle_as ::
  "relay_world \<Rightarrow> string \<Rightarrow> op_state \<Rightarrow> string option \<Rightarrow> bool \<Rightarrow> interceptor \<Rightarrow> unit + (interceptor \<times> bool)" where
  "settle_as W op state result masked s =
     (case operations s of
        None \<Rightarrow> Err ()
      | Some st \<Rightarrow>
          if \<not> yw_settle_ok W then Err ()
          else (case (if masked then settle_masked st op state result (yw_now W) else settle st op state result (yw_now W)) of
                  Inr (st', changed) \<Rightarrow> Ok (put_operations st' s, changed)
                | Inl _ \<Rightarrow> Err ()))"

text \<open>Settling whose failure is only logged.\<close>

definition settle_quietly :: "relay_world \<Rightarrow> string \<Rightarrow> op_state \<Rightarrow> interceptor \<Rightarrow> interceptor" where
  "settle_quietly W op state s = (case settle_as W op state None False s of Inr (s', _) \<Rightarrow> s' | Inl _ \<Rightarrow> s)"

definition set_pending :: "pending_ops \<Rightarrow> interceptor \<Rightarrow> interceptor" where
  "set_pending p s = s\<lparr>ic_pending := p\<rparr>"

definition start_operation ::
  "relay_world \<Rightarrow> string \<Rightarrow> string \<Rightarrow> operation_key \<Rightarrow> interceptor \<Rightarrow> interceptor \<times> coordinated" where
  "start_operation W request tool op s =
     (let p = (ic_pending s)\<lparr>pd_closed := pd_closed (ic_pending s) \<or> yw_closing W\<rparr> in
      if \<not> pd_closed p
      then (set_pending (p\<lparr>pd_by_request := AList.update request
              \<lparr>if_operation_id = ok_operation_id op, if_tool = tool, if_fingerprint = ok_fingerprint op\<rparr>
              (pd_by_request p)\<rparr>) s, CoForward)
      else (settle_quietly W (ok_operation_id op) Failed (set_pending p s), CoDeny OperationsUnavailable))"

definition coordinate ::
  "relay_world \<Rightarrow> json option \<Rightarrow> string \<Rightarrow> operation_key \<Rightarrow> interceptor \<Rightarrow> interceptor \<times> coordinated" where
  "coordinate W rpc_id tool op s =
     (case (operations s, non_null rpc_id) of
        (None, _) \<Rightarrow> (s, CoDeny OperationsUnavailable)
      | (Some _, None) \<Rightarrow> (s, CoDeny RequestIdMissing)
      | (Some st, Some i) \<Rightarrow>
          let request = yw_ser W i; p = ic_pending s in
          if pd_closed p then (s, CoDeny OperationsUnavailable)
          else if in_use request p \<or> request \<in> fst ` set (pd_outstanding p) then (s, CoDeny RequestIdInUse)
          else if \<not> yw_begin_ok W then (s, CoDeny OperationsUnavailable)
          else (case op_begin st (ok_operation_id op) tool (ok_fingerprint op) (yw_now W) of
                  Inl _ \<Rightarrow> (s, CoDeny OperationsUnavailable)
                | Inr (st', Forward) \<Rightarrow> start_operation W request tool op (put_operations st' s)
                | Inr (st', Replay result masked) \<Rightarrow>
                    (put_operations st' s,
                     if masked \<and> ic_pii s = None then CoDeny OperationsUnavailable
                     else (case replayed W result (ok_operation_id op) (if masked then ic_pii s else None) of
                             Some r \<Rightarrow> CoReplay r
                           | None \<Rightarrow> CoDeny OperationsUnavailable))
                | Inr (st', Conflict) \<Rightarrow> (put_operations st' s, CoDeny (OperationConflict (ok_operation_id op)))
                | Inr (st', ReconcileBeforeRetry _) \<Rightarrow>
                    (put_operations st' s, CoDeny (DReconcileBeforeRetry (ok_operation_id op)))))"

definition unstart :: "relay_world \<Rightarrow> string \<Rightarrow> interceptor \<Rightarrow> interceptor" where
  "unstart W request s =
     (let p = ic_pending s; s' = set_pending (p\<lparr>pd_by_request := AList.delete request (pd_by_request p)\<rparr>) s in
      case map_of (pd_by_request p) request of
        Some op \<Rightarrow> settle_quietly W (if_operation_id op) Failed s'
      | None \<Rightarrow> s')"

text \<open>A request that is no longer outstanding.\<close>

definition answered :: "string \<Rightarrow> pending_ops \<Rightarrow> pending_ops" where
  "answered request p =
     (case map_of (pd_outstanding p) request of
        None \<Rightarrow> p
      | Some n \<Rightarrow> p\<lparr>pd_outstanding := (if n - 1 = 0 then AList.delete request (pd_outstanding p)
                                       else AList.update request (n - 1) (pd_outstanding p))\<rparr>)"

definition reply_result :: "json \<Rightarrow> json option" where
  "reply_result msg = (if json_get msg ''error'' = None then json_get msg ''result'' else None)"

definition reply_state :: "json \<Rightarrow> op_state" where
  "reply_state msg =
     (if is_some_and (\<lambda>r. json_get r ''isError'' \<noteq> Some (JBool True)) (reply_result msg) then Done else Failed)"

definition is_reply :: "json \<Rightarrow> bool" where
  "is_reply msg \<longleftrightarrow> json_get msg ''method'' = None \<and> (json_get msg ''result'' \<noteq> None \<or> json_get msg ''error'' \<noteq> None)"

definition settle_waiting ::
  "relay_world \<Rightarrow> json \<Rightarrow> string \<Rightarrow> in_flight \<Rightarrow> interceptor \<Rightarrow> interceptor \<times> (in_flight \<times> op_state) option" where
  "settle_waiting W msg request op s =
     (let p = ic_pending s; state = reply_state msg;
          s1 = set_pending (p\<lparr>pd_by_request := AList.delete request (pd_by_request p)\<rparr>) s;
          stored = (if state = Done then map_option (yw_ser W) (reply_result msg) else None)
      in case settle_as W (if_operation_id op) state stored (ic_pii s \<noteq> None) s1 of
           Inr (s2, changed) \<Rightarrow> (s2, if changed then Some (op, state) else None)
         | Inl _ \<Rightarrow> (s1, None))"

definition settle_reply :: "relay_world \<Rightarrow> json \<Rightarrow> interceptor \<Rightarrow> interceptor \<times> (in_flight \<times> op_state) option" where
  "settle_reply W msg s =
     (if operations s = None \<or> \<not> is_reply msg then (s, None)
      else (case json_get msg ''id'' of
              None \<Rightarrow> (s, None)
            | Some i \<Rightarrow>
                let request = yw_ser W i; p = ic_pending s in
                (case map_of (pd_by_request p) request of
                   None \<Rightarrow> (set_pending (answered request p) s, None)
                 | Some op \<Rightarrow> settle_waiting W msg request op s)))"

section \<open>Deciding a call\<close>

definition is_identifier :: "string \<Rightarrow> bool" where
  "is_identifier t \<longleftrightarrow> t \<noteq> [] \<and> length t \<le> 128 \<and> list_all (\<lambda>b. is_ascii_alphanumeric b \<or> b \<in> set ''_-.:/@'') t"

definition gate_declares :: "tool_gate \<Rightarrow> string \<Rightarrow> bool" where
  "gate_declares g tool \<longleftrightarrow> tool \<in> set (g_tools g)"

definition recordable_tool :: "tool_gate \<Rightarrow> string \<Rightarrow> string option" where
  "recordable_tool g tool = (if gate_declares g tool \<or> is_identifier tool then Some tool else None)"

definition call_fingerprint :: "relay_world \<Rightarrow> tool_gate \<Rightarrow> string \<Rightarrow> json option \<Rightarrow> string option" where
  "call_fingerprint W g tool arguments =
     map_option (\<lambda>release. fingerprint (yw_digests W) release tool (or_null arguments)) (hash_parse (g_release g))"

record call_verdict =
  cv_refusal :: "(denial \<times> bool) option"
  cv_operation :: "operation_key option"
  cv_approval :: "approved_call option"

definition judge :: "relay_world \<Rightarrow> catalog \<Rightarrow> tool_gate \<Rightarrow> string \<Rightarrow> json option \<Rightarrow> call_verdict" where
  "judge W c g tool arguments =
     (case (case (if gate_declares g tool then catalog_refuse c tool else None) of
              Some d \<Rightarrow> Err d
            | None \<Rightarrow> authorize (yw_gate W) g tool arguments (yw_now W)) of
        Inr a \<Rightarrow> \<lparr>cv_refusal = None, cv_operation = au_operation a, cv_approval = au_approval a\<rparr>
      | Inl d \<Rightarrow>
          if g_mode g = Shadow \<and> \<not> is_upstream d
          then (case gate_operation (yw_gate W) g tool arguments (yw_now W) of
                  Inr op \<Rightarrow> \<lparr>cv_refusal = Some (d, is_upstream d), cv_operation = op, cv_approval = None\<rparr>
                | Inl d' \<Rightarrow> \<lparr>cv_refusal = Some (d', True), cv_operation = None, cv_approval = None\<rparr>)
          else \<lparr>cv_refusal = Some (d, is_upstream d), cv_operation = None, cv_approval = None\<rparr>)"

definition holds_always :: "(denial \<times> bool) option \<Rightarrow> bool" where
  "holds_always r = is_some_and snd r"

definition lets_through :: "tool_gate \<Rightarrow> call_verdict \<Rightarrow> bool" where
  "lets_through g v = (case cv_refusal v of None \<Rightarrow> True | Some (_, always) \<Rightarrow> \<not> always \<and> g_mode g = Shadow)"

text \<open>Counting before forwarding: the gate, the verdict, whether the call is still let through, the counter row.\<close>

definition count_call ::
  "relay_world \<Rightarrow> tool_gate \<Rightarrow> string \<Rightarrow> call_verdict \<Rightarrow> tool_gate \<times> call_verdict \<times> bool \<times> int option" where
  "count_call W g tool v =
     (if \<not> lets_through g v then (g, v, False, None)
      else (case record_forwarded (yw_gate W) g tool (yw_now W) of
              Inr (g', i) \<Rightarrow> (g', v, True, i)
            | Inl d \<Rightarrow> (g, v\<lparr>cv_refusal := Some (d, True)\<rparr>, False, None)))"

definition forget_call :: "relay_world \<Rightarrow> int option \<Rightarrow> interceptor \<Rightarrow> interceptor" where
  "forget_call W i s =
     (case i of None \<Rightarrow> s
      | Some i \<Rightarrow> s\<lparr>ic_gate := map_option (\<lambda>g. forget_forwarded (yw_gate W) g i) (ic_gate s)\<rparr>)"

definition call_draft :: "entry_base \<Rightarrow> tool_gate \<Rightarrow> string \<Rightarrow> call_verdict \<Rightarrow> bool \<Rightarrow> bool \<Rightarrow> decision_draft" where
  "call_draft b g tool v replays enforced =
     (let d = base_call b (recordable_tool g tool);
          d = (case cv_refusal v of
                 None \<Rightarrow> d
               | Some (denial, _) \<Rightarrow> d\<lparr>dd_decision := (if denial = ApprovalRequired then DecRequireApproval else DecDeny),
                   dd_reason := denial_code denial, dd_path := denial_path denial, dd_operation_id := denial_operation_id denial\<rparr>);
          d = (case cv_approval v of None \<Rightarrow> d | Some a \<Rightarrow> d\<lparr>dd_approval := Some (''sha256:'' @ hex_encode (ac_receipt_digest a))\<rparr>);
          d = (if dd_operation_id d \<noteq> None then d
               else d\<lparr>dd_operation_id := (case cv_operation v of
                        Some k \<Rightarrow> Some (ok_operation_id k)
                      | None \<Rightarrow> map_option ac_operation_id (cv_approval v))\<rparr>)
      in if replays then d\<lparr>dd_event := EvReplay, dd_outcome := Some OutCommitted\<rparr> else d\<lparr>dd_forwarded := \<not> enforced\<rparr>)"

definition call_event :: "(denial \<times> bool) option \<Rightarrow> bool \<Rightarrow> bool \<Rightarrow> bool \<Rightarrow> event_kind option" where
  "call_event refusal replays enforced recorded =
     (if \<not> recorded then Some DecisionDeny
      else if replays then Some SideEffectReplayed
      else (case refusal of
              None \<Rightarrow> None
            | Some (ToolDrift _, _) \<Rightarrow> Some ToolDriftEvent
            | Some (d, _) \<Rightarrow>
                if \<not> enforced then Some ShadowFinding
                else if d = ApprovalRequired then Some ApprovalRequested
                else if d = ApprovalInvalid then Some ApprovalMismatch
                else Some DecisionDeny))"

definition announce ::
  "relay_world \<Rightarrow> entry_base \<Rightarrow> (denial \<times> bool) option \<Rightarrow> bool \<Rightarrow> bool \<Rightarrow> decision_draft \<Rightarrow> bool \<Rightarrow> decision_entry option
   \<Rightarrow> interceptor \<Rightarrow> interceptor" where
  "announce W b refusal replays enforced draft recorded entry s =
     (let (s, event) = (case call_event refusal replays enforced recorded of
            None \<Rightarrow> (s, None)
          | Some kind \<Rightarrow>
              let reason = (if \<not> recorded then FAIL_CLOSED else if kind = SideEffectReplayed then REPLAYED else dd_reason draft)
              in emit W b kind reason draft entry (Option.bind refusal (\<lambda>r. denial_server (fst r))) s)
      in if recorded then report W b draft (dd_reason draft) entry event s
         else report W b (draft\<lparr>dd_decision := DecDeny, dd_forwarded := False\<rparr>) FAIL_CLOSED None event s)"

definition rpc_error :: "json \<Rightarrow> int \<Rightarrow> string \<Rightarrow> json option \<Rightarrow> json" where
  "rpc_error i code message data =
     JObject [(''jsonrpc'', JString ''2.0''), (''id'', i),
       (''error'', JObject ([(''code'', json_int code), (''message'', JString message)]
          @ (case data of None \<Rightarrow> [] | Some d \<Rightarrow> [(''data'', d)])))]"

definition rpc_result :: "json \<Rightarrow> json \<Rightarrow> json" where
  "rpc_result i result = JObject [(''jsonrpc'', JString ''2.0''), (''id'', i), (''result'', result)]"

definition opt_member :: "string \<Rightarrow> json option \<Rightarrow> json \<Rightarrow> json" where
  "opt_member k x v = (case x of None \<Rightarrow> v | Some w \<Rightarrow> set_member k w v)"

definition refusal_data :: "string \<Rightarrow> string \<Rightarrow> tool_gate \<Rightarrow> string option \<Rightarrow> string option \<Rightarrow> json" where
  "refusal_data code tool g path op =
     opt_member ''operationId'' (map_option JString op) (opt_member ''path'' (map_option JString path)
       (JObject [(''reason'', JString code), (''tool'', JString tool), (''release'', JString (g_release g))]))"

definition refusal_text :: "string \<Rightarrow> string" where
  "refusal_text code = ''tool call refused by CloakPipe: '' @ code"

definition request_approval ::
  "relay_world \<Rightarrow> tool_gate \<Rightarrow> string \<Rightarrow> json option \<Rightarrow> request_status option" where
  "request_approval W g tool arguments =
     (if \<not> g_broker g then None
      else map_option (\<lambda>r. yw_submit W (rq_fingerprint r)) (gate_approval_request (yw_gate W) g tool arguments (yw_now W)))"

definition hint_of :: "request_status \<Rightarrow> string" where
  "hint_of st = (if st = DeniedRequest then APPROVAL_DENIED_HINT else APPROVAL_REQUESTED_HINT)"

definition denial_data :: "relay_world \<Rightarrow> tool_gate \<Rightarrow> string \<Rightarrow> json option \<Rightarrow> denial \<Rightarrow> json" where
  "denial_data W g tool arguments d =
     (let data = opt_member ''policies'' (map_option (\<lambda>ps. JArray (map JString ps)) (denial_policies d))
            (refusal_data (denial_code d) tool g (denial_path d) (denial_operation_id d)) in
      if d = ApprovalRequired
      then let data = (case gate_approval_request (yw_gate W) g tool arguments (yw_now W) of
                 None \<Rightarrow> data
               | Some r \<Rightarrow> set_member ''fingerprint'' (JString (rq_fingerprint r))
                            (set_member ''approvers'' (JArray (map JString (rq_approvers r))) data))
           in (case request_approval W g tool arguments of
                 None \<Rightarrow> data
               | Some st \<Rightarrow> set_member ''hint'' (JString (hint_of st))
                             (set_member ''approval_request'' (JString (request_status_str st)) data))
      else if d = ApprovalDenied
      then set_member ''hint'' (JString APPROVAL_DENIED_HINT)
             (set_member ''approval_request'' (JString (request_status_str DeniedRequest)) data)
      else data)"

definition rpc_code :: "denial \<Rightarrow> int" where
  "rpc_code d = (case d of DReconcileBeforeRetry _ \<Rightarrow> RECONCILE_REQUIRED | _ \<Rightarrow> TOOL_REFUSED)"

text \<open>An answer to a request; a notification takes none.\<close>

definition answer_to :: "relay_world \<Rightarrow> json option \<Rightarrow> (json \<Rightarrow> json) \<Rightarrow> relay_action list" where
  "answer_to W rpc_id reply = (case rpc_id of None \<Rightarrow> [] | Some i \<Rightarrow> [ToAgent (yw_ser W (reply i))])"

text \<open>What the store made of a call that is let through.\<close>

definition coordinate_call ::
  "relay_world \<Rightarrow> json option \<Rightarrow> string \<Rightarrow> bool \<Rightarrow> call_verdict \<Rightarrow> interceptor \<Rightarrow> interceptor \<times> coordinated option" where
  "coordinate_call W rpc_id tool forwarding v s =
     (case cv_operation v of
        Some op \<Rightarrow> if forwarding then (let (s', c) = coordinate W rpc_id tool op s in (s', Some c)) else (s, None)
      | None \<Rightarrow> (s, None))"

record weighed =
  wg_verdict :: call_verdict
  wg_replay :: "json option"
  wg_started :: bool
  wg_counted :: "int option"

definition refused_by_store :: "coordinated option \<Rightarrow> call_verdict \<Rightarrow> call_verdict" where
  "refused_by_store c v = (case c of Some (CoDeny d) \<Rightarrow> v\<lparr>cv_refusal := Some (d, True)\<rparr> | _ \<Rightarrow> v)"

definition replay_of :: "coordinated option \<Rightarrow> json option" where
  "replay_of c = (case c of Some (CoReplay r) \<Rightarrow> Some r | _ \<Rightarrow> None)"

text \<open>Judged, counted, run through the store; a call not forwarded after all is not counted.\<close>

definition weigh_call :: "relay_world \<Rightarrow> tool_gate \<Rightarrow> json \<Rightarrow> interceptor \<Rightarrow> interceptor \<times> weighed" where
  "weigh_call W g msg s =
     (let tool = tool_of msg;
          (g1, v, forwarding, counted) = count_call W g tool (judge W (ic_catalog s) g tool (arguments_of msg));
          (s, c) = coordinate_call W (json_get msg ''id'') tool forwarding v (s\<lparr>ic_gate := Some g1\<rparr>);
          v = refused_by_store c v;
          withdrawn = (replay_of c \<noteq> None \<or> holds_always (cv_refusal v))
      in (if withdrawn then forget_call W counted s else s,
          \<lparr>wg_verdict = v, wg_replay = replay_of c, wg_started = (c = Some CoForward),
           wg_counted = (if withdrawn then None else counted)\<rparr>))"

definition is_enforced :: "tool_gate \<Rightarrow> call_verdict \<Rightarrow> bool" where
  "is_enforced g v = is_some_and (\<lambda>r. snd r \<or> g_mode g = Enforce) (cv_refusal v)"

text \<open>No record, no call: the start is undone and the call refused.\<close>

definition fail_closed_call ::
  "relay_world \<Rightarrow> tool_gate \<Rightarrow> entry_base \<Rightarrow> json \<Rightarrow> decision_draft \<Rightarrow> weighed \<Rightarrow> interceptor \<Rightarrow> interceptor \<times> relay_action list" where
  "fail_closed_call W g b msg draft w s =
     (let v = wg_verdict w; rpc_id = json_get msg ''id'';
          s = announce W b (cv_refusal v) (wg_replay w \<noteq> None) (is_enforced g v) draft False None s;
          s = forget_call W (wg_counted w) s;
          s = (case rpc_id of Some i \<Rightarrow> if wg_started w then unstart W (yw_ser W i) s else s | None \<Rightarrow> s)
      in (s, answer_to W rpc_id (\<lambda>i. rpc_error i TOOL_REFUSED (refusal_text FAIL_CLOSED)
               (Some (refusal_data FAIL_CLOSED (tool_of msg) g None None)))))"

text \<open>The recorded decision carried out. \<open>None\<close>: the call goes on to its server.\<close>

definition conclude_call ::
  "relay_world \<Rightarrow> tool_gate \<Rightarrow> json \<Rightarrow> weighed \<Rightarrow> interceptor \<Rightarrow> interceptor \<times> relay_action list option" where
  "conclude_call W g msg w s =
     (let v = wg_verdict w; rpc_id = json_get msg ''id'' in
      case wg_replay w of
        Some result \<Rightarrow>
          (if ic_pii s = None then s
           else record_hop W McpToolResult 0 Pseudonymize
                  (operation_meta Done (or_empty (map_option ok_operation_id (cv_operation v)))
                     @ [(''operation_replayed'', MBool True)]) s,
           Some (answer_to W rpc_id (\<lambda>i. rpc_result i result)))
      | None \<Rightarrow>
          (s, (case cv_refusal v of
                 Some (d, _) \<Rightarrow>
                   if is_enforced g v
                   then Some (answer_to W rpc_id (\<lambda>i. rpc_error i (rpc_code d) (refusal_text (denial_code d))
                                (Some (denial_data W g (tool_of msg) (arguments_of msg) d))))
                   else None
               | None \<Rightarrow> None)))"

definition decide_call ::
  "relay_world \<Rightarrow> tool_gate \<Rightarrow> entry_base \<Rightarrow> json \<Rightarrow> interceptor \<Rightarrow> interceptor \<times> relay_action list option" where
  "decide_call W g b msg s =
     (let (s, w) = weigh_call W g msg s; v = wg_verdict w;
          draft = call_draft b g (tool_of msg) v (wg_replay w \<noteq> None) (is_enforced g v)
      in case log_decision W draft (call_fingerprint W g (tool_of msg) (arguments_of msg)) s of
           Inl _ \<Rightarrow> (let (s, acts) = fail_closed_call W g b msg draft w s in (s, Some acts))
         | Inr (s, entry) \<Rightarrow>
             conclude_call W g msg w
               (announce W b (cv_refusal v) (wg_replay w \<noteq> None) (is_enforced g v) draft True entry s))"

section \<open>A message of the agent\<close>

definition refuse_message ::
  "relay_world \<Rightarrow> tool_gate \<Rightarrow> entry_base \<Rightarrow> json \<Rightarrow> int \<Rightarrow> string \<Rightarrow> interceptor \<Rightarrow> interceptor \<times> relay_action list" where
  "refuse_message W g b i code reason s =
     (let draft = (base_call b None)\<lparr>dd_decision := DecDeny, dd_reason := reason\<rparr>;
          (reason, entry, s) = (case log_decision W draft None s of
              Inr (s', e) \<Rightarrow> (reason, e, s')
            | Inl _ \<Rightarrow> (FAIL_CLOSED, None, s));
          (s, event) = emit W b DecisionDeny reason draft entry None s;
          s = report W b draft reason entry event s
      in (s, [ToAgent (yw_ser W (rpc_error i code (''message refused by CloakPipe: '' @ reason)
               (Some (JObject [(''reason'', JString reason), (''release'', JString (g_release g))]))))]))"

definition refuse_ungated ::
  "relay_world \<Rightarrow> json option \<Rightarrow> string \<Rightarrow> denial \<Rightarrow> interceptor \<Rightarrow> interceptor \<times> relay_action list" where
  "refuse_ungated W rpc_id tool d s =
     (let D = yw_digests W; code = denial_code d;
          e = gate_event_new D (yw_now W) (if denial_server d \<noteq> None then ToolDriftEvent else DecisionDeny) code
                (if is_identifier tool then Some tool else None) None None;
          e = (case denial_server d of None \<Rightarrow> e | Some sv \<Rightarrow> event_with_server D sv e);
          s = (if ic_sinks s then s\<lparr>ic_events := ic_events s @ [e\<lparr>ge_decision := Some DecDeny\<rparr>]\<rparr> else s)
      in (s, answer_to W rpc_id (\<lambda>i. rpc_error i TOOL_REFUSED (refusal_text code)
               (Some (JObject [(''reason'', JString code), (''tool'', JString tool)])))))"

definition server_at :: "catalog \<Rightarrow> nat \<Rightarrow> string" where
  "server_at c i = cg_servers c ! i"

definition route :: "interceptor \<Rightarrow> json \<Rightarrow> string" where
  "route s msg =
     (let c = ic_catalog s;
          default = (case Option.bind (ic_router s) ro_default of Some i \<Rightarrow> i | None \<Rightarrow> 0)
      in server_at c (if method_of msg = Some ''tools/call''
           then (case Option.bind (Option.bind (json_path msg [''params'', ''name'']) as_str) (catalog_route c) of
                   Some (i, _) \<Rightarrow> i
                 | None \<Rightarrow> default)
           else default))"

definition request_id :: "relay_world \<Rightarrow> json \<Rightarrow> string option" where
  "request_id W msg =
     (if json_get msg ''method'' = None then None else map_option (yw_ser W) (non_null (json_get msg ''id'')))"

definition register_outstanding :: "string option \<Rightarrow> interceptor \<Rightarrow> interceptor" where
  "register_outstanding request s =
     (case (operations s, request) of
        (Some _, Some r) \<Rightarrow>
          let p = ic_pending s in
          if in_use r p then s
          else set_pending (p\<lparr>pd_outstanding := AList.update r
                 ((case map_of (pd_outstanding p) r of Some n \<Rightarrow> n | None \<Rightarrow> 0) + 1) (pd_outstanding p)\<rparr>) s
      | _ \<Rightarrow> s)"

definition pass_on :: "relay_world \<Rightarrow> string \<Rightarrow> json \<Rightarrow> json \<Rightarrow> interceptor \<Rightarrow> interceptor \<times> relay_action list" where
  "pass_on W server msg sent s =
     (register_outstanding (request_id W msg) s, [ToUpstream server (yw_ser W sent)])"

definition mask_call :: "relay_world \<Rightarrow> json \<Rightarrow> interceptor \<Rightarrow> (json \<times> interceptor) option" where
  "mask_call W msg s =
     (case (ic_pii s, arguments_of msg) of
        (Some v, Some a) \<Rightarrow>
          map_option (\<lambda>(a', n, v').
            let s = s\<lparr>ic_pii := Some v'\<rparr>
            in (map_path [''params'', ''arguments''] (\<lambda>_. a') msg,
                if 0 < n then record_hop W McpToolCall n Pseudonymize [] s else s)) (mask_value W a v)
      | _ \<Rightarrow> Some (msg, s))"

definition forward_call :: "relay_world \<Rightarrow> json \<Rightarrow> string \<Rightarrow> interceptor \<Rightarrow> (interceptor \<times> relay_action list) option" where
  "forward_call W msg server s = map_option (\<lambda>(sent, s). pass_on W server msg sent s) (mask_call W msg s)"

definition decide_message ::
  "relay_world \<Rightarrow> json \<Rightarrow> interceptor \<Rightarrow> (interceptor \<times> relay_action list) option" where
  "decide_message W msg s =
     (let server = route s msg; request = request_id W msg in
      case (ic_gate s, ic_base s) of
        (Some g, Some b) \<Rightarrow>
          if operations s \<noteq> None \<and> is_some_and (\<lambda>r. in_use r (ic_pending s)) request
          then Some (refuse_message W g b (or_null (json_get msg ''id'')) TOOL_REFUSED (denial_code RequestIdInUse) s)
          else if method_of msg = Some ''tools/call''
          then (case decide_call W g b msg s of
                  (s, Some acts) \<Rightarrow> Some (s, acts)
                | (s, None) \<Rightarrow> forward_call W msg server s)
          else Some (pass_on W server msg msg s)
      | _ \<Rightarrow>
          if method_of msg = Some ''tools/call''
          then (case catalog_refuse (ic_catalog s) (tool_of msg) of
                  Some d \<Rightarrow> Some (refuse_ungated W (json_get msg ''id'') (tool_of msg) d s)
                | None \<Rightarrow> forward_call W msg server s)
          else Some (pass_on W server msg msg s))"

definition decide_agent :: "relay_world \<Rightarrow> string \<Rightarrow> interceptor \<Rightarrow> (interceptor \<times> relay_action list) option" where
  "decide_agent W line s =
     (let go = (case yw_parse W line of
            Some msg \<Rightarrow> decide_message W msg s
          | None \<Rightarrow> Some (s, [ToUpstream DEFAULT_SERVER line])) in
      case (ic_gate s, ic_base s) of
        (Some g, Some b) \<Rightarrow>
          (case screen W line of
             Inl (reason, code) \<Rightarrow> Some (refuse_message W g b JNull code reason s)
           | Inr _ \<Rightarrow> go)
      | _ \<Rightarrow> go)"

section \<open>A message of a server\<close>

definition record_outcome :: "relay_world \<Rightarrow> (in_flight \<times> op_state) option \<Rightarrow> interceptor \<Rightarrow> interceptor" where
  "record_outcome W settled s =
     (case (settled, ic_base s) of
        (Some (op, state), Some b) \<Rightarrow>
          (case log_decision W (base_outcome b op (if state = Done then OutCommitted else OutFailed)) (Some (if_fingerprint op)) s of
             Inr (s', _) \<Rightarrow> s'
           | Inl _ \<Rightarrow> s)
      | _ \<Rightarrow> s)"

definition result_hop :: "relay_world \<Rightarrow> (in_flight \<times> op_state) option \<Rightarrow> json \<Rightarrow> interceptor \<Rightarrow> interceptor" where
  "result_hop W settled msg s =
     (if ic_pii s = None then s
      else (case settled of
              Some (op, state) \<Rightarrow> record_hop W McpToolResult 0 Pseudonymize (operation_meta state (if_operation_id op)) s
            | None \<Rightarrow> if json_path msg [''result'', ''content''] \<noteq> None
                      then record_hop W McpToolResult 0 Pseudonymize [] s else s))"

definition rehydrated :: "relay_world \<Rightarrow> vault option \<Rightarrow> json \<Rightarrow> json" where
  "rehydrated W pii msg =
     (case pii of
        Some v \<Rightarrow> map_path [''result'', ''content''] (rehydrate_value (yw_reverse_order W) v) msg
      | None \<Rightarrow> msg)"

definition relay :: "relay_world \<Rightarrow> string \<Rightarrow> interceptor \<Rightarrow> interceptor \<times> relay_action list" where
  "relay W line s =
     (case yw_parse W line of
        None \<Rightarrow> (s, [ToAgent line])
      | Some msg \<Rightarrow>
          let (s, settled) = settle_reply W msg s
          in (result_hop W settled msg (record_outcome W settled s), [ToAgent (yw_ser W (rehydrated W (ic_pii s) msg))]))"

text \<open>What became of an operation whose reply will not come: swept to unknown, or found reconciled.\<close>

definition sweep :: "relay_world \<Rightarrow> string \<Rightarrow> interceptor \<Rightarrow> unit + (interceptor \<times> op_state option)" where
  "sweep W op s =
     rbind (settle_as W op Unknown None False s) (\<lambda>(s', changed).
       if changed then Ok (s', None)
       else (case operations s' of
               Some st \<Rightarrow> rbind (map_err (\<lambda>_. ()) (op_get st op)) (\<lambda>row. Ok (s', map_option or_state row))
             | None \<Rightarrow> Err ()))"

definition abandon_notice :: "relay_world \<Rightarrow> string \<Rightarrow> in_flight \<Rightarrow> op_state option \<Rightarrow> relay_action" where
  "abandon_notice W request op state =
     (let i = (case yw_parse W request of Some v \<Rightarrow> v | None \<Rightarrow> JNull);
          reason = (if state = None then UNKNOWN_REASON else ''operation_reconciled'');
          message = (case state of
              None \<Rightarrow> ''the tool server went away before answering: the outcome of this call is unknown''
            | Some st \<Rightarrow> ''the tool server went away before answering; an operator reconciled this call as '' @ op_state_as_str st);
          data = opt_member ''state'' (map_option (\<lambda>st. JString (op_state_as_str st)) state)
                   (JObject [(''reason'', JString reason), (''operationId'', JString (if_operation_id op))])
      in ToAgent (yw_ser W (rpc_error i RECONCILE_REQUIRED message (Some data))))"

definition record_unknown :: "relay_world \<Rightarrow> in_flight \<Rightarrow> interceptor \<Rightarrow> interceptor" where
  "record_unknown W op s =
     (case ic_base s of
        None \<Rightarrow> s
      | Some b \<Rightarrow>
          let draft = base_outcome b op OutUnknown;
              (s, entry) = (case log_decision W draft (Some (if_fingerprint op)) s of Inr r \<Rightarrow> r | Inl _ \<Rightarrow> (s, None))
          in fst (emit W b SideEffectUnknown UNKNOWN_REASON draft entry None s))"

definition abandon :: "relay_world \<Rightarrow> string \<Rightarrow> in_flight \<Rightarrow> interceptor \<Rightarrow> interceptor \<times> relay_action" where
  "abandon W request op s =
     (case sweep W (if_operation_id op) s of
        Inr (s, Some state) \<Rightarrow> (s, abandon_notice W request op (Some state))
      | Inr (s, None) \<Rightarrow>
          let s = record_unknown W op s;
              s = (if ic_pii s = None then s
                   else record_hop W McpToolResult 0 Pseudonymize (operation_meta Unknown (if_operation_id op)) s)
          in (s, abandon_notice W request op None)
      | Inl _ \<Rightarrow> (s, abandon_notice W request op None))"

fun abandon_all :: "relay_world \<Rightarrow> (string \<times> in_flight) list \<Rightarrow> interceptor \<Rightarrow> interceptor \<times> relay_action list" where
  "abandon_all W [] s = (s, [])"
| "abandon_all W (r # rs) s =
     (let (s, a) = abandon W (fst r) (snd r) s; (s, as) = abandon_all W rs s in (s, a # as))"

definition finish :: "relay_world \<Rightarrow> interceptor \<Rightarrow> interceptor \<times> relay_action list" where
  "finish W s =
     (let p = ic_pending s;
          (s, acts) = abandon_all W (yw_pending_order W (pd_by_request p))
             (set_pending (p\<lparr>pd_closed := True, pd_by_request := []\<rparr>) s)
      in (case operations s of Some st \<Rightarrow> put_operations (release_gate st) s | None \<Rightarrow> s, acts))"

section \<open>Starting, and an operator's verdict\<close>

datatype relay_error = GateNotReady gate_config_error | MaskedResults "string list" | LedgerUnwritable

definition recovered_flight :: "interceptor \<Rightarrow> string \<Rightarrow> in_flight" where
  "recovered_flight s op =
     (let row = Option.bind (Option.bind (operations s) (\<lambda>st. result_ok (op_get st op))) (\<lambda>r. r)
      in \<lparr>if_operation_id = op, if_tool = or_empty (map_option or_tool row),
          if_fingerprint = (case row of Some r \<Rightarrow> or_digest r | None \<Rightarrow> replicate 32 (CHR 0x00))\<rparr>)"

fun record_recovered :: "relay_world \<Rightarrow> entry_base \<Rightarrow> string list \<Rightarrow> interceptor \<Rightarrow> relay_error + interceptor" where
  "record_recovered W b [] s = Ok s"
| "record_recovered W b (op # ops) s =
     (let f = recovered_flight s op; draft = base_outcome b f OutUnknown
      in case log_decision W draft (Some (if_fingerprint f)) s of
           Inl _ \<Rightarrow> Err LedgerUnwritable
         | Inr (s, entry) \<Rightarrow>
             record_recovered W b ops (fst (emit W b SideEffectUnknown UNKNOWN_REASON draft entry None s)))"

definition build_relay ::
  "relay_world \<Rightarrow> tool_gate option \<Rightarrow> vault option \<Rightarrow> record_store option \<Rightarrow> decision_log option \<Rightarrow> string option \<Rightarrow> bool
   \<Rightarrow> catalog \<Rightarrow> router option \<Rightarrow> relay_error + interceptor" where
  "build_relay W gate pii hops dlog release sinks c rt =
     rbind (case gate of
              None \<Rightarrow> Ok ()
            | Some g \<Rightarrow> rbind (map_err GateNotReady (gate_ready g)) (\<lambda>_.
                case g_operations g of
                  Some st \<Rightarrow> if pii = None \<and> masked_results st \<noteq> [] then Err (MaskedResults (masked_results st)) else Ok ()
                | None \<Rightarrow> Ok ())) (\<lambda>_.
     let s = \<lparr>ic_gate = gate, ic_base = map_option (entry_base_of (yw_digests W) c) gate, ic_pii = pii, ic_hops = hops,
              ic_log = dlog, ic_pending = pending_default, ic_release = release, ic_sinks = sinks, ic_events = [],
              ic_reports = [], ic_catalog = c, ic_router = rt, ic_lists = {}\<rparr>
     in case (gate, ic_base s) of
          (Some g, Some b) \<Rightarrow> record_recovered W b (g_recovered g) s
        | _ \<Rightarrow> Ok s)"

definition reconcile_operation ::
  "relay_world \<Rightarrow> op_store \<Rightarrow> string \<Rightarrow> op_state \<Rightarrow> bool \<Rightarrow> decision_log option \<Rightarrow> string option
   \<Rightarrow> (reconcile_error + op_store) \<times> decision_log option" where
  "reconcile_operation W st op outcome force dlog release =
     (let row = Option.bind (result_ok (op_get st op)) (\<lambda>r. r);
          draft = draft_reconcile\<lparr>dd_release := release, dd_tool := map_option or_tool row, dd_operation_id := Some op,
             dd_outcome := Some (if outcome = Done then OutCommitted else OutFailed)\<rparr>;
          written = (case dlog of
              None \<Rightarrow> Ok None
            | Some l \<Rightarrow> map_err (\<lambda>_. ''ledger'') (rbind (log_append W l draft (map_option or_digest row)) (\<lambda>(l', _). Ok (Some l'))))
      in case reconcile st op outcome force (rbind written (\<lambda>_. Ok ())) (yw_now W) of
           Inr st' \<Rightarrow> (Ok st', case written of Inr l \<Rightarrow> l | Inl _ \<Rightarrow> dlog)
         | Inl e \<Rightarrow> (Err e, dlog))"

end
