(* ===== verification/Relay_Router.thy ===== *)
theory Relay_Router
  imports Relay
begin

text \<open>
  The interceptor in front of several servers (the second half of \<open>cloakpipe-mcp/src/proxy.rs\<close>): the gate
  is the client of each server, sends requests under numbers of its own, merges listings page by page,
  and answers what it can itself. \<open>on_agent_line\<close>, \<open>on_upstream_line\<close>, \<open>on_upstream_error\<close> and
  \<open>server_gone\<close> are what a transport calls. The request numbers are \<open>u64\<close> in the code; here they do not
  run out.
\<close>

section \<open>Starting the router\<close>

definition MAX_PAGES :: nat where "MAX_PAGES = 1000"
definition PROTOCOL_VERSION :: string where "PROTOCOL_VERSION = ''2025-06-18''"
definition GATE_NAME :: string where "GATE_NAME = ''cloakpipe-gate''"

definition default_server :: "server_tools list \<Rightarrow> nat option" where
  "default_server servers =
     (case List.find (\<lambda>m. sv_name (snd m) = DEFAULT_SERVER) (enumerate 0 servers) of
        Some m \<Rightarrow> Some (fst m)
      | None \<Rightarrow> if length servers = 1 then Some 0 else None)"

definition gate_capabilities :: "server_tools list \<Rightarrow> nat option \<Rightarrow> json" where
  "gate_capabilities servers dflt =
     (let base = JObject [(''tools'', JObject [(''listChanged'', JBool True)])] in
      case dflt of
        None \<Rightarrow> base
      | Some d \<Rightarrow> fold (\<lambda>c. opt_member c (json_path (sv_init (servers ! d)) [''capabilities'', c]))
                    [''resources'', ''prompts'', ''completions'', ''logging''] base)"

definition router_new :: "string \<Rightarrow> server_tools list \<Rightarrow> router" where
  "router_new version servers =
     (let dflt = default_server servers;
          d = (case dflt of Some i \<Rightarrow> i | None \<Rightarrow> 0);
          primary = (if d < length servers then sv_init (servers ! d) else JNull)
      in \<lparr>ro_init = JObject [(''protocolVersion'', (case json_get primary ''protocolVersion'' of
                Some v \<Rightarrow> v | None \<Rightarrow> JString PROTOCOL_VERSION)),
              (''capabilities'', gate_capabilities servers dflt),
              (''serverInfo'', JObject [(''name'', JString GATE_NAME), (''version'', JString version)])],
          ro_default = dflt, ro_next_id = 1, ro_next_job = 0, ro_waiting = [], ro_jobs = [], ro_gone = {}\<rparr>)"

definition put_router :: "router \<Rightarrow> interceptor \<Rightarrow> interceptor" where
  "put_router r s = s\<lparr>ic_router := Some r\<rparr>"

section \<open>Drift\<close>

definition emit_drift :: "relay_world \<Rightarrow> drift \<Rightarrow> interceptor \<Rightarrow> interceptor" where
  "emit_drift W d s =
     (if \<not> ic_sinks s then s
      else let D = yw_digests W;
               e = event_with_server D (df_server d) (gate_event_new D (yw_now W) ToolDriftEvent (denial_code (ToolDrift []))
                     (if is_identifier (df_tool d) then Some (df_tool d) else None) None
                     (Option.bind (ic_base s) eb_policy_digest));
               e = (case ic_base s of None \<Rightarrow> e
                    | Some b \<Rightarrow> e\<lparr>ge_release := Some (eb_release_name b), ge_release_digest := Some (eb_release b),
                                  ge_mode := Some (eb_mode b)\<rparr>)
           in s\<lparr>ic_events := ic_events s @ [e]\<rparr>)"

definition observe_listing :: "relay_world \<Rightarrow> nat \<Rightarrow> json list \<Rightarrow> interceptor \<Rightarrow> interceptor \<times> json list" where
  "observe_listing W server ts s =
     (let (c, visible, drifts) = observe (yw_digests W) server ts (ic_catalog s)
      in (fold (emit_drift W) drifts (s\<lparr>ic_catalog := c\<rparr>), visible))"

definition with_servers ::
  "relay_world \<Rightarrow> tool_gate option \<Rightarrow> vault option \<Rightarrow> record_store option \<Rightarrow> decision_log option \<Rightarrow> string option \<Rightarrow> bool
   \<Rightarrow> server_tools list \<Rightarrow> tools_lock option \<Rightarrow> (catalog_error + relay_error) + interceptor" where
  "with_servers W gate pii hops dlog release sinks servers lock =
     rbind (map_err Inl (catalog_routed (yw_digests W) servers lock (\<lambda>tool. is_some_and (\<lambda>g. gate_declares g tool) gate)))
       (\<lambda>(c, drifts).
     rbind (map_err Inr (build_relay W gate pii hops dlog release sinks c (Some (router_new (yw_version W) servers)))) (\<lambda>s.
     Ok (fold (emit_drift W) drifts s)))"

section \<open>Answers of the gate's own\<close>

definition answer :: "relay_world \<Rightarrow> json \<Rightarrow> json \<Rightarrow> interceptor \<Rightarrow> interceptor \<times> relay_action list" where
  "answer W i result s = relay W (yw_ser W (rpc_result i result)) s"

definition answer_error ::
  "relay_world \<Rightarrow> json \<Rightarrow> int \<Rightarrow> string \<Rightarrow> string option \<Rightarrow> interceptor \<Rightarrow> interceptor \<times> relay_action list" where
  "answer_error W i code message reason s =
     relay W (yw_ser W (rpc_error i code message (map_option (\<lambda>r. JObject [(''reason'', JString r)]) reason))) s"

section \<open>Listings\<close>

fun observe_all_servers :: "relay_world \<Rightarrow> (nat \<times> json list) list \<Rightarrow> interceptor \<Rightarrow> interceptor \<times> json list" where
  "observe_all_servers W [] s = (s, [])"
| "observe_all_servers W (l # ls) s =
     (let (s, vs) = observe_listing W (fst l) (snd l) s; (s, ws) = observe_all_servers W ls s in (s, vs @ ws))"

definition finish_listing :: "relay_world \<Rightarrow> list_job \<Rightarrow> interceptor \<Rightarrow> interceptor \<times> relay_action list" where
  "finish_listing W job s =
     (let (s, merged) = observe_all_servers W (lj_tools job) s in
      case lj_agent job of
        Some i \<Rightarrow> answer W i (JObject [(''tools'', JArray merged)]) s
      | None \<Rightarrow> (s, []))"

definition page_request :: "relay_world \<Rightarrow> string \<Rightarrow> nat \<Rightarrow> nat \<Rightarrow> string option \<Rightarrow> router \<Rightarrow> router \<times> relay_action" where
  "page_request W server_name job server cursor r =
     (r\<lparr>ro_next_id := ro_next_id r + 1, ro_waiting := AList.update (ro_next_id r) (WaitList job server) (ro_waiting r)\<rparr>,
      ToUpstream server_name (yw_ser W (opt_member ''params'' (map_option (\<lambda>c. JObject [(''cursor'', JString c)]) cursor)
        (JObject [(''jsonrpc'', JString ''2.0''), (''id'', JNumber (PosInt (ro_next_id r))), (''method'', JString ''tools/list'')]))))"

fun first_pages :: "relay_world \<Rightarrow> catalog \<Rightarrow> nat \<Rightarrow> nat list \<Rightarrow> router \<Rightarrow> router \<times> relay_action list" where
  "first_pages W c job [] r = (r, [])"
| "first_pages W c job (i # is) r =
     (let (r, a) = page_request W (server_at c i) job i None r; (r, as) = first_pages W c job is r in (r, a # as))"

definition start_listing ::
  "relay_world \<Rightarrow> json option \<Rightarrow> nat list \<Rightarrow> interceptor \<Rightarrow> interceptor \<times> relay_action list" where
  "start_listing W agent servers s =
     (case ic_router s of
        None \<Rightarrow> (s, [])
      | Some r \<Rightarrow>
          let live = filter (\<lambda>i. i \<notin> ro_gone r) servers; job = ro_next_job r;
              r = r\<lparr>ro_next_job := job + 1\<rparr>;
              listing = \<lparr>lj_agent = agent, lj_remaining = set live, lj_tools = [], lj_pages = 0\<rparr> in
          if live = [] then finish_listing W listing (put_router r s)
          else let (r, acts) = first_pages W (ic_catalog s) job live (r\<lparr>ro_jobs := AList.update job listing (ro_jobs r)\<rparr>)
               in (put_router r s, acts))"

definition page_tools :: "nat \<Rightarrow> json \<Rightarrow> (nat \<times> json list) list \<Rightarrow> (nat \<times> json list) list" where
  "page_tools server result tools =
     (case Option.bind (json_get result ''tools'') as_array of
        None \<Rightarrow> tools
      | Some ts \<Rightarrow> bt_insert server ((case map_of tools server of Some us \<Rightarrow> us | None \<Rightarrow> []) @ ts) tools)"

definition next_cursor :: "json \<Rightarrow> string option" where
  "next_cursor result =
     (case Option.bind (json_get result ''nextCursor'') as_str of Some c \<Rightarrow> if c = [] then None else Some c | None \<Rightarrow> None)"

definition on_page :: "relay_world \<Rightarrow> nat \<Rightarrow> nat \<Rightarrow> json \<Rightarrow> interceptor \<Rightarrow> interceptor \<times> relay_action list" where
  "on_page W job server msg s =
     (case Option.bind (ic_router s) (\<lambda>r. map_option (Pair r) (map_of (ro_jobs r) job)) of
        None \<Rightarrow> (s, [])
      | Some (r, listing) \<Rightarrow>
          let listing = listing\<lparr>lj_pages := lj_pages listing + 1\<rparr>;
              next_page = (case json_get msg ''result'' of
                  Some result \<Rightarrow> if MAX_PAGES * length (cg_servers (ic_catalog s)) \<le> lj_pages listing then None else next_cursor result
                | None \<Rightarrow> None);
              listing = listing\<lparr>lj_tools := (case json_get msg ''result'' of
                  Some result \<Rightarrow> page_tools server result (lj_tools listing)
                | None \<Rightarrow> filter (\<lambda>m. fst m \<noteq> server) (lj_tools listing))\<rparr> in
          case next_page of
            Some cursor \<Rightarrow>
              let (r, a) = page_request W (server_at (ic_catalog s) server) job server (Some cursor)
                    (r\<lparr>ro_jobs := AList.update job listing (ro_jobs r)\<rparr>)
              in (put_router r s, [a])
          | None \<Rightarrow>
              let listing = listing\<lparr>lj_remaining := lj_remaining listing - {server}\<rparr> in
              if lj_remaining listing \<noteq> {}
              then (put_router (r\<lparr>ro_jobs := AList.update job listing (ro_jobs r)\<rparr>) s, [])
              else finish_listing W listing (put_router (r\<lparr>ro_jobs := AList.delete job (ro_jobs r)\<rparr>) s))"

section \<open>Routing a message of the agent\<close>

definition send_routed :: "relay_world \<Rightarrow> nat \<Rightarrow> json \<Rightarrow> interceptor \<Rightarrow> interceptor \<times> relay_action list" where
  "send_routed W server msg s =
     (let i = non_null (json_get msg ''id''); name = server_at (ic_catalog s) server in
      case ic_router s of
        None \<Rightarrow> (s, [])
      | Some r \<Rightarrow>
          if server \<in> ro_gone r
          then (case i of
                  None \<Rightarrow> (s, [])
                | Some i \<Rightarrow> answer_error W i UPSTREAM_UNAVAILABLE (''upstream MCP server '' @ name @ '' went away'')
                              (Some ''upstream_unavailable'') s)
          else (case i of
                  None \<Rightarrow> (s, [ToUpstream name (yw_ser W msg)])
                | Some i \<Rightarrow>
                    (put_router (r\<lparr>ro_next_id := ro_next_id r + 1,
                        ro_waiting := AList.update (ro_next_id r) (WaitAgent i server) (ro_waiting r)\<rparr>) s,
                     [ToUpstream name (yw_ser W (set_member ''id'' (JNumber (PosInt (ro_next_id r))) msg))])))"

definition agent_wait :: "json \<Rightarrow> nat \<times> waiting \<Rightarrow> (nat \<times> nat) option" where
  "agent_wait request w = (case snd w of WaitAgent i server \<Rightarrow> if json_eq i request then Some (fst w, server) else None | _ \<Rightarrow> None)"

definition cancel :: "relay_world \<Rightarrow> json \<Rightarrow> interceptor \<Rightarrow> interceptor \<times> relay_action list" where
  "cancel W msg s =
     (case (json_path msg [''params'', ''requestId''], ic_router s) of
        (Some request, Some r) \<Rightarrow>
          (case List.map_filter (agent_wait request) (yw_waiting_order W (ro_waiting r)) of
             [] \<Rightarrow> (s, [])
           | (n, server) # _ \<Rightarrow>
               (s, [ToUpstream (server_at (ic_catalog s) server)
                      (yw_ser W (map_path [''params'', ''requestId''] (\<lambda>_. JNumber (PosInt n)) msg))]))
      | _ \<Rightarrow> (s, []))"

text \<open>\<open>msg["params"]["name"] = ...\<close>: an absent or null \<open>params\<close> becomes an object, any other value panics.\<close>

definition set_tool_name :: "string \<Rightarrow> json \<Rightarrow> json option" where
  "set_tool_name name msg =
     (case json_get msg ''params'' of
        Some (JObject ms) \<Rightarrow> Some (set_member ''params'' (set_member ''name'' (JString name) (JObject ms)) msg)
      | Some JNull \<Rightarrow> Some (set_member ''params'' (JObject [(''name'', JString name)]) msg)
      | None \<Rightarrow> Some (set_member ''params'' (JObject [(''name'', JString name)]) msg)
      | _ \<Rightarrow> None)"

definition dispatch :: "relay_world \<Rightarrow> string \<Rightarrow> interceptor \<Rightarrow> (interceptor \<times> relay_action list) option" where
  "dispatch W message s =
     (case (ic_router s, yw_parse W message) of
        (Some r, Some msg) \<Rightarrow>
          let n = length (cg_servers (ic_catalog s)) in
          (case (method_of msg, non_null (json_get msg ''id'')) of
             (None, _) \<Rightarrow> Some (s, [])
           | (Some m, i) \<Rightarrow>
               if m = ''initialize'' \<and> i \<noteq> None then Some (answer W (or_null i) (ro_init r) s)
               else if m = ''ping'' \<and> i \<noteq> None then Some (answer W (or_null i) (JObject []) s)
               else if m = ''tools/list'' \<and> i \<noteq> None then Some (start_listing W i [0..<n] s)
               else if m = ''tools/call''
               then (case catalog_route (ic_catalog s) (tool_of msg) of
                       Some (server, name) \<Rightarrow> map_option (\<lambda>msg. send_routed W server msg s) (set_tool_name name msg)
                     | None \<Rightarrow> (case json_get msg ''id'' of
                                  Some i \<Rightarrow> Some (answer_error W i TOOL_REFUSED (refusal_text ''tool_unavailable'')
                                                     (Some ''tool_unavailable'') s)
                                | None \<Rightarrow> Some (s, [])))
               else (case i of
                       None \<Rightarrow>
                         if m = ''notifications/initialized'' then Some (s, [])
                         else if m = ''notifications/cancelled'' then Some (cancel W msg s)
                         else Some (s, map (\<lambda>j. ToUpstream (server_at (ic_catalog s) j) (yw_ser W msg))
                                         (filter (\<lambda>j. j \<notin> ro_gone r) [0..<n]))
                     | Some i \<Rightarrow>
                         (case ro_default r of
                            Some server \<Rightarrow> Some (send_routed W server msg s)
                          | None \<Rightarrow> Some (answer_error W i METHOD_NOT_FOUND (m @ '' is not routed by the CloakPipe gate '' @
                              ''in front of several servers: only tools are. Give one server as --upstream (named default) '' @
                              ''to send other requests to it'') None s))))
      | _ \<Rightarrow> Some (s, []))"

definition note_list_request :: "relay_world \<Rightarrow> string \<Rightarrow> interceptor \<Rightarrow> interceptor" where
  "note_list_request W message s =
     (if \<not> contains_str ''tools/list'' message then s
      else (case yw_parse W message of
              None \<Rightarrow> s
            | Some msg \<Rightarrow>
                if method_of msg \<noteq> Some ''tools/list'' then s
                else (case non_null (json_get msg ''id'') of
                        Some i \<Rightarrow> s\<lparr>ic_lists := insert (yw_ser W i) (ic_lists s)\<rparr>
                      | None \<Rightarrow> s)))"

fun carry_out :: "relay_world \<Rightarrow> relay_action list \<Rightarrow> interceptor \<Rightarrow> (interceptor \<times> relay_action list) option" where
  "carry_out W [] s = Some (s, [])"
| "carry_out W (a # as) s =
     Option.bind (case a of
         ToUpstream server message \<Rightarrow>
           if ic_router s \<noteq> None then dispatch W message s
           else Some (note_list_request W message s, [a])
       | ToAgent _ \<Rightarrow> Some (s, [a])) (\<lambda>(s, out). map_option (\<lambda>(s, rest). (s, out @ rest)) (carry_out W as s))"

definition on_agent_line :: "relay_world \<Rightarrow> string \<Rightarrow> interceptor \<Rightarrow> (interceptor \<times> relay_action list) option" where
  "on_agent_line W line s = Option.bind (decide_agent W line s) (\<lambda>(s, acts). carry_out W acts s)"

section \<open>Messages and failures of the servers\<close>

text \<open>One upstream: the reply to a listing, with drifted tools removed.\<close>

definition check_listing :: "relay_world \<Rightarrow> string \<Rightarrow> interceptor \<Rightarrow> interceptor \<times> string option" where
  "check_listing W line s =
     (if ic_lists s = {} then (s, None)
      else (case yw_parse W line of
              None \<Rightarrow> (s, None)
            | Some msg \<Rightarrow>
                if json_get msg ''method'' \<noteq> None then (s, None)
                else (case json_get msg ''id'' of
                        None \<Rightarrow> (s, None)
                      | Some i \<Rightarrow>
                          if yw_ser W i \<notin> ic_lists s then (s, None)
                          else let s = s\<lparr>ic_lists := ic_lists s - {yw_ser W i}\<rparr> in
                               (case Option.bind (json_path msg [''result'', ''tools'']) as_array of
                                  None \<Rightarrow> (s, None)
                                | Some ts \<Rightarrow>
                                    let (s, visible) = observe_listing W 0 ts s
                                    in (s, Some (yw_ser W (map_path [''result'', ''tools''] (\<lambda>_. JArray visible) msg)))))))"

definition on_routed_line :: "relay_world \<Rightarrow> string \<Rightarrow> string \<Rightarrow> interceptor \<Rightarrow> interceptor \<times> relay_action list" where
  "on_routed_line W server line s =
     (case (server_index (ic_catalog s) server, yw_parse W line, ic_router s) of
        (Some index, Some msg, Some r) \<Rightarrow>
          (case method_of msg of
             Some m \<Rightarrow>
               (case non_null (json_get msg ''id'') of
                  Some i \<Rightarrow> (s, [ToUpstream server (yw_ser W (rpc_error i METHOD_NOT_FOUND
                                  (m @ '' is not relayed by the CloakPipe gate'') None))])
                | None \<Rightarrow>
                    if m = ''notifications/tools/list_changed''
                    then (let (s, acts) = start_listing W None [index] s in (s, acts @ [ToAgent line]))
                    else (s, [ToAgent line]))
           | None \<Rightarrow>
               (case Option.bind (json_get msg ''id'') as_u64 of
                  None \<Rightarrow> (s, [])
                | Some n \<Rightarrow>
                    let s' = put_router (r\<lparr>ro_waiting := AList.delete n (ro_waiting r)\<rparr>) s in
                    (case map_of (ro_waiting r) n of
                       Some (WaitAgent i _) \<Rightarrow> relay W (yw_ser W (set_member ''id'' i msg)) s'
                     | Some (WaitList job sv) \<Rightarrow> on_page W job sv msg s'
                     | None \<Rightarrow> (s', []))))
      | _ \<Rightarrow> (s, []))"

definition on_upstream_line :: "relay_world \<Rightarrow> string \<Rightarrow> string \<Rightarrow> interceptor \<Rightarrow> interceptor \<times> relay_action list" where
  "on_upstream_line W server line s =
     (if ic_router s \<noteq> None then on_routed_line W server line s
      else (case check_listing W line s of
              (s, Some filtered) \<Rightarrow> relay W filtered s
            | (s, None) \<Rightarrow> relay W line s))"

definition fail_request :: "relay_world \<Rightarrow> json \<Rightarrow> interceptor \<Rightarrow> interceptor \<times> relay_action list" where
  "fail_request W i s =
     (let request = yw_ser W i; p = ic_pending s in
      case map_of (pd_by_request p) request of
        Some op \<Rightarrow>
          let (s, a) = abandon W request op (set_pending (p\<lparr>pd_by_request := AList.delete request (pd_by_request p)\<rparr>) s) in (s, [a])
      | None \<Rightarrow>
          (set_pending (answered request p) s,
           [ToAgent (yw_ser W (rpc_error i UPSTREAM_UNAVAILABLE
              ''the upstream MCP server did not answer this request (transport error); it failed closed''
              (Some (JObject [(''reason'', JString ''upstream_unavailable'')]))))]))"

definition on_upstream_error :: "relay_world \<Rightarrow> string \<Rightarrow> interceptor \<Rightarrow> interceptor \<times> relay_action list" where
  "on_upstream_error W message s =
     (case Option.bind (yw_parse W message) (\<lambda>msg. if json_get msg ''method'' = None then None else json_get msg ''id'') of
        None \<Rightarrow> (s, [])
      | Some i \<Rightarrow>
          (case ic_router s of
             None \<Rightarrow> fail_request W i s
           | Some r \<Rightarrow>
               (case as_u64 i of
                  None \<Rightarrow> (s, [])
                | Some n \<Rightarrow>
                    let s' = put_router (r\<lparr>ro_waiting := AList.delete n (ro_waiting r)\<rparr>) s in
                    (case map_of (ro_waiting r) n of
                       Some (WaitAgent agent _) \<Rightarrow> fail_request W agent s'
                     | Some (WaitList job sv) \<Rightarrow>
                         on_page W job sv (rpc_error i UPSTREAM_UNAVAILABLE ''transport error'' None) s'
                     | None \<Rightarrow> (s', [])))))"

section \<open>A server that went away\<close>

definition waits_on :: "nat \<Rightarrow> nat \<times> waiting \<Rightarrow> bool" where
  "waits_on index w = (case snd w of WaitAgent _ sv \<Rightarrow> sv = index | WaitList _ sv \<Rightarrow> sv = index)"

definition agent_of :: "nat \<times> waiting \<Rightarrow> json option" where
  "agent_of w = (case snd w of WaitAgent i _ \<Rightarrow> Some i | WaitList _ _ \<Rightarrow> None)"

definition job_of :: "nat \<times> waiting \<Rightarrow> nat option" where
  "job_of w = (case snd w of WaitAgent _ _ \<Rightarrow> None | WaitList job _ \<Rightarrow> Some job)"

definition drop_server :: "nat \<Rightarrow> list_job \<Rightarrow> list_job" where
  "drop_server index l = l\<lparr>lj_remaining := lj_remaining l - {index}, lj_tools := filter (\<lambda>m. fst m \<noteq> index) (lj_tools l)\<rparr>"

fun close_jobs :: "nat \<Rightarrow> nat list \<Rightarrow> router \<Rightarrow> router \<times> list_job list" where
  "close_jobs index [] r = (r, [])"
| "close_jobs index (job # js) r =
     (case map_of (ro_jobs r) job of
        None \<Rightarrow> close_jobs index js r
      | Some l \<Rightarrow>
          let l = drop_server index l in
          if lj_remaining l = {}
          then (let (r, ls) = close_jobs index js (r\<lparr>ro_jobs := AList.delete job (ro_jobs r)\<rparr>) in (r, l # ls))
          else close_jobs index js (r\<lparr>ro_jobs := AList.update job l (ro_jobs r)\<rparr>))"

fun gone_requests :: "relay_world \<Rightarrow> string \<Rightarrow> json list \<Rightarrow> interceptor \<Rightarrow> interceptor \<times> relay_action list" where
  "gone_requests W server [] s = (s, [])"
| "gone_requests W server (i # is) s =
     (let request = yw_ser W i; p = ic_pending s;
          (s, acts) = (case map_of (pd_by_request p) request of
              Some op \<Rightarrow> (let (s, a) = abandon W request op
                             (set_pending (p\<lparr>pd_by_request := AList.delete request (pd_by_request p)\<rparr>) s) in (s, [a]))
            | None \<Rightarrow> answer_error W i UPSTREAM_UNAVAILABLE (''upstream MCP server '' @ server @ '' went away before answering'')
                        (Some ''upstream_unavailable'') s);
          (s, rest) = gone_requests W server is s
      in (s, acts @ rest))"

fun finish_listings :: "relay_world \<Rightarrow> list_job list \<Rightarrow> interceptor \<Rightarrow> interceptor \<times> relay_action list" where
  "finish_listings W [] s = (s, [])"
| "finish_listings W (l # ls) s =
     (let (s, acts) = finish_listing W l s; (s, rest) = finish_listings W ls s in (s, acts @ rest))"

definition server_gone :: "relay_world \<Rightarrow> string \<Rightarrow> interceptor \<Rightarrow> interceptor \<times> relay_action list" where
  "server_gone W server s =
     (case (server_index (ic_catalog s) server, ic_router s) of
        (Some index, Some r) \<Rightarrow>
          let ours = filter (waits_on index) (yw_waiting_order W (ro_waiting r));
              (r, finished) = close_jobs index (yw_job_order W (remdups (List.map_filter job_of ours)))
                 (r\<lparr>ro_gone := insert index (ro_gone r), ro_waiting := filter (\<lambda>w. \<not> waits_on index w) (ro_waiting r)\<rparr>);
              (s, acts) = gone_requests W server (List.map_filter agent_of ours) (put_router r s);
              (s, rest) = finish_listings W finished s
          in (s, acts @ rest)
      | _ \<Rightarrow> (s, []))"

definition idle :: "interceptor \<Rightarrow> bool" where
  "idle s \<longleftrightarrow> (case ic_router s of None \<Rightarrow> True | Some r \<Rightarrow> \<not> list_ex (\<lambda>w. job_of w \<noteq> None) (ro_waiting r))"

end
