(* ===== verification/Relay_Facts.thy ===== *)
theory Relay_Facts
  imports Relay_Router
begin

text \<open>
  What the interceptor keeps: every operation in flight has a request waiting for its reply. Most of what a
  handler does (events, reports, hops, entries, counters, routing) leaves operations and requests alone;
  \<open>ops_view\<close> is what remains.
\<close>

section \<open>What leaves operations and requests alone\<close>

definition ops_view :: "interceptor \<Rightarrow> op_store option \<times> pending_ops" where
  "ops_view s = (operations s, ic_pending s)"

named_theorems view_simps \<open>steps that leave operations and requests alone\<close>

lemma ops_view_update [view_simps]:
  "ops_view (s\<lparr>ic_events := x1\<rparr>) = ops_view s" "ops_view (s\<lparr>ic_reports := x2\<rparr>) = ops_view s"
  "ops_view (s\<lparr>ic_hops := x3\<rparr>) = ops_view s" "ops_view (s\<lparr>ic_log := x4\<rparr>) = ops_view s"
  "ops_view (s\<lparr>ic_pii := x5\<rparr>) = ops_view s" "ops_view (s\<lparr>ic_catalog := x6\<rparr>) = ops_view s"
  "ops_view (s\<lparr>ic_router := x7\<rparr>) = ops_view s" "ops_view (s\<lparr>ic_lists := x8\<rparr>) = ops_view s"
  by (simp_all add: ops_view_def operations_def)

lemma ops_view_emit [view_simps]: "ops_view (fst (emit W b k r d e sv s)) = ops_view s"
  by (simp add: emit_def Let_def view_simps)

lemma ops_view_report [view_simps]: "ops_view (report W b d r e ev s) = ops_view s"
  by (simp add: report_def view_simps)

lemma ops_view_record_hop [view_simps]: "ops_view (record_hop W h n k es s) = ops_view s"
  by (simp add: record_hop_def view_simps split: option.split sum.split)

lemma log_decision_Ok:
  assumes "log_decision W d raw s = Ok (s', e)"
  shows "s' = s\<lparr>ic_log := ic_log s'\<rparr>"
  using assms by (auto simp: log_decision_def split: option.splits)

lemma ops_view_log [view_simps]: "log_decision W d raw s = Ok (s', e) \<Longrightarrow> ops_view s' = ops_view s"
  by (metis log_decision_Ok ops_view_update(4))

lemma ops_view_announce [view_simps]: "ops_view (announce W b r rp en d rec e s) = ops_view s"
  by (simp add: announce_def Let_def case_prod_beta view_simps split: option.split)

lemma forget_forwarded_operations [simp]: "g_operations (forget_forwarded W g i) = g_operations g"
  by (simp add: forget_forwarded_def split: option.split)

lemma record_forwarded_operations: "record_forwarded W g t now = Ok (g', i) \<Longrightarrow> g_operations g' = g_operations g"
  by (auto simp: record_forwarded_def case_prod_beta Let_def split: option.splits if_splits)

lemma ops_view_gate: "ic_gate s = Some g \<Longrightarrow> g_operations g' = g_operations g \<Longrightarrow> ops_view (s\<lparr>ic_gate := Some g'\<rparr>) = ops_view s"
  by (simp add: ops_view_def operations_def)

lemma ops_view_forget [view_simps]: "ops_view (forget_call W i s) = ops_view s"
  by (cases "ic_gate s") (auto simp: forget_call_def ops_view_def operations_def split: option.split)

lemma ops_view_unknown [view_simps]: "ops_view (record_unknown W op s) = ops_view s"
proof (cases "ic_base s")
  case (Some b)
  then show ?thesis
    by (cases "log_decision W (base_outcome b op OutUnknown) (Some (if_fingerprint op)) s")
      (auto simp: record_unknown_def Let_def case_prod_beta view_simps)
qed (simp add: record_unknown_def)

lemma ops_view_drift [view_simps]: "ops_view (emit_drift W d s) = ops_view s"
  by (simp add: emit_drift_def Let_def view_simps)

lemma ops_view_drifts [view_simps]: "ops_view (fold (emit_drift W) ds s) = ops_view s"
  by (induction ds arbitrary: s) (simp_all add: view_simps)

lemma ops_view_observe [view_simps]: "ops_view (fst (observe_listing W i ts s)) = ops_view s"
  by (simp add: observe_listing_def case_prod_beta Let_def view_simps)

lemma ops_view_observe_all [view_simps]: "ops_view (fst (observe_all_servers W ls s)) = ops_view s"
  by (induction ls arbitrary: s) (simp_all add: case_prod_beta Let_def view_simps)

lemma ops_view_put_router [view_simps]: "ops_view (put_router r s) = ops_view s"
  by (simp add: put_router_def view_simps)

lemma ops_view_mask_call [view_simps]: "mask_call W msg s = Some (sent, s') \<Longrightarrow> ops_view s' = ops_view s"
  by (auto simp: mask_call_def Let_def view_simps split: option.splits if_splits prod.splits)

lemma ops_view_refuse_message [view_simps]: "ops_view (fst (refuse_message W g b i code r s)) = ops_view s"
proof (cases "log_decision W ((base_call b None)\<lparr>dd_decision := DecDeny, dd_reason := r\<rparr>) None s")
  case (Inr x)
  then show ?thesis by (cases x) (simp add: refuse_message_def Let_def case_prod_beta view_simps)
qed (simp add: refuse_message_def Let_def case_prod_beta view_simps)

lemma ops_view_refuse_ungated [view_simps]: "ops_view (fst (refuse_ungated W i t d s)) = ops_view s"
  by (simp add: refuse_ungated_def Let_def view_simps)

lemma ops_view_note [view_simps]: "ops_view (note_list_request W m s) = ops_view s"
  by (simp add: note_list_request_def view_simps split: option.split)

lemma ops_view_check_listing [view_simps]: "ops_view (fst (check_listing W line s)) = ops_view s"
  by (auto simp: check_listing_def Let_def case_prod_beta view_simps split: option.splits)

section \<open>Operations and the requests that wait for them\<close>

definition waited_ops :: "pending_ops \<Rightarrow> string set" where
  "waited_ops p = if_operation_id ` snd ` set (pd_by_request p)"

definition in_flight_ops :: "op_store \<Rightarrow> string set" where
  "in_flight_ops st = {x. op_status st x = Some ''in_flight''}"

text \<open>\<open>A\<close>: operations that may be in flight although no request waits for them.\<close>

definition view_ok :: "string set \<Rightarrow> op_store option \<times> pending_ops \<Rightarrow> bool" where
  "view_ok A w \<longleftrightarrow> distinct (map fst (pd_by_request (snd w)))
     \<and> (\<forall>st. fst w = Some st \<longrightarrow> store_ok st \<and> in_flight_ops st \<subseteq> waited_ops (snd w) \<union> A)"

abbreviation relay_ok :: "interceptor \<Rightarrow> bool" where
  "relay_ok s \<equiv> view_ok {} (ops_view s)"

lemma view_ok_mono: "view_ok A w \<Longrightarrow> A \<subseteq> B \<Longrightarrow> view_ok B w"
  by (auto simp: view_ok_def)

lemma view_set_pending [simp]: "ops_view (set_pending p s) = (operations s, p)"
  by (simp add: ops_view_def set_pending_def operations_def)

lemma view_put_operations: "operations s \<noteq> None \<Longrightarrow> ops_view (put_operations st s) = (Some st, ic_pending s)"
  by (cases "ic_gate s") (auto simp: ops_view_def put_operations_def operations_def)

lemma operations_view: "operations s = fst (ops_view s)" and pending_view: "ic_pending s = snd (ops_view s)"
  by (simp_all add: ops_view_def)

lemma in_flight_settled:
  assumes "settle_with st x state result masked now = Ok (st', changed)" "store_ok st"
  shows "in_flight_ops st' = in_flight_ops st - {x}" "store_ok st'"
proof -
  from op_status_settle(3) [OF assms] have "op_state_as_str state \<noteq> ''in_flight''" by auto
  with op_status_settle(1,2) [OF assms] show "in_flight_ops st' = in_flight_ops st - {x}"
    by (auto simp: in_flight_ops_def)
qed (rule store_ok_settle [OF assms(2,1)])

lemma settle_as_Ok:
  assumes "settle_as W x state result masked s = Ok (s', changed)"
  obtains st st' where "operations s = Some st" "settle_with st x state result masked (yw_now W) = Ok (st', changed)"
    "s' = put_operations st' s"
  using assms by (auto simp: settle_as_def settle_def settle_masked_def split: option.splits if_splits sum.splits)

lemma settle_as_total:
  assumes "operations s = Some st" "yw_settle_ok W" "state \<in> {Done, Failed, Unknown}"
  shows "\<exists>s' changed. settle_as W x state result masked s = Ok (s', changed)"
  using assms by (auto simp: settle_as_def settle_def settle_masked_def settle_with_def)

lemma view_settle_as:
  assumes "settle_as W x state result masked s = Ok (s', changed)" "view_ok A (ops_view s)"
  shows "view_ok (A - {x}) (ops_view s')" "ic_pending s' = ic_pending s" "operations s' \<noteq> None"
proof -
  from assms(1) obtain st st' where st: "operations s = Some st" "settle_with st x state result masked (yw_now W) = Ok (st', changed)"
    "s' = put_operations st' s" by (rule settle_as_Ok)
  from st(1,3) have v: "ops_view s' = (Some st', ic_pending s)" by (simp add: view_put_operations)
  from assms(2) st(1) have "store_ok st" by (simp add: view_ok_def ops_view_def)
  from in_flight_settled [OF st(2) this] assms(2) st(1) v show "view_ok (A - {x}) (ops_view s')"
    by (auto simp: view_ok_def ops_view_def)
  from v show "ic_pending s' = ic_pending s" "operations s' \<noteq> None" by (simp_all add: ops_view_def)
qed

lemma view_settle_quietly:
  assumes "view_ok {x} (ops_view s)" "yw_settle_ok W" "state \<in> {Done, Failed, Unknown}"
  shows "relay_ok (settle_quietly W x state s)"
proof (cases "operations s")
  case None
  with assms(1) show ?thesis by (simp add: settle_quietly_def settle_as_def view_ok_def ops_view_def)
next
  case (Some st)
  from settle_as_total [OF Some assms(2,3)] obtain s' c where "settle_as W x state None False s = Ok (s', c)" by blast
  with view_settle_as(1) [OF this assms(1)] show ?thesis by (simp add: settle_quietly_def)
qed

lemma view_forget_request:
  assumes "view_ok {} (ops, p)" "map_of (pd_by_request p) r = Some op"
  shows "view_ok {if_operation_id op} (ops, p\<lparr>pd_by_request := AList.delete r (pd_by_request p)\<rparr>)"
proof -
  have d: "distinct (map fst (pd_by_request p))" using assms(1) by (simp add: view_ok_def)
  have "waited_ops p \<subseteq> insert (if_operation_id op) (waited_ops (p\<lparr>pd_by_request := AList.delete r (pd_by_request p)\<rparr>))"
  proof
    fix x assume "x \<in> waited_ops p"
    then obtain k f where kf: "(k, f) \<in> set (pd_by_request p)" "x = if_operation_id f" by (auto simp: waited_ops_def)
    show "x \<in> insert (if_operation_id op) (waited_ops (p\<lparr>pd_by_request := AList.delete r (pd_by_request p)\<rparr>))"
    proof (cases "k = r")
      case True
      with kf assms(2) d have "f = op" by (simp add: map_of_is_SomeI)
      with kf show ?thesis by simp
    next
      case False
      with kf have "(k, f) \<in> set (AList.delete r (pd_by_request p))" by (simp add: AList.delete_eq)
      with kf show ?thesis by (force simp: waited_ops_def)
    qed
  qed
  with assms(1) d show ?thesis by (fastforce simp: view_ok_def AList.distinct_delete)
qed

lemma view_wait_for:
  assumes "view_ok {x} (ops, p)" "r \<notin> fst ` set (pd_by_request p)" "if_operation_id op = x"
  shows "view_ok {} (ops, p\<lparr>pd_by_request := AList.update r op (pd_by_request p)\<rparr>)"
proof -
  have "AList.update r op xs = xs @ [(r, op)]" if "r \<notin> fst ` set xs" for xs :: "(string \<times> in_flight) list"
    using that by (induction xs) auto
  with assms show ?thesis by (fastforce simp: view_ok_def waited_ops_def)
qed

lemma view_ok_pending:
  assumes "view_ok A (ops, p)" "pd_by_request q = pd_by_request p"
  shows "view_ok A (ops, q)"
  using assms by (simp add: view_ok_def waited_ops_def)

lemma answered_by_request [simp]: "pd_by_request (answered r p) = pd_by_request p"
  by (simp add: answered_def split: option.split)

section \<open>Every handler keeps the operations waited for\<close>

text \<open>The operations database accepts settlements, and SHA-256 has 32 bytes.\<close>

definition world_ok :: "relay_world \<Rightarrow> bool" where
  "world_ok W \<longleftrightarrow> yw_settle_ok W \<and> (\<forall>x. length (dg_sha256 (yw_digests W) x) = 32)"

lemma fingerprint_length: "world_ok W \<Longrightarrow> length (fingerprint (yw_digests W) r t a) = 32"
  by (simp add: world_ok_def fingerprint_def)

lemma operation_key_length:
  "gate_operation_key (yw_gate W) g rule tool raw None = Ok k \<Longrightarrow> world_ok W \<Longrightarrow> length (ok_fingerprint k) = 32"
  by (auto simp: gate_operation_key_def Let_def fingerprint_length split: option.splits)

lemma approved_key_length:
  assumes "gate_operation_key (yw_gate W) g rule tool raw (Some a) = Ok k"
    "approve (yw_gate W) g rule' tool args now = Ok a" "world_ok W"
  shows "length (ok_fingerprint k) = 32"
proof -
  from assms(2) obtain r where "ac_call a = fingerprint (yw_digests W) r tool args" by (auto simp: approve_Ok receipt_for_def)
  with assms(1) show ?thesis by (auto simp: gate_operation_key_def fingerprint_length [OF assms(3)])
qed

lemma authorize_key_length:
  assumes "authorize (yw_gate W) g tool args now = Ok a" "au_operation a = Some k" "world_ok W"
  shows "length (ok_fingerprint k) = 32"
  using assms(1,2)
  by (auto simp: authorize_def split: if_splits option.splits
      dest: operation_key_length [OF _ assms(3)] approved_key_length [OF _ _ assms(3)])

lemma gate_operation_length:
  assumes "gate_operation (yw_gate W) g tool args now = Ok (Some k)" "world_ok W"
  shows "length (ok_fingerprint k) = 32"
  using assms(1)
  by (auto simp: gate_operation_def Let_def result_ok_def split: if_splits option.splits sum.splits
      dest: operation_key_length [OF _ assms(2)] approved_key_length [OF _ _ assms(2)])

lemma judge_key_length:
  assumes "cv_operation (judge W c g tool args) = Some k" "world_ok W"
  shows "length (ok_fingerprint k) = 32"
  using assms
  by (auto simp: judge_def split: sum.splits option.splits if_splits
      intro: authorize_key_length gate_operation_length)

lemma count_call_verdict: "count_call W g tool v = (g', v', fw, i) \<Longrightarrow> cv_operation v' = cv_operation v \<and> g_operations g' = g_operations g"
  by (auto simp: count_call_def record_forwarded_operations split: if_splits sum.splits)

lemma coordinate_ok:
  assumes ok: "relay_ok s" and W: "world_ok W" and len: "length (ok_fingerprint op) = 32"
  shows "relay_ok (fst (coordinate W i tool op s))"
proof (cases "\<exists>st j. operations s = Some st \<and> non_null i = Some j")
  case False
  with ok show ?thesis by (auto simp: coordinate_def split: option.splits)
next
  case True
  then obtain st j where st: "operations s = Some st" "non_null i = Some j" by blast
  let ?r = "yw_ser W j" let ?x = "ok_operation_id op"
  have v: "view_ok {} (Some st, ic_pending s)" "store_ok st"
    using ok st(1) by (simp_all add: ops_view_def view_ok_def)
  show ?thesis
  proof (cases "pd_closed (ic_pending s) \<or> in_use ?r (ic_pending s)
      \<or> ?r \<in> fst ` set (pd_outstanding (ic_pending s)) \<or> \<not> yw_begin_ok W")
    case True
    with ok st show ?thesis by (auto simp: coordinate_def Let_def)
  next
    case False
    show ?thesis
    proof (cases "op_begin st ?x tool (ok_fingerprint op) (yw_now W)")
      case (Inl e)
      with False ok st show ?thesis by (simp add: coordinate_def Let_def)
    next
      case (Inr y)
      obtain st' b where y: "y = (st', b)" by force
      note begin' = Inr [unfolded y]
      have st': "store_ok st'" by (rule store_ok_begin [OF v(2) len begin'])
      have fl: "in_flight_ops st' \<subseteq> in_flight_ops st \<union> (if b = Forward then {?x} else {})"
        using op_status_begin(1) [OF begin' v(2)] by (auto simp: in_flight_ops_def split: if_splits)
      have put: "ops_view (put_operations st' s) = (Some st', ic_pending s)" by (simp add: view_put_operations st(1))
      have v': "view_ok (if b = Forward then {?x} else {}) (ops_view (put_operations st' s))"
        unfolding put using v(1) st' fl by (auto simp: view_ok_def)
      show ?thesis
      proof (cases "b = Forward")
        case True
        let ?s = "put_operations st' s" let ?p = "(ic_pending s)\<lparr>pd_closed := pd_closed (ic_pending s) \<or> yw_closing W\<rparr>"
        have p: "ic_pending ?s = ic_pending s" "operations ?s = Some st'" using put by (simp_all add: ops_view_def)
        have vp: "view_ok {?x} (Some st', ?p)" using v' True unfolding put by (auto intro: view_ok_pending)
        have "relay_ok (fst (start_operation W ?r tool op ?s))"
        proof (cases "pd_closed ?p")
          case True
          then show ?thesis using view_settle_quietly [of ?x "set_pending ?p ?s" W Failed] vp W
            by (simp add: start_operation_def p Let_def world_ok_def)
        next
          case notclosed: False
          have fresh: "?r \<notin> fst ` set (pd_by_request ?p)" using False by (simp add: in_use_def)
          from view_wait_for [OF vp fresh, of "\<lparr>if_operation_id = ?x, if_tool = tool, if_fingerprint = ok_fingerprint op\<rparr>"] notclosed
          show ?thesis by (simp add: start_operation_def p Let_def)
        qed
        with False st begin' True show ?thesis by (simp add: coordinate_def Let_def)
      next
        case notfwd: False
        with False st begin' v' show ?thesis by (cases b) (auto simp: coordinate_def Let_def)
      qed
    qed
  qed
qed

lemma unstart_ok:
  assumes "relay_ok s" "world_ok W"
  shows "relay_ok (unstart W r s)"
proof (cases "map_of (pd_by_request (ic_pending s)) r")
  case None
  then have "AList.delete r (pd_by_request (ic_pending s)) = pd_by_request (ic_pending s)"
    by (force simp: map_of_eq_None_iff intro: AList.delete_idem)
  with None assms(1) show ?thesis by (simp add: unstart_def Let_def) (simp add: ops_view_def)
next
  case (Some op)
  have "view_ok {if_operation_id op} (ops_view (set_pending ((ic_pending s)\<lparr>pd_by_request := AList.delete r (pd_by_request (ic_pending s))\<rparr>) s))"
    unfolding view_set_pending using view_forget_request [OF _ Some] assms(1) by (simp add: ops_view_def)
  from view_settle_quietly [OF this, of W Failed] assms(2) Some show ?thesis
    by (simp add: unstart_def Let_def world_ok_def)
qed

lemma coordinate_call_ok:
  assumes "relay_ok s" "world_ok W" "\<And>k. cv_operation v = Some k \<Longrightarrow> length (ok_fingerprint k) = 32"
  shows "relay_ok (fst (coordinate_call W i tool fw v s))"
  using assms coordinate_ok [OF assms(1,2)] by (auto simp: coordinate_call_def case_prod_beta Let_def split: option.split)

lemma weigh_call_ok:
  assumes ok: "relay_ok s" and W: "world_ok W" and g: "ic_gate s = Some g"
  shows "relay_ok (fst (weigh_call W g msg s))"
proof -
  let ?tool = "tool_of msg" let ?id = "json_get msg ''id''"
  obtain g1 v fw cnt where cc: "count_call W g ?tool (judge W (ic_catalog s) g ?tool (arguments_of msg)) = (g1, v, fw, cnt)"
    by (metis prod_cases4)
  note cv = count_call_verdict [OF cc]
  have "relay_ok (s\<lparr>ic_gate := Some g1\<rparr>)" using ok cv g by (simp add: ops_view_gate)
  then have "relay_ok (fst (coordinate_call W ?id ?tool fw v (s\<lparr>ic_gate := Some g1\<rparr>)))"
    by (rule coordinate_call_ok [OF _ W]) (use cv judge_key_length [OF _ W] in auto)
  then show ?thesis by (simp add: weigh_call_def Let_def cc case_prod_beta view_simps)
qed

lemma fail_closed_call_ok: "relay_ok s \<Longrightarrow> world_ok W \<Longrightarrow> relay_ok (fst (fail_closed_call W g b msg d w s))"
  by (simp add: fail_closed_call_def Let_def view_simps unstart_ok split: option.split)

lemma conclude_call_view [view_simps]: "ops_view (fst (conclude_call W g msg w s)) = ops_view s"
  by (simp add: conclude_call_def Let_def view_simps split: option.split)

lemma decide_call_ok:
  assumes ok: "relay_ok s" and W: "world_ok W" and g: "ic_gate s = Some g"
  shows "relay_ok (fst (decide_call W g b msg s))"
proof -
  obtain s1 w where w: "weigh_call W g msg s = (s1, w)" by force
  with weigh_call_ok [OF assms, of msg] have ok1: "relay_ok s1" by simp
  let ?d = "call_draft b g (tool_of msg) (wg_verdict w) (wg_replay w \<noteq> None) (is_enforced g (wg_verdict w))"
  show ?thesis
  proof (cases "log_decision W ?d (call_fingerprint W g (tool_of msg) (arguments_of msg)) s1")
    case (Inl e)
    with w fail_closed_call_ok [OF ok1 W] show ?thesis by (simp add: decide_call_def Let_def case_prod_beta)
  next
    case (Inr y)
    obtain s2 e where y: "y = (s2, e)" by force
    from ops_view_log [OF Inr [unfolded y]] ok1 have "relay_ok s2" by simp
    with w Inr y show ?thesis by (simp add: decide_call_def Let_def view_simps)
  qed
qed

lemma view_registered:
  "\<exists>q. ops_view (register_outstanding r s) = (operations s, q) \<and> pd_by_request q = pd_by_request (ic_pending s)"
  by (cases "operations s"; cases r) (auto simp: register_outstanding_def Let_def ops_view_def set_pending_def operations_def)

lemma register_outstanding_ok: "relay_ok s \<Longrightarrow> relay_ok (register_outstanding r s)"
  using view_registered [of r s] by (auto simp: ops_view_def [of s] intro: view_ok_pending)

lemma pass_on_ok: "relay_ok s \<Longrightarrow> relay_ok (fst (pass_on W server msg sent s))"
  by (simp add: pass_on_def register_outstanding_ok)

lemma forward_call_ok:
  assumes "map_option (\<lambda>(sent, s). pass_on W server msg sent s) (mask_call W msg s) = Some (s', acts)" "relay_ok s"
  shows "relay_ok s'"
  using assms pass_on_ok ops_view_mask_call by (fastforce simp: pass_on_def intro: register_outstanding_ok)

lemma decide_message_gated:
  assumes "ic_gate s = Some g" "ic_base s = Some b"
  shows "decide_message W msg s =
    (if operations s \<noteq> None \<and> is_some_and (\<lambda>r. in_use r (ic_pending s)) (request_id W msg)
     then Some (refuse_message W g b (or_null (json_get msg ''id'')) TOOL_REFUSED (denial_code RequestIdInUse) s)
     else if method_of msg = Some ''tools/call''
     then (case decide_call W g b msg s of (s', Some acts) \<Rightarrow> Some (s', acts) | (s', None) \<Rightarrow> forward_call W msg (route s msg) s')
     else Some (pass_on W (route s msg) msg msg s))"
  by (simp add: decide_message_def Let_def assms)

lemma decide_message_ungated:
  assumes "ic_gate s = None \<or> ic_base s = None"
  shows "decide_message W msg s =
    (if method_of msg = Some ''tools/call''
     then (case catalog_refuse (ic_catalog s) (tool_of msg) of
             Some d \<Rightarrow> Some (refuse_ungated W (json_get msg ''id'') (tool_of msg) d s)
           | None \<Rightarrow> forward_call W msg (route s msg) s)
     else Some (pass_on W (route s msg) msg msg s))"
  using assms by (auto simp: decide_message_def Let_def split: option.split)

lemma forward_call_keeps:
  assumes "forward_call W msg server s = Some (s', acts)" "relay_ok s"
  shows "relay_ok s'"
  using assms unfolding forward_call_def by (rule forward_call_ok)

lemma fst_keeps: "Some p = Some (s', acts) \<Longrightarrow> relay_ok (fst p) \<Longrightarrow> relay_ok s'"
  by simp

lemma decide_message_ok:
  assumes "decide_message W msg s = Some (s', acts)" and ok: "relay_ok s" and W: "world_ok W"
  shows "relay_ok s'"
proof (cases "ic_gate s = None \<or> ic_base s = None")
  case True
  note eq = assms(1) [unfolded decide_message_ungated [OF True]]
  show ?thesis
  proof (cases "method_of msg = Some ''tools/call''")
    case False
    with eq have "Some (pass_on W (route s msg) msg msg s) = Some (s', acts)" by (simp del: option.inject)
    then show ?thesis by (rule fst_keeps) (rule pass_on_ok [OF ok])
  next
    case call: True
    show ?thesis
    proof (cases "catalog_refuse (ic_catalog s) (tool_of msg)")
      case None
      with eq call forward_call_keeps ok show ?thesis by simp
    next
      case (Some d)
      with eq call have "Some (refuse_ungated W (json_get msg ''id'') (tool_of msg) d s) = Some (s', acts)" by (simp del: option.inject)
      then show ?thesis by (rule fst_keeps) (simp add: view_simps ok)
    qed
  qed
next
  case False
  then obtain g b where g: "ic_gate s = Some g" "ic_base s = Some b" by auto
  note eq = assms(1) [unfolded decide_message_gated [OF g]]
  obtain s1 a where d: "decide_call W g b msg s = (s1, a)" by force
  from decide_call_ok [OF ok W g(1), of b msg] d have ok1: "relay_ok s1" by simp
  show ?thesis
  proof (cases "operations s \<noteq> None \<and> is_some_and (\<lambda>r. in_use r (ic_pending s)) (request_id W msg)")
    case True
    with eq have "Some (refuse_message W g b (or_null (json_get msg ''id'')) TOOL_REFUSED (denial_code RequestIdInUse) s) = Some (s', acts)"
      by (simp del: option.inject)
    then show ?thesis by (rule fst_keeps) (simp add: view_simps ok)
  next
    case free: False
    show ?thesis
    proof (cases "method_of msg = Some ''tools/call''")
      case True
      with eq d have "(case a of Some acts \<Rightarrow> Some (s1, acts) | None \<Rightarrow> forward_call W msg (route s msg) s1) = Some (s', acts)"
        unfolding if_not_P [OF free] by (simp split: option.splits)
      with ok1 forward_call_keeps show ?thesis by (auto split: option.splits)
    next
      case False
      with eq have "Some (pass_on W (route s msg) msg msg s) = Some (s', acts)"
        unfolding if_not_P [OF free] by (simp del: option.inject)
      then show ?thesis by (rule fst_keeps) (rule pass_on_ok [OF ok])
    qed
  qed
qed

lemma decide_agent_ok:
  assumes "decide_agent W line s = Some (s', acts)" "relay_ok s" "world_ok W"
  shows "relay_ok s'"
proof -
  have go: "relay_ok s''" if "(case yw_parse W line of Some msg \<Rightarrow> decide_message W msg s
      | None \<Rightarrow> Some (s, [ToUpstream DEFAULT_SERVER line])) = Some (s'', as)" for s'' as
    using that assms(2,3) by (auto split: option.splits intro: decide_message_ok)
  show ?thesis
  proof (cases "\<exists>g b reason code. ic_gate s = Some g \<and> ic_base s = Some b \<and> screen W line = Inl (reason, code)")
    case True
    then obtain g b reason code where "ic_gate s = Some g" "ic_base s = Some b" "screen W line = Inl (reason, code)" by blast
    with assms(1,2) ops_view_refuse_message [of W g b JNull code reason s] show ?thesis
      by (simp add: decide_agent_def)
  next
    case False
    with assms(1) have "(case yw_parse W line of Some msg \<Rightarrow> decide_message W msg s
      | None \<Rightarrow> Some (s, [ToUpstream DEFAULT_SERVER line])) = Some (s', acts)"
      unfolding decide_agent_def Let_def by (auto split: option.splits sum.splits)
    then show ?thesis by (rule go)
  qed
qed

section \<open>Replies and failures keep the operations waited for\<close>

lemma settle_waiting_ok:
  assumes ok: "relay_ok s" and W: "world_ok W" and op: "map_of (pd_by_request (ic_pending s)) r = Some op"
  shows "relay_ok (fst (settle_waiting W msg r op s))"
proof -
  let ?s1 = "set_pending ((ic_pending s)\<lparr>pd_by_request := AList.delete r (pd_by_request (ic_pending s))\<rparr>) s"
  let ?stored = "if reply_state msg = Done then map_option (yw_ser W) (reply_result msg) else None"
  have v: "view_ok {if_operation_id op} (ops_view ?s1)"
    unfolding view_set_pending using view_forget_request [OF _ op] ok by (simp add: ops_view_def)
  show ?thesis
  proof (cases "operations ?s1")
    case None
    with v have "relay_ok ?s1" by (simp add: view_ok_def ops_view_def)
    with None show ?thesis by (simp add: settle_waiting_def Let_def settle_as_def)
  next
    case (Some st)
    have "reply_state msg \<in> {Done, Failed, Unknown}" by (simp add: reply_state_def)
    from settle_as_total [OF Some _ this, of W "if_operation_id op" ?stored "ic_pii s \<noteq> None"] W
    obtain s2 ch where set: "settle_as W (if_operation_id op) (reply_state msg) ?stored (ic_pii s \<noteq> None) ?s1 = Ok (s2, ch)"
      unfolding world_ok_def by blast
    from view_settle_as(1) [OF set v] have "relay_ok s2" by simp
    with set show ?thesis by (simp add: settle_waiting_def Let_def)
  qed
qed

lemma settle_reply_ok:
  assumes "relay_ok s" "world_ok W"
  shows "relay_ok (fst (settle_reply W msg s))"
proof -
  have "view_ok {} (operations s, answered r (ic_pending s))" for r
    using assms(1) by (rule view_ok_pending [of "{}" "operations s" "ic_pending s", folded ops_view_def]) simp
  then have "relay_ok (set_pending (answered r (ic_pending s)) s)" for r by simp
  moreover note settle_waiting_ok [OF assms]
  ultimately show ?thesis unfolding settle_reply_def Let_def using assms(1) by (auto split: option.split)
qed

lemma ops_view_outcome [view_simps]: "ops_view (record_outcome W settled s) = ops_view s"
proof (cases "\<exists>op state b. settled = Some (op, state) \<and> ic_base s = Some b")
  case True
  then obtain op state b where o: "settled = Some (op, state)" "ic_base s = Some b" by blast
  show ?thesis
  proof (cases "log_decision W (base_outcome b op (if state = Done then OutCommitted else OutFailed)) (Some (if_fingerprint op)) s")
    case (Inr y)
    then have "ops_view (fst y) = ops_view s" by (cases y) (simp add: view_simps)
    with o Inr show ?thesis by (simp add: record_outcome_def case_prod_beta)
  qed (use o in \<open>simp add: record_outcome_def\<close>)
qed (auto simp: record_outcome_def split: option.split)

lemma ops_view_result_hop [view_simps]: "ops_view (result_hop W settled msg s) = ops_view s"
  by (simp add: result_hop_def view_simps split: option.split)

lemma relay_view: "yw_parse W line = Some msg \<Longrightarrow> ops_view (fst (relay W line s)) = ops_view (fst (settle_reply W msg s))"
  by (simp add: relay_def case_prod_beta view_simps)

lemma relay_keeps:
  assumes "relay_ok s" "world_ok W"
  shows "relay_ok (fst (relay W line s))"
proof (cases "yw_parse W line")
  case (Some msg)
  with relay_view [OF Some, of s] settle_reply_ok [OF assms, of msg] show ?thesis by simp
qed (use assms in \<open>simp add: relay_def\<close>)

lemma abandon_settles:
  assumes v: "view_ok A (ops_view s)" and W: "world_ok W"
  shows "view_ok (A - {if_operation_id op}) (ops_view (fst (abandon W r op s)))
    \<and> ic_pending (fst (abandon W r op s)) = ic_pending s"
proof (cases "operations s")
  case None
  with v show ?thesis by (simp add: abandon_def sweep_def settle_as_def view_ok_def ops_view_def)
next
  case (Some st)
  from settle_as_total [OF Some, of W Unknown "if_operation_id op" None False] W obtain s1 ch
    where set: "settle_as W (if_operation_id op) Unknown None False s = Ok (s1, ch)" unfolding world_ok_def by blast
  note v1 = view_settle_as [OF set v]
  then obtain st1 where st1: "operations s1 = Some st1" "store_ok st1" by (auto simp: view_ok_def ops_view_def)
  obtain row where row: "op_get st1 (if_operation_id op) = Ok row" using op_get_total [OF st1(2)] by blast
  have sw: "sweep W (if_operation_id op) s = Ok (s1, if ch then None else map_option or_state row)"
    using set st1 row by (simp add: sweep_def)
  have "ops_view (fst (abandon W r op s)) = ops_view s1"
    by (simp add: abandon_def sw Let_def view_simps split: option.split)
  with v1 show ?thesis by (simp add: pending_view)
qed

lemma abandon_waiting_ok:
  assumes ok: "relay_ok s" and W: "world_ok W" and op: "map_of (pd_by_request (ic_pending s)) r = Some op"
  shows "relay_ok (fst (abandon W r op (set_pending ((ic_pending s)\<lparr>pd_by_request := AList.delete r (pd_by_request (ic_pending s))\<rparr>) s)))"
proof -
  let ?s1 = "set_pending ((ic_pending s)\<lparr>pd_by_request := AList.delete r (pd_by_request (ic_pending s))\<rparr>) s"
  have "view_ok {if_operation_id op} (ops_view ?s1)"
    unfolding view_set_pending using view_forget_request [OF _ op] ok by (simp add: ops_view_def)
  from abandon_settles [OF this W, of op r] show ?thesis by simp
qed

lemma abandon_all_settles:
  "view_ok A (ops_view s) \<Longrightarrow> world_ok W \<Longrightarrow>
     view_ok (A - if_operation_id ` snd ` set rs) (ops_view (fst (abandon_all W rs s)))
     \<and> ic_pending (fst (abandon_all W rs s)) = ic_pending s
     \<and> length (snd (abandon_all W rs s)) = length rs"
proof (induction rs arbitrary: A s)
  case (Cons x rs)
  from abandon_settles [OF Cons.prems, of "snd x" "fst x"]
  have a: "view_ok (A - {if_operation_id (snd x)}) (ops_view (fst (abandon W (fst x) (snd x) s)))"
    "ic_pending (fst (abandon W (fst x) (snd x) s)) = ic_pending s" by simp_all
  have "A - {if_operation_id (snd x)} - if_operation_id ` snd ` set rs = A - if_operation_id ` snd ` set (x # rs)" by auto
  with Cons.IH [OF a(1) Cons.prems(2)] a(2) show ?case by (simp add: case_prod_beta Let_def)
qed simp

lemma ops_view_release: "operations s = Some st \<Longrightarrow> ops_view (put_operations (release_gate st) s) = (Some (release_gate st), ic_pending s)"
  by (simp add: view_put_operations)

lemma in_flight_release [simp]: "in_flight_ops (release_gate st) = in_flight_ops st"
  by (simp add: in_flight_ops_def)

lemma finish_facts:
  assumes ok: "relay_ok s" and W: "world_ok W" and order: "set (yw_pending_order W (pd_by_request (ic_pending s))) = set (pd_by_request (ic_pending s))"
  shows "relay_ok (fst (finish W s))" "pd_by_request (ic_pending (fst (finish W s))) = []"
    "pd_closed (ic_pending (fst (finish W s)))"
proof -
  let ?p = "(ic_pending s)\<lparr>pd_closed := True, pd_by_request := []\<rparr>" let ?rs = "yw_pending_order W (pd_by_request (ic_pending s))"
  have v: "view_ok (waited_ops (ic_pending s)) (ops_view (set_pending ?p s))"
    using ok by (auto simp: view_ok_def ops_view_def waited_ops_def set_pending_def operations_def)
  obtain s1 acts where a: "abandon_all W ?rs (set_pending ?p s) = (s1, acts)" by force
  from abandon_all_settles [OF v W, of ?rs] a order
  have ok1: "relay_ok s1" and p: "ic_pending s1 = ic_pending (set_pending ?p s)" by (simp_all add: waited_ops_def)
  from p have p1: "pd_by_request (ic_pending s1) = []" "pd_closed (ic_pending s1)" by (simp_all add: set_pending_def)
  let ?s2 = "case operations s1 of Some st \<Rightarrow> put_operations (release_gate st) s1 | None \<Rightarrow> s1"
  have fin: "fst (finish W s) = ?s2" by (simp add: finish_def Let_def a split: option.split)
  have "ic_pending ?s2 = ic_pending s1" by (simp add: put_operations_def split: option.split)
  moreover have "relay_ok ?s2"
    using ok1 by (cases "operations s1") (simp_all add: ops_view_release, simp add: view_ok_def ops_view_def store_ok_release)
  ultimately show "relay_ok (fst (finish W s))" "pd_by_request (ic_pending (fst (finish W s))) = []"
    "pd_closed (ic_pending (fst (finish W s)))"
    using p1 fin by simp_all
qed

section \<open>Routing keeps the operations waited for\<close>

lemma answer_ok: "relay_ok s \<Longrightarrow> world_ok W \<Longrightarrow> relay_ok (fst (answer W i r s))"
  by (simp add: answer_def relay_keeps)

lemma answer_error_ok: "relay_ok s \<Longrightarrow> world_ok W \<Longrightarrow> relay_ok (fst (answer_error W i c m r s))"
  by (simp add: answer_error_def relay_keeps)

lemma finish_listing_ok: "relay_ok s \<Longrightarrow> world_ok W \<Longrightarrow> relay_ok (fst (finish_listing W l s))"
  by (simp add: finish_listing_def case_prod_beta Let_def view_simps answer_ok split: option.split)

lemma start_listing_ok: "relay_ok s \<Longrightarrow> world_ok W \<Longrightarrow> relay_ok (fst (start_listing W a is s))"
  by (simp add: start_listing_def case_prod_beta Let_def view_simps finish_listing_ok split: option.split)

lemma on_page_ok: "relay_ok s \<Longrightarrow> world_ok W \<Longrightarrow> relay_ok (fst (on_page W job sv msg s))"
  by (simp add: on_page_def case_prod_beta Let_def view_simps finish_listing_ok split: option.split)

lemma send_routed_ok: "relay_ok s \<Longrightarrow> world_ok W \<Longrightarrow> relay_ok (fst (send_routed W sv msg s))"
  by (simp add: send_routed_def Let_def view_simps answer_error_ok split: option.split)

lemma cancel_view [simp]: "fst (cancel W msg s) = s"
  by (auto simp: cancel_def split: option.split list.split)

lemma dispatch_all_ok:
  "relay_ok s \<Longrightarrow> world_ok W \<Longrightarrow> pred_option (\<lambda>p. relay_ok (fst p)) (dispatch W message s)"
  by (simp add: dispatch_def Let_def option.pred_set option.set_map answer_ok answer_error_ok start_listing_ok send_routed_ok split: option.split)

lemma dispatch_ok: "dispatch W message s = Some (s', acts) \<Longrightarrow> relay_ok s \<Longrightarrow> world_ok W \<Longrightarrow> relay_ok s'"
  using dispatch_all_ok [of s W message] by simp

lemma carry_out_ok:
  "carry_out W as s = Some (s', out) \<Longrightarrow> relay_ok s \<Longrightarrow> world_ok W \<Longrightarrow> relay_ok s'"
proof (induction as arbitrary: s out)
  case (Cons a as)
  then obtain s1 o1 where first: "(case a of ToUpstream server message \<Rightarrow>
      if ic_router s \<noteq> None then dispatch W message s else Some (note_list_request W message s, [a])
      | ToAgent _ \<Rightarrow> Some (s, [a])) = Some (s1, o1)" and rest: "\<exists>o2. carry_out W as s1 = Some (s', o2)"
    by (auto simp: Option.bind_eq_Some_conv)
  from first Cons.prems(2,3) have "relay_ok s1"
    by (auto simp: view_simps split: relay_action.splits if_splits intro: dispatch_ok)
  with rest Cons.IH Cons.prems(3) show ?case by blast
qed simp

lemma on_agent_line_ok:
  "on_agent_line W line s = Some (s', acts) \<Longrightarrow> relay_ok s \<Longrightarrow> world_ok W \<Longrightarrow> relay_ok s'"
  by (auto simp: on_agent_line_def Option.bind_eq_Some_conv intro: carry_out_ok decide_agent_ok)

lemma on_routed_line_ok: "relay_ok s \<Longrightarrow> world_ok W \<Longrightarrow> relay_ok (fst (on_routed_line W sv line s))"
  by (simp add: on_routed_line_def case_prod_beta Let_def view_simps start_listing_ok relay_keeps on_page_ok
      split: option.split waiting.split)

lemma on_upstream_line_ok:
  assumes "relay_ok s" "world_ok W"
  shows "relay_ok (fst (on_upstream_line W sv line s))"
proof -
  obtain s1 f where c: "check_listing W line s = (s1, f)" by force
  with ops_view_check_listing [of W line s] assms have "relay_ok s1" by simp
  with assms c show ?thesis
    by (simp add: on_upstream_line_def on_routed_line_ok relay_keeps split: option.split)
qed

lemma answered_ok: "relay_ok s \<Longrightarrow> view_ok {} (operations s, answered r (ic_pending s))"
  by (rule view_ok_pending [of "{}" "operations s" "ic_pending s"]) (simp_all add: ops_view_def)

lemma fail_request_ok: "relay_ok s \<Longrightarrow> world_ok W \<Longrightarrow> relay_ok (fst (fail_request W i s))"
  by (simp add: fail_request_def case_prod_beta Let_def answered_ok abandon_waiting_ok split: option.split)

lemma on_upstream_error_ok: "relay_ok s \<Longrightarrow> world_ok W \<Longrightarrow> relay_ok (fst (on_upstream_error W m s))"
  by (simp add: on_upstream_error_def Let_def view_simps fail_request_ok on_page_ok split: option.split waiting.split)

lemma gone_requests_ok: "relay_ok s \<Longrightarrow> world_ok W \<Longrightarrow> relay_ok (fst (gone_requests W sv is s))"
proof (induction "is" arbitrary: s)
  case (Cons i "is")
  show ?case
  proof (cases "map_of (pd_by_request (ic_pending s)) (yw_ser W i)")
    case None
    with Cons.IH [OF answer_error_ok [OF Cons.prems] Cons.prems(2)] show ?thesis by (simp add: case_prod_beta Let_def)
  next
    case (Some op)
    with Cons.IH [OF abandon_waiting_ok [OF Cons.prems Some] Cons.prems(2)] show ?thesis by (simp add: case_prod_beta Let_def)
  qed
qed simp

lemma finish_listings_ok: "relay_ok s \<Longrightarrow> world_ok W \<Longrightarrow> relay_ok (fst (finish_listings W ls s))"
  by (induction ls arbitrary: s) (simp_all add: case_prod_beta Let_def finish_listing_ok)

lemma server_gone_ok: "relay_ok s \<Longrightarrow> world_ok W \<Longrightarrow> relay_ok (fst (server_gone W sv s))"
  by (simp add: server_gone_def case_prod_beta Let_def view_simps gone_requests_ok finish_listings_ok split: option.split)

section \<open>Runs\<close>

text \<open>One step of a gate: a message of the agent or of a server, a failed delivery, a server that went away,
  an operator's verdict on an operation (from another process), the end.\<close>

inductive relay_step :: "relay_world \<Rightarrow> interceptor \<Rightarrow> relay_action list \<Rightarrow> interceptor \<Rightarrow> bool" where
  step_agent: "on_agent_line W line s = Some (s', acts) \<Longrightarrow> relay_step W s acts s'"
| step_upstream: "on_upstream_line W server line s = (s', acts) \<Longrightarrow> relay_step W s acts s'"
| step_error: "on_upstream_error W message s = (s', acts) \<Longrightarrow> relay_step W s acts s'"
| step_gone: "server_gone W server s = (s', acts) \<Longrightarrow> relay_step W s acts s'"
| step_reconcile: "operations s = Some st \<Longrightarrow> reconcile st op outcome force evidence now = Ok st'
    \<Longrightarrow> relay_step W s [] (put_operations st' s)"
| step_finish: "finish W s = (s', acts) \<Longrightarrow> relay_step W s acts s'"

definition drain_order_ok :: "relay_world \<Rightarrow> bool" where
  "drain_order_ok W \<longleftrightarrow> (\<forall>rs. set (yw_pending_order W rs) = set rs \<and> length (yw_pending_order W rs) = length rs)"

definition fresh_store :: "tool_gate option \<Rightarrow> bool" where
  "fresh_store gate \<longleftrightarrow> (\<forall>g st. gate = Some g \<longrightarrow> g_operations g = Some st \<longrightarrow>
     (\<exists>st0 free now ids. store_ok st0 \<and> recover st0 free now = Ok (st, ids)))"

inductive relay_reachable :: "interceptor \<Rightarrow> bool" where
  start: "build_relay W gate pii hops dlog release sinks c rt = Ok s \<Longrightarrow> fresh_store gate \<Longrightarrow> relay_reachable s"
| step: "relay_reachable s \<Longrightarrow> world_ok W \<Longrightarrow> drain_order_ok W \<Longrightarrow> relay_step W s acts s' \<Longrightarrow> relay_reachable s'"

lemma record_recovered_view: "record_recovered W b ops s = Ok s' \<Longrightarrow> ops_view s' = ops_view s"
proof (induction ops arbitrary: s)
  case (Cons op ops)
  let ?f = "recovered_flight s op"
  show ?case
  proof (cases "log_decision W (base_outcome b ?f OutUnknown) (Some (if_fingerprint ?f)) s")
    case (Inr y)
    then have "ops_view (fst y) = ops_view s" by (cases y) (simp add: view_simps)
    with Inr Cons show ?thesis by (cases y) (auto simp: Let_def view_simps)
  qed (use Cons.prems in \<open>simp add: Let_def\<close>)
qed simp

lemma build_relay_ok:
  assumes "build_relay W gate pii hops dlog release sinks c rt = Ok s" "fresh_store gate"
  shows "relay_ok s"
proof -
  let ?s = "\<lparr>ic_gate = gate, ic_base = map_option (entry_base_of (yw_digests W) c) gate, ic_pii = pii, ic_hops = hops,
      ic_log = dlog, ic_pending = pending_default, ic_release = release, ic_sinks = sinks, ic_events = [],
      ic_reports = [], ic_catalog = c, ic_router = rt, ic_lists = {}\<rparr>"
  have "ops_view s = ops_view ?s"
    using assms(1) by (auto simp: build_relay_def Let_def split: option.splits dest: record_recovered_view)
  moreover have "relay_ok ?s"
  proof (cases "operations ?s")
    case None
    then show ?thesis by (simp add: view_ok_def ops_view_def pending_default_def)
  next
    case (Some st)
    then obtain g where "gate = Some g" "g_operations g = Some st" by (auto simp: operations_def Option.bind_eq_Some_conv)
    with assms(2) obtain st0 free now ids where rec: "store_ok st0" "recover st0 free now = Ok (st, ids)"
      by (auto simp: fresh_store_def)
    from op_status_recover [OF rec(2)] have "in_flight_ops st = {}" by (auto simp: in_flight_ops_def)
    with Some store_ok_recover [OF rec] show ?thesis by (simp add: view_ok_def ops_view_def pending_default_def)
  qed
  ultimately show ?thesis by simp
qed

lemma relay_step_ok:
  assumes "relay_step W s acts s'" "relay_ok s" "world_ok W" "drain_order_ok W"
  shows "relay_ok s'"
  using assms(1)
proof cases
  case (step_reconcile st op outcome force evidence now st')
  from step_reconcile(4) have "in_flight_ops st' \<subseteq> in_flight_ops st"
    using op_status_reconcile [OF step_reconcile(4)] by (auto simp: in_flight_ops_def split: if_splits)
  moreover have "ops_view s' = (Some st', ic_pending s)" using step_reconcile by (simp add: view_put_operations)
  ultimately show ?thesis
    using step_reconcile(3) assms(2) store_ok_reconcile [OF _ step_reconcile(4)] by (auto simp: view_ok_def ops_view_def)
next
  case step_finish
  with finish_facts(1) [OF assms(2,3)] assms(4) show ?thesis by (auto simp: drain_order_ok_def)
next
  case step_agent
  with assms show ?thesis by (blast intro: on_agent_line_ok)
next
  case (step_upstream server line)
  with on_upstream_line_ok [OF assms(2,3), of server line] show ?thesis by simp
next
  case (step_error message)
  with on_upstream_error_ok [OF assms(2,3), of message] show ?thesis by simp
next
  case (step_gone server)
  with server_gone_ok [OF assms(2,3), of server] show ?thesis by simp
qed

lemma reachable_relay_ok: "relay_reachable s \<Longrightarrow> relay_ok s"
  by (induction rule: relay_reachable.induct) (auto intro: build_relay_ok relay_step_ok)

text \<open>An unknown operation an operator says was not applied runs again.\<close>

lemma unknown_can_run_again:
  assumes "store_ok st" "op_status st x = Some ''unknown''" "op_call st x = Some (t, d)"
  shows "\<exists>st1 st2. reconcile st x NotApplied False (Ok ()) now = Ok st1 \<and> op_begin st1 x t d now' = Ok (st2, Forward)"
proof -
  from assms(2,3) obtain r where r: "map_of (os_rows st) x = Some r" "rr_state r = op_state_as_str Unknown" "rr_tool r = t" "rr_digest r = d"
    by (auto simp: op_status_def op_call_def)
  let ?st1 = "st\<lparr>os_rows := update_where (\<lambda>i _. i = x) (reset_row NotApplied now) (os_rows st)\<rparr>"
  have rec: "reconcile st x NotApplied False (Ok ()) now = Ok ?st1"
    using r(1) by (simp add: reconcile_def r(2) del: op_state_as_str.simps)
  have ok1: "store_ok ?st1" by (rule store_ok_reconcile [OF assms(1) rec])
  obtain st2 b where b: "op_begin ?st1 x t d now' = Ok (st2, b)" using op_begin_total [OF ok1, of x t d now'] by force
  have row: "map_of (os_rows ?st1) x = Some (reset_row NotApplied now r)" using r(1) by simp
  have "b = Forward"
    using b by (rule op_begin_cases) (use row r(3,4) in \<open>auto simp: reset_row_def\<close>)
  with rec b show ?thesis by blast
qed

lemma abandon_gives_notice: "\<exists>state. snd (abandon W r op s) = abandon_notice W r op state"
  by (auto simp: abandon_def Let_def split: sum.split option.split prod.split)

lemma abandon_all_notices:
  "(r, op) \<in> set rs \<Longrightarrow> \<exists>state. abandon_notice W r op state \<in> set (snd (abandon_all W rs s))"
proof (induction rs arbitrary: s)
  case (Cons x rs)
  from abandon_gives_notice [of W "fst x" "snd x" s] Cons show ?case by (fastforce simp: case_prod_beta Let_def)
qed simp

lemma finish_actions:
  "snd (finish W s) = snd (abandon_all W (yw_pending_order W (pd_by_request (ic_pending s)))
     (set_pending ((ic_pending s)\<lparr>pd_closed := True, pd_by_request := []\<rparr>) s))"
  by (simp add: finish_def Let_def case_prod_beta)

lemma finish_answers:
  assumes "relay_ok s" "world_ok W" "drain_order_ok W"
  shows "length (snd (finish W s)) = length (pd_by_request (ic_pending s))"
    and "(r, op) \<in> set (pd_by_request (ic_pending s)) \<Longrightarrow> \<exists>state. abandon_notice W r op state \<in> set (snd (finish W s))"
proof -
  have "view_ok (waited_ops (ic_pending s)) (ops_view (set_pending ((ic_pending s)\<lparr>pd_closed := True, pd_by_request := []\<rparr>) s))"
    using assms(1) by (auto simp: view_ok_def ops_view_def waited_ops_def set_pending_def operations_def)
  from abandon_all_settles [OF this assms(2)] assms(3)
  show "length (snd (finish W s)) = length (pd_by_request (ic_pending s))"
    by (simp add: finish_actions drain_order_ok_def)
  assume "(r, op) \<in> set (pd_by_request (ic_pending s))"
  with assms(3) abandon_all_notices [of r op "yw_pending_order W (pd_by_request (ic_pending s))" W]
  show "\<exists>state. abandon_notice W r op state \<in> set (snd (finish W s))" by (simp add: finish_actions drain_order_ok_def)
qed

end
