(* ===== verification/Relay_Calls.thy ===== *)
theory Relay_Calls
  imports Relay_Facts
begin

text \<open>
  What a call that reaches a tool has been through, what happens when a decision cannot be recorded, and
  what a reply does to its operation.
\<close>

section \<open>A call that is forwarded\<close>

lemma answer_to_agent: "a \<in> set (answer_to W i f) \<Longrightarrow> \<exists>m. a = ToAgent m"
  by (auto simp: answer_to_def split: option.splits)

lemma judge_clear:
  assumes "cv_refusal (judge W c g tool args) = None"
  obtains a where "authorize (yw_gate W) g tool args (yw_now W) = Ok a" "gate_declares g tool \<longrightarrow> catalog_refuse c tool = None"
    "judge W c g tool args = \<lparr>cv_refusal = None, cv_operation = au_operation a, cv_approval = au_approval a\<rparr>"
  using assms that by (fastforce simp: judge_def split: sum.splits option.splits if_splits)

lemma count_call_clear:
  assumes "count_call W g tool v = (g', v', fw, i)" "cv_refusal v' = None"
  shows "v' = v" "fw"
  using assms by (auto simp: count_call_def lets_through_def split: if_splits sum.splits option.splits)

lemma refused_by_store_clear:
  "cv_refusal (refused_by_store c v) = None \<Longrightarrow> refused_by_store c v = v \<and> (\<forall>d. c \<noteq> Some (CoDeny d))"
  by (auto simp: refused_by_store_def split: option.splits coordinated.splits)

lemma start_operation_forward:
  assumes "start_operation W request tool op s = (s', CoForward)"
  shows "map_of (pd_by_request (ic_pending s')) request = Some \<lparr>if_operation_id = ok_operation_id op, if_tool = tool, if_fingerprint = ok_fingerprint op\<rparr>"
    "operations s' = operations s"
  using assms by (auto simp: start_operation_def Let_def set_pending_def operations_def update_conv' split: if_splits)

text \<open>A forwarded operation is in flight in the store, under the request's id.\<close>

lemma coordinate_forward:
  assumes "coordinate W i tool op s = (s', CoForward)" "relay_ok s"
  obtains j st where "non_null i = Some j" "operations s' = Some st" "op_status st (ok_operation_id op) = Some ''in_flight''"
    "map_of (pd_by_request (ic_pending s')) (yw_ser W j) = Some \<lparr>if_operation_id = ok_operation_id op, if_tool = tool, if_fingerprint = ok_fingerprint op\<rparr>"
proof -
  from assms(1) obtain st j st' where st: "operations s = Some st" "non_null i = Some j"
    "op_begin st (ok_operation_id op) tool (ok_fingerprint op) (yw_now W) = Ok (st', Forward)"
    "start_operation W (yw_ser W j) tool op (put_operations st' s) = (s', CoForward)"
    by (auto simp: coordinate_def Let_def split: option.splits if_splits sum.splits prod.splits begin_result.splits)
  have "operations (put_operations st' s) = Some st'" using st(1) by (simp add: operations_view view_put_operations)
  moreover from assms(2) st(1) have "store_ok st" by (simp add: view_ok_def ops_view_def)
  ultimately show thesis
    using that [OF st(2)] start_operation_forward [OF st(4)] op_status_begin(1) [OF st(3)] by simp
qed

lemma decide_call_None:
  assumes "decide_call W g b msg s = (s', None)"
  obtains s0 w s1 e where "weigh_call W g msg s = (s0, w)"
    "log_decision W (call_draft b g (tool_of msg) (wg_verdict w) False (is_enforced g (wg_verdict w)))
       (call_fingerprint W g (tool_of msg) (arguments_of msg)) s0 = Ok (s1, e)"
    "s' = announce W b (cv_refusal (wg_verdict w)) False (is_enforced g (wg_verdict w))
       (call_draft b g (tool_of msg) (wg_verdict w) False (is_enforced g (wg_verdict w))) True e s1"
    "wg_replay w = None" "\<not> is_enforced g (wg_verdict w)"
proof -
  obtain s0 w where w: "weigh_call W g msg s = (s0, w)" by force
  let ?d = "call_draft b g (tool_of msg) (wg_verdict w) (wg_replay w \<noteq> None) (is_enforced g (wg_verdict w))"
  from assms w obtain s1 e where log: "log_decision W ?d (call_fingerprint W g (tool_of msg) (arguments_of msg)) s0 = Ok (s1, e)"
    and con: "conclude_call W g msg w (announce W b (cv_refusal (wg_verdict w)) (wg_replay w \<noteq> None)
        (is_enforced g (wg_verdict w)) ?d True e s1) = (s', None)"
    by (auto simp: decide_call_def Let_def case_prod_beta split: sum.splits)
  from con have c: "wg_replay w = None" "\<not> is_enforced g (wg_verdict w)"
    "s' = announce W b (cv_refusal (wg_verdict w)) (wg_replay w \<noteq> None) (is_enforced g (wg_verdict w)) ?d True e s1"
    by (auto simp: conclude_call_def Let_def is_enforced_def is_some_and_def split: option.splits if_splits)
  with that [OF w] log show thesis by simp
qed

lemma ic_log_steps [simp]:
  "ic_log (forget_call W i s) = ic_log s" "ic_log (put_operations st s) = ic_log s" "ic_log (set_pending p s) = ic_log s"
  "ic_log (fst (emit W b k r d e sv s)) = ic_log s" "ic_log (report W b d r e ev s) = ic_log s"
  "ic_log (record_hop W h n ak es s) = ic_log s" "ic_log (register_outstanding rq s) = ic_log s"
  by (simp_all add: forget_call_def put_operations_def set_pending_def emit_def report_def record_hop_def register_outstanding_def
      Let_def split: option.split sum.split)

lemma ic_log_announce [simp]: "ic_log (announce W b r rp en d rec e s) = ic_log s"
  by (simp add: announce_def Let_def case_prod_beta split: option.split)

lemma ic_log_settle [simp]: "ic_log (settle_quietly W x st s) = ic_log s"
  by (auto simp: settle_quietly_def split: sum.split elim: settle_as_Ok)

lemma ic_log_coordinate [simp]: "ic_log (fst (coordinate W i tool op s)) = ic_log s"
  by (simp add: coordinate_def start_operation_def Let_def split: option.split sum.split prod.split begin_result.split)

lemma ic_log_weigh: "weigh_call W g msg s = (s0, w) \<Longrightarrow> ic_log s0 = ic_log s"
  by (auto simp: weigh_call_def coordinate_call_def Let_def case_prod_beta split: option.splits if_splits)

lemma mask_call_log: "mask_call W msg s = Some (sent, s') \<Longrightarrow> ic_log s' = ic_log s \<and> (ic_pii s = None \<longrightarrow> sent = msg)"
  by (auto simp: mask_call_def Let_def split: option.splits if_splits prod.splits)

text \<open>The call goes on to its server: it is authorized, its operation (if it has one) is in flight under the
  request's id.\<close>

lemma weigh_forwarded:
  assumes w: "weigh_call W g msg s = (s0, w)" "wg_replay w = None" "cv_refusal (wg_verdict w) = None"
    and ok: "relay_ok s" and g: "ic_gate s = Some g"
  obtains a where "authorize (yw_gate W) g (tool_of msg) (arguments_of msg) (yw_now W) = Ok a"
    "gate_declares g (tool_of msg) \<longrightarrow> catalog_refuse (ic_catalog s) (tool_of msg) = None"
    "wg_verdict w = \<lparr>cv_refusal = None, cv_operation = au_operation a, cv_approval = au_approval a\<rparr>"
    "\<And>k. au_operation a = Some k \<Longrightarrow> \<exists>i st. non_null (json_get msg ''id'') = Some i \<and> operations s0 = Some st
       \<and> op_status st (ok_operation_id k) = Some ''in_flight''
       \<and> map_of (pd_by_request (ic_pending s0)) (yw_ser W i) =
           Some \<lparr>if_operation_id = ok_operation_id k, if_tool = tool_of msg, if_fingerprint = ok_fingerprint k\<rparr>"
proof -
  let ?tool = "tool_of msg"
  obtain g1 v fw cnt where cc: "count_call W g ?tool (judge W (ic_catalog s) g ?tool (arguments_of msg)) = (g1, v, fw, cnt)"
    by (metis prod_cases4)
  obtain s1 c where co: "coordinate_call W (json_get msg ''id'') ?tool fw v (s\<lparr>ic_gate := Some g1\<rparr>) = (s1, c)" by force
  from w(1) cc co have parts: "wg_verdict w = refused_by_store c v" "wg_replay w = replay_of c"
    "s0 = (if replay_of c \<noteq> None \<or> holds_always (cv_refusal (refused_by_store c v)) then forget_call W cnt s1 else s1)"
    by (auto simp: weigh_call_def Let_def)
  have clear: "refused_by_store c v = v \<and> (\<forall>d. c \<noteq> Some (CoDeny d))"
    using w(3) parts(1) by (intro refused_by_store_clear) simp
  with w(3) parts(1) have v: "wg_verdict w = v" "\<And>d. c \<noteq> Some (CoDeny d)" "cv_refusal v = None" by simp_all
  from count_call_clear [OF cc v(3)] have jv: "v = judge W (ic_catalog s) g ?tool (arguments_of msg)" and fw: fw by auto
  from v(3) jv judge_clear obtain a where a: "authorize (yw_gate W) g ?tool (arguments_of msg) (yw_now W) = Ok a"
    "gate_declares g ?tool \<longrightarrow> catalog_refuse (ic_catalog s) ?tool = None"
    "v = \<lparr>cv_refusal = None, cv_operation = au_operation a, cv_approval = au_approval a\<rparr>" by metis
  have ok1: "relay_ok (s\<lparr>ic_gate := Some g1\<rparr>)" using ok count_call_verdict [OF cc] g by (simp add: ops_view_gate)
  have s0: "s0 = s1" using parts(2,3) w(2) v(1,3) parts(1) by (simp add: holds_always_def is_some_and_def)
  show thesis
  proof (rule that [OF a(1,2) _])
    show "wg_verdict w = \<lparr>cv_refusal = None, cv_operation = au_operation a, cv_approval = au_approval a\<rparr>" using v(1) a(3) by simp
    fix k assume k: "au_operation a = Some k"
    obtain s2 c' where co2: "coordinate W (json_get msg ''id'') ?tool k (s\<lparr>ic_gate := Some g1\<rparr>) = (s2, c')" by force
    with co fw a(3) k have c': "coordinate W (json_get msg ''id'') ?tool k (s\<lparr>ic_gate := Some g1\<rparr>) = (s1, c')" "c = Some c'"
      by (simp_all add: coordinate_call_def)
    with v(2) w(2) parts(2) have "c' = CoForward" by (cases c') (auto simp: replay_of_def)
    with c'(1) coordinate_forward [OF _ ok1] s0
    show "\<exists>i st. non_null (json_get msg ''id'') = Some i \<and> operations s0 = Some st
       \<and> op_status st (ok_operation_id k) = Some ''in_flight''
       \<and> map_of (pd_by_request (ic_pending s0)) (yw_ser W i) =
           Some \<lparr>if_operation_id = ok_operation_id k, if_tool = ?tool, if_fingerprint = ok_fingerprint k\<rparr>" by metis
  qed
qed

text \<open>The entry of a call the gate lets through.\<close>

definition allow_draft :: "relay_world \<Rightarrow> entry_base \<Rightarrow> tool_gate \<Rightarrow> string \<Rightarrow> authorization \<Rightarrow> decision_draft" where
  "allow_draft W b g tool a =
     call_draft b g tool \<lparr>cv_refusal = None, cv_operation = au_operation a, cv_approval = au_approval a\<rparr> False False"

lemma log_decision_append:
  assumes "log_decision W d raw s = Ok (s', e)" "ic_log s = Some l"
  obtains l' n where "ic_log s' = Some l'" "e = Some n" "log_append W l d raw = Ok (l', n)"
  using assms by (auto simp: log_decision_def)

lemma forward_call_view:
  assumes "forward_call W msg server s = Some (s', acts)"
  shows "ic_log s' = ic_log s" "operations s' = operations s" "pd_by_request (ic_pending s') = pd_by_request (ic_pending s)"
    "\<exists>sent. acts = [ToUpstream server (yw_ser W sent)] \<and> (ic_pii s = None \<longrightarrow> sent = msg)"
proof -
  from assms obtain sent s1 where m: "mask_call W msg s = Some (sent, s1)"
    and p: "s' = register_outstanding (request_id W msg) s1" "acts = [ToUpstream server (yw_ser W sent)]"
    by (auto simp: forward_call_def pass_on_def)
  from ops_view_mask_call [OF m] view_registered [of "request_id W msg" s1]
  show "operations s' = operations s" "pd_by_request (ic_pending s') = pd_by_request (ic_pending s)"
    by (auto simp: p ops_view_def)
  show "ic_log s' = ic_log s" "\<exists>sent. acts = [ToUpstream server (yw_ser W sent)] \<and> (ic_pii s = None \<longrightarrow> sent = msg)"
    using mask_call_log [OF m] by (auto simp: p)
qed

lemma decide_call_refusals: "decide_call W g b msg s = (s', Some acts) \<Longrightarrow> a \<in> set acts \<Longrightarrow> \<exists>m. a = ToAgent m"
  by (auto simp: decide_call_def Let_def case_prod_beta conclude_call_def fail_closed_call_def dest: answer_to_agent
      split: sum.splits option.splits if_splits)

lemma ic_pii_steps [simp]:
  "ic_pii (forget_call W i s) = ic_pii s" "ic_pii (put_operations st s) = ic_pii s" "ic_pii (set_pending p s) = ic_pii s"
  "ic_pii (settle_quietly W x state s) = ic_pii s"
  by (auto simp: forget_call_def put_operations_def set_pending_def settle_quietly_def split: option.split sum.split elim: settle_as_Ok)

lemma ic_pii_coordinate [simp]: "ic_pii (fst (coordinate W i tool op s)) = ic_pii s"
  by (simp add: coordinate_def start_operation_def Let_def split: option.split sum.split prod.split begin_result.split)

lemma ic_pii_weigh: "weigh_call W g msg s = (s0, w) \<Longrightarrow> ic_pii s0 = ic_pii s"
  by (auto simp: weigh_call_def coordinate_call_def Let_def case_prod_beta split: option.splits if_splits)

text \<open>Only through \<open>decide_message\<close> does a gated call reach a server.\<close>

lemma gated_call_forwarded:
  assumes d: "decide_agent W line s = Some (s', acts)" "ToUpstream server out \<in> set acts"
    and msg: "yw_parse W line = Some msg" "method_of msg = Some ''tools/call''"
    and g: "ic_gate s = Some g" "ic_base s = Some b"
  obtains s1 where "decide_call W g b msg s = (s1, None)" "forward_call W msg (route s msg) s1 = Some (s', acts)"
proof -
  from d g have "screen W line = Ok ()"
    by (auto simp: decide_agent_def refuse_message_def Let_def case_prod_beta split: sum.splits)
  with d(1) g msg have dm: "decide_message W msg s = Some (s', acts)" by (simp add: decide_agent_def)
  obtain s1 a where dc: "decide_call W g b msg s = (s1, a)" by force
  show thesis
  proof (cases "operations s \<noteq> None \<and> is_some_and (\<lambda>r. in_use r (ic_pending s)) (request_id W msg)")
    case True
    with dm d(2) show thesis by (auto simp: decide_message_gated [OF g] refuse_message_def Let_def case_prod_beta)
  next
    case False
    have "(case a of Some acts \<Rightarrow> Some (s1, acts) | None \<Rightarrow> forward_call W msg (route s msg) s1) = Some (s', acts)"
      using dm msg(2) dc unfolding decide_message_gated [OF g] if_not_P [OF False] by (simp split: option.splits)
    then show thesis
      using d(2) dc decide_call_refusals [of W g b msg s s1] that by (cases a) fastforce+
  qed
qed

lemma log_append_Ok:
  assumes "log_append W l d raw = Ok (l', e)"
  shows "\<exists>d' st. append_decision (yw_ledger W) (dl_store l) d' (dl_key l) (yw_now W) = Ok (st, e) \<and> l' = l\<lparr>dl_store := st\<rparr>"
    and "de_event e = dd_event d" "de_decision e = dd_decision d" "de_forwarded e = dd_forwarded d" "de_tool e = dd_tool d"
    "de_operation_id e = dd_operation_id d" "de_release e = dd_release d"
proof -
  let ?d = "case raw of Some fp \<Rightarrow> d\<lparr>dd_args_fingerprint := Some (args_fingerprint (yw_digests W) (dl_key l) fp)\<rparr> | None \<Rightarrow> d"
  from assms obtain st where st: "append_decision (yw_ledger W) (dl_store l) ?d (dl_key l) (yw_now W) = Ok (st, e)" "l' = l\<lparr>dl_store := st\<rparr>"
    by (auto simp: log_append_def Let_def split: if_splits sum.splits)
  then show "\<exists>d' st. append_decision (yw_ledger W) (dl_store l) d' (dl_key l) (yw_now W) = Ok (st, e) \<and> l' = l\<lparr>dl_store := st\<rparr>" by blast
  from st(1) obtain seq prev signer sig where e: "e = (entry_link (yw_ledger W) ?d seq prev signer (yw_now W))\<lparr>de_sig := sig\<rparr>"
    by (auto simp: append_decision_def Let_def case_prod_beta)
  show "de_event e = dd_event d" "de_decision e = dd_decision d" "de_forwarded e = dd_forwarded d" "de_tool e = dd_tool d"
    "de_operation_id e = dd_operation_id d" "de_release e = dd_release d"
    unfolding e by (simp_all add: entry_link_def Let_def split: option.split)
qed

lemma allow_draft_fields:
  "dd_event (allow_draft W b g tool a) = EvCall" "dd_decision (allow_draft W b g tool a) = DecAllow"
  "dd_forwarded (allow_draft W b g tool a)" "gate_declares g tool \<Longrightarrow> dd_tool (allow_draft W b g tool a) = Some tool"
  "au_operation a = Some k \<Longrightarrow> dd_operation_id (allow_draft W b g tool a) = Some (ok_operation_id k)"
  by (simp_all add: allow_draft_def call_draft_def base_call_def draft_call_def draft_new_def recordable_tool_def Let_def split: option.split)

lemma authorized_declared: "authorize W g tool args now = Ok a \<Longrightarrow> gate_declares g tool"
  by (auto simp: authorize_def gate_declares_def split: if_splits)

lemma log_decision_pii: "log_decision W d raw s = Ok (s', e) \<Longrightarrow> ic_pii s' = ic_pii s"
  by (auto simp: log_decision_def split: option.splits)

lemma announce_pii [simp]: "ic_pii (announce W b r rp en d rec e s) = ic_pii s"
  by (simp add: announce_def emit_def report_def Let_def case_prod_beta split: option.split)

text \<open>Everything an enforcing gate has done when a call goes on to its server.\<close>

lemma sent_call:
  assumes ok: "relay_ok s" and g: "ic_gate s = Some g" "ic_base s = Some b" "g_mode g = Enforce" and l: "ic_log s = Some l"
    and msg: "yw_parse W line = Some msg" "method_of msg = Some ''tools/call''"
    and d: "decide_agent W line s = Some (s', acts)" "ToUpstream server out \<in> set acts"
  obtains a l' e where "authorize (yw_gate W) g (tool_of msg) (arguments_of msg) (yw_now W) = Ok a"
    "catalog_refuse (ic_catalog s) (tool_of msg) = None"
    "log_append W l (allow_draft W b g (tool_of msg) a) (call_fingerprint W g (tool_of msg) (arguments_of msg)) = Ok (l', e)"
    "ic_log s' = Some l'" "ic_pii s = None \<Longrightarrow> out = yw_ser W msg"
    "\<And>k. au_operation a = Some k \<Longrightarrow> \<exists>i st. non_null (json_get msg ''id'') = Some i \<and> operations s' = Some st
       \<and> op_status st (ok_operation_id k) = Some ''in_flight''
       \<and> map_of (pd_by_request (ic_pending s')) (yw_ser W i) =
           Some \<lparr>if_operation_id = ok_operation_id k, if_tool = tool_of msg, if_fingerprint = ok_fingerprint k\<rparr>"
proof -
  from gated_call_forwarded [OF d msg g(1,2)] obtain s1 where s1: "decide_call W g b msg s = (s1, None)"
    "forward_call W msg (route s msg) s1 = Some (s', acts)" .
  from decide_call_None [OF s1(1)] obtain s0 w s2 e where w: "weigh_call W g msg s = (s0, w)"
    "log_decision W (call_draft b g (tool_of msg) (wg_verdict w) False (is_enforced g (wg_verdict w)))
       (call_fingerprint W g (tool_of msg) (arguments_of msg)) s0 = Ok (s2, e)"
    "s1 = announce W b (cv_refusal (wg_verdict w)) False (is_enforced g (wg_verdict w))
       (call_draft b g (tool_of msg) (wg_verdict w) False (is_enforced g (wg_verdict w))) True e s2"
    "wg_replay w = None" "\<not> is_enforced g (wg_verdict w)" .
  have clear: "cv_refusal (wg_verdict w) = None"
    using w(5) g(3) by (cases "cv_refusal (wg_verdict w)") (auto simp: is_enforced_def is_some_and_def)
  from weigh_forwarded [OF w(1,4) clear ok g(1)] obtain a where a:
    "authorize (yw_gate W) g (tool_of msg) (arguments_of msg) (yw_now W) = Ok a"
    "gate_declares g (tool_of msg) \<longrightarrow> catalog_refuse (ic_catalog s) (tool_of msg) = None"
    "wg_verdict w = \<lparr>cv_refusal = None, cv_operation = au_operation a, cv_approval = au_approval a\<rparr>"
    "\<And>k. au_operation a = Some k \<Longrightarrow> \<exists>i st. non_null (json_get msg ''id'') = Some i \<and> operations s0 = Some st
       \<and> op_status st (ok_operation_id k) = Some ''in_flight''
       \<and> map_of (pd_by_request (ic_pending s0)) (yw_ser W i) =
           Some \<lparr>if_operation_id = ok_operation_id k, if_tool = tool_of msg, if_fingerprint = ok_fingerprint k\<rparr>" by blast
  from ic_log_weigh [OF w(1)] l have l0: "ic_log s0 = Some l" by simp
  from w(5) a(3) w(2) have log: "log_decision W (allow_draft W b g (tool_of msg) a)
      (call_fingerprint W g (tool_of msg) (arguments_of msg)) s0 = Ok (s2, e)" by (simp add: allow_draft_def)
  from log_decision_append [OF log l0] obtain l' n where l': "ic_log s2 = Some l'"
    "log_append W l (allow_draft W b g (tool_of msg) a) (call_fingerprint W g (tool_of msg) (arguments_of msg)) = Ok (l', n)" .
  note fwd = forward_call_view [OF s1(2)]
  have view: "ops_view s1 = ops_view s0" using w(3) ops_view_log [OF log] by (simp add: view_simps)
  have pii: "ic_pii s1 = ic_pii s"
    using w(3) ic_pii_weigh [OF w(1)] log_decision_pii [OF log] by simp
  show thesis
  proof (rule that [OF a(1) _ l'(2)])
    show "catalog_refuse (ic_catalog s) (tool_of msg) = None" using a(1,2) authorized_declared by blast
    show "ic_log s' = Some l'" using fwd(1) w(3) l'(1) by simp
    show "ic_pii s = None \<Longrightarrow> out = yw_ser W msg" using fwd(4) d(2) pii by auto
    show "\<exists>i st. non_null (json_get msg ''id'') = Some i \<and> operations s' = Some st
       \<and> op_status st (ok_operation_id k) = Some ''in_flight''
       \<and> map_of (pd_by_request (ic_pending s')) (yw_ser W i) =
           Some \<lparr>if_operation_id = ok_operation_id k, if_tool = tool_of msg, if_fingerprint = ok_fingerprint k\<rparr>"
      if "au_operation a = Some k" for k
      using a(4) [OF that] fwd(2,3) view by (simp add: ops_view_def)
  qed
qed

section \<open>A decision that cannot be recorded\<close>

definition flying :: "interceptor \<Rightarrow> string set" where
  "flying s = (case operations s of Some st \<Rightarrow> in_flight_ops st | None \<Rightarrow> {})"

lemma flying_view: "flying s = (case fst (ops_view s) of Some st \<Rightarrow> in_flight_ops st | None \<Rightarrow> {})"
  by (simp add: flying_def operations_view)

lemma flying_set_pending [simp]: "flying (set_pending p s) = flying s"
  by (simp add: flying_def set_pending_def operations_def)

lemma relay_ok_store: "relay_ok s \<Longrightarrow> operations s = Some st \<Longrightarrow> store_ok st"
  by (simp add: view_ok_def ops_view_def)

lemma flying_settle_quietly:
  assumes "world_ok W" "\<And>st. operations s = Some st \<Longrightarrow> store_ok st" "state \<in> {Done, Failed, Unknown}"
  shows "flying (settle_quietly W x state s) = flying s - {x}"
proof (cases "operations s")
  case None
  then show ?thesis by (simp add: settle_quietly_def settle_as_def flying_def)
next
  case (Some st)
  from settle_as_total [OF Some, of W state x None False] assms(1,3) obtain s' c
    where set: "settle_as W x state None False s = Ok (s', c)" unfolding world_ok_def by blast
  from set Some obtain st' where "settle_with st x state None False (yw_now W) = Ok (st', c)" "s' = put_operations st' s"
    by (elim settle_as_Ok) auto
  with in_flight_settled(1) [OF this(1) assms(2) [OF Some]] set Some show ?thesis
    by (simp add: settle_quietly_def flying_def operations_view view_put_operations)
qed

lemma operations_set_pending [simp]: "operations (set_pending p s) = operations s"
  by (simp add: set_pending_def operations_def)

lemma operations_put: "operations s \<noteq> None \<Longrightarrow> operations (put_operations st s) = Some st"
  by (simp add: operations_view view_put_operations)

text \<open>Coordination puts at most the call's own operation in flight, and only when it forwards the call.\<close>

lemma coordinate_flying:
  assumes "coordinate W i tool op s = (s', c)" "relay_ok s" "world_ok W" "length (ok_fingerprint op) = 32"
  shows "flying s' \<subseteq> flying s \<union> (if c = CoForward then {ok_operation_id op} else {})"
proof (cases "s' = s")
  case False
  let ?x = "ok_operation_id op"
  from False assms(1) obtain st j st' b where st: "operations s = Some st" "non_null i = Some j"
    and begin': "op_begin st ?x tool (ok_fingerprint op) (yw_now W) = Ok (st', b)"
    and s': "b = Forward \<Longrightarrow> start_operation W (yw_ser W j) tool op (put_operations st' s) = (s', c)"
      "b \<noteq> Forward \<Longrightarrow> s' = put_operations st' s"
    by (auto simp: coordinate_def Let_def split: option.splits if_splits sum.splits prod.splits begin_result.splits)
  have ok: "store_ok st" using relay_ok_store [OF assms(2) st(1)] .
  have fl: "in_flight_ops st' \<subseteq> in_flight_ops st \<union> (if b = Forward then {?x} else {})"
    using op_status_begin(1) [OF begin' ok] by (auto simp: in_flight_ops_def split: if_splits)
  have put: "operations (put_operations st' s) = Some st'" using st(1) by (simp add: operations_put)
  show ?thesis
  proof (cases "b = Forward \<and> c \<noteq> CoForward")
    case True
    then obtain p where "s' = settle_quietly W ?x Failed (set_pending p (put_operations st' s))"
      using s'(1) by (auto simp: start_operation_def Let_def split: if_splits)
    then have "flying s' = in_flight_ops st' - {?x}"
      using flying_settle_quietly [OF assms(3), of "set_pending p (put_operations st' s)" Failed ?x] put
        store_ok_begin [OF ok assms(4) begin'] by (simp add: flying_def)
    moreover have "flying s = in_flight_ops st" using st(1) by (simp add: flying_def)
    ultimately show ?thesis using fl True by auto
  next
    case False
    with s' put start_operation_forward(2) [of W "yw_ser W j" tool op "put_operations st' s" s']
    have "operations s' = Some st'" by (cases "b = Forward") auto
    then have "flying s' = in_flight_ops st'" "flying s = in_flight_ops st" using st(1) by (simp_all add: flying_def)
    with fl False show ?thesis by (auto split: if_splits)
  qed
qed simp

lemma weigh_flying:
  assumes w: "weigh_call W g msg s = (s0, w)" and ok: "relay_ok s" "world_ok W" and g: "ic_gate s = Some g"
  obtains "\<not> wg_started w" "flying s0 \<subseteq> flying s"
  | j op where "wg_started w" "json_get msg ''id'' = Some j" "map_of (pd_by_request (ic_pending s0)) (yw_ser W j) = Some op"
    "flying s0 \<subseteq> insert (if_operation_id op) (flying s)"
proof -
  let ?tool = "tool_of msg" let ?id = "json_get msg ''id''"
  obtain g1 v fw cnt where cc: "count_call W g ?tool (judge W (ic_catalog s) g ?tool (arguments_of msg)) = (g1, v, fw, cnt)"
    by (metis prod_cases4)
  note cv = count_call_verdict [OF cc]
  let ?s = "s\<lparr>ic_gate := Some g1\<rparr>"
  have view: "ops_view ?s = ops_view s" using cv g by (simp add: ops_view_gate)
  obtain s1 c where co: "coordinate_call W ?id ?tool fw v ?s = (s1, c)" by force
  from w cc co have parts: "s0 = (if replay_of c \<noteq> None \<or> holds_always (cv_refusal (refused_by_store c v)) then forget_call W cnt s1 else s1)"
    and st: "wg_started w \<longleftrightarrow> c = Some CoForward" by (auto simp: weigh_call_def Let_def)
  have s0: "ops_view s0 = ops_view s1" unfolding parts by (simp add: view_simps)
  from s0 have s0': "flying s0 = flying s1" "ic_pending s0 = ic_pending s1" by (simp_all only: flying_view pending_view)
  show thesis
  proof (cases "\<exists>k. cv_operation v = Some k \<and> fw")
    case False
    with co have "s1 = ?s" "c = None" by (auto simp: coordinate_call_def split: option.splits)
    with s0' st view that(1) show thesis by (simp add: flying_view)
  next
    case True
    then obtain k c' where k: "cv_operation v = Some k" "coordinate W ?id ?tool k ?s = (s1, c')" "c = Some c'"
      using co by (auto simp: coordinate_call_def split: prod.splits)
    have len: "length (ok_fingerprint k) = 32" using cv k(1) judge_key_length [OF _ ok(2)] by auto
    from coordinate_flying [OF k(2) _ ok(2) len] ok(1) view
    have fl: "flying s1 \<subseteq> flying s \<union> (if c' = CoForward then {ok_operation_id k} else {})" by (simp add: flying_view)
    show thesis
    proof (cases "c' = CoForward")
      case False
      with fl st k(3) s0' that(1) show thesis by simp
    next
      case True
      from coordinate_forward [OF k(2) [unfolded True]] ok(1) view obtain j where j: "non_null ?id = Some j"
        "map_of (pd_by_request (ic_pending s1)) (yw_ser W j) =
           Some \<lparr>if_operation_id = ok_operation_id k, if_tool = ?tool, if_fingerprint = ok_fingerprint k\<rparr>" by metis
      from j(1) have "?id = Some j" by (auto simp: non_null_def split: option.splits json.splits)
      with that(2) [of j] j(2) fl True st k(3) s0' show thesis by simp
    qed
  qed
qed

lemma unstart_flying:
  assumes "relay_ok s" "world_ok W" "map_of (pd_by_request (ic_pending s)) r = Some op"
  shows "flying (unstart W r s) = flying s - {if_operation_id op}"
  using assms(3) flying_settle_quietly [OF assms(2), of "set_pending ((ic_pending s)\<lparr>pd_by_request := AList.delete r (pd_by_request (ic_pending s))\<rparr>) s"
      Failed "if_operation_id op"] relay_ok_store [OF assms(1)]
  by (simp add: unstart_def Let_def)

lemma ic_log_unstart [simp]: "ic_log (unstart W r s) = ic_log s"
  by (simp add: unstart_def Let_def split: option.split)

lemma fail_closed_flying:
  assumes f: "fail_closed_call W g b msg d w s0 = (s1, acts)" and w: "weigh_call W g msg s = (s0, w)"
    and ok: "relay_ok s" "world_ok W" and g: "ic_gate s = Some g"
  shows "flying s1 \<subseteq> flying s" "ic_log s1 = ic_log s" "\<forall>a\<in>set acts. \<exists>m. a = ToAgent m"
proof -
  let ?s = "forget_call W (wg_counted w) (announce W b (cv_refusal (wg_verdict w)) (wg_replay w \<noteq> None) (is_enforced g (wg_verdict w)) d False None s0)"
  have v: "ops_view ?s = ops_view s0" by (simp add: view_simps)
  from f have s1: "s1 = (case json_get msg ''id'' of Some i \<Rightarrow> if wg_started w then unstart W (yw_ser W i) ?s else ?s | None \<Rightarrow> ?s)"
    by (simp only: fail_closed_call_def Let_def prod.inject)
  have ok0: "relay_ok s0" using weigh_call_ok [OF ok g, of msg] w by simp
  show "flying s1 \<subseteq> flying s"
    using w ok g
  proof (cases rule: weigh_flying)
    case 1
    then have "s1 = ?s" using s1 by (simp split: option.splits)
    with v 1 show ?thesis by (simp add: flying_view)
  next
    case (2 j op)
    then have "s1 = unstart W (yw_ser W j) ?s" using s1 by simp
    moreover have "flying (unstart W (yw_ser W j) ?s) = flying ?s - {if_operation_id op}"
      using unstart_flying [OF _ ok(2), of ?s] 2(3) v ok0 by (simp add: pending_view)
    ultimately show ?thesis using 2(4) v by (auto simp: flying_view)
  qed
  show "ic_log s1 = ic_log s" using s1 ic_log_weigh [OF w] by (simp split: option.split)
  from f have "acts = answer_to W (json_get msg ''id'') (\<lambda>i. rpc_error i TOOL_REFUSED (refusal_text FAIL_CLOSED)
      (Some (refusal_data FAIL_CLOSED (tool_of msg) g None None)))"
    by (simp only: fail_closed_call_def Let_def prod.inject)
  then show "\<forall>a\<in>set acts. \<exists>m. a = ToAgent m" by (auto simp: answer_to_def split: option.splits)
qed

lemma refuse_message_unlogged:
  assumes "\<not> yw_log_ok W" "ic_log s = Some l"
  shows "ic_log (fst (refuse_message W g b i code r s)) = ic_log s" "\<exists>m. snd (refuse_message W g b i code r s) = [ToAgent m]"
  using assms by (auto simp: refuse_message_def log_decision_def log_append_def Let_def case_prod_beta)

text \<open>A gated call whose decision cannot be recorded goes nowhere.\<close>

lemma unlogged_call:
  assumes ok: "relay_ok s" "world_ok W" and g: "ic_gate s = Some g" "ic_base s = Some b"
    and l: "ic_log s = Some l" "\<not> yw_log_ok W"
    and msg: "yw_parse W line = Some msg" "method_of msg = Some ''tools/call''"
  shows "\<exists>s' acts. decide_agent W line s = Some (s', acts) \<and> ic_log s' = ic_log s \<and> flying s' \<subseteq> flying s
    \<and> (\<forall>a\<in>set acts. \<exists>m. a = ToAgent m)"
proof -
  have refused: "\<exists>s' acts. Some (refuse_message W g b i code r s) = Some (s', acts) \<and> ic_log s' = ic_log s \<and> flying s' \<subseteq> flying s
      \<and> (\<forall>a\<in>set acts. \<exists>m. a = ToAgent m)" for i code r
    using refuse_message_unlogged [OF l(2,1), of g b i code r] ops_view_refuse_message [of W g b i code r s]
    by (cases "refuse_message W g b i code r s") (auto simp: flying_view)
  show ?thesis
  proof (cases "screen W line")
    case (Inl e)
    with refused g msg(1) show ?thesis by (cases e) (simp add: decide_agent_def)
  next
    case (Inr u)
    with g msg(1) have d: "decide_agent W line s = decide_message W msg s" by (simp add: decide_agent_def)
    show ?thesis
    proof (cases "operations s \<noteq> None \<and> is_some_and (\<lambda>r. in_use r (ic_pending s)) (request_id W msg)")
      case True
      with refused show ?thesis by (simp add: d decide_message_gated [OF g])
    next
      case False
      obtain s0 w where w: "weigh_call W g msg s = (s0, w)" by force
      let ?d = "call_draft b g (tool_of msg) (wg_verdict w) (wg_replay w \<noteq> None) (is_enforced g (wg_verdict w))"
      obtain s1 acts where f: "fail_closed_call W g b msg ?d w s0 = (s1, acts)" by force
      have "ic_log s0 = Some l" using ic_log_weigh [OF w] l(1) by simp
      with l(2) have "decide_call W g b msg s = (s1, Some acts)"
        using f by (simp add: decide_call_def Let_def w log_decision_def log_append_def)
      then have "decide_agent W line s = Some (s1, acts)"
        unfolding d decide_message_gated [OF g] if_not_P [OF False] by (simp add: msg(2))
      with fail_closed_flying [OF f w ok g(1)] show ?thesis by blast
    qed
  qed
qed

section \<open>A reply settles its operation\<close>

lemma settle_row:
  assumes "settle_with st x state result masked now = Ok (st', True)" "store_ok st"
  shows "\<exists>r. map_of (os_rows st) x = Some r \<and> map_of (os_rows st') x =
     Some (r\<lparr>rr_state := op_state_as_str state, rr_result := result, rr_masked := Some (masked \<and> result \<noteq> None), rr_updated_at := now\<rparr>)"
proof -
  from op_status_settle(2) [OF assms] obtain r where "map_of (os_rows st) x = Some r" "rr_state r = ''in_flight''"
    by (auto simp: op_status_def)
  with assms(1) show ?thesis by (auto simp: settle_with_def is_in_flight_def split: if_splits)
qed

text \<open>The row of an operation after its reply, and what \<open>begin\<close> then says.\<close>

lemma settle_then_begin:
  assumes set: "settle_with st x state result masked now = Ok (st', True)" and ok: "store_ok st" and call: "op_call st x = Some (t, d)"
  shows "state = Done \<Longrightarrow> op_begin st' x t d now' = Ok (st', Replay result (masked \<and> result \<noteq> None))"
    "state = Failed \<Longrightarrow> \<exists>st2. op_begin st' x t d now' = Ok (st2, Forward)"
proof -
  from settle_row [OF set ok] obtain r where r: "map_of (os_rows st) x = Some r" "map_of (os_rows st') x =
     Some (r\<lparr>rr_state := op_state_as_str state, rr_result := result, rr_masked := Some (masked \<and> result \<noteq> None), rr_updated_at := now\<rparr>)"
    by blast
  with call have td: "rr_tool r = t" "rr_digest r = d" by (auto simp: op_call_def)
  from op_begin_total [OF store_ok_settle [OF ok set], of x t d now'] obtain st2 b where
    b: "op_begin st' x t d now' = Ok (st2, b)" by (auto simp: split_paired_Ex)
  from b have done_: "b = Replay result (masked \<and> result \<noteq> None) \<and> st2 = st'" if "state = Done"
  proof (cases rule: op_begin_cases)
    case (pending r' st0)
    with r(2) that show ?thesis by (cases st0) auto
  next
    case (retry r' st0)
    with r(2) that show ?thesis by (cases st0) auto
  qed (use r(2) td that in auto)
  from b have failed: "b = Forward" if "state = Failed"
  proof (cases rule: op_begin_cases)
    case (pending r' st0)
    with r(2) that show ?thesis by (cases st0) auto
  qed (use r(2) td that in auto)
  show "op_begin st' x t d now' = Ok (st', Replay result (masked \<and> result \<noteq> None))" if "state = Done"
    using b done_ [OF that] by simp
  show "\<exists>st2. op_begin st' x t d now' = Ok (st2, Forward)" if "state = Failed"
    using b failed [OF that] by simp
qed

lemma reply_state_cases: "reply_state msg = Done \<or> reply_state msg = Failed"
  and reply_state_done: "reply_state msg = Done \<Longrightarrow> reply_result msg \<noteq> None"
  by (auto simp: reply_state_def is_some_and_def split: option.splits if_splits)

text \<open>A reply to a request that waits with an operation in flight.\<close>

lemma settle_reply_waiting:
  assumes ok: "relay_ok s" "world_ok W" and st: "operations s = Some st" "op_status st (if_operation_id f) = Some ''in_flight''"
    and f: "map_of (pd_by_request (ic_pending s)) (yw_ser W i) = Some f"
    and msg: "is_reply msg" "json_get msg ''id'' = Some i"
  obtains st' where "operations (fst (settle_reply W msg s)) = Some st'"
    "settle_with st (if_operation_id f) (reply_state msg)
       (if reply_state msg = Done then map_option (yw_ser W) (reply_result msg) else None) (ic_pii s \<noteq> None) (yw_now W) = Ok (st', True)"
    "pd_by_request (ic_pending (fst (settle_reply W msg s))) = AList.delete (yw_ser W i) (pd_by_request (ic_pending s))"
    "snd (settle_reply W msg s) = Some (f, reply_state msg)"
proof -
  let ?x = "if_operation_id f" let ?r = "if reply_state msg = Done then map_option (yw_ser W) (reply_result msg) else None"
  let ?s1 = "set_pending ((ic_pending s)\<lparr>pd_by_request := AList.delete (yw_ser W i) (pd_by_request (ic_pending s))\<rparr>) s"
  have st1: "operations ?s1 = Some st" using st(1) by simp
  from settle_as_total [OF st1, of W "reply_state msg" ?x ?r "ic_pii s \<noteq> None"] ok(2) reply_state_cases [of msg]
  obtain s2 ch where set: "settle_as W ?x (reply_state msg) ?r (ic_pii s \<noteq> None) ?s1 = Ok (s2, ch)" unfolding world_ok_def by blast
  from set st1 obtain st' where st': "settle_with st ?x (reply_state msg) ?r (ic_pii s \<noteq> None) (yw_now W) = Ok (st', ch)"
    "s2 = put_operations st' ?s1" by (elim settle_as_Ok) auto
  have ch: ch using op_status_settle(2) [OF st'(1) relay_ok_store [OF ok(1) st(1)]] st(2) by simp
  have eq: "settle_reply W msg s = (s2, Some (f, reply_state msg))"
    using st(1) msg f set ch by (simp add: settle_reply_def settle_waiting_def Let_def)
  have "pd_by_request (ic_pending s2) = AList.delete (yw_ser W i) (pd_by_request (ic_pending s))"
    unfolding st'(2) by (simp add: put_operations_def set_pending_def)
  with that [of st'] eq st' ch operations_put [of ?s1 st'] st1 show thesis by simp
qed

lemma coordinate_done:
  assumes "operations s = Some st" "store_ok st" "op_status st (ok_operation_id op) = Some ''done''"
  shows "snd (coordinate W i tool op s) \<noteq> CoForward"
proof
  assume "snd (coordinate W i tool op s) = CoForward"
  with assms(1) obtain st' where "op_begin st (ok_operation_id op) tool (ok_fingerprint op) (yw_now W) = Ok (st', Forward)"
    by (auto simp: coordinate_def Let_def split: option.splits if_splits sum.splits prod.splits begin_result.splits)
  from op_status_begin(2) [OF this assms(2)] assms(3) show False by simp
qed

section \<open>A listing ends\<close>

text \<open>The replies a listing gets, page by page, whatever the servers put in them.\<close>

fun page_run :: "relay_world \<Rightarrow> nat \<Rightarrow> (nat \<times> json) list \<Rightarrow> interceptor \<Rightarrow> interceptor \<times> relay_action list" where
  "page_run W job [] s = (s, [])"
| "page_run W job (p # ps) s =
     (let (s, acts) = on_page W job (fst p) (snd p) s; (s, rest) = page_run W job ps s in (s, acts @ rest))"

definition asks_server :: "relay_action \<Rightarrow> bool" where
  "asks_server a = (case a of ToUpstream _ _ \<Rightarrow> True | ToAgent _ \<Rightarrow> False)"

definition pages_left :: "nat \<Rightarrow> interceptor \<Rightarrow> nat" where
  "pages_left job s =
     (case Option.bind (ic_router s) (\<lambda>r. map_of (ro_jobs r) job) of
        None \<Rightarrow> 0
      | Some l \<Rightarrow> MAX_PAGES * length (cg_servers (ic_catalog s)) - lj_pages l)"

lemma pages_left_router: "map_of (ro_jobs r) job = Some l \<Longrightarrow>
    pages_left job (s\<lparr>ic_router := Some r\<rparr>) = MAX_PAGES * length (cg_servers (ic_catalog s)) - lj_pages l"
  by (simp add: pages_left_def)

lemma relay_answers_agent: "a \<in> set (snd (relay W line s)) \<Longrightarrow> \<not> asks_server a"
  by (auto simp: relay_def asks_server_def case_prod_beta split: option.splits)

lemma finish_listing_answers: "filter asks_server (snd (finish_listing W l s)) = []"
  using relay_answers_agent by (auto simp: finish_listing_def answer_def case_prod_beta filter_empty_conv split: option.split)

lemma map_of_delete_key [simp]: "map_of (AList.delete k xs) k = None" "map_of (AList.update k v xs) k = Some v"
  by (simp_all add: AList.delete_conv' AList.update_conv')

text \<open>No page asks for another once the listing is gone.\<close>

lemma on_page_gone: "Option.bind (ic_router s) (\<lambda>r. map_of (ro_jobs r) job) = None \<Longrightarrow> on_page W job sv msg s = (s, [])"
  by (cases "ic_router s") (simp_all add: on_page_def)

lemma page_run_gone:
  "Option.bind (ic_router s) (\<lambda>r. map_of (ro_jobs r) job) = None \<Longrightarrow> page_run W job ps s = (s, [])"
  by (induction ps) (simp_all add: on_page_gone)

lemma ic_router_steps [simp]:
  "ic_router (put_operations st s) = ic_router s" "ic_router (set_pending p s) = ic_router s" "ic_router (emit_drift W d s) = ic_router s"
  "ic_router (record_hop W h n ak es s) = ic_router s" "ic_router (put_router r s) = Some r"
  by (simp_all add: put_operations_def set_pending_def emit_drift_def record_hop_def put_router_def Let_def split: option.split sum.split)

lemma log_decision_router: "log_decision W d raw s = Ok (s', e) \<Longrightarrow> ic_router s' = ic_router s"
  by (auto simp: log_decision_def split: option.splits)

lemma ic_router_settle [simp]: "ic_router (fst (settle_reply W msg s)) = ic_router s"
  by (auto simp: settle_reply_def settle_waiting_def Let_def split: option.split sum.split elim!: settle_as_Ok)

lemma ic_router_outcome [simp]: "ic_router (record_outcome W x s) = ic_router s"
  by (auto simp: record_outcome_def log_decision_router split: option.split sum.split)

lemma ic_router_relay [simp]: "ic_router (fst (relay W line s)) = ic_router s"
  by (simp add: relay_def result_hop_def case_prod_beta split: option.split)

lemma ic_router_drifts [simp]: "ic_router (fold (emit_drift W) ds s) = ic_router s"
  by (induction ds arbitrary: s) simp_all

lemma ic_router_observe [simp]: "ic_router (fst (observe_all_servers W ls s)) = ic_router s"
  by (induction ls arbitrary: s) (simp_all add: observe_listing_def case_prod_beta Let_def)

lemma ic_router_finish [simp]: "ic_router (fst (finish_listing W l s)) = ic_router s"
  by (simp add: finish_listing_def answer_def case_prod_beta split: option.split)

definition page_taken :: "nat \<Rightarrow> json \<Rightarrow> list_job \<Rightarrow> list_job" where
  "page_taken sv msg l = l\<lparr>lj_pages := lj_pages l + 1, lj_tools := (case json_get msg ''result'' of
     Some result \<Rightarrow> page_tools sv result (lj_tools l) | None \<Rightarrow> filter (\<lambda>m. fst m \<noteq> sv) (lj_tools l))\<rparr>"

definition page_cursor :: "nat \<Rightarrow> json \<Rightarrow> list_job \<Rightarrow> string option" where
  "page_cursor most msg l = (case json_get msg ''result'' of
     Some result \<Rightarrow> if most \<le> lj_pages l + 1 then None else next_cursor result | None \<Rightarrow> None)"

lemma page_taken_pages [simp]: "lj_pages (page_taken sv msg l) = lj_pages l + 1"
  by (simp add: page_taken_def)

lemma page_cursor_room: "page_cursor most msg l = Some c \<Longrightarrow> lj_pages l + 1 < most"
  by (auto simp: page_cursor_def split: option.splits if_splits)

text \<open>Each page either ends the listing, or leaves it waiting for the other servers, or asks for one more
  page and uses up one of the pages left.\<close>

lemma on_page_job:
  assumes "ic_router s = Some r" "map_of (ro_jobs r) job = Some l0"
  obtains (asks) c r1 where "page_cursor (MAX_PAGES * length (cg_servers (ic_catalog s))) msg l0 = Some c"
      "r1 = r\<lparr>ro_jobs := AList.update job (page_taken sv msg l0) (ro_jobs r)\<rparr>"
      "on_page W job sv msg s = (put_router (fst (page_request W (server_at (ic_catalog s) sv) job sv (Some c) r1)) s,
         [snd (page_request W (server_at (ic_catalog s) sv) job sv (Some c) r1)])"
  | (waits) l where "lj_pages l = lj_pages l0 + 1"
      "on_page W job sv msg s = (put_router (r\<lparr>ro_jobs := AList.update job l (ro_jobs r)\<rparr>) s, [])"
  | (ends) l where "on_page W job sv msg s = finish_listing W l (put_router (r\<lparr>ro_jobs := AList.delete job (ro_jobs r)\<rparr>) s)"
proof -
  let ?most = "MAX_PAGES * length (cg_servers (ic_catalog s))"
  let ?l = "(page_taken sv msg l0)\<lparr>lj_remaining := lj_remaining (page_taken sv msg l0) - {sv}\<rparr>"
  have "on_page W job sv msg s = (case page_cursor ?most msg l0 of
      Some c \<Rightarrow> (put_router (fst (page_request W (server_at (ic_catalog s) sv) job sv (Some c)
            (r\<lparr>ro_jobs := AList.update job (page_taken sv msg l0) (ro_jobs r)\<rparr>))) s,
          [snd (page_request W (server_at (ic_catalog s) sv) job sv (Some c)
            (r\<lparr>ro_jobs := AList.update job (page_taken sv msg l0) (ro_jobs r)\<rparr>))])
    | None \<Rightarrow> if lj_remaining ?l \<noteq> {} then (put_router (r\<lparr>ro_jobs := AList.update job ?l (ro_jobs r)\<rparr>) s, [])
        else finish_listing W ?l (put_router (r\<lparr>ro_jobs := AList.delete job (ro_jobs r)\<rparr>) s))"
    by (simp add: on_page_def assms case_prod_beta Let_def page_cursor_def page_taken_def split: option.split)
  then consider c where "page_cursor ?most msg l0 = Some c"
      "on_page W job sv msg s = (put_router (fst (page_request W (server_at (ic_catalog s) sv) job sv (Some c)
            (r\<lparr>ro_jobs := AList.update job (page_taken sv msg l0) (ro_jobs r)\<rparr>))) s,
          [snd (page_request W (server_at (ic_catalog s) sv) job sv (Some c)
            (r\<lparr>ro_jobs := AList.update job (page_taken sv msg l0) (ro_jobs r)\<rparr>))])"
    | "on_page W job sv msg s = (put_router (r\<lparr>ro_jobs := AList.update job ?l (ro_jobs r)\<rparr>) s, [])"
    | "on_page W job sv msg s = finish_listing W ?l (put_router (r\<lparr>ro_jobs := AList.delete job (ro_jobs r)\<rparr>) s)"
    by (simp split: option.splits if_splits)
  then show thesis
  proof cases
    case 1
    then show ?thesis by (rule asks [OF _ refl])
  next
    case 2
    show ?thesis by (rule waits [of ?l, OF _ 2]) simp
  next
    case 3
    then show ?thesis by (rule ends)
  qed
qed

lemma on_page_step:
  assumes "on_page W job sv msg s = (s', acts)"
  shows "length (filter asks_server acts) + pages_left job s' \<le> pages_left job s"
proof (cases "Option.bind (ic_router s) (\<lambda>r. map_of (ro_jobs r) job)")
  case None
  with assms show ?thesis by (simp add: on_page_gone)
next
  case (Some l0)
  then obtain r where r: "ic_router s = Some r" "map_of (ro_jobs r) job = Some l0" by (auto simp: Option.bind_eq_Some_conv)
  let ?most = "MAX_PAGES * length (cg_servers (ic_catalog s))"
  have left: "pages_left job s = ?most - lj_pages l0" using r by (simp add: pages_left_def)
  from r show ?thesis
  proof (cases rule: on_page_job [where W = W and sv = sv and msg = msg])
    case (asks c r1)
    with assms have "length (filter asks_server acts) = 1" "pages_left job s' = ?most - (lj_pages l0 + 1)"
      by (auto simp: page_request_def asks_server_def pages_left_router put_router_def)
    with page_cursor_room [OF asks(1)] left show ?thesis by simp
  next
    case (waits l)
    with assms left show ?thesis by (auto simp: pages_left_router put_router_def)
  next
    case (ends l)
    with assms finish_listing_answers ic_router_finish have "filter asks_server acts = []"
      "ic_router s' = Some (r\<lparr>ro_jobs := AList.delete job (ro_jobs r)\<rparr>)"
      by (metis fst_conv snd_conv ic_router_steps(5))+
    then show ?thesis by (simp add: pages_left_def)
  qed
qed

lemma page_run_bounded: "length (filter asks_server (snd (page_run W job ps s))) \<le> pages_left job s"
proof (induction ps arbitrary: s)
  case (Cons p ps)
  obtain s1 acts where s1: "on_page W job (fst p) (snd p) s = (s1, acts)" by force
  with Cons [of s1] on_page_step [OF s1] show ?case by (simp add: case_prod_beta)
qed simp

lemma pages_left_le: "pages_left job s \<le> MAX_PAGES * length (cg_servers (ic_catalog s))"
  by (simp add: pages_left_def split: option.split)

end
