(* ===== verification/Merkle.thy ===== *)
theory Merkle
  imports Cloak_Prelude
begin

text \<open>
  The Merkle tree over record hashes (\<open>cloakpipe-anchor/src/merkle.rs\<close>). A tree is the list of its
  levels, leaves first; a level of odd length is paired with its last node twice. \<open>H\<close> is SHA-256.
  A proof is complete for every leaf, and sound when the hash has no collision among the inputs
  that occur.
\<close>

section \<open>The tree\<close>

definition leaf_hash :: "(string \<Rightarrow> string) \<Rightarrow> string \<Rightarrow> string" where
  "leaf_hash H v = H (CHR 0x00 # v)"

definition node_hash :: "(string \<Rightarrow> string) \<Rightarrow> string \<Rightarrow> string \<Rightarrow> string" where
  "node_hash H l r = H (CHR 0x01 # l @ r)"

datatype proof_position = LeftSibling | RightSibling

record proof_step =
  st_position :: proof_position
  st_hash :: string

record inclusion_proof_t =
  ip_leaf_index :: nat
  ip_total_leaves :: nat
  ip_steps :: "proof_step list"

type_synonym merkle_tree = "string list list"

text \<open>The inner loop: the next level up.\<close>

fun next_level :: "(string \<Rightarrow> string) \<Rightarrow> string list \<Rightarrow> string list" where
  "next_level H [] = []"
| "next_level H [a] = [node_hash H a a]"
| "next_level H (a # b # rest) = node_hash H a b # next_level H rest"

lemma length_next_level [simp]: "length (next_level H lv) = (length lv + 1) div 2"
  by (induction H lv rule: next_level.induct) simp_all

function levels_from :: "(string \<Rightarrow> string) \<Rightarrow> string list \<Rightarrow> merkle_tree" where
  "levels_from H lv = (if length lv > 1 then lv # levels_from H (next_level H lv) else [lv])"
  by pat_completeness auto
termination by (relation "measure (\<lambda>(H, lv). length lv)") simp_all

declare levels_from.simps [simp del]

definition zero_hash :: string where "zero_hash = replicate 32 (CHR 0x00)"

definition from_hashed_leaves :: "(string \<Rightarrow> string) \<Rightarrow> string list \<Rightarrow> merkle_tree" where
  "from_hashed_leaves H hs = (if hs = [] then [[zero_hash]] else levels_from H hs)"

definition from_leaves :: "(string \<Rightarrow> string) \<Rightarrow> string list \<Rightarrow> merkle_tree" where
  "from_leaves H leaves = from_hashed_leaves H (map (leaf_hash H) leaves)"

definition tree_root :: "merkle_tree \<Rightarrow> string" where
  "tree_root t = hd (last t)"

definition leaf_count :: "merkle_tree \<Rightarrow> nat" where
  "leaf_count t = length (hd t)"

section \<open>Proofs\<close>

definition sibling_step :: "string list \<Rightarrow> nat \<Rightarrow> proof_step" where
  "sibling_step cur idx =
     (let sibling_idx = (if even idx then idx + 1 else idx - 1)
      in \<lparr>st_position = (if even idx then RightSibling else LeftSibling),
          st_hash = (if sibling_idx < length cur then cur ! sibling_idx else cur ! idx)\<rparr>)"

fun proof_steps :: "merkle_tree \<Rightarrow> nat \<Rightarrow> proof_step list" where
  "proof_steps (cur # upper # rest) idx = sibling_step cur idx # proof_steps (upper # rest) (idx div 2)"
| "proof_steps _ idx = []"

text \<open>\<open>None\<close> is the panic on an index out of range.\<close>

definition inclusion_proof :: "merkle_tree \<Rightarrow> nat \<Rightarrow> inclusion_proof_t option" where
  "inclusion_proof t index =
     (if index < leaf_count t
      then Some \<lparr>ip_leaf_index = index, ip_total_leaves = leaf_count t, ip_steps = proof_steps t index\<rparr>
      else None)"

definition apply_step :: "(string \<Rightarrow> string) \<Rightarrow> string \<Rightarrow> proof_step \<Rightarrow> string" where
  "apply_step H cur s =
     (case st_position s of
        LeftSibling \<Rightarrow> node_hash H (st_hash s) cur
      | RightSibling \<Rightarrow> node_hash H cur (st_hash s))"

definition climb :: "(string \<Rightarrow> string) \<Rightarrow> string \<Rightarrow> proof_step list \<Rightarrow> string" where
  "climb H cur steps = foldl (apply_step H) cur steps"

definition verify_inclusion :: "(string \<Rightarrow> string) \<Rightarrow> string \<Rightarrow> string \<Rightarrow> inclusion_proof_t \<Rightarrow> bool" where
  "verify_inclusion H rt leaf p \<longleftrightarrow> climb H (leaf_hash H leaf) (ip_steps p) = rt"

section \<open>Completeness\<close>

lemma next_level_nth:
  "i < length lv \<Longrightarrow>
     next_level H lv ! (i div 2) =
       (if even i then node_hash H (lv ! i) (if i + 1 < length lv then lv ! (i + 1) else lv ! i)
        else node_hash H (lv ! (i - 1)) (lv ! i))"
proof (induction H lv arbitrary: i rule: next_level.induct)
  case (3 H a b rest)
  show ?case
  proof (cases "i < 2")
    case True
    then have "i = 0 \<or> i = 1" by auto
    then show ?thesis by auto
  next
    case False
    then obtain j where j: "i = Suc (Suc j)" by (metis add_2_eq_Suc' add.commute le_add_diff_inverse not_less)
    with 3(2) have "j < length rest" by simp
    from 3(1) [OF this] show ?thesis unfolding j by (cases j) auto
  qed
qed auto

lemma apply_sibling_step:
  assumes "i < length lv"
  shows "apply_step H (lv ! i) (sibling_step lv i) = next_level H lv ! (i div 2)"
  using assms next_level_nth [OF assms, of H]
  by (auto simp: apply_step_def sibling_step_def Let_def elim!: oddE)

lemma levels_from_last: "levels_from H lv \<noteq> [] \<and> hd (levels_from H lv) = lv"
  by (simp add: levels_from.simps [of H lv])

lemma tree_root_next:
  "length lv > 1 \<Longrightarrow> tree_root (levels_from H lv) = tree_root (levels_from H (next_level H lv))"
  using levels_from_last [of H "next_level H lv"]
  by (subst levels_from.simps) (simp add: tree_root_def)

lemma tree_root_single: "\<not> length lv > 1 \<Longrightarrow> tree_root (levels_from H lv) = hd lv"
  by (subst levels_from.simps) (simp add: tree_root_def)

lemma climb_proof_steps:
  "i < length lv \<Longrightarrow> climb H (lv ! i) (proof_steps (levels_from H lv) i) = tree_root (levels_from H lv)"
proof (induction H lv arbitrary: i rule: levels_from.induct)
  case (1 H lv)
  show ?case
  proof (cases "length lv > 1")
    case True
    obtain u rest where up: "levels_from H (next_level H lv) = u # rest"
      using levels_from_last [of H "next_level H lv"] by (cases "levels_from H (next_level H lv)") auto
    have i: "i div 2 < length (next_level H lv)" using 1(2) by simp
    have "climb H (lv ! i) (proof_steps (levels_from H lv) i) =
        climb H (next_level H lv ! (i div 2)) (proof_steps (levels_from H (next_level H lv)) (i div 2))"
      using True by (subst levels_from.simps) (simp add: up climb_def apply_sibling_step [OF 1(2)])
    also have "\<dots> = tree_root (levels_from H lv)"
      using 1(1) [OF True i] tree_root_next [OF True] by simp
    finally show ?thesis .
  next
    case False
    with 1(2) obtain a where "lv = [a]" "i = 0" by (cases lv) auto
    then show ?thesis
      by (simp add: levels_from.simps [of H "[a]"] climb_def tree_root_def)
  qed
qed

lemma inclusion_complete:
  assumes "i < length leaves"
  shows "\<exists>p. inclusion_proof (from_leaves H leaves) i = Some p
    \<and> verify_inclusion H (tree_root (from_leaves H leaves)) (leaves ! i) p"
proof -
  let ?lv = "map (leaf_hash H) leaves"
  have t: "from_leaves H leaves = levels_from H ?lv"
    using assms by (auto simp: from_leaves_def from_hashed_leaves_def)
  have "i < leaf_count (levels_from H ?lv)"
    using assms levels_from_last [of H ?lv] by (simp add: leaf_count_def)
  with climb_proof_steps [of i ?lv H] assms show ?thesis
    by (simp add: t inclusion_proof_def verify_inclusion_def)
qed

section \<open>Soundness\<close>

text \<open>The bytes hashed: for the nodes of a level, for the levels above a level, and along a proof.\<close>

fun level_inputs :: "string list \<Rightarrow> string set" where
  "level_inputs [] = {}"
| "level_inputs [a] = {CHR 0x01 # a @ a}"
| "level_inputs (a # b # rest) = insert (CHR 0x01 # a @ b) (level_inputs rest)"

definition tree_inputs :: "merkle_tree \<Rightarrow> string set" where
  "tree_inputs t = (\<Union>lv\<in>set (butlast t). level_inputs lv)"

fun climb_inputs :: "(string \<Rightarrow> string) \<Rightarrow> string \<Rightarrow> proof_step list \<Rightarrow> string set" where
  "climb_inputs H cur [] = {}"
| "climb_inputs H cur (s # ss) =
     insert (case st_position s of LeftSibling \<Rightarrow> CHR 0x01 # st_hash s @ cur | RightSibling \<Rightarrow> CHR 0x01 # cur @ st_hash s)
       (climb_inputs H (apply_step H cur s) ss)"

definition merkle_inputs :: "(string \<Rightarrow> string) \<Rightarrow> string list \<Rightarrow> string \<Rightarrow> proof_step list \<Rightarrow> string set" where
  "merkle_inputs H leaves leaf steps =
     (\<lambda>v. CHR 0x00 # v) ` insert leaf (set leaves)
     \<union> tree_inputs (from_leaves H leaves) \<union> climb_inputs H (leaf_hash H leaf) steps"

lemma next_level_member:
  "x \<in> set (next_level H lv) \<Longrightarrow>
     \<exists>l\<in>set lv. \<exists>r\<in>set lv. x = node_hash H l r \<and> CHR 0x01 # l @ r \<in> level_inputs lv"
  by (induction H lv rule: next_level.induct) auto

lemma tree_inputs_next:
  "length lv > 1 \<Longrightarrow>
     tree_inputs (levels_from H lv) = level_inputs lv \<union> tree_inputs (levels_from H (next_level H lv))"
  using levels_from_last [of H "next_level H lv"]
  by (subst levels_from.simps) (simp add: tree_inputs_def)

definition step_input :: "string \<Rightarrow> proof_step \<Rightarrow> string" where
  "step_input cur s =
     (case st_position s of
        LeftSibling \<Rightarrow> CHR 0x01 # st_hash s @ cur
      | RightSibling \<Rightarrow> CHR 0x01 # cur @ st_hash s)"

lemma apply_step_input: "apply_step H cur s = H (step_input cur s)"
  by (simp add: apply_step_def step_input_def node_hash_def split: proof_position.split)

lemma climb_Nil [simp]: "climb H cur [] = cur"
  and climb_Cons [simp]: "climb H cur (s # ss) = climb H (apply_step H cur s) ss"
  and climb_snoc: "climb H cur (ss @ [s]) = apply_step H (climb H cur ss) s"
  by (simp_all add: climb_def)

lemma climb_inputs_snoc:
  "climb_inputs H cur (ss @ [s]) = insert (step_input (climb H cur ss) s) (climb_inputs H cur ss)"
  by (induction ss arbitrary: cur) (simp_all add: step_input_def insert_commute)

lemma climb_length:
  "(\<And>x. length (H x) = 32) \<Longrightarrow> length cur = 32 \<Longrightarrow> length (climb H cur ss) = 32"
  by (induction ss arbitrary: cur) (simp_all add: apply_step_input)

definition nodes :: "merkle_tree \<Rightarrow> string set" where
  "nodes t = (\<Union>lv\<in>set t. set lv)"

lemma nodes_next:
  "length lv > 1 \<Longrightarrow> nodes (levels_from H lv) = set lv \<union> nodes (levels_from H (next_level H lv))"
  by (simp add: levels_from.simps [of H lv] nodes_def)

lemma nodes_single: "\<not> length lv > 1 \<Longrightarrow> nodes (levels_from H lv) = set lv"
  by (simp add: levels_from.simps [of H lv] nodes_def)

lemma level_nodes: "set lv \<subseteq> nodes (levels_from H lv)"
  using nodes_next nodes_single by blast

text \<open>Every node of a tree is a leaf, or the hash of two nodes of the tree.\<close>

lemma node_cases:
  "x \<in> nodes (levels_from H lv) \<Longrightarrow>
     x \<in> set lv \<or> (\<exists>l\<in>nodes (levels_from H lv). \<exists>r\<in>nodes (levels_from H lv).
       x = node_hash H l r \<and> CHR 0x01 # l @ r \<in> tree_inputs (levels_from H lv))"
proof (induction H lv rule: levels_from.induct)
  case (1 H lv)
  show ?case
  proof (cases "length lv > 1")
    case True
    show ?thesis
    proof (cases "x \<in> set lv")
      case False
      with 1(2) True have x: "x \<in> nodes (levels_from H (next_level H lv))" by (simp add: nodes_next)
      show ?thesis
        using 1(1) [OF True x] next_level_member [of x H lv] level_nodes [of lv H]
        by (auto simp: nodes_next [OF True] tree_inputs_next [OF True])
    qed simp
  next
    case False
    with 1(2) show ?thesis by (simp add: nodes_single)
  qed
qed

lemma root_node: "lv \<noteq> [] \<Longrightarrow> tree_root (levels_from H lv) \<in> nodes (levels_from H lv)"
proof (induction H lv rule: levels_from.induct)
  case (1 H lv)
  show ?case
  proof (cases "length lv > 1")
    case True
    then have "next_level H lv \<noteq> []" by (cases lv rule: list.exhaust; cases "tl lv") auto
    with 1(1) [OF True] show ?thesis by (simp add: nodes_next [OF True] tree_root_next [OF True])
  next
    case False
    with 1(2) show ?thesis by (simp add: nodes_single tree_root_single)
  qed
qed

lemma node_length:
  assumes len: "\<And>x. length (H x) = 32" and lv: "\<And>x. x \<in> set lv \<Longrightarrow> length x = 32"
    and x: "x \<in> nodes (levels_from H lv)"
  shows "length x = 32"
  using node_cases [OF x] lv len by (auto simp: node_hash_def)

lemma climb_to_node:
  fixes H :: "string \<Rightarrow> string" and leaves :: "string list"
  defines "t \<equiv> levels_from H (map (leaf_hash H) leaves)"
  assumes len: "\<And>x. length (H x) = 32"
    and inj: "inj_on H X"
    and leafs: "(\<lambda>v. CHR 0x00 # v) ` insert leaf (set leaves) \<subseteq> X" and tree: "tree_inputs t \<subseteq> X"
    and path: "climb_inputs H (leaf_hash H leaf) steps \<subseteq> X"
    and sib: "\<forall>s\<in>set steps. length (st_hash s) = 32"
    and node: "climb H (leaf_hash H leaf) steps \<in> nodes t"
  shows "leaf \<in> set leaves"
  using path sib node
proof (induction steps rule: rev_induct)
  case Nil
  consider v where "v \<in> set leaves" "H (CHR 0x00 # leaf) = H (CHR 0x00 # v)"
    | l r where "H (CHR 0x00 # leaf) = H (CHR 0x01 # l @ r)" "CHR 0x01 # l @ r \<in> tree_inputs t"
    using node_cases [OF Nil(3) [unfolded t_def]] unfolding t_def [symmetric] climb_Nil node_hash_def leaf_hash_def by auto
  then show ?case
  proof cases
    case 1
    then show ?thesis using inj_onD [OF inj, of "CHR 0x00 # leaf"] leafs by auto
  next
    case 2
    then show ?thesis using inj_onD [OF inj, of "CHR 0x00 # leaf"] leafs tree by blast
  qed
next
  case (snoc s ss)
  let ?c = "climb H (leaf_hash H leaf) ss"
  have input: "step_input ?c s \<in> X" using snoc(2) by (simp add: climb_inputs_snoc)
  have clen: "length ?c = 32" by (rule climb_length) (simp_all add: len leaf_hash_def)
  consider v where "v \<in> set leaves" "H (step_input ?c s) = H (CHR 0x00 # v)"
    | l r where "l \<in> nodes t" "r \<in> nodes t" "H (step_input ?c s) = H (CHR 0x01 # l @ r)"
        "CHR 0x01 # l @ r \<in> tree_inputs t"
    using node_cases [OF snoc(4) [unfolded t_def]]
    unfolding t_def [symmetric] climb_snoc apply_step_input node_hash_def leaf_hash_def by auto
  then show ?case
  proof cases
    case 1
    then have "step_input ?c s = CHR 0x00 # v" using inj_onD [OF inj] input leafs by blast
    then show ?thesis by (simp add: step_input_def split: proof_position.splits)
  next
    case 2
    then have eq: "step_input ?c s = CHR 0x01 # l @ r" using inj_onD [OF inj] input tree by blast
    have "length l = 32"
      by (rule node_length [of H "map (leaf_hash H) leaves"]) (use len 2 in \<open>auto simp: leaf_hash_def t_def\<close>)
    with eq clen snoc(3) have "?c = l \<or> ?c = r"
      by (auto simp: step_input_def split: proof_position.splits)
    with 2 have "?c \<in> nodes t" by auto
    with snoc show ?thesis by (simp add: climb_inputs_snoc)
  qed
qed

text \<open>A proof that verifies against the root of a non-empty tree is about one of its leaves.\<close>

lemma inclusion_sound:
  assumes "\<And>x. length (H x) = 32" "leaves \<noteq> []"
    and "\<forall>s\<in>set (ip_steps p). length (st_hash s) = 32"
    and "inj_on H (merkle_inputs H leaves leaf (ip_steps p))"
    and "verify_inclusion H (tree_root (from_leaves H leaves)) leaf p"
  shows "leaf \<in> set leaves"
proof (rule climb_to_node)
  have t: "from_leaves H leaves = levels_from H (map (leaf_hash H) leaves)"
    using assms(2) by (simp add: from_leaves_def from_hashed_leaves_def)
  show "inj_on H (merkle_inputs H leaves leaf (ip_steps p))" by fact
  show "climb H (leaf_hash H leaf) (ip_steps p) \<in> nodes (levels_from H (map (leaf_hash H) leaves))"
    using assms(2,5) root_node [of "map (leaf_hash H) leaves" H] by (simp add: verify_inclusion_def t)
  show "tree_inputs (levels_from H (map (leaf_hash H) leaves)) \<subseteq> merkle_inputs H leaves leaf (ip_steps p)"
    by (auto simp: merkle_inputs_def t)
qed (use assms in \<open>auto simp: merkle_inputs_def\<close>)

text \<open>The root does not fix the number of leaves: an odd level ends as if its last node stood twice.\<close>

lemma next_level_dup: "odd (length lv) \<Longrightarrow> next_level H (lv @ [last lv]) = next_level H lv"
  by (induction H lv rule: next_level.induct) auto

lemma root_dup:
  assumes "odd (length leaves)" "length leaves > 1"
  shows "tree_root (from_leaves H (leaves @ [last leaves])) = tree_root (from_leaves H leaves)"
proof -
  let ?lv = "map (leaf_hash H) leaves"
  have ne: "leaves \<noteq> []" using assms by auto
  have l: "last ?lv = leaf_hash H (last leaves)" using ne by (simp add: last_map)
  have "tree_root (levels_from H (?lv @ [last ?lv])) = tree_root (levels_from H ?lv)"
    using tree_root_next [of "?lv @ [last ?lv]" H] tree_root_next [of ?lv H] next_level_dup [of ?lv H] assms ne
    by simp
  with ne l show ?thesis by (simp add: from_leaves_def from_hashed_leaves_def)
qed

end
