(* ===== verification/Samples.thy ===== *)
theory Samples
  imports Gate Merkle
begin

text \<open>
  Concrete values of every component: a store with a paid operation, contracts, a release, a receipt
  with the operations that sign and read it, a gate with its contracts loaded, a Merkle proof. The
  witnesses of the properties are evaluated on them.
\<close>

definition retry_run :: "op_event list" where
  "retry_run =
     [EBegin ''op-1'' ''pay'' (replicate 32 CHR ''d'') ''t0'',
      ESettle ''op-1'' Failed None False ''t1'',
      EBegin ''op-1'' ''pay'' (replicate 32 CHR ''d'') ''t2'']"

definition paid :: op_store where
  "paid = run_state op_step (op_open None ''key'')
     [EBegin ''op-1'' ''pay'' (replicate 32 CHR ''d'') ''t0'',
      ESettle ''op-1'' Done (Some ''receipt'') False ''t1'']"

lemma paid_reachable: "op_reachable paid"
  unfolding paid_def by (rule reachable_run) (simp_all add: op_reachable.fresh)

lemma paid_row:
  "os_rows paid = [(''op-1'', \<lparr>rr_tool = ''pay'', rr_digest = replicate 32 CHR ''d'', rr_state = ''done'',
     rr_result = Some ''receipt'', rr_updated_at = ''t1'', rr_masked = Some False\<rparr>)]"
  by (simp add: paid_def op_eval)

definition sample_digests :: digests where
  "sample_digests = \<lparr>dg_sha256 = (\<lambda>x. take 32 (rev x @ replicate 32 (CHR ''0''))),
     dg_hmac = (\<lambda>k x. take 32 (x @ replicate 32 (CHR ''0''))), dg_jcs = (\<lambda>_. ''doc'')\<rparr>"

definition sample_contract :: tool_contract where
  "sample_contract = \<lparr>tc_api_version = API_VERSION, tc_kind = CONTRACT_KIND, tc_name = ''bank'',
     tc_tools = [(''pay'', \<lparr>tr_side_effect = True, tr_requires_approval = False,
       tr_arguments = [(''to'', Constraint (no_kw\<lparr>c_ty := Some TString\<rparr>) None None)],
       tr_required = [''to''], tr_effect = None, tr_idempotency_key = None, tr_approval = None\<rparr>)],
     tc_raw = JObject [(''a'', JNull), (''b'', JNull)]\<rparr>"

definition reordered_contract :: tool_contract where
  "reordered_contract = sample_contract\<lparr>tc_raw := JObject [(''b'', JNull), (''a'', JNull)]\<rparr>"

definition sample_expr :: expr where
  "sample_expr = EAnd (EOr (Cmp [''to'', ''country''] Ne (LString ''DE'')) (Cmp [''urgent''] Eq (LBool True)))
     (Cmp [''amount''] Ge (LNumber (PosInt 100)))"

definition sample_num :: "string \<Rightarrow> number option" where
  "sample_num t = (if t = ''100'' then Some (PosInt 100) else None)"

definition plain_arg :: arg_kw where
  "plain_arg = \<lparr>a_ty = Some TString, a_pattern = None, a_one_of = None, a_constant = None, a_min_len = None,
     a_max_len = None, a_min = None, a_max = None, a_required = True, a_one_of_context = None, a_or_pattern = None\<rparr>"

definition sample_tool :: raw_tool where
  "sample_tool = \<lparr>rt_args = [(''to'', ArgSpec plain_arg None None)], rt_side_effect = Some True, rt_effect = None,
     rt_idempotency_key = Some ''pay-{to}'',
     rt_approval = Some \<lparr>ra_when = Some (concat [''to == '', [CHR 0x22], ''DE'', [CHR 0x22]]), ra_approvers = [''ops''], ra_ttl = Some ''90m'', ra_show = [''to'']\<rparr>\<rparr>"

definition sample_rule :: tool_rule where
  "sample_rule = \<lparr>tr_side_effect = True, tr_requires_approval = True,
     tr_arguments = [(''to'', Constraint (no_kw\<lparr>c_ty := Some TString\<rparr>) None None)], tr_required = [''to''],
     tr_effect = Some Write,
     tr_idempotency_key = Some \<lparr>ik_source = ''pay-{to}'', ik_parts = [Literal ''pay-'', Field [''to''] False False]\<rparr>,
     tr_approval = Some \<lparr>ar_when = Some \<lparr>cond_source = concat [''to == '', [CHR 0x22], ''DE'', [CHR 0x22]],
       cond_expr = Cmp [''to''] Eq (LString ''DE'')\<rparr>, ar_approvers = [''ops''], ar_ttl_secs = Some 5400,
       ar_show = [''to'']\<rparr>\<rparr>"

definition sample_release :: agent_release where
  "sample_release = \<lparr>rl_api_version = API_VERSION, rl_kind = RELEASE_KIND,
     rl_metadata = \<lparr>md_agent = ''support'', md_version = ''1'', md_labels = []\<rparr>,
     rl_spec = \<lparr>sp_code = \<lparr>cd_repository = ''repo'', cd_commit = ''abcdef0''\<rparr>, sp_prompts = [''prompt:p@1''],
       sp_model = ''model:m@1'', sp_parameters = [], sp_tools = [''tool:a@1'', ''tool:b@1''], sp_mcp_servers = [],
       sp_retrieval = None, sp_policies = [], sp_runtime = \<lparr>rn_image = ''img'', rn_region = ''eu''\<rparr>,
       sp_dependencies = [], sp_feature_flags = []\<rparr>\<rparr>"

definition relabelled_release :: agent_release where
  "relabelled_release = sample_release\<lparr>rl_metadata := \<lparr>md_agent = ''support'', md_version = ''2'', md_labels = []\<rparr>,
     rl_spec := (rl_spec sample_release)\<lparr>sp_tools := [''tool:b@1'', ''tool:a@1'']\<rparr>\<rparr>"

definition sample_approval :: approval where
  "sample_approval = \<lparr>ap_release = ''rel'', ap_tool = ''pay'', ap_task_id = ''task-1'', ap_operation_id = ''op-1'',
     ap_approver = ''alice'', ap_approved_at = ''2026-01-01T0'', ap_not_after = ''2026-01-01T9''\<rparr>"

definition sample_receipts :: receipt_ops where
  "sample_receipts = \<lparr>ro_sign = (\<lambda>k m. replicate 64 (CHR ''s'')), ro_public = (\<lambda>k. k), ro_verify = (\<lambda>p m s. True),
     ro_b64_encode = (\<lambda>x. x), ro_b64_decode = Some, ro_jcs = (\<lambda>_. ''doc''),
     ro_read = (\<lambda>_. Some (DMap [(''_type'', DStr STATEMENT_TYPE),
       (''subject'', DSeq [DMap [(''name'', DStr ''tool-call:pay''),
          (''digest'', DMap [(''sha256'', DStr ''6670'')])]]),
       (''predicateType'', DStr APPROVAL_PREDICATE_TYPE),
       (''predicate'', DMap [(''release'', DStr ''rel''), (''tool'', DStr ''pay''), (''taskId'', DStr ''task-1''),
          (''operationId'', DStr ''op-1''), (''approver'', DStr ''alice''), (''approvedAt'', DStr ''2026-01-01T0''),
          (''notAfter'', DStr ''2026-01-01T9'')])])),
     ro_decode = (\<lambda>_. Some sample_approval),
     ro_time = (\<lambda>t. if t = ''2026-01-01T0'' then Some 0 else if t = ''2026-01-01T5'' then Some 5 else if t = ''2026-01-01T9'' then Some 9 else None)\<rparr>"

definition sample_check :: approval_check where
  "sample_check = \<lparr>ac_fingerprint = ''fp'', ac_release = ''rel'', ac_tool = ''pay'', ac_task_id = ''task-1'',
     ac_approvers = [\<lparr>tk_keyid = ''alice'', tk_public = ''key''\<rparr>], ac_now = ''2026-01-01T5''\<rparr>"

definition sample_calls :: "counter_event list" where
  "sample_calls = [CRecord ''rel'' ''pay'' 10, CRecord ''rel'' ''pay'' 90000, CForget 1, CRecord ''rel'' ''pay'' 90001]"

definition sample_regex :: regex_ops where
  "sample_regex = \<lparr>regex_valid = (\<lambda>_. True), regex_is_match = (\<lambda>_ _. True)\<rparr>"

definition sample_world :: gate_world where
  "sample_world = \<lparr>gw_digests = sample_digests, gw_regex = sample_regex, gw_receipts = sample_receipts,
     gw_file = (\<lambda>_. NoFile), gw_envelope = (\<lambda>_. None), gw_broker_denied = (\<lambda>_ _. False),
     gw_marker_denied = (\<lambda>_ _. False), gw_cedar = (\<lambda>_. Err (PolicyInput [])), gw_counters_ok = True\<rparr>"

definition look_rule :: tool_rule where
  "look_rule = \<lparr>tr_side_effect = False, tr_requires_approval = False,
     tr_arguments = [(''id'', Constraint (no_kw\<lparr>c_ty := Some TString\<rparr>) None None)],
     tr_required = [''id''], tr_effect = None, tr_idempotency_key = None, tr_approval = None\<rparr>"

definition look_contract :: tool_contract where
  "look_contract = \<lparr>tc_api_version = API_VERSION, tc_kind = CONTRACT_KIND, tc_name = ''crm'',
     tc_tools = [(''look'', look_rule)], tc_raw = JNull\<rparr>"

definition look_gate :: tool_gate where
  "look_gate = \<lparr>g_mode = Enforce, g_release = ''rel'', g_release_name = ''support'', g_version = ''1'',
     g_policy_digest = None, g_policy_source = None, g_policy = None, g_tools = [''look''],
     g_contract_refs = [policy_ref sample_digests look_contract], g_contracts_loaded = False, g_rules = [],
     g_task = None, g_approvals = None, g_broker = False, g_operations = None, g_recovered = [],
     g_operation_id_key = None\<rparr>"

definition look_args :: json where "look_args = JObject [(''id'', JString ''c-1'')]"

definition loaded_gate :: tool_gate where
  "loaded_gate = look_gate\<lparr>g_rules := [(''look'', look_rule)], g_contracts_loaded := True\<rparr>"

lemma loaded_gate_contracts: "with_contracts sample_digests [look_contract] None look_gate = Ok loaded_gate"
  by (simp add: with_contracts_def look_gate_def loaded_gate_def look_contract_def)

lemma look_args_pass: "rule_check sample_regex look_rule (Some look_args) None = Ok ()"
  by code_simp

lemma look_authorized:
  "authorize sample_world loaded_gate ''look'' (Some look_args) ''now'' = Ok \<lparr>au_approval = None, au_operation = None\<rparr>"
  using look_args_pass
  by (simp add: authorize_def loaded_gate_def look_gate_def sample_world_def evaluate_policy_def
      approval_needed_def needs_approval_def look_rule_def)

definition sample_hash :: "string \<Rightarrow> string" where
  "sample_hash x = take 32 (x @ replicate 32 (CHR ''0''))"

definition sample_proof :: inclusion_proof_t where
  "sample_proof = \<lparr>ip_leaf_index = 0, ip_total_leaves = 2,
     ip_steps = [\<lparr>st_position = RightSibling, st_hash = sample_hash (CHR 0x00 # ''b'')\<rparr>]\<rparr>"

end
