(* ===== verification/Decision_Verify.thy ===== *)
theory Decision_Verify
  imports Decisions Digests
begin

text \<open>
  The offline check of decision entries (\<open>cloakpipe-verify/src/decisions.rs\<close>), written against the
  format alone: the entries are JSON objects, hashed and canonicalized by the verifier's own code. The
  JSON reader, SHA-256 and Ed25519 are parameters. A run that verifies is characterized exactly; what
  the ledger stores verifies, and the head of a verified run commits to every entry in it.
\<close>

section \<open>Reading\<close>

datatype decision_error =
    Malformed nat
  | NoKeys
  | EntryKind nat
  | EntryField nat string
  | SeqGap nat nat
  | PrevHash nat
  | EntryHash nat
  | UnknownSigner nat string
  | BadSignature nat

record decision_summary =
  ds_entries :: nat
  ds_first_seq :: "nat option"
  ds_last_seq :: "nat option"
  ds_from_genesis :: bool
  ds_head :: string
  ds_allowed :: nat
  ds_denied :: nat
  ds_approvals_required :: nat
  ds_shadow :: nat
  ds_committed_outcomes :: nat
  ds_failed_outcomes :: nat
  ds_unknown_outcomes :: nat
  ds_reconciled :: nat

fun parse_lines :: "(string \<Rightarrow> json option) \<Rightarrow> nat \<Rightarrow> string list \<Rightarrow> decision_error + json list" where
  "parse_lines from_str n [] = Ok []"
| "parse_lines from_str n (l # ls) =
     (if is_blank l then parse_lines from_str (n + 1) ls
      else rbind (ok_or (Malformed n) (from_str l)) (\<lambda>v.
        if \<not> is_object v then Err (Malformed n)
        else rbind (parse_lines from_str (n + 1) ls) (\<lambda>vs. Ok (v # vs))))"

definition parse_jsonl :: "(string \<Rightarrow> json option) \<Rightarrow> string \<Rightarrow> decision_error + json list" where
  "parse_jsonl from_str t = parse_lines from_str 1 (str_lines t)"

section \<open>Verifying\<close>

definition verify_keyid :: "ledger_ops \<Rightarrow> string \<Rightarrow> string" where
  "verify_keyid L public = ''ed25519:'' @ take 16 (hex_encode (lg_sha256 L public))"

definition verify_entry_hash :: "ledger_ops \<Rightarrow> json \<Rightarrow> string" where
  "verify_entry_hash L entry =
     lg_sha256 L (DECISION_HASH_DOMAIN @ [CHR 0x0A] @ verify_canonical (lg_ser L) (without [''entry_hash'', ''sig''] entry))"

definition str_field :: "json \<Rightarrow> string \<Rightarrow> string option" where
  "str_field e f = Option.bind (json_get e f) as_str"

definition u64_field :: "json \<Rightarrow> string \<Rightarrow> nat option" where
  "u64_field e f = Option.bind (json_get e f) as_u64"

definition text_field :: "json \<Rightarrow> string \<Rightarrow> string" where
  "text_field e f = (case str_field e f of Some s \<Rightarrow> s | None \<Rightarrow> [])"

definition tally_decision :: "decision_summary \<Rightarrow> json \<Rightarrow> decision_summary" where
  "tally_decision s e =
     (if text_field e ''event'' = ''call'' \<or> text_field e ''event'' = ''replay'' then
        if text_field e ''decision'' = ''allow'' then s\<lparr>ds_allowed := ds_allowed s + 1\<rparr>
        else if text_field e ''decision'' = ''deny'' then s\<lparr>ds_denied := ds_denied s + 1\<rparr>
        else if text_field e ''decision'' = ''require_approval'' then s\<lparr>ds_approvals_required := ds_approvals_required s + 1\<rparr>
        else s
      else if text_field e ''event'' = ''reconcile'' then s\<lparr>ds_reconciled := ds_reconciled s + 1\<rparr>
      else s)"

definition tally_outcome :: "decision_summary \<Rightarrow> json \<Rightarrow> decision_summary" where
  "tally_outcome s e =
     (if text_field e ''event'' \<noteq> ''reconcile'' \<and> text_field e ''event'' \<noteq> ''replay'' then
        if text_field e ''outcome'' = ''committed'' then s\<lparr>ds_committed_outcomes := ds_committed_outcomes s + 1\<rparr>
        else if text_field e ''outcome'' = ''failed'' then s\<lparr>ds_failed_outcomes := ds_failed_outcomes s + 1\<rparr>
        else if text_field e ''outcome'' = ''unknown'' then s\<lparr>ds_unknown_outcomes := ds_unknown_outcomes s + 1\<rparr>
        else s
      else s)"

definition tally :: "decision_summary \<Rightarrow> json \<Rightarrow> decision_summary" where
  "tally s e =
     (let s = (if text_field e ''mode'' = ''shadow'' then s\<lparr>ds_shadow := ds_shadow s + 1\<rparr> else s)
      in tally_outcome (tally_decision s e) e)"

definition summary_default :: decision_summary where
  "summary_default =
     \<lparr>ds_entries = 0, ds_first_seq = None, ds_last_seq = None, ds_from_genesis = False, ds_head = GENESIS,
      ds_allowed = 0, ds_denied = 0, ds_approvals_required = 0, ds_shadow = 0, ds_committed_outcomes = 0,
      ds_failed_outcomes = 0, ds_unknown_outcomes = 0, ds_reconciled = 0\<rparr>"

definition trusted_keys :: "ledger_ops \<Rightarrow> string list \<Rightarrow> (string \<times> string) list" where
  "trusted_keys L trusted =
     fold (\<lambda>k. bt_insert (verify_keyid L k) k) (filter (lg_point L) trusted) []"

type_synonym verify_state = "decision_summary \<times> (nat \<times> string) option"

text \<open>The check against the entry before: \<open>p_seq + 1\<close> is on 64 bits.\<close>

definition check_follows :: "verify_state \<Rightarrow> nat \<Rightarrow> string \<Rightarrow> decision_error + decision_summary" where
  "check_follows st seq prev_hash =
     (case st of
        (s, None) \<Rightarrow>
          if seq = 0 \<and> prev_hash \<noteq> GENESIS then Err (PrevHash seq)
          else Ok (s\<lparr>ds_first_seq := Some seq, ds_from_genesis := (seq = 0)\<rparr>)
      | (s, Some (p_seq, p_hash)) \<Rightarrow>
          if seq \<noteq> (p_seq + 1) mod 2 ^ 64 then Err (SeqGap ((p_seq + 1) mod 2 ^ 64) seq)
          else if prev_hash \<noteq> p_hash then Err (PrevHash seq) else Ok s)"

definition verify_entry ::
  "ledger_ops \<Rightarrow> (string \<times> string) list \<Rightarrow> nat \<Rightarrow> verify_state \<Rightarrow> json \<Rightarrow> decision_error + verify_state" where
  "verify_entry L keys index st e =
     rbind (ok_or (EntryField index ''seq'') (u64_field e ''seq'')) (\<lambda>seq.
     if str_field e ''kind'' \<noteq> Some DECISION_KIND then Err (EntryKind seq) else
     rbind (ok_or (EntryField index ''prev_hash'') (str_field e ''prev_hash'')) (\<lambda>prev_hash.
     rbind (check_follows st seq prev_hash) (\<lambda>s.
     rbind (ok_or (EntryField index ''entry_hash'') (str_field e ''entry_hash'')) (\<lambda>recorded.
     if recorded \<noteq> hex_encode (verify_entry_hash L e) then Err (EntryHash seq) else
     rbind (ok_or (EntryField index ''signer'') (str_field e ''signer'')) (\<lambda>signer.
     rbind (ok_or (UnknownSigner seq signer) (map_of keys signer)) (\<lambda>vk.
     rbind (ok_or (EntryField index ''sig'') (str_field e ''sig'')) (\<lambda>sig_text.
     if \<not> is_some_and (\<lambda>sig. length sig = 64 \<and> lg_verify L vk (verify_entry_hash L e) sig) (hex_decode sig_text)
     then Err (BadSignature seq) else
     let s = tally s e
     in Ok (s\<lparr>ds_entries := ds_entries s + 1, ds_last_seq := Some seq, ds_head := recorded\<rparr>,
            Some (seq, recorded)))))))))"

fun verify_loop ::
  "ledger_ops \<Rightarrow> (string \<times> string) list \<Rightarrow> nat \<Rightarrow> verify_state \<Rightarrow> json list \<Rightarrow> decision_error + verify_state" where
  "verify_loop L keys index st [] = Ok st"
| "verify_loop L keys index st (e # es) =
     rbind (verify_entry L keys index st e) (\<lambda>st. verify_loop L keys (index + 1) st es)"

definition verify_decisions :: "ledger_ops \<Rightarrow> json list \<Rightarrow> string list \<Rightarrow> decision_error + decision_summary" where
  "verify_decisions L entries trusted =
     (if trusted = [] then Err NoKeys
      else rbind (verify_loop L (trusted_keys L trusted) 0 (summary_default, None) entries) (\<lambda>st. Ok (fst st)))"

section \<open>What a verified run is\<close>

text \<open>An entry stands by itself: its hash is that of its content, and the trusted key its signer names
  signed it.\<close>

definition entry_signed :: "ledger_ops \<Rightarrow> (string \<times> string) list \<Rightarrow> json \<Rightarrow> bool" where
  "entry_signed L keys e \<longleftrightarrow>
     str_field e ''kind'' = Some DECISION_KIND
     \<and> str_field e ''entry_hash'' = Some (hex_encode (verify_entry_hash L e))
     \<and> (\<exists>signer vk sig_text sig. str_field e ''signer'' = Some signer \<and> map_of keys signer = Some vk
          \<and> str_field e ''sig'' = Some sig_text \<and> hex_decode sig_text = Some sig \<and> length sig = 64
          \<and> lg_verify L vk (verify_entry_hash L e) sig)"

definition entry_seq :: "json \<Rightarrow> nat" where "entry_seq e = (case u64_field e ''seq'' of Some n \<Rightarrow> n | None \<Rightarrow> 0)"
definition entry_prev :: "json \<Rightarrow> string" where "entry_prev e = text_field e ''prev_hash''"
definition entry_own :: "json \<Rightarrow> string" where "entry_own e = text_field e ''entry_hash''"

definition entry_numbered :: "json \<Rightarrow> bool" where
  "entry_numbered e \<longleftrightarrow> u64_field e ''seq'' \<noteq> None \<and> str_field e ''prev_hash'' \<noteq> None"

text \<open>What a run adds to the summary when every check passes.\<close>

definition advance :: "json \<Rightarrow> verify_state \<Rightarrow> verify_state" where
  "advance e st =
     (let (s, prev) = st;
          s = tally (case prev of None \<Rightarrow> s\<lparr>ds_first_seq := Some (entry_seq e), ds_from_genesis := (entry_seq e = 0)\<rparr>
                                | Some _ \<Rightarrow> s) e
      in (s\<lparr>ds_entries := ds_entries s + 1, ds_last_seq := Some (entry_seq e), ds_head := entry_own e\<rparr>,
          Some (entry_seq e, entry_own e)))"

definition follows :: "(nat \<times> string) option \<Rightarrow> json \<Rightarrow> bool" where
  "follows prev e \<longleftrightarrow>
     (case prev of
        None \<Rightarrow> entry_seq e \<noteq> 0 \<or> entry_prev e = GENESIS
      | Some (p_seq, p_hash) \<Rightarrow> entry_seq e = (p_seq + 1) mod 2 ^ 64 \<and> entry_prev e = p_hash)"

fun run_follows :: "(nat \<times> string) option \<Rightarrow> json list \<Rightarrow> bool" where
  "run_follows prev [] = True"
| "run_follows prev (e # es) = (follows prev e \<and> run_follows (Some (entry_seq e, entry_own e)) es)"

lemma check_follows_Ok:
  "check_follows (s, prev) seq prev_hash = Ok s' \<longleftrightarrow>
     (case prev of None \<Rightarrow> seq \<noteq> 0 \<or> prev_hash = GENESIS | Some (p, h) \<Rightarrow> seq = (p + 1) mod 2 ^ 64 \<and> prev_hash = h)
     \<and> s' = (case prev of None \<Rightarrow> s\<lparr>ds_first_seq := Some seq, ds_from_genesis := (seq = 0)\<rparr> | Some _ \<Rightarrow> s)"
  by (auto simp: check_follows_def split: option.splits)

lemma verify_entry_Ok:
  "verify_entry L keys index (s, prev) e = Ok st \<longleftrightarrow>
     entry_numbered e \<and> entry_signed L keys e \<and> follows prev e \<and> st = advance e (s, prev)"
proof (cases "u64_field e ''seq'' = None \<or> str_field e ''prev_hash'' = None")
  case True
  then show ?thesis by (auto simp: verify_entry_def entry_numbered_def)
next
  case False
  then obtain n h where fields: "u64_field e ''seq'' = Some n" "str_field e ''prev_hash'' = Some h" by auto
  then have seq: "entry_seq e = n" "entry_prev e = h" by (simp_all add: entry_seq_def entry_prev_def text_field_def)
  show ?thesis
    unfolding verify_entry_def entry_numbered_def entry_signed_def follows_def advance_def
    by (auto simp: fields seq check_follows_Ok is_some_and_iff Let_def entry_own_def text_field_def split: option.splits)
qed

lemma verify_loop_Ok:
  "verify_loop L keys index (s, prev) es = Ok st \<longleftrightarrow>
     list_all entry_numbered es \<and> list_all (entry_signed L keys) es \<and> run_follows prev es \<and> st = fold advance es (s, prev)"
proof (induction es arbitrary: index s prev)
  case (Cons e es)
  have "snd (advance e (s, prev)) = Some (entry_seq e, entry_own e)" by (simp add: advance_def Let_def)
  then obtain s' where "advance e (s, prev) = (s', Some (entry_seq e, entry_own e))" by (metis prod.collapse)
  then show ?case using Cons by (auto simp: verify_entry_Ok)
qed auto

lemma verify_decisions_Ok:
  "verify_decisions L es trusted = Ok s \<longleftrightarrow>
     trusted \<noteq> [] \<and> list_all entry_numbered es \<and> list_all (entry_signed L (trusted_keys L trusted)) es
     \<and> run_follows None es \<and> s = fst (fold advance es (summary_default, None))"
  by (cases "trusted = []") (auto simp: verify_decisions_def verify_loop_Ok simp del: verify_loop.simps)


section \<open>Consequences\<close>

lemma fold_insert_keys:
  "sorted_keys m \<Longrightarrow> map_of (fold (\<lambda>k. bt_insert (f k) k) ks m) x = Some v \<Longrightarrow>
     map_of m x = Some v \<or> (v \<in> set ks \<and> f v = x)"
proof (induction ks arbitrary: m)
  case (Cons k ks)
  have "map_of (fold (\<lambda>k. bt_insert (f k) k) ks (bt_insert (f k) k m)) x = Some v" using Cons.prems by simp
  from Cons.IH [OF sorted_keys_bt_insert [OF Cons.prems(1)] this] Cons.prems(1) show ?case
    by (auto split: if_splits)
qed simp

lemma trusted_keys_SomeD:
  "map_of (trusted_keys L trusted) x = Some v \<Longrightarrow> v \<in> set trusted \<and> lg_point L v \<and> verify_keyid L v = x"
  unfolding trusted_keys_def by (drule fold_insert_keys [rotated]) (auto simp: sorted_keys_def)

lemma fold_insert_dom: "fst ` set (fold (\<lambda>k. bt_insert (f k) k) ks m) = f ` set ks \<union> fst ` set m"
  by (induction ks arbitrary: m) (auto simp: set_bt_insert)

lemma trusted_keys_Some:
  assumes "v \<in> set trusted" "lg_point L v" "\<And>w. w \<in> set trusted \<Longrightarrow> verify_keyid L w = verify_keyid L v \<Longrightarrow> w = v"
  shows "map_of (trusted_keys L trusted) (verify_keyid L v) = Some v"
proof -
  have "verify_keyid L v \<in> fst ` set (trusted_keys L trusted)"
    using assms(1,2) by (auto simp: trusted_keys_def fold_insert_dom)
  then obtain w where w: "map_of (trusted_keys L trusted) (verify_keyid L v) = Some w"
    by (metis map_of_eq_None_iff not_Some_eq)
  with trusted_keys_SomeD [OF w] assms(3) show ?thesis by simp
qed

lemma run_follows_linked:
  assumes "run_follows (Some (p, h)) es" "p + length es < 2 ^ 64"
  shows "linked entry_seq entry_prev entry_own (p + 1) h es"
  using assms
proof (induction es arbitrary: p h)
  case (Cons e es)
  then have "entry_seq e = p + 1" "entry_prev e = h" by (simp_all add: follows_def)
  with Cons show ?case by simp
qed simp

lemma run_linked:
  assumes "run_follows None es" "es \<noteq> []" "entry_seq (hd es) + length es \<le> 2 ^ 64"
  shows "linked entry_seq entry_prev entry_own (entry_seq (hd es)) (entry_prev (hd es)) es"
  using assms run_follows_linked [of "entry_seq (hd es)" "entry_own (hd es)" "tl es"] by (cases es) auto

lemma tally_keeps [simp]:
  "ds_entries (tally s e) = ds_entries s" "ds_head (tally s e) = ds_head s" "ds_first_seq (tally s e) = ds_first_seq s"
  "ds_from_genesis (tally s e) = ds_from_genesis s" "ds_last_seq (tally s e) = ds_last_seq s"
  by (simp_all add: tally_def tally_decision_def tally_outcome_def Let_def)

lemma advance_fold_some:
  assumes "prev \<noteq> None"
  shows "ds_entries (fst (fold advance es (s, prev))) = ds_entries s + length es
    \<and> ds_head (fst (fold advance es (s, prev))) = chain_head entry_own (ds_head s) es
    \<and> ds_first_seq (fst (fold advance es (s, prev))) = ds_first_seq s
    \<and> ds_from_genesis (fst (fold advance es (s, prev))) = ds_from_genesis s"
  using assms
proof (induction es arbitrary: s prev)
  case (Cons e es)
  obtain s' where "advance e (s, prev) = (s', Some (entry_seq e, entry_own e))" "ds_entries s' = ds_entries s + 1"
    "ds_head s' = entry_own e" "ds_first_seq s' = ds_first_seq s" "ds_from_genesis s' = ds_from_genesis s"
    using Cons.prems by (auto simp: advance_def Let_def)
  with Cons.IH [of "Some (entry_seq e, entry_own e)" s'] show ?case by simp
qed simp

lemma advance_fold:
  "ds_entries (fst (fold advance es (summary_default, None))) = length es"
  "ds_head (fst (fold advance es (summary_default, None))) = chain_head entry_own GENESIS es"
  "ds_first_seq (fst (fold advance es (summary_default, None))) = (if es = [] then None else Some (entry_seq (hd es)))"
  "ds_from_genesis (fst (fold advance es (summary_default, None))) \<longleftrightarrow> es \<noteq> [] \<and> entry_seq (hd es) = 0"
proof -
  let ?r = "fst (fold advance es (summary_default, None))"
  have "ds_entries ?r = length es \<and> ds_head ?r = chain_head entry_own GENESIS es
    \<and> ds_first_seq ?r = (if es = [] then None else Some (entry_seq (hd es)))
    \<and> (ds_from_genesis ?r \<longleftrightarrow> es \<noteq> [] \<and> entry_seq (hd es) = 0)"
  proof (cases es)
    case (Cons e ds)
    obtain s' where "advance e (summary_default, None) = (s', Some (entry_seq e, entry_own e))" "ds_entries s' = 1"
      "ds_head s' = entry_own e" "ds_first_seq s' = Some (entry_seq e)" "ds_from_genesis s' \<longleftrightarrow> entry_seq e = 0"
      by (auto simp: advance_def Let_def summary_default_def)
    with Cons advance_fold_some [of "Some (entry_seq e, entry_own e)" ds s'] show ?thesis by simp
  qed (simp add: summary_default_def)
  then show "ds_entries ?r = length es" "ds_head ?r = chain_head entry_own GENESIS es"
    "ds_first_seq ?r = (if es = [] then None else Some (entry_seq (hd es)))"
    "ds_from_genesis ?r \<longleftrightarrow> es \<noteq> [] \<and> entry_seq (hd es) = 0" by simp_all
qed

lemma verified_linked:
  assumes "verify_decisions L es trusted = Ok s" "ds_from_genesis s" "length es \<le> 2 ^ 64"
  shows "linked entry_seq entry_prev entry_own 0 GENESIS es" "es \<noteq> []" "ds_head s = chain_head entry_own GENESIS es"
    "\<And>e. e \<in> set es \<Longrightarrow> entry_own e = hex_encode (verify_entry_hash L e)"
proof -
  have v: "run_follows None es" "s = fst (fold advance es (summary_default, None))"
    "list_all (entry_signed L (trusted_keys L trusted)) es"
    using assms(1) by (simp_all add: verify_decisions_Ok)
  from v(2) assms(2) have g: "es \<noteq> []" "entry_seq (hd es) = 0" by (simp_all add: advance_fold)
  moreover from v(1) g have "entry_prev (hd es) = GENESIS" by (cases es) (auto simp: follows_def)
  ultimately show "linked entry_seq entry_prev entry_own 0 GENESIS es" "es \<noteq> []"
    using run_linked [OF v(1)] assms(3) by simp_all
  show "ds_head s = chain_head entry_own GENESIS es" by (simp add: v(2) advance_fold)
  show "entry_own e = hex_encode (verify_entry_hash L e)" if "e \<in> set es" for e
    using v(3) that by (auto simp: list_all_iff entry_signed_def entry_own_def text_field_def)
qed

section \<open>The head commits to the run\<close>

text \<open>Entries the chain takes for the same agree on every member its hash covers.\<close>

definition same_covered :: "json \<Rightarrow> json \<Rightarrow> bool" where
  "same_covered v w \<longleftrightarrow> wf_json v \<and> wf_json w
     \<and> json_eq (without [''entry_hash'', ''sig''] v) (without [''entry_hash'', ''sig''] w)"

lemma map_of_filter_keys: "map_of (filter (\<lambda>m. fst m \<notin> ks) ms) k = (if k \<in> ks then None else map_of ms k)"
  by (induction ms) auto

lemma json_get_without [simp]: "json_get (without ks v) k = (if k \<in> set ks then None else json_get v k)"
  by (cases v) (simp_all add: without_def map_of_filter_keys)

lemma wf_without: "wf_json v \<Longrightarrow> wf_json (without ks v)"
  by (cases v) (auto simp: without_def list_all_iff distinct_map_filter)

lemma json_eq_scalars: "json_eq x y \<Longrightarrow> as_str x = as_str y \<and> as_u64 x = as_u64 y"
  by (cases x; cases y) auto

lemma same_covered_fields:
  assumes "same_covered v w" "k \<noteq> ''entry_hash''" "k \<noteq> ''sig''"
  shows "str_field v k = str_field w k" "u64_field v k = u64_field w k"
proof -
  let ?c = "without [''entry_hash'', ''sig'']"
  have eq: "json_eq (?c v) (?c w)" "json_eq (?c w) (?c v)"
    using assms(1) by (auto simp: same_covered_def intro: json_eq_sym wf_without)
  have "(json_get v k = None \<and> json_get w k = None) \<or>
      (\<exists>x y. json_get v k = Some x \<and> json_get w k = Some y \<and> json_eq x y)"
    using json_eq_get [OF eq(1), of k] json_eq_get [OF eq(2), of k] assms(2,3)
    by (cases "json_get v k"; cases "json_get w k") auto
  then show "str_field v k = str_field w k" "u64_field v k = u64_field w k"
    by (auto simp: str_field_def u64_field_def dest: json_eq_scalars)
qed

interpretation entry_chain: hash_chain entry_seq entry_prev entry_own same_covered
  by unfold_locales
    (simp_all add: entry_seq_def entry_prev_def text_field_def same_covered_fields)

lemma entry_own_inject:
  assumes "entry_own e = hex_encode (verify_entry_hash L e)" "entry_own f = hex_encode (verify_entry_hash L f)"
    and "entry_own e = entry_own f" "wf_json e" "wf_json f" "self_delimiting (lg_ser L)"
    and "no_collision (lg_sha256 L) (entry_preimage L e) (entry_preimage L f)"
  shows "same_covered e f"
proof -
  let ?c = "without [''entry_hash'', ''sig'']"
  have hash: "verify_entry_hash L g = lg_sha256 L (entry_preimage L g)" if "wf_json g" for g
    using that by (simp add: verify_entry_hash_def entry_preimage_def verify_canonical_eq wf_without)
  have "entry_preimage L e = entry_preimage L f"
    using assms(1-5,7) by (simp add: hash no_collision_def)
  then have "canonical_json (lg_ser L) (?c e) = canonical_json (lg_ser L) (?c f)" by (simp add: entry_preimage_def)
  with assms(4-6) show ?thesis by (simp add: same_covered_def canonical_inject wf_without)
qed

lemma verified_head_commits:
  assumes "verify_decisions L es trusted = Ok s" "verify_decisions L fs trusted' = Ok t"
    and "ds_from_genesis s" "ds_from_genesis t" "length es \<le> 2 ^ 64" "length fs \<le> 2 ^ 64" "ds_head s = ds_head t"
    and "\<And>e f. e \<in> set es \<Longrightarrow> f \<in> set fs \<Longrightarrow> wf_json e \<and> wf_json f
      \<and> no_collision (lg_sha256 L) (entry_preimage L e) (entry_preimage L f)"
    and "self_delimiting (lg_ser L)"
  shows "list_all2 same_covered es fs"
proof (rule entry_chain.head_commits)
  note a = verified_linked [OF assms(1,3,5)] and b = verified_linked [OF assms(2,4,6)]
  show "linked entry_seq entry_prev entry_own 0 GENESIS es" "linked entry_seq entry_prev entry_own 0 GENESIS fs"
    "es \<noteq> []" "fs \<noteq> []" by (fact a(1), fact b(1), fact a(2), fact b(2))
  show "chain_head entry_own GENESIS es = chain_head entry_own GENESIS fs" using a(3) b(3) assms(7) by simp
  show "same_covered e f" if "e \<in> set es" "f \<in> set fs" "entry_own e = entry_own f" for e f
    using assms(8,9) that a(4) b(4) by (intro entry_own_inject) auto
qed

text \<open>The order of an entry's members does not matter to the verifier.\<close>

lemma btree_of_order:
  assumes "map_of a = map_of b" "distinct (map fst a)" "distinct (map fst b)"
  shows "btree_of a = btree_of b"
proof (rule sorted_keys_map_of_inject)
  show "sorted_keys (btree_of a)" "sorted_keys (btree_of b)"
    using assms(2,3) by (simp_all add: btree_of_sort sorted_keys_sort_key)
  have "map_of (btree_of c) = map_of c" if "distinct (map fst c)" for c
    using that by (metis btree_of_sort map_of_inject_set set_sort sorted_keys_distinct sorted_keys_sort_key)
  with assms show "map_of (btree_of a) = map_of (btree_of b)" by metis
qed

lemma verify_entry_order:
  assumes "map_of a = map_of b" "distinct (map fst a)" "distinct (map fst b)"
  shows "verify_entry L keys index st (JObject a) = verify_entry L keys index st (JObject b)"
proof -
  let ?c = "filter (\<lambda>m. fst m \<notin> set [''entry_hash'', ''sig''])"
  have fields: "str_field (JObject a) = str_field (JObject b)" "u64_field (JObject a) = u64_field (JObject b)"
    "text_field (JObject a) = text_field (JObject b)"
    using assms(1) by (simp_all add: str_field_def u64_field_def text_field_def fun_eq_iff)
  have "btree_of (?c a) = btree_of (?c b)"
  proof (rule btree_of_order)
    show "map_of (?c a) = map_of (?c b)" by (rule ext) (simp only: map_of_filter_keys assms(1))
  qed (use assms(2,3) in \<open>simp_all only: distinct_map_filter\<close>)
  then have hash: "verify_entry_hash L (JObject a) = verify_entry_hash L (JObject b)"
    by (simp only: verify_entry_hash_def without_def json.case verify_canonical.simps(1))
  have "tally s (JObject a) = tally s (JObject b)" for s
    by (simp only: tally_def tally_decision_def tally_outcome_def fields)
  then show ?thesis by (simp only: verify_entry_def fields hash)
qed

section \<open>What the ledger stores verifies\<close>

text \<open>What the code relies on in SHA-256 and Ed25519.\<close>

definition signing_laws :: "ledger_ops \<Rightarrow> string set \<Rightarrow> string list \<Rightarrow> bool" where
  "signing_laws L keys trusted \<longleftrightarrow>
     (\<forall>key\<in>keys. lg_public L key \<in> set trusted \<and> lg_point L (lg_public L key)
        \<and> (\<forall>w\<in>set trusted. verify_keyid L w = verify_keyid L (lg_public L key) \<longrightarrow> w = lg_public L key)
        \<and> (\<forall>d. length (lg_sign L key d) = 64 \<and> lg_verify L (lg_public L key) d (lg_sign L key d)))"

definition count_if :: "('a \<Rightarrow> bool) \<Rightarrow> 'a list \<Rightarrow> nat" where
  "count_if P xs = length (filter P xs)"

definition call_decided :: "decision \<Rightarrow> decision_entry \<Rightarrow> bool" where
  "call_decided d e \<longleftrightarrow> de_event e \<in> {EvCall, EvReplay} \<and> de_decision e = d"

definition outcome_recorded :: "decision_outcome \<Rightarrow> decision_entry \<Rightarrow> bool" where
  "outcome_recorded r e \<longleftrightarrow> de_event e \<in> {EvCall, EvOutcome} \<and> de_outcome e = Some r"

definition summary_of :: "decision_entry list \<Rightarrow> decision_summary" where
  "summary_of es =
     \<lparr>ds_entries = length es,
      ds_first_seq = (if es = [] then None else Some (de_seq (hd es))),
      ds_last_seq = (if es = [] then None else Some (de_seq (last es))),
      ds_from_genesis = (es \<noteq> [] \<and> de_seq (hd es) = 0),
      ds_head = (if es = [] then GENESIS else de_entry_hash (last es)),
      ds_allowed = count_if (call_decided DecAllow) es, ds_denied = count_if (call_decided DecDeny) es,
      ds_approvals_required = count_if (call_decided DecRequireApproval) es,
      ds_shadow = count_if (\<lambda>e. de_mode e = Some ModeShadow) es,
      ds_committed_outcomes = count_if (outcome_recorded OutCommitted) es,
      ds_failed_outcomes = count_if (outcome_recorded OutFailed) es,
      ds_unknown_outcomes = count_if (outcome_recorded OutUnknown) es,
      ds_reconciled = count_if (\<lambda>e. de_event e = EvReconcile) es\<rparr>"

lemma count_if_simps [simp]:
  "count_if P [] = 0" "count_if P (xs @ ys) = count_if P xs + count_if P ys" "count_if P [x] = of_bool (P x)"
  by (simp_all add: count_if_def)

lemma entry_json_fields [simp]:
  "str_field (entry_json e) ''kind'' = Some (de_kind e)" "u64_field (entry_json e) ''seq'' = Some (de_seq e)"
  "str_field (entry_json e) ''prev_hash'' = Some (de_prev_hash e)"
  "str_field (entry_json e) ''entry_hash'' = Some (de_entry_hash e)"
  "str_field (entry_json e) ''signer'' = Some (de_signer e)" "str_field (entry_json e) ''sig'' = Some (de_sig e)"
  "str_field (entry_json e) ''event'' = Some (event_str (de_event e))"
  "str_field (entry_json e) ''decision'' = Some (decision_str (de_decision e))"
  "str_field (entry_json e) ''mode'' = map_option mode_str (de_mode e)"
  "str_field (entry_json e) ''outcome'' = map_option outcome_str (de_outcome e)"
  by (simp_all add: str_field_def u64_field_def entry_json_def opt_json_def split: option.split)

lemma entry_json_chain [simp]:
  "entry_seq (entry_json e) = de_seq e" "entry_prev (entry_json e) = de_prev_hash e"
  "entry_own (entry_json e) = de_entry_hash e" "entry_numbered (entry_json e)"
  by (simp_all add: entry_seq_def entry_prev_def entry_own_def text_field_def entry_numbered_def)

lemma wf_entry_json: "de_seq e < 2 ^ 64 \<Longrightarrow> wf_json (entry_json e)"
  by (simp add: entry_json_def opt_json_def split: option.split)


lemma tally_decision_entry:
  "tally_decision s (entry_json e) =
     s\<lparr>ds_allowed := ds_allowed s + of_bool (call_decided DecAllow e), ds_denied := ds_denied s + of_bool (call_decided DecDeny e),
       ds_approvals_required := ds_approvals_required s + of_bool (call_decided DecRequireApproval e),
       ds_reconciled := ds_reconciled s + of_bool (de_event e = EvReconcile)\<rparr>"
  by (cases "de_event e"; cases "de_decision e") (simp_all add: tally_decision_def text_field_def call_decided_def)

lemma tally_outcome_entry:
  "tally_outcome s (entry_json e) =
     s\<lparr>ds_committed_outcomes := ds_committed_outcomes s + of_bool (outcome_recorded OutCommitted e),
       ds_failed_outcomes := ds_failed_outcomes s + of_bool (outcome_recorded OutFailed e),
       ds_unknown_outcomes := ds_unknown_outcomes s + of_bool (outcome_recorded OutUnknown e)\<rparr>"
proof (cases "de_outcome e")
  case None
  then show ?thesis by (simp add: tally_outcome_def text_field_def outcome_recorded_def)
next
  case (Some r)
  then show ?thesis
    by (cases "de_event e"; cases r) (simp_all add: tally_outcome_def text_field_def outcome_recorded_def)
qed

lemma text_field_mode: "text_field (entry_json e) ''mode'' = ''shadow'' \<longleftrightarrow> de_mode e = Some ModeShadow"
proof (cases "de_mode e")
  case (Some m)
  then show ?thesis by (cases m) (simp_all add: text_field_def)
qed (simp add: text_field_def)

lemma advance_summary:
  assumes "prev = None \<longleftrightarrow> es = []"
  shows "advance (entry_json e) (summary_of es, prev) = (summary_of (es @ [e]), Some (de_seq e, de_entry_hash e))"
proof -
  have shadow: "(if text_field (entry_json e) ''mode'' = ''shadow'' then s\<lparr>ds_shadow := ds_shadow s + 1\<rparr> else s) =
      s\<lparr>ds_shadow := ds_shadow s + of_bool (de_mode e = Some ModeShadow)\<rparr>" for s
    by (simp add: text_field_mode)
  show ?thesis
    using assms
    by (cases prev; cases "es = []")
      (simp_all add: advance_def tally_def shadow Let_def tally_decision_entry tally_outcome_entry summary_of_def
        split del: split_of_bool)
qed

lemma fold_advance_entries:
  "fold advance (map entry_json es) (summary_default, None) =
     (summary_of es, if es = [] then None else Some (de_seq (last es), de_entry_hash (last es)))"
proof (induction es rule: rev_induct)
  case (snoc e es)
  then show ?case by (simp add: advance_summary)
qed (simp add: summary_default_def summary_of_def)

lemma run_follows_entries:
  assumes "linked de_seq de_prev_hash de_entry_hash (p + 1) h es" "p + length es < 2 ^ 64"
  shows "run_follows (Some (p, h)) (map entry_json es)"
  using assms
proof (induction es arbitrary: p h)
  case (Cons e es)
  then have e: "de_seq e = Suc p" "de_prev_hash e = h" "linked de_seq de_prev_hash de_entry_hash (Suc p + 1) (de_entry_hash e) es"
    "Suc p + length es < 2 ^ 64" by simp_all
  from Cons.IH [OF e(3,4)] e(1,2,4) show ?case by (simp add: follows_def)
qed simp

lemma verify_keyid_of: "verify_keyid L = keyid_of L"
  by (simp add: fun_eq_iff verify_keyid_def keyid_of_def)

lemma entry_ok_signed:
  assumes ok: "entry_ok L keys e" and laws: "signing_laws L keys trusted" and seq: "de_seq e < 2 ^ 64"
  shows "entry_signed L (trusted_keys L trusted) (entry_json e)"
proof -
  obtain key where key: "key \<in> keys" "de_signer e = gate_keyid L key"
    "de_sig e = hex_encode (lg_sign L key (entry_digest L e))"
    using ok by (auto simp: entry_ok_def)
  have hash: "verify_entry_hash L (entry_json e) = entry_digest L e"
    using wf_entry_json [OF seq]
    by (simp add: verify_entry_hash_def entry_digest_def entry_hash_of_def entry_preimage_def verify_canonical_eq wf_without)
  have "map_of (trusted_keys L trusted) (gate_keyid L key) = Some (lg_public L key)"
    using laws key(1) trusted_keys_Some [of "lg_public L key" trusted L]
    unfolding signing_laws_def verify_keyid_of gate_keyid_def by blast
  with ok key laws hash show ?thesis
    by (auto simp: entry_signed_def entry_ok_def entry_compute_hash_def entry_digest_def signing_laws_def)
qed

lemma stored_run_verifies:
  assumes linked: "linked de_seq de_prev_hash de_entry_hash n p es" and start: "n \<noteq> 0 \<or> p = GENESIS"
    and ok: "list_all (entry_ok L keys) es" and laws: "signing_laws L keys trusted" and trusted: "trusted \<noteq> []"
    and len: "n + length es \<le> 2 ^ 64"
  shows "verify_decisions L (map entry_json es) trusted = Ok (summary_of es)"
proof -
  have "de_seq e < 2 ^ 64" if "e \<in> set es" for e
    using linked_seq_bound [OF linked that] len by simp
  with ok laws have "list_all (entry_signed L (trusted_keys L trusted)) (map entry_json es)"
    by (auto simp: list_all_iff intro: entry_ok_signed)
  moreover have "run_follows None (map entry_json es)"
    using linked start len run_follows_entries [of n _ "tl es"] by (cases es) (auto simp: follows_def)
  ultimately show ?thesis
    using trusted by (simp add: verify_decisions_Ok fold_advance_entries list_all_iff)
qed

lemma linked_range:
  assumes "linked seq prev own 0 p xs" "m \<le> length (take n xs)"
  shows "linked seq prev own m (chain_head own p (take m xs)) (drop m (take n xs))"
proof -
  have "xs = take m xs @ drop m (take n xs) @ drop n xs" 
    using assms(2) by (metis append_assoc append_take_drop_id length_take min.bounded_iff min.absorb1 take_take)
  with assms(1) have "linked seq prev own 0 p (take m xs @ drop m (take n xs) @ drop n xs)" by metis
  moreover have "length (take m xs) = m" using assms(2) by simp
  ultimately show ?thesis by (simp add: linked_append)
qed

lemma stored_range_verifies:
  assumes v: "ledger_view L keys s es hs" and laws: "signing_laws L keys trusted" "trusted \<noteq> []"
    and small: "length es \<le> 2 ^ 64"
  shows "\<exists>xs. decisions_between s m n = Ok xs \<and> verify_decisions L (map entry_json xs) trusted = Ok (summary_of xs)"
proof -
  let ?xs = "drop m (take (Suc n) es)"
  have v': "linked de_seq de_prev_hash de_entry_hash 0 GENESIS es" "list_all (entry_ok L keys) es"
    using v by (simp_all add: ledger_view_def)
  have "verify_decisions L (map entry_json ?xs) trusted = Ok (summary_of ?xs)"
  proof (cases "m \<le> length (take (Suc n) es)")
    case True
    show ?thesis
    proof (rule stored_run_verifies)
      show "linked de_seq de_prev_hash de_entry_hash m (chain_head de_entry_hash GENESIS (take m es)) ?xs"
        by (rule linked_range [OF v'(1) True])
      show "list_all (entry_ok L keys) ?xs" using v'(2) by (auto simp: list_all_iff dest: in_set_dropD in_set_takeD)
      show "m \<noteq> 0 \<or> chain_head de_entry_hash GENESIS (take m es) = GENESIS" by (cases m) simp_all
      show "m + length ?xs \<le> 2 ^ 64" using small True by auto
    qed (fact laws)+
  next
    case False
    then have "?xs = []" by (simp only: drop_eq_Nil not_le less_imp_le)
    moreover have "verify_decisions L (map entry_json []) trusted = Ok (summary_of [])"
      using laws by (intro stored_run_verifies [of 0 GENESIS]) simp_all
    ultimately show ?thesis by metis
  qed
  with view_decisions_between [OF v] show ?thesis by blast
qed

end
