(* ===== verification/Ustar.thy ===== *)
theory Ustar
  imports Cloak_Prelude
begin

text \<open>
  The reader and writer of plain tar archives (\<open>cloakpipe-verify/src/ustar.rs\<close>). An archive is a list of
  bytes. The writer's \<open>assert!\<close> and the panics of \<open>copy_from_slice\<close> on a number that does not fit its field
  are errors of their own. What the writer writes the reader reads back; what the reader accepts has
  safe, distinct names.
\<close>

definition BLOCK :: nat where "BLOCK = 512"

datatype tar_error =
    TarTruncated
  | TarChecksum nat
  | TarField nat string
  | TarUnsupported string char
  | TarBadName string
  | TarDuplicate string

record tar_file =
  tf_name :: string
  tf_data :: string

section \<open>Writing\<close>

datatype tar_panic = NameTooLong string | OctalTooLong nat

abbreviation nul :: char where "nul \<equiv> CHR 0x00"

definition zeros :: "nat \<Rightarrow> string" where "zeros n = replicate n nul"

text \<open>The lowest \<open>w\<close> octal digits.\<close>

fun oct_text :: "nat \<Rightarrow> nat \<Rightarrow> string" where
  "oct_text 0 v = []"
| "oct_text (Suc w) v = oct_text w (v div 8) @ [digit_char (v mod 8)]"

definition put_octal :: "nat \<Rightarrow> nat \<Rightarrow> tar_panic + string" where
  "put_octal len v = (if v < 8 ^ (len - 1) then Ok (oct_text (len - 1) v @ [nul]) else Err (OctalTooLong v))"

definition bytes_sum :: "string \<Rightarrow> nat" where
  "bytes_sum b = sum_list (map byte_of b)"

text \<open>The header as a sequence of its fields, with a given checksum field.\<close>

definition tar_header :: "string \<Rightarrow> string \<Rightarrow> string \<Rightarrow> string \<Rightarrow> string \<Rightarrow> string" where
  "tar_header name mode sz mtime chk =
     name @ zeros (100 - length name) @ mode @ (oct_text 7 0 @ [nul]) @ (oct_text 7 0 @ [nul]) @ sz @ mtime @ chk
     @ ''0'' @ zeros 100 @ (''ustar'' @ [nul]) @ ''00'' @ zeros 247"

definition pad_to_block :: "string \<Rightarrow> string" where
  "pad_to_block d = d @ zeros ((length d + BLOCK - 1) div BLOCK * BLOCK - length d)"

definition write_file :: "nat \<Rightarrow> string \<times> string \<Rightarrow> tar_panic + string" where
  "write_file mtime f =
     (if 100 < length (fst f) then Err (NameTooLong (fst f)) else
      rbind (put_octal 8 420) (\<lambda>mode.
      rbind (put_octal 12 (length (snd f))) (\<lambda>size.
      rbind (put_octal 12 mtime) (\<lambda>mt.
      let sum = bytes_sum (tar_header (fst f) mode size mt (replicate 8 (CHR '' '')));
          chk = oct_text 6 sum @ [nul, CHR '' '']
      in Ok (tar_header (fst f) mode size mt chk @ pad_to_block (snd f))))))"

definition tar_write :: "(string \<times> string) list \<Rightarrow> nat \<Rightarrow> tar_panic + string" where
  "tar_write files mtime =
     rbind (try_map (write_file mtime) files) (\<lambda>parts. Ok (concat parts @ zeros (2 * BLOCK)))"

section \<open>Reading\<close>

text \<open>\<open>u64::from_str_radix(_, 8)\<close>.\<close>

definition from_octal :: "string \<Rightarrow> nat option" where
  "from_octal s =
     (let d = (case strip_prefix ''+'' s of Some r \<Rightarrow> r | None \<Rightarrow> s);
          v = foldl (\<lambda>a c. a * 8 + (byte_of c - 48)) 0 d
      in if d = [] \<or> \<not> list_all (\<lambda>c. 48 \<le> byte_of c \<and> byte_of c \<le> 55) d \<or> 2 ^ 64 \<le> v then None else Some v)"

definition trim_field :: "string \<Rightarrow> string" where
  "trim_field s = rev (dropWhile (\<lambda>c. c = nul \<or> c = CHR '' '') (rev (dropWhile (\<lambda>c. c = nul \<or> c = CHR '' '') s)))"

definition parse_octal :: "string \<Rightarrow> nat option" where
  "parse_octal field = (let s = trim_field field in if s = [] then Some 0 else from_octal s)"

definition cstr :: "string \<Rightarrow> string" where
  "cstr field = takeWhile (\<lambda>b. b \<noteq> nul) field"

text \<open>\<open>String::from_utf8\<close>.\<close>

definition in_range :: "nat \<Rightarrow> nat \<Rightarrow> char \<Rightarrow> bool" where
  "in_range a b c \<longleftrightarrow> a \<le> byte_of c \<and> byte_of c \<le> b"

fun is_utf8 :: "string \<Rightarrow> bool" where
  "is_utf8 [] = True"
| "is_utf8 (a # s) =
     (if in_range 0 127 a then is_utf8 s
      else case s of
        [] \<Rightarrow> False
      | b # s \<Rightarrow>
          if in_range 0xC2 0xDF a then in_range 0x80 0xBF b \<and> is_utf8 s
          else case s of
            [] \<Rightarrow> False
          | c # s \<Rightarrow>
              if in_range 0xE0 0xEF a then
                in_range (if byte_of a = 0xE0 then 0xA0 else 0x80) (if byte_of a = 0xED then 0x9F else 0xBF) b
                \<and> in_range 0x80 0xBF c \<and> is_utf8 s
              else case s of
                [] \<Rightarrow> False
              | d # s \<Rightarrow>
                  in_range 0xF0 0xF4 a
                  \<and> in_range (if byte_of a = 0xF0 then 0x90 else 0x80) (if byte_of a = 0xF4 then 0x8F else 0xBF) b
                  \<and> in_range 0x80 0xBF c \<and> in_range 0x80 0xBF d \<and> is_utf8 s)"

definition clean_name :: "string \<Rightarrow> tar_error + string" where
  "clean_name raw =
     (let name = (case strip_prefix ''./'' raw of Some r \<Rightarrow> r | None \<Rightarrow> raw)
      in if name = [] \<or> starts_with ''/'' name \<or> CHR 0x5C \<in> set name then Err (TarBadName raw)
         else if list_ex (\<lambda>c. c = [] \<or> c = ''.'' \<or> c = ''..'') (split_on (CHR ''/'') name) then Err (TarBadName raw)
         else Ok name)"

definition header_sum :: "string \<Rightarrow> nat" where
  "header_sum h = sum_list (map (\<lambda>(i, b). if 148 \<le> i \<and> i < 156 then 32 else byte_of b) (enumerate 0 h))"

text \<open>The fields of a header: size, type and name.\<close>

definition read_header :: "nat \<Rightarrow> string \<Rightarrow> tar_error + (nat \<times> char \<times> string)" where
  "read_header offset h =
     rbind (ok_or (TarField offset ''checksum'') (parse_octal (slice h 148 156))) (\<lambda>recorded.
     if recorded \<noteq> header_sum h then Err (TarChecksum offset) else
     rbind (ok_or (TarField offset ''size'') (parse_octal (slice h 124 136))) (\<lambda>size.
     if \<not> is_utf8 (cstr (slice h 0 100)) then Err (TarField offset ''name'') else
     let name = cstr (slice h 0 100); prefix = cstr (slice h 345 500) in
     if slice h 257 262 = ''ustar'' then
       if \<not> is_utf8 prefix then Err (TarField offset ''prefix'')
       else Ok (size, h ! 156, if prefix = [] then name else prefix @ ''/'' @ name)
     else Ok (size, h ! 156, name)))"

text \<open>\<open>rest\<close> is the archive from \<open>offset\<close> on.\<close>

function tar_read_from :: "nat \<Rightarrow> string list \<Rightarrow> string \<Rightarrow> tar_error + tar_file list" where
  "tar_read_from offset seen rest =
     (if length rest < BLOCK then Err TarTruncated
      else let h = take BLOCK rest in
      if list_all (\<lambda>b. b = nul) h then Ok []
      else rbind (read_header offset h) (\<lambda>(size, typeflag, name).
        if length rest < BLOCK + size then Err TarTruncated
        else let data = take size (drop BLOCK rest);
                 step = BLOCK + (size + BLOCK - 1) div BLOCK * BLOCK
          in if typeflag \<in> {CHR ''0'', nul, CHR ''7''} then
               rbind (clean_name name) (\<lambda>name.
               if name \<in> set seen then Err (TarDuplicate name)
               else rbind (tar_read_from (offset + step) (name # seen) (drop step rest)) (\<lambda>fs.
                 Ok (\<lparr>tf_name = name, tf_data = data\<rparr> # fs)))
             else if typeflag \<in> {CHR ''5'', CHR ''x'', CHR ''g'', CHR ''L'', CHR ''K''} then
               tar_read_from (offset + step) seen (drop step rest)
             else Err (TarUnsupported name typeflag)))"
  by pat_completeness auto
termination
  by (relation "measure (\<lambda>(_, _, rest). length rest)") (auto simp: BLOCK_def)

declare tar_read_from.simps [simp del]

definition tar_read :: "string \<Rightarrow> tar_error + tar_file list" where
  "tar_read bytes = tar_read_from 0 [] bytes"

section \<open>Octal fields\<close>

lemma length_oct_text [simp]: "length (oct_text w v) = w"
  by (induction w arbitrary: v) simp_all

lemma digit_char_byte: "n < 10 \<Longrightarrow> byte_of (digit_char n) = 48 + n"
  by (simp add: digit_char_def byte_of_char_of)

lemma oct_text_digits: "c \<in> set (oct_text w v) \<Longrightarrow> 48 \<le> byte_of c \<and> byte_of c \<le> 55"
proof (induction w arbitrary: v)
  case (Suc w)
  have "v mod 8 < 8" by simp
  then have "v mod 8 \<le> 7" by linarith
  with Suc show ?case by (auto simp: digit_char_byte)
qed simp

lemma oct_text_value: "foldl (\<lambda>a c. a * 8 + (byte_of c - 48)) 0 (oct_text w v) = v mod 8 ^ w"
proof (induction w arbitrary: v)
  case (Suc w)
  have "v mod 8 < 10" by (rule less_trans [of _ 8]) simp_all
  then have "foldl (\<lambda>a c. a * 8 + (byte_of c - 48)) 0 (oct_text (Suc w) v) = (v div 8 mod 8 ^ w) * 8 + v mod 8"
    by (simp add: Suc digit_char_byte)
  also have "\<dots> = v mod (8 * 8 ^ w)" by (simp only: mod_mult2_eq add.commute mult.commute)
  finally show ?case by simp
qed simp

lemma trim_field_append:
  assumes "d \<noteq> []" "\<And>c. c \<in> set d \<Longrightarrow> c \<noteq> nul \<and> c \<noteq> CHR '' ''" "\<And>c. c \<in> set t \<Longrightarrow> c = nul \<or> c = CHR '' ''"
  shows "trim_field (d @ t) = d"
proof -
  let ?P = "\<lambda>c. c = nul \<or> c = CHR '' ''"
  have "dropWhile ?P (d @ t) = d @ t" using assms(1,2) by (cases d) auto
  moreover have "dropWhile ?P (rev t @ rev d) = dropWhile ?P (rev d)" using assms(3) by (intro dropWhile_append2) auto
  moreover have "dropWhile ?P (rev d) = rev d" 
    using assms(1,2) last_in_set [of d] by (simp add: dropWhile_eq_self_iff hd_rev)
  ultimately show ?thesis by (simp add: trim_field_def)
qed

lemma parse_octal_text:
  assumes "v < 8 ^ Suc w" "w < 20" "\<And>c. c \<in> set t \<Longrightarrow> c = nul \<or> c = CHR '' ''"
  shows "parse_octal (oct_text (Suc w) v @ t) = Some v"
proof -
  let ?d = "oct_text (Suc w) v"
  have digits: "48 \<le> byte_of c \<and> byte_of c \<le> 55" if "c \<in> set ?d" for c using oct_text_digits that by blast
  have not_trimmed: "c \<noteq> nul \<and> c \<noteq> CHR '' '' \<and> c \<noteq> CHR ''+''" if "c \<in> set ?d" for c
    using digits [OF that] by (auto simp: of_char_def)
  have "?d \<noteq> []" by (metis length_oct_text list.size(3) nat.distinct(1))
  then have trim: "trim_field (?d @ t) = ?d" using not_trimmed assms(3) by (intro trim_field_append) blast+
  have plus: "strip_prefix ''+'' ?d = None"
    using \<open>?d \<noteq> []\<close> not_trimmed by (cases ?d) (auto simp: strip_prefix_eq_None simp del: oct_text.simps)
  have "(8::nat) ^ Suc w \<le> 8 ^ 20" using assms(2) by (intro power_increasing) simp_all
  with assms(1) have "v < 2 ^ 64" by simp
  moreover have "foldl (\<lambda>a c. a * 8 + (byte_of c - 48)) 0 ?d = v" using assms(1) by (simp only: oct_text_value mod_less)
  moreover have "list_all (\<lambda>c. 48 \<le> byte_of c \<and> byte_of c \<le> 55) ?d" using digits by (simp only: list_all_iff) blast
  ultimately show ?thesis
    unfolding parse_octal_def trim from_octal_def plus Let_def using \<open>?d \<noteq> []\<close> by (simp del: oct_text.simps)
qed

section \<open>What is written reads back\<close>

lemma length_zeros [simp]: "length (zeros n) = n"
  by (simp add: zeros_def)

text \<open>A header by its fields, when they have their widths.\<close>

definition header_fields :: "string \<Rightarrow> string \<Rightarrow> string \<Rightarrow> string \<Rightarrow> string \<Rightarrow> bool" where
  "header_fields name mode sz mtime chk \<longleftrightarrow>
     length name \<le> 100 \<and> length mode = 8 \<and> length sz = 12 \<and> length mtime = 12 \<and> length chk = 8"

lemma header_length: "header_fields name mode sz mtime chk \<Longrightarrow> length (tar_header name mode sz mtime chk) = 512"
  by (simp add: header_fields_def tar_header_def)

lemma header_split:
  assumes "header_fields name mode sz mtime chk"
  shows "slice (tar_header name mode sz mtime chk) 0 100 = name @ zeros (100 - length name)"
    "slice (tar_header name mode sz mtime chk) 124 136 = sz"
    "slice (tar_header name mode sz mtime chk) 148 156 = chk"
    "slice (tar_header name mode sz mtime chk) 257 262 = ''ustar''"
    "slice (tar_header name mode sz mtime chk) 345 500 = zeros 155"
    "tar_header name mode sz mtime chk ! 156 = CHR ''0''"
proof -
  define p where "p = name @ zeros (100 - length name)"
  have h: "tar_header name mode sz mtime chk = p @ mode @ (oct_text 7 0 @ [nul]) @ (oct_text 7 0 @ [nul]) @ sz @ mtime @ chk
     @ ''0'' @ zeros 100 @ (''ustar'' @ [nul]) @ ''00'' @ zeros 247"
    by (simp add: tar_header_def p_def)
  have "length p = 100" "length mode = 8" "length sz = 12" "length mtime = 12" "length chk = 8"
    using assms by (simp_all add: header_fields_def p_def)
  then show "slice (tar_header name mode sz mtime chk) 0 100 = name @ zeros (100 - length name)"
    "slice (tar_header name mode sz mtime chk) 124 136 = sz"
    "slice (tar_header name mode sz mtime chk) 148 156 = chk"
    "slice (tar_header name mode sz mtime chk) 257 262 = ''ustar''"
    "slice (tar_header name mode sz mtime chk) 345 500 = zeros 155"
    "tar_header name mode sz mtime chk ! 156 = CHR ''0''"
    unfolding h p_def [symmetric] by (simp_all add: slice_def take_append drop_append nth_append zeros_def)
qed

lemma header_sum_split:
  assumes "length h = 512"
  shows "header_sum h = bytes_sum (take 148 h) + 256 + bytes_sum (drop 156 h)"
proof -
  let ?f = "\<lambda>(i, b). if 148 \<le> i \<and> i < 156 then 32 else byte_of b"
  have split: "h = take 148 h @ slice h 148 156 @ drop 156 h"
  proof -
    have "h = take 148 h @ take 8 (drop 148 h) @ drop 8 (drop 148 h)" by (simp only: append_take_drop_id)
    then show ?thesis by (simp add: slice_def)
  qed
  have sums: "map ?f (enumerate n b) = map byte_of b" if "n + length b \<le> 148 \<or> 156 \<le> n" for n b
    using that by (induction b arbitrary: n) auto
  have mid: "map ?f (enumerate n b) = replicate (length b) 32" if "148 \<le> n" "n + length b \<le> 156" for n b
    using that by (induction b arbitrary: n) auto
  have lens: "length (take 148 h) = 148" "length (slice h 148 156) = 8" using assms by (simp_all add: slice_def)
  have "enumerate 0 h = enumerate 0 (take 148 h) @ enumerate 148 (slice h 148 156) @ enumerate 156 (drop 156 h)"
    by (subst split) (simp only: enumerate_append_eq lens length_append, simp)
  then have "header_sum h = sum_list (map byte_of (take 148 h)) + sum_list (replicate 8 32) + sum_list (map byte_of (drop 156 h))"
    unfolding header_sum_def map_append sum_list_append
    using sums [of 0 "take 148 h"] mid [of 148 "slice h 148 156"] sums [of 156 "drop 156 h"] lens by simp
  then show ?thesis by (simp add: bytes_sum_def sum_list_replicate)
qed

lemma bytes_sum_bound: "bytes_sum b \<le> 255 * length b"
proof (induction b)
  case (Cons c b)
  have "byte_of c \<le> 255" using byte_of_less [of c] by linarith
  with Cons show ?case by (simp add: bytes_sum_def)
qed (simp add: bytes_sum_def)

lemma header_around:
  assumes "header_fields name mode sz mtime chk" "header_fields name mode sz mtime chk'"
  shows "take 148 (tar_header name mode sz mtime chk) = take 148 (tar_header name mode sz mtime chk')"
    "drop 156 (tar_header name mode sz mtime chk) = drop 156 (tar_header name mode sz mtime chk')"
proof -
  define p where "p = name @ zeros (100 - length name)"
  have h: "tar_header name mode sz mtime c = (p @ mode @ (oct_text 7 0 @ [nul]) @ (oct_text 7 0 @ [nul]) @ sz @ mtime) @ c
     @ ''0'' @ zeros 100 @ (''ustar'' @ [nul]) @ ''00'' @ zeros 247" for c
    by (simp add: tar_header_def p_def)
  have "length (p @ mode @ (oct_text 7 0 @ [nul]) @ (oct_text 7 0 @ [nul]) @ sz @ mtime) = 148" "length chk = 8" "length chk' = 8"
    using assms by (simp_all add: header_fields_def p_def)
  then show "take 148 (tar_header name mode sz mtime chk) = take 148 (tar_header name mode sz mtime chk')"
    "drop 156 (tar_header name mode sz mtime chk) = drop 156 (tar_header name mode sz mtime chk')"
    unfolding h by (simp_all only: take_append drop_append) simp_all
qed

lemma bytes_sum_append: "bytes_sum (a @ b) = bytes_sum a + bytes_sum b"
  by (simp add: bytes_sum_def)

lemma written_checksum:
  assumes "header_fields name mode sz mtime chk"
  defines "spaces \<equiv> replicate 8 (CHR '' '')"
  shows "header_sum (tar_header name mode sz mtime chk) = bytes_sum (tar_header name mode sz mtime spaces)"
proof -
  have f: "header_fields name mode sz mtime spaces" using assms by (simp add: header_fields_def)
  let ?h = "tar_header name mode sz mtime spaces"
  have "?h = take 148 ?h @ slice ?h 148 156 @ drop 156 ?h"
  proof -
    have "?h = take 148 ?h @ take 8 (drop 148 ?h) @ drop 8 (drop 148 ?h)" by (simp only: append_take_drop_id)
    then show ?thesis by (simp add: slice_def)
  qed
  then have "bytes_sum ?h = bytes_sum (take 148 ?h) + bytes_sum spaces + bytes_sum (drop 156 ?h)"
    unfolding header_split(3) [OF f] by (metis add.assoc bytes_sum_append)
  moreover have "bytes_sum spaces = 256" by (simp add: spaces_def bytes_sum_def sum_list_replicate)
  ultimately show ?thesis
    using header_sum_split [OF header_length [OF assms(1)]] header_around [OF assms(1) f] by simp
qed

lemma cstr_padded: "nul \<notin> set name \<Longrightarrow> cstr (name @ zeros n) = name"
  by (cases n) (auto simp: cstr_def zeros_def takeWhile_append)

lemma put_octal_Ok: "put_octal len v = Ok t \<longleftrightarrow> v < 8 ^ (len - 1) \<and> t = oct_text (len - 1) v @ [nul]"
  by (auto simp: put_octal_def)

definition storable :: "string \<times> string \<Rightarrow> bool" where
  "storable f \<longleftrightarrow> clean_name (fst f) = Ok (fst f) \<and> is_utf8 (fst f) \<and> nul \<notin> set (fst f)"

lemma write_file_header:
  assumes w: "write_file mtime f = Ok part" and st: "storable f"
  obtains h where "part = h @ pad_to_block (snd f)" "length h = BLOCK" "\<not> list_all (\<lambda>b. b = nul) h"
    "\<And>offset. read_header offset h = Ok (length (snd f), CHR ''0'', fst f)"
proof -
  obtain mode sz mt where o: "put_octal 8 420 = Ok mode" "put_octal 12 (length (snd f)) = Ok sz" "put_octal 12 mtime = Ok mt"
    and len: "length (fst f) \<le> 100"
    and part: "part = tar_header (fst f) mode sz mt (oct_text 6 (bytes_sum (tar_header (fst f) mode sz mt (replicate 8 (CHR '' '')))) @ [nul, CHR '' ''])
        @ pad_to_block (snd f)"
    using w by (auto simp: write_file_def Let_def split: if_splits)
  define sum where "sum = bytes_sum (tar_header (fst f) mode sz mt (replicate 8 (CHR '' '')))"
  define chk where "chk = oct_text 6 sum @ [nul, CHR '' '']"
  define h where "h = tar_header (fst f) mode sz mt chk"
  have fields: "header_fields (fst f) mode sz mt c" if "length c = 8" for c
    using o len that by (simp add: header_fields_def put_octal_Ok del: oct_text.simps)
  then have hf: "header_fields (fst f) mode sz mt chk" by (simp add: chk_def)
  have "sum \<le> 255 * 512"
    using bytes_sum_bound [of "tar_header (fst f) mode sz mt (replicate 8 (CHR '' ''))"] header_length [OF fields] by (simp add: sum_def)
  then have sum8: "sum < 8 ^ Suc 5" by simp
  have widths: "oct_text 6 = oct_text (Suc 5)" "oct_text (12 - 1) = oct_text (Suc 10)" by (simp_all del: oct_text.simps)
  have "parse_octal chk = Some sum"
    unfolding chk_def widths by (rule parse_octal_text [OF sum8]) auto
  moreover have "parse_octal sz = Some (length (snd f))"
  proof -
    have "length (snd f) < 8 ^ (12 - 1)" "sz = oct_text (12 - 1) (length (snd f)) @ [nul]" using o(2) by (simp_all only: put_octal_Ok)
    then have "length (snd f) < 8 ^ Suc 10" "sz = oct_text (Suc 10) (length (snd f)) @ [nul]" by (simp_all only: widths) simp
    then show ?thesis using parse_octal_text [of "length (snd f)" 10 "[nul]"] by (simp del: oct_text.simps power_Suc)
  qed
  moreover have "cstr (zeros 155) = []" by (simp add: cstr_def zeros_def)
  ultimately have read: "read_header offset h = Ok (length (snd f), CHR ''0'', fst f)" for offset
    using st written_checksum [OF hf] unfolding read_header_def h_def header_split [OF hf] sum_def
    by (simp add: storable_def cstr_padded)
  have "h ! 156 = CHR ''0''" "length h = BLOCK" using header_split(6) [OF hf] header_length [OF hf] by (simp_all add: h_def BLOCK_def)
  then have "\<not> list_all (\<lambda>b. b = nul) h" by (auto simp: list_all_length BLOCK_def intro!: exI [of _ 156])
  then show ?thesis using that [of h] part \<open>length h = BLOCK\<close> read by (simp add: h_def chk_def sum_def)
qed

lemma ceil_block: "n \<le> (n + BLOCK - 1) div BLOCK * BLOCK"
proof -
  have "n + 511 = (n + 511) div 512 * 512 + (n + 511) mod 512" by simp
  moreover have "(n + 511) mod 512 \<le> 511" by simp
  ultimately show ?thesis unfolding BLOCK_def by linarith
qed

lemma length_pad_to_block: "length (pad_to_block d) = (length d + BLOCK - 1) div BLOCK * BLOCK"
  using ceil_block [of "length d"] by (simp add: pad_to_block_def)

lemma read_written_file:
  assumes w: "write_file mtime f = Ok part" and st: "storable f" and new: "fst f \<notin> set seen"
  shows "tar_read_from offset seen (part @ rest) =
     rbind (tar_read_from (offset + length part) (fst f # seen) rest) (\<lambda>fs. Ok (\<lparr>tf_name = fst f, tf_data = snd f\<rparr> # fs))"
proof -
  obtain h where h: "part = h @ pad_to_block (snd f)" "length h = BLOCK" "\<not> list_all (\<lambda>b. b = nul) h"
    "\<And>offset. read_header offset h = Ok (length (snd f), CHR ''0'', fst f)"
    using write_file_header [OF w st] by blast
  have step: "BLOCK + (length (snd f) + BLOCK - 1) div BLOCK * BLOCK = length part"
    by (simp add: h(1,2) length_pad_to_block)
  define b where "b = part @ rest"
  have len: "\<not> length b < BLOCK" "\<not> length b < BLOCK + length (snd f)"
    using ceil_block [of "length (snd f)"] by (simp_all add: b_def h(1,2) length_pad_to_block)
  have "take BLOCK b = h" by (simp add: b_def h(1,2))
  moreover have "take (length (snd f)) (drop BLOCK b) = snd f"
    by (simp add: b_def h(1,2) pad_to_block_def)
  moreover have "drop (length part) b = rest" by (simp add: b_def)
  moreover have "clean_name (fst f) = Ok (fst f)" using st by (simp add: storable_def)
  ultimately show ?thesis
    using len h(3,4) new unfolding b_def [symmetric]
    by (subst tar_read_from.simps) (simp add: Let_def step [unfolded One_nat_def])
qed

lemma read_written:
  assumes "try_map (write_file mtime) files = Ok parts" "list_all storable files" "distinct (map fst files)"
    "set (map fst files) \<inter> set seen = {}"
  shows "tar_read_from offset seen (concat parts @ zeros (2 * BLOCK)) =
    Ok (map (\<lambda>f. \<lparr>tf_name = fst f, tf_data = snd f\<rparr>) files)"
  using assms
proof (induction files arbitrary: parts seen offset)
  case Nil
  then show ?case by (subst tar_read_from.simps) (simp add: zeros_def BLOCK_def list_all_iff)
next
  case (Cons f files)
  then obtain part ps where p: "write_file mtime f = Ok part" "try_map (write_file mtime) files = Ok ps" "parts = part # ps"
    by auto
  have "tar_read_from (offset + length part) (fst f # seen) (concat ps @ zeros (2 * BLOCK)) =
      Ok (map (\<lambda>f. \<lparr>tf_name = fst f, tf_data = snd f\<rparr>) files)"
    using Cons.prems by (intro Cons.IH [OF p(2)]) auto
  moreover have "storable f" "fst f \<notin> set seen" using Cons.prems by auto
  ultimately show ?case using read_written_file [OF p(1), of seen offset "concat ps @ zeros (2 * BLOCK)"] by (simp add: p(3))
qed

lemma tar_round_trip:
  assumes "tar_write files mtime = Ok bytes" "list_all storable files" "distinct (map fst files)"
  shows "tar_read bytes = Ok (map (\<lambda>f. \<lparr>tf_name = fst f, tf_data = snd f\<rparr>) files)"
  using assms read_written [of mtime files _ "[]" 0] by (auto simp: tar_write_def tar_read_def)

section \<open>What is read is safe\<close>

definition safe_name :: "string \<Rightarrow> bool" where
  "safe_name n \<longleftrightarrow> n \<noteq> [] \<and> \<not> starts_with ''/'' n \<and> CHR 0x5C \<notin> set n
     \<and> list_all (\<lambda>c. c \<noteq> [] \<and> c \<noteq> ''.'' \<and> c \<noteq> ''..'') (split_on (CHR ''/'') n)"

lemma clean_name_safe: "clean_name raw = Ok name \<Longrightarrow> safe_name name"
  by (auto simp: clean_name_def safe_name_def Let_def list_ex_iff list_all_iff split: if_splits)

lemma read_safe:
  "tar_read_from offset seen rest = Ok fs \<Longrightarrow>
     list_all (\<lambda>f. safe_name (tf_name f)) fs \<and> distinct (map tf_name fs) \<and> set (map tf_name fs) \<inter> set seen = {}"
proof (induction offset seen rest arbitrary: fs rule: tar_read_from.induct)
  case (1 offset seen rest)
  let ?h = "take BLOCK rest"
  show ?case
  proof (cases "list_all (\<lambda>b. b = nul) ?h \<or> length rest < BLOCK")
    case True
    with "1.prems" show ?thesis by (subst (asm) tar_read_from.simps) (auto simp: Let_def split: if_splits)
  next
    case False
    from "1.prems" False obtain size typeflag name where h: "read_header offset ?h = Ok (size, typeflag, name)"
      by (subst (asm) tar_read_from.simps) (auto simp: Let_def)
    let ?step = "BLOCK + (size + BLOCK - 1) div BLOCK * BLOCK"
    from "1.prems" False h consider
      (regular) n gs where "typeflag \<in> {CHR ''0'', nul, CHR ''7''}" "clean_name name = Ok n" "n \<notin> set seen"
        "tar_read_from (offset + ?step) (n # seen) (drop ?step rest) = Ok gs"
        "fs = \<lparr>tf_name = n, tf_data = take size (drop BLOCK rest)\<rparr> # gs" "\<not> length rest < BLOCK + size"
      | (skip) "typeflag \<notin> {CHR ''0'', nul, CHR ''7''}" "typeflag \<in> {CHR ''5'', CHR ''x'', CHR ''g'', CHR ''L'', CHR ''K''}"
        "tar_read_from (offset + ?step) seen (drop ?step rest) = Ok fs" "\<not> length rest < BLOCK + size"
      by (subst (asm) tar_read_from.simps) (auto simp: Let_def split: if_splits)
    then show ?thesis
    proof cases
      case regular
      have "list_all (\<lambda>f. safe_name (tf_name f)) gs \<and> distinct (map tf_name gs) \<and> set (map tf_name gs) \<inter> set (n # seen) = {}"
        using False h regular by (intro "1.IH"(1) [OF _ refl _ h refl refl _ refl refl _ regular(2,3,4)]) auto
      with regular(3) clean_name_safe [OF regular(2)] show ?thesis by (auto simp: regular(5))
    next
      case skip
      then show ?thesis using False h by (intro "1.IH"(2) [OF _ refl _ h refl refl _ refl refl skip(1,2,3)]) auto
    qed
  qed
qed

lemma tar_read_safe:
  "tar_read bytes = Ok fs \<Longrightarrow> list_all (\<lambda>f. safe_name (tf_name f)) fs \<and> distinct (map tf_name fs)"
  unfolding tar_read_def by (drule read_safe) simp

end
