(* ===== verification/Evidence_Samples.thy ===== *)
theory Evidence_Samples
  imports Samples Decision_Verify Record_Chain Ustar Civil_Time
begin

text \<open>
  Concrete values for the evidence theories: a writer of scalars that is shown to be self-delimiting,
  hash and signature functions, and ledgers reached from an empty store.
\<close>

section \<open>A writer of scalars\<close>

definition sample_int :: "int \<Rightarrow> string" where
  "sample_int i = (if i < 0 then ''-'' @ show_nat (nat (- i)) else show_nat (nat i))"

fun sample_ser :: "json \<Rightarrow> string" where
  "sample_ser JNull = ''null''"
| "sample_ser (JBool b) = (if b then ''true'' else ''false'')"
| "sample_ser (JNumber (PosInt n)) = show_nat n"
| "sample_ser (JNumber (NegInt i)) = sample_int i"
| "sample_ser (JNumber (Float r)) = (let (a, b) = quotient_of r in sample_int a @ ''/'' @ sample_int b)"
| "sample_ser (JString s) = CHR 0x22 # hex_encode s @ [CHR 0x22]"
| "sample_ser v = []"

lemma show_nat_plain: "c \<in> set (show_nat n) \<Longrightarrow> c \<notin> set ''-/nt,]}{[f'' \<and> c \<noteq> CHR 0x22"
  by (drule show_nat_digits) (auto simp: is_ascii_digit_def)

lemma sample_int_plain: "c \<in> set (sample_int i) \<Longrightarrow> c \<notin> set ''/nt,]}{[f'' \<and> c \<noteq> CHR 0x22"
  by (auto simp: sample_int_def split: if_splits dest: show_nat_plain)

lemma sample_int_nonempty [simp]: "sample_int i \<noteq> []"
  by (simp add: sample_int_def)

lemma sample_int_sign: "CHR ''-'' \<in> set (sample_int i) \<longleftrightarrow> i < 0"
  by (auto simp: sample_int_def dest: show_nat_plain)

lemma sample_int_inject: "sample_int i = sample_int j \<longleftrightarrow> i = j"
proof
  assume eq: "sample_int i = sample_int j"
  with sample_int_sign [of i] sample_int_sign [of j] have "i < 0 \<longleftrightarrow> j < 0" by simp
  with eq show "i = j" by (auto simp: sample_int_def split: if_splits)
qed simp

lemma sample_float_inject:
  assumes "sample_int a @ ''/'' @ x = sample_int b @ ''/'' @ y"
  shows "a = b \<and> x = y"
proof -
  have no: "CHR ''/'' \<notin> set (sample_int i)" for i using sample_int_plain [of "CHR ''/''" i] by auto
  have "split_once (CHR ''/'') (sample_int i @ ''/'' @ z) = Some (sample_int i, z)" for i z
    using split_once_append [OF no] by (simp only: append_Cons append_Nil)
  with assms have "Some (sample_int a, x) = Some (sample_int b, y)" by metis
  then show ?thesis by (simp only: option.inject prod.inject sample_int_inject)
qed

lemma sample_atom_text:
  assumes "is_atom v"
  shows "sample_ser v \<noteq> [] \<and> (\<forall>c\<in>set (sample_ser v). c \<notin> set '',]}{['' \<and> c \<noteq> CHR 0x22)"
proof -
  consider "v = JNull" | b where "v = JBool b" | n where "v = JNumber n" using assms by (auto simp: is_atom_def)
  then show ?thesis
  proof cases
    case 3
    then show ?thesis
      by (cases n) (auto simp: split_beta Let_def dest: show_nat_plain sample_int_plain)
  qed auto
qed

lemma sample_number_inject:
  assumes "wf_number m" "wf_number n" "sample_ser (JNumber m) = sample_ser (JNumber n)"
  shows "m = n"
proof -
  have slash: "CHR ''/'' \<in> set (sample_ser (JNumber n)) \<longleftrightarrow> (\<exists>r. n = Float r)" for n
    by (cases n) (auto simp: split_beta Let_def dest: show_nat_plain sample_int_plain)
  have minus: "CHR ''-'' \<in> set (sample_ser (JNumber n)) \<longleftrightarrow> (\<exists>i. n = NegInt i)" if "wf_number n" "\<nexists>r. n = Float r" for n
    using that by (cases n) (auto simp: sample_int_sign dest: show_nat_plain)
  show ?thesis
  proof (cases "\<exists>r. m = Float r")
    case True
    with slash [of m] slash [of n] assms(3) obtain q r where mn: "m = Float q" "n = Float r" by auto
    obtain a b c d where qr: "quotient_of q = (a, b)" "quotient_of r = (c, d)" by (metis prod.exhaust)
    with assms(3) have "sample_int a @ ''/'' @ sample_int b = sample_int c @ ''/'' @ sample_int d" by (simp add: mn)
    from sample_float_inject [OF this] have "quotient_of q = quotient_of r" by (simp add: qr sample_int_inject)
    then show ?thesis by (simp add: mn quotient_of_inject_eq)
  next
    case False
    with slash [of m] slash [of n] assms(3) have "\<nexists>r. n = Float r" by auto
    with False minus [OF assms(1)] minus [OF assms(2)] assms(3) show ?thesis
      by (cases m; cases n) (auto simp: sample_int_inject)
  qed
qed

lemma sample_number_letters:
  "CHR ''n'' \<notin> set (sample_ser (JNumber n))" "CHR ''t'' \<notin> set (sample_ser (JNumber n))" "CHR ''f'' \<notin> set (sample_ser (JNumber n))"
  by (cases n; auto simp: split_beta Let_def dest: show_nat_plain sample_int_plain)+

lemma sample_number_word:
  assumes "u = JNull \<or> (\<exists>b. u = JBool b)"
  shows "sample_ser (JNumber n) \<noteq> sample_ser u"
proof -
  have "CHR ''n'' \<in> set (sample_ser u) \<or> CHR ''t'' \<in> set (sample_ser u) \<or> CHR ''f'' \<in> set (sample_ser u)"
    using assms by (auto split: if_splits)
  with sample_number_letters [of n] show ?thesis by metis
qed

lemma sample_atom_inject:
  assumes "is_atom v" "is_atom w" "sample_ser v = sample_ser w"
  shows "v = w"
proof (cases "\<exists>m. v = JNumber m")
  case True
  then obtain m where v: "v = JNumber m" "wf_number m" using assms(1) by (auto simp: is_atom_def)
  have "\<not> (w = JNull \<or> (\<exists>b. w = JBool b))" using sample_number_word [of w m] assms(3) v(1) by argo
  then obtain n where w: "w = JNumber n" "wf_number n" using assms(2) by (auto simp: is_atom_def)
  show ?thesis using sample_number_inject [OF v(2) w(2)] assms(3) v(1) w(1) by (simp only:)
next
  case False
  then have v: "v = JNull \<or> (\<exists>b. v = JBool b)" using assms(1) by (auto simp: is_atom_def)
  have "w \<noteq> JNumber n" for n using sample_number_word [OF v, of n] assms(3) by metis
  then have "w = JNull \<or> (\<exists>b. w = JBool b)" using assms(2) by (auto simp: is_atom_def)
  with v assms(3) show ?thesis by (auto split: if_splits)
qed

lemma hex_no_quote: "CHR 0x22 \<notin> set (hex_encode s)"
  using hex_encode_lower [of "CHR 0x22" s] by (auto simp: is_lower_hex_char_def is_ascii_digit_def)

lemma sample_ser_delimits: "self_delimiting sample_ser"
  unfolding self_delimiting_def
proof (intro conjI allI impI)
  fix s t x y
  assume "sample_ser (JString s) @ x = sample_ser (JString t) @ y"
  then have "split_once (CHR 0x22) (hex_encode s @ CHR 0x22 # x) = split_once (CHR 0x22) (hex_encode t @ CHR 0x22 # y)" by simp
  then have "s = t \<and> x = y" by (simp add: hex_no_quote)
  then show "s = t" "x = y" by simp_all
next
  fix v assume "is_atom v"
  note t = sample_atom_text [OF this]
  then show "sample_ser v \<noteq> []" "set (sample_ser v) \<inter> set '',]}'' = {}" by auto
  from t show "hd (sample_ser v) \<notin> set [CHR 0x22, CHR ''{'', CHR ''['']" using hd_in_set by fastforce
qed (auto intro: sample_atom_inject)


section \<open>A ledger\<close>

definition sample_sign :: "string \<Rightarrow> string \<Rightarrow> string" where
  "sample_sign key d = take 64 (key @ d @ replicate 64 (CHR ''s''))"

definition sample_ops :: ledger_ops where
  "sample_ops = \<lparr>lg_sha256 = (\<lambda>x. take 32 (rev x @ replicate 32 (CHR ''0''))), lg_ser = sample_ser, lg_sign = sample_sign,
     lg_public = (\<lambda>key. key), lg_point = (\<lambda>_. True), lg_verify = (\<lambda>pk d s. s = sample_sign pk d)\<rparr>"

abbreviation gate_keys :: "string set" where "gate_keys \<equiv> {''gate-key''}"

lemma sample_signing_laws: "signing_laws sample_ops gate_keys [''gate-key'']"
proof -
  have "length (sample_sign key d) = 64" for key d by (simp add: sample_sign_def)
  then show ?thesis by (simp add: signing_laws_def sample_ops_def)
qed

lemma length_sample_sha: "length (lg_sha256 sample_ops x) = 32"
  by (simp add: sample_ops_def)

definition sample_append :: "ledger_store \<Rightarrow> string \<Rightarrow> ledger_store" where
  "sample_append s now = fst (projr (append_decision sample_ops s draft_call ''gate-key'' now))"

lemma sample_append_reachable:
  assumes "ledger_reachable sample_ops gate_keys s"
  shows "ledger_reachable sample_ops gate_keys (sample_append s now)"
proof -
  obtain s' e where "append_decision sample_ops s draft_call ''gate-key'' now = Ok (s', e)"
    using append_decision_total [of sample_ops s draft_call "''gate-key''" now] length_sample_sha by blast
  with assms show ?thesis by (auto simp: sample_append_def intro: ledger_reachable.appended)
qed

lemma sample_append_view:
  assumes "ledger_view sample_ops gate_keys s es hs"
  obtains e where "ledger_view sample_ops gate_keys (sample_append s now) (es @ [e]) hs"
proof -
  obtain s' e where a: "append_decision sample_ops s draft_call ''gate-key'' now = Ok (s', e)"
    using append_decision_total [of sample_ops s draft_call "''gate-key''" now] length_sample_sha by blast
  with append_decision_Ok(1) [OF assms _ a] that show ?thesis by (simp add: sample_append_def)
qed

definition sample_ledger :: ledger_store where
  "sample_ledger = sample_append (sample_append ledger_new ''t0'') ''t1''"

lemma sample_ledger_reachable: "ledger_reachable sample_ops gate_keys sample_ledger"
  unfolding sample_ledger_def by (intro sample_append_reachable ledger_reachable.fresh)

lemma sample_ledger_view:
  obtains es where "ledger_view sample_ops gate_keys sample_ledger es []" "length es = 2"
proof -
  obtain a where "ledger_view sample_ops gate_keys (sample_append ledger_new ''t0'') ([] @ [a]) []"
    using sample_append_view [OF ledger_view_new] by blast
  then obtain b where "ledger_view sample_ops gate_keys sample_ledger (([] @ [a]) @ [b]) []"
    unfolding sample_ledger_def by (rule sample_append_view)
  then show ?thesis by (rule that) simp
qed

text \<open>One entry, and the same entry with its members in another order and another signature text.\<close>

definition sample_entry :: decision_entry where
  "sample_entry = projr (map_err id (rbind (append_decision sample_ops ledger_new draft_call ''gate-key'' ''t0'') (\<lambda>r. Ok (snd r))))"

definition shuffled_entry :: json where
  "shuffled_entry = (case entry_json sample_entry of JObject ms \<Rightarrow> JObject (rev ms) | v \<Rightarrow> v)"


lemma sample_entry_view: "\<exists>s. ledger_view sample_ops gate_keys s [sample_entry] []"
proof -
  obtain s e where a: "append_decision sample_ops ledger_new draft_call ''gate-key'' ''t0'' = Ok (s, e)"
    using append_decision_total [of sample_ops ledger_new draft_call "''gate-key''" "''t0''"] length_sample_sha by blast
  have "ledger_view sample_ops gate_keys s ([] @ [e]) []"
    by (rule append_decision_Ok(1) [OF ledger_view_new _ a]) simp
  with a show ?thesis by (auto simp: sample_entry_def)
qed

lemma sample_entry_wf: "wf_json (entry_json sample_entry)" "wf_json shuffled_entry"
proof -
  show wf: "wf_json (entry_json sample_entry)"
    using sample_entry_view by (intro wf_entry_json) (auto simp: ledger_view_def)
  then show "wf_json shuffled_entry"
    by (cases "entry_json sample_entry") (simp_all add: shuffled_entry_def list_all_iff rev_map [symmetric])
qed

lemma sample_runs_verify:
  "verify_decisions sample_ops [entry_json sample_entry] [''gate-key''] = Ok (summary_of [sample_entry])"
  "verify_decisions sample_ops [shuffled_entry] [''gate-key''] = Ok (summary_of [sample_entry])"
proof -
  show run: "verify_decisions sample_ops [entry_json sample_entry] [''gate-key''] = Ok (summary_of [sample_entry])"
    using stored_run_verifies [of 0 GENESIS "[sample_entry]" sample_ops gate_keys "[''gate-key'']"]
      sample_entry_view sample_signing_laws by (auto simp: ledger_view_def)
  obtain ms where ms: "entry_json sample_entry = JObject ms" by (simp add: entry_json_def)
  with sample_entry_wf(1) have distinct: "distinct (map fst ms)" "distinct (map fst (rev ms))"
    by (simp_all add: rev_map [symmetric])
  then have "map_of (rev ms) = map_of ms" by (metis map_of_inject_set set_rev)
  from verify_entry_order [OF this distinct(2,1)] run ms
  show "verify_decisions sample_ops [shuffled_entry] [''gate-key''] = Ok (summary_of [sample_entry])"
    by (simp add: verify_decisions_def shuffled_entry_def)
qed

lemma sample_from_genesis: "ds_from_genesis (summary_of [sample_entry])"
  using sample_entry_view by (auto simp: summary_of_def ledger_view_def)

lemma sample_preimages: "entry_preimage sample_ops shuffled_entry = entry_preimage sample_ops (entry_json sample_entry)"
proof -
  let ?c = "filter (\<lambda>m. fst m \<notin> set [''entry_hash'', ''sig''])"
  obtain ms where ms: "entry_json sample_entry = JObject ms" by (simp add: entry_json_def)
  with sample_entry_wf(1) have distinct: "distinct (map fst ms)" by simp
  have "sort_key fst (?c (rev ms)) = sort_key fst (?c ms)"
    using distinct btree_of_order [of "?c (rev ms)" "?c ms"]
    by (metis (no_types, lifting) btree_of_sort distinct_map_filter distinct_rev map_of_inject_set rev_filter rev_map set_rev)
  then show ?thesis
    by (simp only: entry_preimage_def shuffled_entry_def ms json.case without_def canonical_json.simps(1))
qed


definition sealed_ledger :: ledger_store where
  "sealed_ledger = fst (projr (seal_epoch sample_ops sample_ledger ''gate-key'' ''t2''))"

lemma sealed_ledger_eq:
  "seal_epoch sample_ops sample_ledger ''gate-key'' ''t2'' =
     Ok (sealed_ledger, snd (projr (seal_epoch sample_ops sample_ledger ''gate-key'' ''t2'')))"
proof -
  obtain es where v: "ledger_view sample_ops gate_keys sample_ledger es []" "length es = 2" by (rule sample_ledger_view)
  have "is_ok (seal_epoch sample_ops sample_ledger ''gate-key'' ''t2'')"
    unfolding seal_epoch_eq [OF v(1)]
    by (simp add: v(2) epoch_link_def Let_def epoch_compute_hash_def decode_hex_32_encode epoch_hash_of_def length_sample_sha)
  then show ?thesis by (auto simp: is_ok_iff sealed_ledger_def)
qed

section \<open>A chain of records\<close>

definition sample_record_ops :: record_ops where
  "sample_record_ops = \<lparr>ro_sha256 = (\<lambda>x. take 32 (rev x @ replicate 32 (CHR ''0''))), ro_rfc3339 = show_int\<rparr>"

definition sample_draft :: ledger_record where
  "sample_draft = projr (record_build (with_metadata ''request_id'' (MOpaqueId ''req-42'') builder_new) (0, 7))"

lemma sample_draft_eq:
  "record_build (with_metadata ''request_id'' (MOpaqueId ''req-42'') builder_new) (0, 7) = Ok sample_draft"
proof -
  have "is_ok (record_build (with_metadata ''request_id'' (MOpaqueId ''req-42'') builder_new) (0, 7))"
    by code_simp
  then show ?thesis by (auto simp: is_ok_iff sample_draft_def)
qed

lemma sample_draft_fields: "lr_seq sample_draft = 0" "lr_metadata sample_draft = [(''request_id'', MOpaqueId ''req-42'')]"
  using record_build_metadata(1,3) [OF sample_draft_eq] by (simp_all add: with_metadata_def builder_new_def)

lemma sample_draft_metadata: "list_all metadata_ok (lr_metadata sample_draft)"
  using record_build_metadata(2) [OF sample_draft_eq] .

definition sample_records :: record_store where
  "sample_records = fst (projr (record_append sample_record_ops record_store_new NIL_UUID sample_draft))"

lemma sample_records_reachable: "record_reachable sample_record_ops sample_records"
proof -
  have "is_ok (record_append sample_record_ops record_store_new NIL_UUID sample_draft)"
    by (simp add: record_append_def records_head_def tenant_rows_def record_store_new_def sample_draft_fields Let_def)
  then obtain t where "record_append sample_record_ops record_store_new NIL_UUID sample_draft = Ok t"
    by (auto simp: is_ok_iff)
  then show ?thesis
    unfolding sample_records_def by (cases t) (auto intro: record_reachable.appended [OF record_reachable.fresh])
qed

definition sample_record :: ledger_record where
  "sample_record = fst (link_and_hash sample_record_ops GENESIS_HASH sample_draft)"

definition delayed_record :: ledger_record where
  "delayed_record = sample_record\<lparr>lr_ts := (fst (lr_ts sample_record), 8)\<rparr>"

lemma delayed_record_bytes: "canonicalize sample_record_ops delayed_record = canonicalize sample_record_ops sample_record"
  by (simp add: delayed_record_def canonicalize_def)

lemma sample_chains_verify:
  "verify_chain sample_record_ops [sample_record] = Ok (lr_record_hash sample_record)"
  "verify_chain sample_record_ops [delayed_record] = Ok (lr_record_hash sample_record)"
proof -
  have fields: "lr_seq sample_record = 0" "lr_prev_hash sample_record = GENESIS_HASH"
    "lr_record_hash sample_record = record_hash_of sample_record_ops sample_record"
    by (simp_all add: sample_record_def link_and_hash_def Let_def sample_draft_fields)
  moreover have "record_hash_of sample_record_ops delayed_record = record_hash_of sample_record_ops sample_record"
    by (simp add: record_hash_of_def delayed_record_bytes)
  ultimately show "verify_chain sample_record_ops [sample_record] = Ok (lr_record_hash sample_record)"
    "verify_chain sample_record_ops [delayed_record] = Ok (lr_record_hash sample_record)"
    by (simp_all add: verify_chain_def delayed_record_def)
qed

lemma sample_record_metadata:
  "list_all metadata_ok (lr_metadata sample_record)" "list_all metadata_ok (lr_metadata delayed_record)"
  using sample_draft_metadata by (simp_all add: delayed_record_def sample_record_def link_and_hash_def Let_def)

section \<open>An archive\<close>

definition sample_tar :: string where
  "sample_tar = projr (tar_write [(''dir/a.json'', ''{}''), (''b'', [])] 0)"

lemma sample_tar_eq: "tar_write [(''dir/a.json'', ''{}''), (''b'', [])] 0 = Ok sample_tar"
proof -
  have "is_ok (tar_write [(''dir/a.json'', ''{}''), (''b'', [])] 0)"
    by (simp add: tar_write_def write_file_def put_octal_def Let_def)
  then show ?thesis by (auto simp: is_ok_iff sample_tar_def)
qed

lemma sample_tar_storable: "list_all storable [(''dir/a.json'', ''{}''), (''b'', [])]"
  by code_simp

lemma sample_tar_read:
  "tar_read sample_tar = Ok (map (\<lambda>f. \<lparr>tf_name = fst f, tf_data = snd f\<rparr>) [(''dir/a.json'', ''{}''), (''b'', [])])"
  by (rule tar_round_trip [OF sample_tar_eq sample_tar_storable]) simp

end
