(* ===== verification/Pii_Stream.thy ===== *)
theory Pii_Stream
  imports Pii_Text
begin

text \<open>
  The rehydration of a stream does not depend on how the response was cut into chunks
  (\<open>rehydrate_chunk\<close> of \<open>crates/cloakpipe-core/src/rehydrator.rs\<close>): a text that may still grow into a token is held
  back, and no token crosses the place where the text before it was released.
\<close>

section \<open>Streaming does not depend on the chunks\<close>

definition digit_class :: "(string \<Rightarrow> bool) \<Rightarrow> bool" where
  "digit_class nd \<longleftrightarrow> \<not> nd ''_'' \<and> (\<forall>c. is_upper c \<longrightarrow> \<not> nd c)"

lemma upper_not_underscore [simp]: "\<not> is_upper ''_''"
  by (simp add: is_upper_def is_ascii_uppercase_def)

text \<open>A text that ends like a token reads: letters, then perhaps an underscore and digits.\<close>

lemma tail_shape:
  "is_tail nd s \<longleftrightarrow> (\<exists>u d. u \<noteq> [] \<and> list_all is_upper u \<and> list_all nd d \<and> (s = u \<or> s = u @ ''_'' # d))"
proof
  assume tail: "is_tail nd s"
  let ?u = "takeWhile is_upper s"
  have s: "s = ?u @ dropWhile is_upper s" by simp
  have u: "?u \<noteq> []" "list_all is_upper ?u" using tail by (auto simp: is_tail_def list_all_iff dest: set_takeWhileD)
  show "\<exists>u d. u \<noteq> [] \<and> list_all is_upper u \<and> list_all nd d \<and> (s = u \<or> s = u @ ''_'' # d)"
  proof (cases "dropWhile is_upper s")
    case Nil
    then have "s = ?u" using s by (metis append_Nil2)
    with u show ?thesis by (intro exI [of _ ?u] exI [of _ "[]"] conjI disjI1) simp_all
  next
    case (Cons c r)
    then have "s = ?u @ ''_'' # r" "list_all nd r" using s tail by (simp_all add: is_tail_def)
    with u show ?thesis by blast
  qed
next
  assume "\<exists>u d. u \<noteq> [] \<and> list_all is_upper u \<and> list_all nd d \<and> (s = u \<or> s = u @ ''_'' # d)"
  then obtain u d where u: "u \<noteq> []" "list_all is_upper u" and d: "list_all nd d" and s: "s = u \<or> s = u @ ''_'' # d" by blast
  have whole: "takeWhile is_upper u = u" "dropWhile is_upper u = []" using u(2) by (simp_all add: list_all_iff)
  have run: "takeWhile is_upper (u @ ''_'' # d) = u" "dropWhile is_upper (u @ ''_'' # d) = ''_'' # d"
    using u(2) by (simp_all add: list_all_iff takeWhile_append2 dropWhile_append2)
  from s show "is_tail nd s"
  proof
    assume "s = u"
    then show ?thesis using u(1) unfolding is_tail_def by (simp only: whole) simp
  next
    assume "s = u @ ''_'' # d"
    then show ?thesis using u(1) d unfolding is_tail_def by (simp only: run) simp
  qed
qed

lemma token_match_shape:
  "token_match nd s = Some m \<longleftrightarrow> (\<exists>u d r. s = u @ ''_'' # d @ r \<and> m = u @ ''_'' # d \<and> u \<noteq> [] \<and> list_all is_upper u
     \<and> d \<noteq> [] \<and> list_all nd d \<and> (r = [] \<or> \<not> nd (hd r)))"
proof
  assume match: "token_match nd s = Some m"
  let ?u = "takeWhile is_upper s"
  obtain r where r: "dropWhile is_upper s = ''_'' # r" and m: "m = ?u @ ''_'' # takeWhile nd r" "?u \<noteq> []" "takeWhile nd r \<noteq> []"
    using match unfolding token_match_def by (auto split: list.splits if_splits)
  have "s = ?u @ ''_'' # takeWhile nd r @ dropWhile nd r" using takeWhile_dropWhile_id [of is_upper s] r by simp
  moreover have "list_all is_upper ?u" "list_all nd (takeWhile nd r)" by (auto simp: list_all_iff dest: set_takeWhileD)
  moreover have "dropWhile nd r = [] \<or> \<not> nd (hd (dropWhile nd r))" using hd_dropWhile [of nd r] by blast
  ultimately show "\<exists>u d r. s = u @ ''_'' # d @ r \<and> m = u @ ''_'' # d \<and> u \<noteq> [] \<and> list_all is_upper u
     \<and> d \<noteq> [] \<and> list_all nd d \<and> (r = [] \<or> \<not> nd (hd r))" using m by blast
next
  assume "\<exists>u d r. s = u @ ''_'' # d @ r \<and> m = u @ ''_'' # d \<and> u \<noteq> [] \<and> list_all is_upper u
     \<and> d \<noteq> [] \<and> list_all nd d \<and> (r = [] \<or> \<not> nd (hd r))"
  then obtain u d r where s: "s = u @ ''_'' # d @ r" and m: "m = u @ ''_'' # d" "u \<noteq> []" "list_all is_upper u"
     "d \<noteq> []" "list_all nd d" and r: "r = [] \<or> \<not> nd (hd r)" by blast
  have "takeWhile is_upper s = u" "dropWhile is_upper s = ''_'' # d @ r"
    using m(3) by (simp_all add: s list_all_iff takeWhile_append2 dropWhile_append2)
  moreover have "takeWhile nd (d @ r) = d"
    using m(5) r by (cases r) (simp_all add: list_all_iff takeWhile_append2)
  ultimately show "token_match nd s = Some m" using m(1,2,4) by (simp add: token_match_def)
qed

lemma tail_prefix: "is_tail nd (s @ t) \<Longrightarrow> s \<noteq> [] \<Longrightarrow> is_tail nd s"
proof -
  assume "is_tail nd (s @ t)" "s \<noteq> []"
  then obtain u d where u: "u \<noteq> []" "list_all is_upper u" and d: "list_all nd d" and s: "s @ t = u \<or> s @ t = u @ ''_'' # d"
    unfolding tail_shape by blast
  from s show ?thesis
  proof
    assume "s @ t = u"
    with u \<open>s \<noteq> []\<close> show ?thesis unfolding tail_shape by (intro exI [of _ s] exI [of _ "[]"]) auto
  next
    assume "s @ t = u @ ''_'' # d"
    then consider w where "s @ w = u" | w where "s = u @ w" "w @ t = ''_'' # d" by (auto simp: append_eq_append_conv2)
    then show ?thesis
    proof cases
      case 1
      with u \<open>s \<noteq> []\<close> show ?thesis unfolding tail_shape by (intro exI [of _ s] exI [of _ "[]"]) auto
    next
      case 2
      show ?thesis
      proof (cases w)
        case Nil
        with 2 u show ?thesis unfolding tail_shape by (intro exI [of _ u] exI [of _ "[]"] conjI) simp_all
      next
        case (Cons c w')
        with 2 d have "s = u @ ''_'' # w'" "list_all nd w'" by auto
        with u show ?thesis unfolding tail_shape by blast
      qed
    qed
  qed
qed

lemma hold_at_le: "hold_at nd s \<le> length s"
  by (induction nd s rule: hold_at.induct) auto

lemma hold_at_before: "i < hold_at nd s \<Longrightarrow> \<not> is_tail nd (drop i s)"
proof (induction nd s arbitrary: i rule: hold_at.induct)
  case (2 nd c cs)
  then show ?case by (cases i) (auto split: if_splits)
qed simp

lemma hold_at_split: "(\<And>i. i < h \<Longrightarrow> \<not> is_tail nd (drop i s)) \<Longrightarrow> h \<le> length s \<Longrightarrow> hold_at nd s = h + hold_at nd (drop h s)"
proof (induction h arbitrary: s)
  case (Suc h)
  then obtain c cs where s: "s = c # cs" by (cases s) auto
  have "\<not> is_tail nd (drop i cs)" if "i < h" for i using Suc(2) [of "Suc i"] that by (simp add: s)
  with Suc(1) [of cs] Suc(3) Suc(2) [of 0] show ?case by (simp add: s)
qed simp

lemma hold_at_here: "hold_at nd s < length s \<Longrightarrow> is_tail nd (drop (hold_at nd s) s)"
  by (induction nd s rule: hold_at.induct) auto

text \<open>What is held stays held until more text decides.\<close>

lemma hold_at_append:
  assumes "h = hold_at nd s"
  shows "hold_at nd (s @ t) = h + hold_at nd (drop h s @ t)"
proof -
  have "\<not> is_tail nd (drop i (s @ t))" if "i < h" for i
    using tail_prefix [of nd "drop i s" t] hold_at_before [of i nd s] hold_at_le [of nd s] that assms by fastforce
  moreover have "h \<le> length (s @ t)" using hold_at_le [of nd s] assms by simp
  ultimately have "hold_at nd (s @ t) = h + hold_at nd (drop h (s @ t))" by (rule hold_at_split)
  then show ?thesis using hold_at_le [of nd s] assms by simp
qed

text \<open>No token crosses the place where the text was cut.\<close>

lemma match_kept_if_no_tail:
  assumes "s \<noteq> []" "\<not> is_tail nd s"
  shows "token_match nd (s @ t) = token_match nd s"
proof (cases "token_match nd (s @ t)")
  case (Some m)
  then obtain u d r where eq: "s @ t = u @ ''_'' # d @ r" and m: "m = u @ ''_'' # d" "u \<noteq> []" "list_all is_upper u"
      "d \<noteq> []" "list_all nd d" "r = [] \<or> \<not> nd (hd r)" unfolding token_match_shape by blast
  have eq': "s @ t = m @ r" by (simp add: eq m(1))
  have tailm: "is_tail nd m" using m unfolding tail_shape by blast
  have "\<not> prefix s m" using tail_prefix [of nd s] tailm assms unfolding prefix_def by blast
  then obtain w where w: "s = m @ w" "w \<noteq> []" using eq' by (auto simp: append_eq_append_conv2 prefix_def)
  then have "r = w @ t" using eq' by simp
  then have "token_match nd s = Some m" using m w unfolding token_match_shape by (intro exI [of _ u] exI [of _ d] exI [of _ w]) auto
  then show ?thesis using Some by simp
next
  case None
  show ?thesis
  proof (cases "token_match nd s")
    case (Some m)
    then obtain u d r where s: "s = u @ ''_'' # d @ r" and m: "m = u @ ''_'' # d" "u \<noteq> []" "list_all is_upper u"
        "d \<noteq> []" "list_all nd d" "r = [] \<or> \<not> nd (hd r)" unfolding token_match_shape by blast
    have "r \<noteq> []" using assms(2) m s unfolding tail_shape by auto
    then have "token_match nd (s @ t) = Some m" using m s unfolding token_match_shape
      by (intro exI [of _ u] exI [of _ d] exI [of _ "r @ t"]) auto
    then show ?thesis using None by simp
  qed (simp add: None)
qed

lemma match_kept_before_letter:
  assumes nd: "digit_class nd" and "s \<noteq> []" "\<not> is_upper (last s)" "t \<noteq> []" "is_upper (hd t)"
  shows "token_match nd (s @ t) = token_match nd s"
proof -
  have ndt: "\<not> nd (hd t)" using nd assms(5) by (simp add: digit_class_def)
  have stop: "\<exists>x\<in>set s. \<not> is_upper x" using assms(2,3) last_in_set by blast
  have u: "takeWhile is_upper (s @ t) = takeWhile is_upper s" "dropWhile is_upper (s @ t) = dropWhile is_upper s @ t"
    using stop by (auto simp: takeWhile_append1 dropWhile_append1)
  have "dropWhile is_upper s \<noteq> []" using stop by (simp add: dropWhile_eq_Nil_conv)
  then obtain c r where r: "dropWhile is_upper s = c # r" by (cases "dropWhile is_upper s") simp_all
  have d: "takeWhile nd (r @ t) = takeWhile nd r"
  proof (cases "\<exists>x\<in>set r. \<not> nd x")
    case True
    then show ?thesis by (auto simp: takeWhile_append1)
  next
    case False
    then have all: "takeWhile nd r = r" by simp
    show ?thesis unfolding all using False ndt assms(4) by (cases t) (simp_all add: takeWhile_append2)
  qed
  show ?thesis by (simp add: token_match_def u r d)
qed

lemma replace_tokens_append:
  assumes "\<And>i. i < length s \<Longrightarrow> token_match nd (drop i s @ t) = token_match nd (drop i s)"
  shows "replace_tokens nd look (s @ t) = (let (a, p) = replace_tokens nd look s; (b, q) = replace_tokens nd look t in (a @ b, p \<or> q))"
  using assms
proof (induction nd look s rule: replace_tokens.induct)
  case (2 nd look c cs)
  have here: "token_match nd (c # cs @ t) = token_match nd (c # cs)" using 2(3) [of 0] by simp
  show ?case
  proof (cases "token_match nd (c # cs)")
    case None
    have "token_match nd (drop i cs @ t) = token_match nd (drop i cs)" if "i < length cs" for i
      using 2(3) [of "Suc i"] that by simp
    with 2(1) [OF None] show ?thesis by (simp add: here None case_prod_unfold Let_def)
  next
    case (Some m)
    then have len: "length m \<le> length (c # cs)" unfolding token_match_shape by (auto simp: prefix_def dest!: arg_cong [where f = length])
    have "token_match nd (drop i (drop (length m - 1) cs) @ t) = token_match nd (drop i (drop (length m - 1) cs))"
      if "i < length (drop (length m - 1) cs)" for i
      using 2(3) [of "Suc (length m - 1 + i)"] that by (simp add: add.commute)
    moreover have "drop (length m - 1) (cs @ t) = drop (length m - 1) cs @ t" using len by simp
    ultimately show ?thesis using 2(2) [OF Some] by (simp add: here Some case_prod_unfold Let_def split: option.split)
  qed
qed simp

lemma letter_before_tail: "is_upper c \<Longrightarrow> is_tail nd s \<Longrightarrow> is_tail nd (c # s)"
  by (simp add: is_tail_def split: list.split)

lemma tail_starts_with_letter: "is_tail nd s \<Longrightarrow> s \<noteq> [] \<and> is_upper (hd s)"
  by (cases s) (auto simp: is_tail_def split: if_splits)

lemma hold_at_held: "hold_at nd (drop (hold_at nd s) s) = 0"
proof (cases "hold_at nd s < length s")
  case True
  then show ?thesis using hold_at_here [OF True] by (cases "drop (hold_at nd s) s") simp_all
next
  case False
  then show ?thesis by simp
qed

lemma no_token_crosses:
  assumes nd: "digit_class nd" and h: "h = hold_at nd s" and i: "i < h"
  shows "token_match nd (drop i (take h s) @ take k (drop h s @ t)) = token_match nd (drop i (take h s))"
proof (cases "h = length s")
  case True
  then show ?thesis using match_kept_if_no_tail hold_at_before [of i nd s] i h by simp
next
  case False
  then have less: "h < length s" using hold_at_le [of nd s] h by simp
  let ?x = "drop i (take h s)" and ?y = "take k (drop h s @ t)"
  have tail: "is_tail nd (drop h s)" using hold_at_here less h by simp
  obtain j where j: "h = Suc j" using i by (cases h) auto
  have "\<not> is_tail nd (drop j s)" using hold_at_before [of j nd s] h j by simp
  moreover have "drop j s = s ! j # drop h s" using less j by (simp add: Cons_nth_drop_Suc)
  ultimately have "\<not> is_upper (s ! j)" using letter_before_tail tail by metis
  moreover have "?x \<noteq> []" "last ?x = s ! j" using i less j by (simp_all add: last_conv_nth)
  ultimately have x: "?x \<noteq> []" "\<not> is_upper (last ?x)" by simp_all
  show ?thesis
  proof (cases "?y = []")
    case True
    show ?thesis unfolding True by simp
  next
    case False
    then have "hd ?y = hd (drop h s)" using less by (cases k) (simp_all add: hd_append)
    then show ?thesis using match_kept_before_letter [OF nd x False] tail_starts_with_letter [OF tail] by metis
  qed
qed

lemma chunk_append:
  assumes nd: "digit_class nd" and first: "rehydrate_chunk nd v a buffer = (held, out, f)"
    and second: "rehydrate_chunk nd v b held = (held', out', f')"
  shows "rehydrate_chunk nd v (a @ b) buffer = (held', out @ out', f \<or> f')"
proof -
  define s h where "s = buffer @ a" and "h = hold_at nd s"
  define k where "k = hold_at nd (drop h s @ b)"
  have held: "held = drop h s" and out: "replace_tokens nd (vault_lookup v) (take h s) = (out, f)"
    using first by (simp_all add: rehydrate_chunk_def Let_def s_def h_def)
  have held': "held' = drop k (drop h s @ b)" and out': "replace_tokens nd (vault_lookup v) (take k (drop h s @ b)) = (out', f')"
    using second by (simp_all add: rehydrate_chunk_def Let_def held k_def)
  have le: "h \<le> length s" using hold_at_le h_def by simp
  have hk: "hold_at nd (s @ b) = h + k" using hold_at_append [OF h_def] by (simp add: k_def)
  have "take (h + k) (s @ b) = take h s @ take k (drop h s @ b)" using le by (simp add: take_add add.commute)
  moreover have "replace_tokens nd (vault_lookup v) (take h s @ take k (drop h s @ b)) = (out @ out', f \<or> f')"
    using no_token_crosses [OF nd h_def] out out' by (subst replace_tokens_append) (simp_all add: le)
  moreover have "drop (h + k) (s @ b) = held'" using le by (simp add: held' add.commute)
  ultimately show ?thesis by (simp add: rehydrate_chunk_def Let_def hk flip: append_assoc s_def)
qed

lemma chunk_held:
  assumes "rehydrate_chunk nd v a buffer = (held, out, f)"
  shows "hold_at nd held = 0"
  using assms hold_at_held [of nd "buffer @ a"] unfolding rehydrate_chunk_def Let_def prod.inject by simp

lemma chunks_concat:
  assumes "digit_class nd" "hold_at nd buffer = 0" "rehydrate_chunks nd v chunks buffer = (held, outs)"
  shows "\<exists>f. rehydrate_chunk nd v (concat chunks) buffer = (held, concat outs, f)"
  using assms(2,3)
proof (induction chunks arbitrary: buffer outs)
  case Nil
  then show ?case by (auto simp: rehydrate_chunk_def)
next
  case (Cons chunk chunks)
  obtain b o1 f1 where first: "rehydrate_chunk nd v chunk buffer = (b, o1, f1)" by (metis prod_cases3)
  obtain outs' where rest: "rehydrate_chunks nd v chunks b = (held, outs')" and outs: "outs = o1 # outs'"
    using Cons(3) by (auto simp: first split: prod.splits)
  obtain f2 where "rehydrate_chunk nd v (concat chunks) b = (held, concat outs', f2)"
    using Cons(1) [OF chunk_held [OF first] rest] by blast
  from chunk_append [OF assms(1) first this] show ?case by (auto simp: outs)
qed

lemma stream_by_chunks:
  assumes "digit_class nd"
  shows "stream_text nd ord v chunks = stream_text nd ord v [concat chunks]"
proof -
  obtain held outs where c: "rehydrate_chunks nd v chunks [] = (held, outs)" by fastforce
  obtain f where "rehydrate_chunk nd v (concat chunks) [] = (held, concat outs, f)"
    using chunks_concat [OF assms _ c] by auto
  then show ?thesis by (simp add: stream_text_def c)
qed

end
