(* ===== verification/Pii_Sse.thy ===== *)
theory Pii_Sse
  imports Pii_Stream Json
begin

text \<open>
  The server-sent events of a streamed response (\<open>crates/cloakpipe-proxy/src/streaming.rs\<close>): the lines of the
  upstream body, the JSON of a chunk with its text delta, the rehydration of the deltas and the final flush, for the
  chat-completion and for the Anthropic format. Reading and writing JSON are parameters; the events a stream yields
  are values, \<open>sse_text\<close> gives their text. The vault is the one the stream was opened on.
\<close>

section \<open>Characters\<close>

definition utf8_width :: "char \<Rightarrow> nat" where
  "utf8_width b = (if byte_of b < 0x80 then 1 else if byte_of b < 0xE0 then 2 else if byte_of b < 0xF0 then 3 else 4)"

text \<open>The characters of a text, each as its bytes.\<close>

function utf8_chars :: "string \<Rightarrow> string list" where
  "utf8_chars [] = []"
| "utf8_chars (b # bs) = take (utf8_width b) (b # bs) # utf8_chars (drop (utf8_width b - 1) bs)"
  by pat_completeness auto
termination by (relation "measure length") auto

section \<open>Text deltas\<close>

definition json_at :: "json \<Rightarrow> nat \<Rightarrow> json option" where
  "json_at j i = (case j of JArray xs \<Rightarrow> if i < length xs then Some (xs ! i) else None | _ \<Rightarrow> None)"

definition delta_content :: "json \<Rightarrow> string option" where
  "delta_content chunk =
    Option.bind (json_get chunk ''choices'') (\<lambda>c. Option.bind (json_at c 0) (\<lambda>c.
    Option.bind (json_get c ''delta'') (\<lambda>d. Option.bind (json_get d ''content'') as_str)))"

definition delta_text :: "json \<Rightarrow> string option" where
  "delta_text event =
    Option.bind (json_get event ''delta'') (\<lambda>d. Option.bind (json_get d ''text'') as_str)"

text \<open>Assignments through \<open>get_mut\<close> and the index operator, on objects and arrays the reading found.\<close>

definition with_member :: "string \<Rightarrow> (json \<Rightarrow> json) \<Rightarrow> json \<Rightarrow> json" where
  "with_member k f j = (case j of
      JObject ms \<Rightarrow> (case map_of ms k of None \<Rightarrow> j | Some x \<Rightarrow> JObject (bt_insert k (f x) ms))
    | _ \<Rightarrow> j)"

definition with_first :: "(json \<Rightarrow> json) \<Rightarrow> json \<Rightarrow> json" where
  "with_first f j = (case j of JArray (x # xs) \<Rightarrow> JArray (f x # xs) | _ \<Rightarrow> j)"

definition put_member :: "string \<Rightarrow> json \<Rightarrow> json \<Rightarrow> json" where
  "put_member k x j = (case j of JObject ms \<Rightarrow> JObject (bt_insert k x ms) | _ \<Rightarrow> j)"

definition set_content :: "string \<Rightarrow> json \<Rightarrow> json" where
  "set_content s = with_member ''choices'' (with_first (with_member ''delta'' (put_member ''content'' (JString s))))"

definition set_text :: "string \<Rightarrow> json \<Rightarrow> json" where
  "set_text s = with_member ''delta'' (put_member ''text'' (JString s))"

section \<open>The stream\<close>

datatype sse_event = Chunk json | Passed string | Line string | Done

fun sse_text :: "(json \<Rightarrow> string) \<Rightarrow> sse_event \<Rightarrow> string" where
  "sse_text ser (Chunk j) = ''data: '' @ ser j @ [CHR 0x0A, CHR 0x0A]"
| "sse_text ser (Passed data) = ''data: '' @ data @ [CHR 0x0A, CHR 0x0A]"
| "sse_text ser (Line line) = line @ [CHR 0x0A]"
| "sse_text ser Done = ''data: [DONE]'' @ [CHR 0x0A, CHR 0x0A]"

text \<open>The loop over the lines: the events, the text still held, and whether the end mark was seen.\<close>

fun chat_lines :: "(string \<Rightarrow> json option) \<Rightarrow> (string \<Rightarrow> bool) \<Rightarrow> vault \<Rightarrow> string list \<Rightarrow> string list
    \<Rightarrow> sse_event list \<times> string list \<times> bool" where
  "chat_lines parse nd v [] buffer = ([], buffer, False)"
| "chat_lines parse nd v (line # ls) buffer =
     (case strip_prefix ''data: '' line of
        Some data \<Rightarrow>
          if data = ''[DONE]'' then ([], buffer, True)
          else (case parse data of
              Some chunk \<Rightarrow> (case delta_content chunk of
                  Some content \<Rightarrow>
                    let (buffer', rehydrated, _) = rehydrate_chunk nd v (utf8_chars content) buffer;
                        (events, held, saw_done) = chat_lines parse nd v ls buffer'
                    in (if rehydrated = [] then events else Chunk (set_content rehydrated chunk) # events, held, saw_done)
                | None \<Rightarrow> let (events, rest) = chat_lines parse nd v ls buffer in (Passed data # events, rest))
            | None \<Rightarrow> let (events, rest) = chat_lines parse nd v ls buffer in (Passed data # events, rest))
      | None \<Rightarrow>
          if line \<noteq> [] then (let (events, rest) = chat_lines parse nd v ls buffer in (Line line # events, rest))
          else chat_lines parse nd v ls buffer)"

definition chat_flush :: "string \<Rightarrow> json" where
  "chat_flush flushed = JObject [(''choices'', JArray [JObject
     [(''delta'', JObject [(''content'', JString flushed)]), (''index'', JNumber (PosInt 0))]])]"

definition rehydrate_stream :: "(string \<Rightarrow> json option) \<Rightarrow> (string \<Rightarrow> bool) \<Rightarrow> reverse_order \<Rightarrow> vault \<Rightarrow> string list \<Rightarrow> sse_event list" where
  "rehydrate_stream parse nd ord v ls =
    (let (events, held, saw_done) = chat_lines parse nd v ls [];
         flushed = (if held = [] then [] else rt_text (rehydrate ord (concat held) v))
     in events @ (if flushed = [] then [] else [Chunk (chat_flush flushed)]) @ (if saw_done then [Done] else []))"

fun anthropic_lines :: "(string \<Rightarrow> json option) \<Rightarrow> (string \<Rightarrow> bool) \<Rightarrow> vault \<Rightarrow> string list \<Rightarrow> string list
    \<Rightarrow> sse_event list \<times> string list" where
  "anthropic_lines parse nd v [] buffer = ([], buffer)"
| "anthropic_lines parse nd v (line # ls) buffer =
     (case strip_prefix ''data: '' line of
        Some data \<Rightarrow> (case parse data of
            Some event \<Rightarrow>
              let (buffer', event') = (case delta_text event of
                    Some s \<Rightarrow> let (b, rehydrated, _) = rehydrate_chunk nd v (utf8_chars s) buffer in (b, set_text rehydrated event)
                  | None \<Rightarrow> (buffer, event));
                  (events, held) = anthropic_lines parse nd v ls buffer'
              in (Chunk event' # events, held)
          | None \<Rightarrow> let (events, held) = anthropic_lines parse nd v ls buffer in (Passed data # events, held))
      | None \<Rightarrow>
          if line \<noteq> [] then (let (events, held) = anthropic_lines parse nd v ls buffer in (Line line # events, held))
          else anthropic_lines parse nd v ls buffer)"

definition anthropic_flush :: "string \<Rightarrow> json" where
  "anthropic_flush flushed = JObject [(''delta'', JObject [(''text'', JString flushed), (''type'', JString ''text_delta'')]),
     (''type'', JString ''content_block_delta'')]"

definition rehydrate_anthropic_stream :: "(string \<Rightarrow> json option) \<Rightarrow> (string \<Rightarrow> bool) \<Rightarrow> reverse_order \<Rightarrow> vault \<Rightarrow> string list \<Rightarrow> sse_event list" where
  "rehydrate_anthropic_stream parse nd ord v ls =
    (let (events, held) = anthropic_lines parse nd v ls [];
         flushed = (if held = [] then [] else rt_text (rehydrate ord (concat held) v))
     in events @ (if flushed = [] then [] else [Chunk (anthropic_flush flushed)]))"

section \<open>What reaches the client\<close>

text \<open>The deltas that arrive, up to the end mark, and the text the client reads from the events it gets.\<close>

fun chat_deltas :: "(string \<Rightarrow> json option) \<Rightarrow> string list \<Rightarrow> string list" where
  "chat_deltas parse [] = []"
| "chat_deltas parse (line # ls) =
     (case strip_prefix ''data: '' line of
        None \<Rightarrow> chat_deltas parse ls
      | Some data \<Rightarrow> if data = ''[DONE]'' then []
          else (case Option.bind (parse data) delta_content of None \<Rightarrow> [] | Some s \<Rightarrow> [s]) @ chat_deltas parse ls)"

fun anthropic_deltas :: "(string \<Rightarrow> json option) \<Rightarrow> string list \<Rightarrow> string list" where
  "anthropic_deltas parse [] = []"
| "anthropic_deltas parse (line # ls) =
     (case Option.bind (strip_prefix ''data: '' line) (\<lambda>d. Option.bind (parse d) delta_text) of None \<Rightarrow> [] | Some s \<Rightarrow> [s])
       @ anthropic_deltas parse ls"

definition delivered :: "(json \<Rightarrow> string option) \<Rightarrow> sse_event \<Rightarrow> string" where
  "delivered get e = (case e of Chunk j \<Rightarrow> (case get j of None \<Rightarrow> [] | Some s \<Rightarrow> s) | _ \<Rightarrow> [])"

lemma utf8_width_pos [simp]: "0 < utf8_width b"
  by (simp add: utf8_width_def)

lemma concat_utf8_chars [simp]: "concat (utf8_chars s) = s"
proof (induction s rule: utf8_chars.induct)
  case (2 b bs)
  obtain n where n: "utf8_width b = Suc n" using utf8_width_pos gr0_implies_Suc by blast
  then show ?case using 2 by simp
qed simp

lemma json_get_shape: "json_get j k = Some x \<longleftrightarrow> (\<exists>ms. j = JObject ms \<and> map_of ms k = Some x)"
  by (cases j) (simp_all add: json_get_def)

lemma as_str_shape: "as_str j = Some s \<longleftrightarrow> j = JString s"
  by (cases j) simp_all

lemma json_at_shape: "json_at j 0 = Some x \<longleftrightarrow> (\<exists>xs. j = JArray (x # xs))"
  by (cases j) (auto simp: json_at_def neq_Nil_conv split: if_splits)

lemma map_of_bt_insert_same [simp]: "map_of (bt_insert k v m) k = Some v"
  by (induction k v m rule: bt_insert.induct) auto

lemma set_text_read: "delta_text j \<noteq> None \<Longrightarrow> delta_text (set_text s j) = Some s"
  unfolding delta_text_def
  by (auto simp: bind_eq_Some_conv json_get_shape as_str_shape set_text_def with_member_def put_member_def)

lemma set_content_read: "delta_content j \<noteq> None \<Longrightarrow> delta_content (set_content s j) = Some s"
  unfolding delta_content_def
  by (auto simp: bind_eq_Some_conv json_get_shape as_str_shape json_at_shape set_content_def with_member_def with_first_def put_member_def)

lemma flush_read: "delta_content (chat_flush s) = Some s" "delta_text (anthropic_flush s) = Some s"
  by (simp_all add: delta_content_def delta_text_def chat_flush_def anthropic_flush_def json_get_def json_at_def)

lemma chat_lines_text:
  assumes "chat_lines parse nd v ls buffer = (events, held, d)"
  shows "\<exists>outs. rehydrate_chunks nd v (map utf8_chars (chat_deltas parse ls)) buffer = (held, outs)
    \<and> concat (map (delivered delta_content) events) = concat outs"
  using assms
proof (induction ls arbitrary: buffer events)
  case (Cons line ls)
  note IH = Cons(1) and run = Cons(2)
  show ?case
  proof (cases "strip_prefix ''data: '' line")
    case None
    with run IH show ?thesis by (cases "line = []") (auto simp: delivered_def split: prod.splits)
  next
    case (Some data)
    consider "data = ''[DONE]''" | "data \<noteq> ''[DONE]''" "Option.bind (parse data) delta_content = None"
      | chunk content where "data \<noteq> ''[DONE]''" "parse data = Some chunk" "delta_content chunk = Some content"
      by (cases "Option.bind (parse data) delta_content") (blast, unfold bind_eq_Some_conv, blast)
    then show ?thesis
    proof cases
      case 1
      with run Some show ?thesis by auto
    next
      case 2
      obtain evs where rest: "chat_lines parse nd v ls buffer = (evs, held, d)" and evs: "events = Passed data # evs"
        using run 2 by (auto simp: Some bind_eq_None_conv split: option.splits prod.splits)
      show ?thesis using IH [OF rest] 2 by (simp add: Some evs delivered_def)
    next
      case (3 chunk content)
      obtain b r f where c: "rehydrate_chunk nd v (utf8_chars content) buffer = (b, r, f)" by (metis prod_cases3)
      obtain evs where rest: "chat_lines parse nd v ls b = (evs, held, d)"
          and evs: "events = (if r = [] then evs else Chunk (set_content r chunk) # evs)"
        using run 3 by (auto simp: Some c split: prod.splits)
      obtain outs where outs: "rehydrate_chunks nd v (map utf8_chars (chat_deltas parse ls)) b = (held, outs)"
        "concat (map (delivered delta_content) evs) = concat outs" using IH [OF rest] by blast
      have "delivered delta_content (Chunk (set_content r chunk)) = r" using set_content_read [of chunk r] 3(3) by (simp add: delivered_def)
      then show ?thesis using 3 outs by (simp add: Some evs c)
    qed
  qed
qed simp

lemma anthropic_lines_text:
  assumes "anthropic_lines parse nd v ls buffer = (events, held)"
  shows "\<exists>outs. rehydrate_chunks nd v (map utf8_chars (anthropic_deltas parse ls)) buffer = (held, outs)
    \<and> concat (map (delivered delta_text) events) = concat outs"
  using assms
proof (induction ls arbitrary: buffer events)
  case (Cons line ls)
  note IH = Cons(1) and run = Cons(2)
  show ?case
  proof (cases "Option.bind (strip_prefix ''data: '' line) (\<lambda>d. Option.bind (parse d) delta_text)")
    case None
    obtain evs where rest: "anthropic_lines parse nd v ls buffer = (evs, held)"
        and evs: "concat (map (delivered delta_text) events) = concat (map (delivered delta_text) evs)"
      using run None by (auto simp: bind_eq_None_conv delivered_def split: option.splits prod.splits if_splits)
    show ?thesis using IH [OF rest] by (simp add: None evs)
  next
    case (Some s)
    then obtain data event where data: "strip_prefix ''data: '' line = Some data" "parse data = Some event" "delta_text event = Some s"
      by (auto simp: bind_eq_Some_conv)
    obtain b r f where c: "rehydrate_chunk nd v (utf8_chars s) buffer = (b, r, f)" by (metis prod_cases3)
    obtain evs where rest: "anthropic_lines parse nd v ls b = (evs, held)" and evs: "events = Chunk (set_text r event) # evs"
      using run data by (auto simp: c split: prod.splits)
    have "delivered delta_text (Chunk (set_text r event)) = r" using set_text_read [of event r] data(3) by (simp add: delivered_def)
    then show ?thesis using IH [OF rest] by (auto simp: Some evs c)
  qed
qed simp

lemma chat_stream_text:
  "concat (map (delivered delta_content) (rehydrate_stream parse nd ord v ls)) =
     stream_text nd ord v (map utf8_chars (chat_deltas parse ls))"
proof -
  obtain events held d where run: "chat_lines parse nd v ls [] = (events, held, d)" by (metis prod_cases3)
  from chat_lines_text [OF run] show ?thesis
    by (auto simp: rehydrate_stream_def run stream_text_def Let_def delivered_def flush_read)
qed

lemma anthropic_stream_text:
  "concat (map (delivered delta_text) (rehydrate_anthropic_stream parse nd ord v ls)) =
     stream_text nd ord v (map utf8_chars (anthropic_deltas parse ls))"
proof -
  obtain events held where run: "anthropic_lines parse nd v ls [] = (events, held)" by fastforce
  from anthropic_lines_text [OF run] show ?thesis
    by (auto simp: rehydrate_anthropic_stream_def run stream_text_def Let_def delivered_def flush_read)
qed

end
