(* ===== verification/Pii_Session.thy ===== *)
theory Pii_Session
  imports Pii_Sse "HOL-Library.Signed_Division"
begin

text \<open>
  Conversations (\<open>crates/cloakpipe-core/src/session.rs\<close>): what a session remembers of the entities it saw, the
  coreferences it resolves in later messages, the escalation of its sensitivity, and the manager with its
  expiry. Times are nanoseconds; \<open>now\<close> is the clock. As in the vault, the order a hash map is iterated in is an
  argument, and \<open>None\<close> is a panic of a slice or an index.
\<close>

section \<open>State\<close>

record session_config =
  sc_enabled :: bool
  sc_id_from :: string
  sc_ttl_seconds :: nat
  sc_coreference :: bool
  sc_sensitivity_escalation :: bool
  sc_session_threshold :: rat

definition default_session_config :: session_config where
  "default_session_config = \<lparr>sc_enabled = False, sc_id_from = ''header:x-session-id'', sc_ttl_seconds = 1800,
     sc_coreference = True, sc_sensitivity_escalation = True, sc_session_threshold = 8 / 10\<rparr>"

datatype sensitivity_level = Normal | Elevated

record session_entity =
  se_token :: pseudo_token
  se_category :: entity_category
  se_original :: string
  se_first_seen :: nat
  se_last_seen :: nat
  se_related_to :: "string list"

datatype coref_method = Pronoun | Abbreviation | DefiniteArticle | Possessive

record coreference =
  co_surface :: string
  co_target_token :: string
  co_confidence :: rat
  co_method :: coref_method

record session_context =
  sx_session_id :: string
  sx_created_at :: int
  sx_last_activity :: int
  sx_message_count :: nat
  sx_sensitivity :: sensitivity_level
  sx_escalation_keywords :: "string list"
  sx_entities :: "(string \<times> session_entity) list"
  sx_coreferences :: "(string \<times> coreference) list"
  sx_config :: session_config

type_synonym entity_order = "(string \<times> session_entity) list \<Rightarrow> (string \<times> session_entity) list"

definition DECISION_KEYWORDS :: "string list" where
  "DECISION_KEYWORDS = [''approved'', ''rejected'', ''exception'', ''policy'', ''override'', ''escalated'', ''waiver'',
     ''authorized'', ''sanctioned'', ''compliance'', ''violation'', ''audit'', ''decision'', ''ruling'', ''verdict'',
     ''settlement'', ''terminated'', ''suspended'']"

definition PERSON_PRONOUNS :: "string list" where
  "PERSON_PRONOUNS = [''he'', ''him'', ''his'', ''she'', ''her'', ''hers'', ''they'', ''them'', ''their'']"

definition DEFINITE_ARTICLES :: "(string \<times> entity_category) list" where
  "DEFINITE_ARTICLES = [(''the company'', Organization), (''the firm'', Organization), (''the client'', Organization),
     (''the organization'', Organization), (''the bank'', Organization), (''the hospital'', Organization),
     (''the deal'', Amount), (''the amount'', Amount), (''the transaction'', Amount), (''the payment'', Amount),
     (''the city'', Location), (''the office'', Location), (''the employee'', Person), (''the manager'', Person),
     (''the patient'', Person), (''the customer'', Person), (''the applicant'', Person)]"

definition session_new :: "string \<Rightarrow> session_config \<Rightarrow> int \<Rightarrow> session_context" where
  "session_new sid config now = \<lparr>sx_session_id = sid, sx_created_at = now, sx_last_activity = now, sx_message_count = 0,
     sx_sensitivity = Normal, sx_escalation_keywords = [], sx_entities = [], sx_coreferences = [], sx_config = config\<rparr>"

text \<open>\<open>ttl_seconds as i64\<close> keeps the low 64 bits.\<close>

definition as_i64 :: "nat \<Rightarrow> int" where
  "as_i64 n = (let m = int n mod 2 ^ 64 in if m < 2 ^ 63 then m else m - 2 ^ 64)"

definition is_expired :: "session_context \<Rightarrow> int \<Rightarrow> bool" where
  "is_expired s now \<longleftrightarrow> as_i64 (sc_ttl_seconds (sx_config s)) < (now - sx_last_activity s) sdiv 1000000000"

section \<open>Words\<close>

text \<open>The position of the first occurrence, as \<open>str::find\<close>.\<close>

fun find_str :: "string \<Rightarrow> string \<Rightarrow> nat option" where
  "find_str p [] = (if p = [] then Some 0 else None)"
| "find_str p (c # cs) = (if prefix p (c # cs) then Some 0 else map_option Suc (find_str p cs))"

lemma find_str_le: "find_str p s = Some i \<Longrightarrow> i \<le> length s"
  by (induction p s arbitrary: i rule: find_str.induct) (auto split: if_splits)

function word_loop :: "string \<Rightarrow> string \<Rightarrow> string \<Rightarrow> nat \<Rightarrow> nat option option" where
  "word_loop s lower word start =
    (if \<not> (start \<le> length lower \<and> is_char_boundary lower start) then None
     else case find_str word (drop start lower) of
       None \<Rightarrow> Some None
     | Some pos \<Rightarrow>
       let abs_pos = start + pos; after_pos = abs_pos + length word in
       if 0 < abs_pos \<and> length s \<le> abs_pos - 1 then None
       else if (abs_pos = 0 \<or> \<not> is_ascii_alphanumeric (s ! (abs_pos - 1)))
             \<and> (length s \<le> after_pos \<or> \<not> is_ascii_alphanumeric (s ! after_pos))
       then Some (Some abs_pos)
       else word_loop s lower word (abs_pos + 1))"
  by pat_completeness auto
termination
  by (relation "measure (\<lambda>(s, lower, word, start). Suc (length lower) - start)") (auto dest!: find_str_le)

declare word_loop.simps [simp del]

definition find_word_boundary :: "text_lib \<Rightarrow> string \<Rightarrow> string \<Rightarrow> nat option option" where
  "find_word_boundary E s word = word_loop s (tl_lower E s) (tl_lower E word) 0"

text \<open>\<open>split_whitespace\<close>.\<close>

function words_from :: "string \<Rightarrow> string \<Rightarrow> string list" where
  "words_from cur [] = (if cur = [] then [] else [cur])"
| "words_from cur (b # bs) =
     (if 0 < white_len (b # bs)
      then (if cur = [] then [] else [cur]) @ words_from [] (drop (white_len (b # bs) - 1) bs)
      else words_from (cur @ [b]) bs)"
  by pat_completeness auto
termination by (relation "measure (\<lambda>(_, s). length s)") auto

definition split_whitespace :: "string \<Rightarrow> string list" where
  "split_whitespace s = words_from [] s"

definition initials :: "text_lib \<Rightarrow> string \<Rightarrow> string" where
  "initials E x = concat (map (\<lambda>w. tl_upper E (case utf8_chars w of [] \<Rightarrow> [CHR 0x00] | c # _ \<Rightarrow> c)) (split_whitespace x))"

section \<open>Recording\<close>

definition most_recent_entity :: "entity_order \<Rightarrow> session_context \<Rightarrow> entity_category \<Rightarrow> session_entity option" where
  "most_recent_entity ord s category =
    fold (\<lambda>e best. case best of None \<Rightarrow> Some e | Some b \<Rightarrow> if se_last_seen b \<le> se_last_seen e then Some e else best)
      (filter (\<lambda>e. se_category e = category) (map snd (ord (sx_entities s)))) None"

definition recent_entities_of_category :: "entity_order \<Rightarrow> session_context \<Rightarrow> entity_category \<Rightarrow> nat \<Rightarrow> session_entity list" where
  "recent_entities_of_category ord s category recent =
    (let cutoff = sx_message_count s - recent in
     filter (\<lambda>e. se_category e = category \<and> cutoff \<le> se_last_seen e) (map snd (ord (sx_entities s))))"

definition has_initials :: "text_lib \<Rightarrow> session_entity \<Rightarrow> bool" where
  "has_initials E e \<longleftrightarrow> se_category e \<in> {Organization, Person} \<and> 2 \<le> length (split_whitespace (se_original e))
     \<and> 2 \<le> length (initials E (se_original e))"

definition new_corefs :: "text_lib \<Rightarrow> entity_order \<Rightarrow> session_context \<Rightarrow> (string \<times> coreference) list" where
  "new_corefs E ord s =
    (case recent_entities_of_category ord s Person 3 of
       [p] \<Rightarrow> map (\<lambda>w. (w, \<lparr>co_surface = w, co_target_token = pt_token (se_token p), co_confidence = 7 / 10, co_method = Pronoun\<rparr>))
              PERSON_PRONOUNS
     | _ \<Rightarrow> [])
    @ concat (map (\<lambda>(article, category). case most_recent_entity ord s category of
        None \<Rightarrow> []
      | Some e \<Rightarrow> [(article, \<lparr>co_surface = article, co_target_token = pt_token (se_token e), co_confidence = 6 / 10,
                    co_method = DefiniteArticle\<rparr>)]) DEFINITE_ARTICLES)
    @ map (\<lambda>e. (initials E (se_original e), \<lparr>co_surface = initials E (se_original e), co_target_token = pt_token (se_token e),
            co_confidence = 65 / 100, co_method = Abbreviation\<rparr>))
        (filter (has_initials E) (map snd (ord (sx_entities s))))"

definition update_coreferences :: "text_lib \<Rightarrow> entity_order \<Rightarrow> session_context \<Rightarrow> session_context" where
  "update_coreferences E ord s = s\<lparr>sx_coreferences := fold (\<lambda>(k, c). AList.update k c) (new_corefs E ord s) []\<rparr>"

text \<open>One round of the loop: the entry is created on the first sighting; the other tokens of the message are related.\<close>

definition record_entity :: "string list \<Rightarrow> nat \<Rightarrow> detected_entity \<times> pseudo_token \<Rightarrow>
    (string \<times> session_entity) list \<Rightarrow> (string \<times> session_entity) list" where
  "record_entity msg_tokens number et m =
    (let (entity, token) = et;
         entry = (case map_of m (en_original entity) of
             Some e \<Rightarrow> e
           | None \<Rightarrow> \<lparr>se_token = token, se_category = en_category entity, se_original = en_original entity,
                      se_first_seen = number, se_last_seen = number, se_related_to = []\<rparr>);
         related = fold (\<lambda>t ts. if t \<noteq> pt_token token \<and> t \<notin> set ts then ts @ [t] else ts) msg_tokens (se_related_to entry)
     in AList.update (en_original entity) (entry\<lparr>se_last_seen := number, se_related_to := related\<rparr>) m)"

definition record_entities :: "text_lib \<Rightarrow> entity_order \<Rightarrow> session_context \<Rightarrow> detected_entity list \<Rightarrow> pseudo_token list
    \<Rightarrow> int \<Rightarrow> session_context" where
  "record_entities E ord s entities tokens now =
    (let number = (sx_message_count s + 1) mod 2 ^ 32;
         s = s\<lparr>sx_message_count := number, sx_last_activity := now,
               sx_entities := fold (record_entity (map pt_token tokens) number) (zip entities tokens) (sx_entities s)\<rparr>
     in if sc_coreference (sx_config s) then update_coreferences E ord s else s)"

definition check_sensitivity :: "text_lib \<Rightarrow> session_context \<Rightarrow> string \<Rightarrow> session_context \<times> bool" where
  "check_sensitivity E s content =
    (if \<not> sc_sensitivity_escalation (sx_config s) then (s, False)
     else if sx_sensitivity s = Elevated then (s, False)
     else let found = filter (\<lambda>k. contains_str k (tl_lower E content)) DECISION_KEYWORDS in
       if 2 \<le> length found then (s\<lparr>sx_sensitivity := Elevated, sx_escalation_keywords := found\<rparr>, True) else (s, False))"

section \<open>Resolving\<close>

type_synonym coref = "detected_entity \<times> pseudo_token"

text \<open>The entity at a position the search found, or a panic of the slice.\<close>

definition coref_at :: "string \<Rightarrow> nat \<Rightarrow> nat \<Rightarrow> entity_category \<Rightarrow> rat \<Rightarrow> pseudo_token \<Rightarrow> coref option" where
  "coref_at s pos len category confidence token =
    map_option (\<lambda>x. (\<lparr>en_original = x, en_start = pos, en_end = pos + len, en_category = category,
       en_confidence = confidence, en_source = PatternSource\<rparr>, token)) (str_slice s pos (pos + len))"

definition find_coref :: "text_lib \<Rightarrow> string \<Rightarrow> string \<Rightarrow> string \<Rightarrow> session_entity option \<Rightarrow> entity_category \<Rightarrow> rat \<Rightarrow> coref list option" where
  "find_coref E searched s word target category confidence =
    (case find_word_boundary E searched word of
       None \<Rightarrow> None
     | Some None \<Rightarrow> Some []
     | Some (Some pos) \<Rightarrow> (case target of
         None \<Rightarrow> Some []
       | Some e \<Rightarrow> map_option (\<lambda>c. [c]) (coref_at s pos (length word) category confidence (se_token e))))"

fun collect :: "('a \<Rightarrow> 'b list option) \<Rightarrow> 'a list \<Rightarrow> 'b list option" where
  "collect f [] = Some []"
| "collect f (x # xs) = Option.bind (f x) (\<lambda>ys. map_option ((@) ys) (collect f xs))"

definition resolve_pronoun :: "text_lib \<Rightarrow> entity_order \<Rightarrow> session_context \<Rightarrow> string \<Rightarrow> string \<Rightarrow> coref list option" where
  "resolve_pronoun E ord s content pronoun =
    find_coref E (tl_lower E content) content pronoun
      (if length (recent_entities_of_category ord s Person 3) = 1 then most_recent_entity ord s Person else None) Person (7 / 10)"

definition resolve_article :: "text_lib \<Rightarrow> entity_order \<Rightarrow> session_context \<Rightarrow> string \<Rightarrow> string \<times> entity_category \<Rightarrow> coref list option" where
  "resolve_article E ord s content a =
    find_coref E (tl_lower E content) content (fst a) (most_recent_entity ord s (snd a)) (snd a) (6 / 10)"

definition resolve_abbreviations :: "text_lib \<Rightarrow> entity_order \<Rightarrow> session_context \<Rightarrow> string \<Rightarrow> coref list option" where
  "resolve_abbreviations E ord s content =
    collect (\<lambda>e. if has_initials E e
        then find_coref E content content (initials E (se_original e)) (Some e) (se_category e) (65 / 100) else Some [])
      (map snd (ord (sx_entities s)))"

definition resolve_possessives :: "text_lib \<Rightarrow> entity_order \<Rightarrow> session_context \<Rightarrow> string \<Rightarrow> coref list option" where
  "resolve_possessives E ord s content =
    collect (\<lambda>e. if se_category e = Person
        then find_coref E content content
          ((case split_whitespace (se_original e) of [] \<Rightarrow> se_original e | w # _ \<Rightarrow> w) @ [CHR 0x27, CHR ''s'']) (Some e) Person (75 / 100)
        else Some [])
      (map snd (ord (sx_entities s)))"

text \<open>\<open>dedup_by\<close>: the closure gets the later element first; an element it calls equal to the last one kept is
  removed, after the closure may have swapped the two.\<close>

fun dedup_onto :: "coref \<Rightarrow> coref list \<Rightarrow> coref list" where
  "dedup_onto kept [] = [kept]"
| "dedup_onto kept (c # cs) =
     (if en_start (fst c) = en_start (fst kept)
      then dedup_onto (if en_confidence (fst c) < en_confidence (fst kept) then c else kept) cs
      else kept # dedup_onto c cs)"

definition dedup_corefs :: "coref list \<Rightarrow> coref list" where
  "dedup_corefs cs = (case sort_key (\<lambda>c. en_start (fst c)) cs of [] \<Rightarrow> [] | c # rest \<Rightarrow> dedup_onto c rest)"

definition resolve_coreferences :: "text_lib \<Rightarrow> entity_order \<Rightarrow> session_context \<Rightarrow> string \<Rightarrow> coref list option" where
  "resolve_coreferences E ord s content =
    (if \<not> sc_coreference (sx_config s) \<or> sx_entities s = [] then Some []
     else Option.bind (collect (resolve_pronoun E ord s content) PERSON_PRONOUNS) (\<lambda>ps.
       Option.bind (collect (resolve_article E ord s content) DEFINITE_ARTICLES) (\<lambda>ds.
       Option.bind (resolve_abbreviations E ord s content) (\<lambda>ab.
       Option.bind (resolve_possessives E ord s content) (\<lambda>poss.
       Some (dedup_corefs (ps @ ds @ ab @ poss)))))))"

section \<open>The manager\<close>

record session_manager =
  sm_sessions :: "(string \<times> session_context) list"
  sm_config :: session_config

definition manager_new :: "session_config \<Rightarrow> session_manager" where
  "manager_new config = \<lparr>sm_sessions = [], sm_config = config\<rparr>"

definition session_get_or_create :: "session_manager \<Rightarrow> string \<Rightarrow> int \<Rightarrow> session_manager \<times> string" where
  "session_get_or_create m sid now =
    (case map_of (sm_sessions m) sid of
       Some s \<Rightarrow> if \<not> is_expired s now then (m, sid)
         else (m\<lparr>sm_sessions := AList.update sid (session_new sid (sm_config m) now) (AList.delete sid (sm_sessions m))\<rparr>, sid)
     | None \<Rightarrow> (m\<lparr>sm_sessions := AList.update sid (session_new sid (sm_config m) now) (sm_sessions m)\<rparr>, sid))"

definition with_session :: "session_manager \<Rightarrow> string \<Rightarrow> (session_context \<Rightarrow> session_context \<times> 'r) \<Rightarrow> session_manager \<times> 'r option" where
  "with_session m sid f =
    (case map_of (sm_sessions m) sid of
       None \<Rightarrow> (m, None)
     | Some s \<Rightarrow> let (s', r) = f s in (m\<lparr>sm_sessions := AList.update sid s' (sm_sessions m)\<rparr>, Some r))"

definition with_session_ref :: "session_manager \<Rightarrow> string \<Rightarrow> (session_context \<Rightarrow> 'r) \<Rightarrow> 'r option" where
  "with_session_ref m sid f = map_option f (map_of (sm_sessions m) sid)"

definition flush_session :: "session_manager \<Rightarrow> string \<Rightarrow> session_manager \<times> bool" where
  "flush_session m sid = (m\<lparr>sm_sessions := AList.delete sid (sm_sessions m)\<rparr>, map_of (sm_sessions m) sid \<noteq> None)"

definition flush_all :: "session_manager \<Rightarrow> session_manager \<times> nat" where
  "flush_all m = (m\<lparr>sm_sessions := []\<rparr>, length (sm_sessions m))"

definition evict_expired :: "session_manager \<Rightarrow> int \<Rightarrow> session_manager \<times> nat" where
  "evict_expired m now =
    (let kept = filter (\<lambda>(_, s). \<not> is_expired s now) (sm_sessions m)
     in (m\<lparr>sm_sessions := kept\<rparr>, length (sm_sessions m) - length kept))"

section \<open>Removing duplicates\<close>

lemma dedup_onto_starts:
  "sorted (map (\<lambda>c. en_start (fst c)) (k # cs)) \<Longrightarrow>
     sorted_wrt (<) (map (\<lambda>c. en_start (fst c)) (dedup_onto k cs)) \<and> (\<forall>c\<in>set (dedup_onto k cs). en_start (fst k) \<le> en_start (fst c))"
proof (induction k cs rule: dedup_onto.induct)
  case (2 k c cs)
  show ?case
  proof (cases "en_start (fst c) = en_start (fst k)")
    case True
    let ?k = "if en_confidence (fst c) < en_confidence (fst k) then c else k"
    have "sorted (map (\<lambda>c. en_start (fst c)) (?k # cs))" using 2(3) True by auto
    from 2(1) [OF True this] show ?thesis using True by (auto split: if_splits)
  next
    case False
    have "sorted (map (\<lambda>c. en_start (fst c)) (c # cs))" "en_start (fst k) < en_start (fst c)" using 2(3) False by auto
    with 2(2) [OF False] False show ?thesis by fastforce
  qed
qed simp

lemma dedup_onto_least:
  assumes "sorted (map (\<lambda>c. en_start (fst c)) (k # cs))" "c \<in> set (dedup_onto k cs)" "d \<in> set (k # cs)"
    "en_start (fst d) = en_start (fst c)"
  shows "en_confidence (fst c) \<le> en_confidence (fst d)"
  using assms
proof (induction k cs arbitrary: c d rule: dedup_onto.induct)
  case (2 k e cs)
  show ?case
  proof (cases "en_start (fst e) = en_start (fst k)")
    case True
    let ?k = "if en_confidence (fst e) < en_confidence (fst k) then e else k"
    have srt: "sorted (map (\<lambda>c. en_start (fst c)) (?k # cs))" using 2(3) True by auto
    have c: "c \<in> set (dedup_onto ?k cs)" using 2(4) True by simp
    show ?thesis
    proof (cases "d \<in> set (?k # cs)")
      case True': True
      then show ?thesis using 2(1) [OF True srt c True' 2(6)] by simp
    next
      case False
      then have d: "d = k \<or> d = e" using 2(5) by auto
      have "en_start (fst ?k) = en_start (fst c)" using d True 2(6) by auto
      then have "en_confidence (fst c) \<le> en_confidence (fst ?k)" by (intro 2(1) [OF True srt c]) simp_all
      also have "\<dots> \<le> en_confidence (fst d)" using d by auto
      finally show ?thesis .
    qed
  next
    case False
    have srt: "sorted (map (\<lambda>c. en_start (fst c)) (e # cs))" and less: "en_start (fst k) < en_start (fst e)" using 2(3) False by auto
    have later: "en_start (fst e) \<le> en_start (fst x)" if "x \<in> set (e # cs) \<union> set (dedup_onto e cs)" for x
      using that srt dedup_onto_starts [OF srt] by auto
    show ?thesis
    proof (cases "c = k")
      case True
      then have "d = k" using 2(5,6) later [of d] less by force
      then show ?thesis using True by simp
    next
      case False': False
      then have c: "c \<in> set (dedup_onto e cs)" using 2(4) False by simp
      then have "d \<noteq> k" using later [of c] less 2(6) by auto
      then show ?thesis using 2(2) [OF False srt c _ 2(6)] 2(5) by simp
    qed
  qed
qed simp

lemma dedup_onto_covers: "d \<in> set (k # cs) \<Longrightarrow> \<exists>c\<in>set (dedup_onto k cs). en_start (fst c) = en_start (fst d)"
proof (induction k cs arbitrary: d rule: dedup_onto.induct)
  case (2 k e cs)
  show ?case
  proof (cases "en_start (fst e) = en_start (fst k)")
    case True
    let ?k = "if en_confidence (fst e) < en_confidence (fst k) then e else k"
    have "\<exists>x\<in>set (?k # cs). en_start (fst x) = en_start (fst d)" using 2(3) True by auto
    then obtain x where x: "x \<in> set (?k # cs)" "en_start (fst x) = en_start (fst d)" by blast
    show ?thesis using 2(1) [OF True x(1)] unfolding x(2) using True by simp
  next
    case False
    then show ?thesis using 2(2) [OF False, of d] 2(3) by auto
  qed
qed simp

lemma dedup_onto_subset: "set (dedup_onto k cs) \<subseteq> set (k # cs)"
proof (induction k cs rule: dedup_onto.induct)
  case (2 k e cs)
  let ?k = "if en_confidence (fst e) < en_confidence (fst k) then e else k"
  show ?case
  proof (cases "en_start (fst e) = en_start (fst k)")
    case True
    have "set (dedup_onto ?k cs) \<subseteq> set (?k # cs)" by (rule 2(1) [OF True])
    moreover have "set (?k # cs) \<subseteq> set (k # e # cs)" by auto
    ultimately show ?thesis unfolding dedup_onto.simps(2) if_P [OF True] by (rule order_trans)
  next
    case False
    then show ?thesis using 2(2) [OF False] by auto
  qed
qed simp

lemma dedup_sorted:
  obtains "cs = []" "dedup_corefs cs = []"
  | k ks where "sorted (map (\<lambda>c. en_start (fst c)) (k # ks))" "set (k # ks) = set cs" "dedup_corefs cs = dedup_onto k ks"
proof (cases "sort_key (\<lambda>c. en_start (fst c)) cs")
  case Nil
  then have "cs = []" by (metis length_0_conv length_sort)
  then show ?thesis using that(1) by (simp add: dedup_corefs_def)
next
  case (Cons k ks)
  have "sorted (map (\<lambda>c. en_start (fst c)) (k # ks))" using sorted_sort_key [of "\<lambda>c. en_start (fst c)" cs] Cons by simp
  moreover have "set (k # ks) = set cs" using set_sort [of "\<lambda>c. en_start (fst c)" cs] Cons by simp
  ultimately show ?thesis using that(2) [of k ks] by (simp add: dedup_corefs_def Cons)
qed

lemma dedup_corefs_facts:
  "sorted_wrt (<) (map (\<lambda>c. en_start (fst c)) (dedup_corefs cs)) \<and> set (dedup_corefs cs) \<subseteq> set cs
   \<and> (\<forall>c\<in>set (dedup_corefs cs). \<forall>d\<in>set cs. en_start (fst d) = en_start (fst c) \<longrightarrow> en_confidence (fst c) \<le> en_confidence (fst d))
   \<and> (\<forall>d\<in>set cs. \<exists>c\<in>set (dedup_corefs cs). en_start (fst c) = en_start (fst d))"
proof (rule dedup_sorted [of cs])
  fix k ks assume k: "sorted (map (\<lambda>c. en_start (fst c)) (k # ks))" "set (k # ks) = set cs" "dedup_corefs cs = dedup_onto k ks"
  note dedup_onto_starts [OF k(1)] and dedup_onto_least [OF k(1)] and dedup_onto_covers [of _ k ks] and dedup_onto_subset [of k ks]
  then show ?thesis unfolding k(3) k(2) [symmetric] by blast
qed simp

section \<open>Remembering\<close>

definition known_entity_ok :: "nat \<Rightarrow> string \<Rightarrow> session_entity \<Rightarrow> bool" where
  "known_entity_ok n k e \<longleftrightarrow> se_original e = k \<and> 1 \<le> se_first_seen e \<and> se_first_seen e \<le> se_last_seen e
     \<and> se_last_seen e \<le> n \<and> distinct (se_related_to e)"

definition entries_ok :: "nat \<Rightarrow> (string \<times> session_entity) list \<Rightarrow> bool" where
  "entries_ok n m \<longleftrightarrow> distinct (map fst m) \<and> (\<forall>k e. map_of m k = Some e \<longrightarrow> known_entity_ok n k e)"

definition session_ok :: "session_context \<Rightarrow> bool" where
  "session_ok s \<longleftrightarrow> entries_ok (sx_message_count s) (sx_entities s)"

lemma distinct_related: "distinct ts \<Longrightarrow> distinct (fold (\<lambda>t ts. if t \<noteq> x \<and> t \<notin> set ts then ts @ [t] else ts) ms ts)"
  by (induction ms arbitrary: ts) auto

lemma entries_ok_update: "entries_ok n m \<Longrightarrow> known_entity_ok n k e \<Longrightarrow> entries_ok n (AList.update k e m)"
  by (simp add: entries_ok_def distinct_update update_conv')

lemma known_entity_ok_touch: "known_entity_ok n k e \<Longrightarrow> distinct ts \<Longrightarrow> known_entity_ok n k (e\<lparr>se_last_seen := n, se_related_to := ts\<rparr>)"
  by (auto simp: known_entity_ok_def)

lemma record_entity_ok:
  assumes ok: "entries_ok n m" and n: "1 \<le> n"
  shows "entries_ok n (record_entity ms n et m)"
proof -
  obtain entity token where et: "et = (entity, token)" by (cases et)
  let ?e = "case map_of m (en_original entity) of Some e \<Rightarrow> e | None \<Rightarrow> \<lparr>se_token = token, se_category = en_category entity,
    se_original = en_original entity, se_first_seen = n, se_last_seen = n, se_related_to = []\<rparr>"
  have base: "known_entity_ok n (en_original entity) ?e"
    using ok n by (auto simp: entries_ok_def known_entity_ok_def split: option.split)
  then have "known_entity_ok n (en_original entity) (?e\<lparr>se_last_seen := n, se_related_to := fold (\<lambda>t ts. if t \<noteq> pt_token token
      \<and> t \<notin> set ts then ts @ [t] else ts) ms (se_related_to ?e)\<rparr>)"
    by (rule known_entity_ok_touch) (use base in \<open>simp add: known_entity_ok_def distinct_related\<close>)
  then show ?thesis unfolding record_entity_def et Let_def prod.case by (rule entries_ok_update [OF ok])
qed

lemma record_entities_kept:
  assumes "map_of m k = Some e"
  shows "\<exists>e'. map_of (fold (record_entity ms n) ets m) k = Some e' \<and> se_token e' = se_token e \<and> se_first_seen e' = se_first_seen e"
  using assms
proof (induction ets arbitrary: m e)
  case (Cons et ets)
  have "\<exists>e'. map_of (record_entity ms n et m) k = Some e' \<and> se_token e' = se_token e \<and> se_first_seen e' = se_first_seen e"
    using Cons(2) by (auto simp: record_entity_def Let_def update_conv' case_prod_unfold)
  then show ?case using Cons(1) by fastforce
qed simp

lemma record_entities_ok:
  assumes "session_ok s" "sx_message_count s + 1 < 2 ^ 32"
  shows "session_ok (record_entities E ord s es ts now)"
proof -
  let ?n = "sx_message_count s + 1"
  have "entries_ok ?n (sx_entities s)" using assms(1) unfolding session_ok_def entries_ok_def known_entity_ok_def by fastforce
  moreover have "entries_ok ?n m \<Longrightarrow> entries_ok ?n (fold (record_entity ms ?n) ets m)" for ms ets m
    by (induction ets arbitrary: m) (simp_all add: record_entity_ok)
  ultimately have "entries_ok ?n (fold (record_entity (map pt_token ts) ?n) (zip es ts) (sx_entities s))" by blast
  then show ?thesis using assms(2)
    by (simp add: session_ok_def record_entities_def Let_def update_coreferences_def)
qed

section \<open>Expiry\<close>

lemma as_i64_small: "n < 2 ^ 63 \<Longrightarrow> as_i64 n = int n"
  by (simp add: as_i64_def Let_def)

lemma session_live:
  assumes "sc_ttl_seconds (sm_config m) < 2 ^ 63" "session_get_or_create m sid now = (m', r)"
  shows "r = sid" "\<exists>s. map_of (sm_sessions m') sid = Some s \<and> \<not> is_expired s now"
proof -
  have new: "\<not> is_expired (session_new sid (sm_config m) now) now"
    using assms(1) by (simp add: is_expired_def session_new_def as_i64_small)
  show "r = sid" using assms(2) by (auto simp: session_get_or_create_def split: option.splits if_splits)
  show "\<exists>s. map_of (sm_sessions m') sid = Some s \<and> \<not> is_expired s now"
    using assms(2) new by (auto simp: session_get_or_create_def update_conv' split: option.splits if_splits)
qed

text \<open>A time to live of \<open>2 ^ 63\<close> seconds or more becomes negative: such a session has always expired.\<close>

lemma huge_ttl_expires:
  assumes "2 ^ 63 \<le> sc_ttl_seconds c" "sc_ttl_seconds c < 2 ^ 64"
  shows "is_expired (session_new sid c now) now"
proof -
  have "int (sc_ttl_seconds c) mod 2 ^ 64 = int (sc_ttl_seconds c)" using assms(2) by simp
  then show ?thesis using assms by (simp add: is_expired_def session_new_def as_i64_def Let_def)
qed

lemma sensitivity_monotone: "sx_sensitivity s = Elevated \<Longrightarrow> check_sensitivity E s content = (s, False)"
  by (simp add: check_sensitivity_def)

section \<open>Resolving in ASCII text\<close>

definition ascii :: "string \<Rightarrow> bool" where
  "ascii s \<longleftrightarrow> list_all (\<lambda>c. byte_of c < 128) s"

definition ascii_case :: "text_lib \<Rightarrow> bool" where
  "ascii_case E \<longleftrightarrow> (\<forall>s. ascii s \<longrightarrow> tl_lower E s = to_ascii_lowercase s \<and> ascii (tl_upper E s))"

lemma ascii_boundary: "ascii s \<Longrightarrow> i \<le> length s \<Longrightarrow> is_char_boundary s i"
  by (auto simp: ascii_def list_all_length is_char_boundary_def is_utf8_continuation_def not_le dest!: spec [of _ i])

lemma ascii_lower: "ascii s \<Longrightarrow> ascii (to_ascii_lowercase s)"
  by (auto simp: ascii_def to_ascii_lowercase_def to_ascii_lower_char_def list_all_iff is_ascii_uppercase_def byte_of_char_of)

lemma find_str_prefix: "find_str p s = Some i \<Longrightarrow> i + length p \<le> length s"
  by (induction p s arbitrary: i rule: find_str.induct) (auto split: if_splits dest: prefix_length_le)

lemma word_loop_total:
  assumes "ascii lower" "length lower = length s" "word \<noteq> []" "start \<le> length lower"
  shows "\<exists>r. word_loop s lower word start = Some r \<and> (\<forall>p. r = Some p \<longrightarrow> p + length word \<le> length s)"
  using assms
proof (induction s lower word start rule: word_loop.induct)
  case (1 s lower word start)
  note IH = 1(1) and asm = 1(2-5)
  have bnd: "is_char_boundary lower start" by (rule ascii_boundary [OF asm(1,4)])
  show ?case
  proof (cases "find_str word (drop start lower)")
    case None
    then show ?thesis using asm bnd by (simp add: word_loop.simps)
  next
    case (Some pos)
    let ?a = "start + pos"
    have fit: "?a + length word \<le> length s" using find_str_prefix [OF Some] asm by simp
    have pos: "length word > 0" using asm(3) by simp
    have inside: "\<not> (0 < ?a \<and> length s \<le> ?a - 1)" using fit pos by linarith
    let ?found = "(?a = 0 \<or> \<not> is_ascii_alphanumeric (s ! (?a - 1)))
        \<and> (length s \<le> ?a + length word \<or> \<not> is_ascii_alphanumeric (s ! (?a + length word)))"
    have eq: "word_loop s lower word start = (if ?found then Some (Some ?a) else word_loop s lower word (?a + 1))"
      unfolding word_loop.simps [of s lower word start] Some option.case Let_def if_not_P [OF inside] using asm(4) bnd by simp
    show ?thesis
    proof (cases ?found)
      case True
      then show ?thesis unfolding eq using fit by simp
    next
      case False
      have next_start: "?a + 1 \<le> length lower" using fit pos asm(2) by linarith
      have "\<exists>r. word_loop s lower word (?a + 1) = Some r \<and> (\<forall>p. r = Some p \<longrightarrow> p + length word \<le> length s)"
        by (rule IH [OF _ Some refl refl inside]) (use False asm bnd next_start in simp_all)
      then show ?thesis unfolding eq if_not_P [OF False] .
    qed
  qed
qed

definition coref_placed :: "string \<Rightarrow> session_context \<Rightarrow> coref \<Rightarrow> bool" where
  "coref_placed content s c \<longleftrightarrow> en_start (fst c) < en_end (fst c) \<and> en_end (fst c) \<le> length content
     \<and> en_original (fst c) = slice content (en_start (fst c)) (en_end (fst c))
     \<and> (\<exists>e\<in>snd ` set (sx_entities s). se_category e = en_category (fst c) \<and> se_token e = snd c)"

lemma find_coref_total:
  assumes E: "ascii_case E" and content: "ascii content" and searched: "searched = content \<or> searched = tl_lower E content"
    and word: "ascii word" "word \<noteq> []"
    and target: "\<And>e. target = Some e \<Longrightarrow> e \<in> snd ` set (sx_entities s) \<and> se_category e = category"
  shows "\<exists>cs. find_coref E searched content word target category conf = Some cs \<and> list_all (coref_placed content s) cs"
proof -
  have len: "length searched = length content" "ascii searched"
    using searched E content ascii_lower by (auto simp: ascii_case_def)
  have low: "tl_lower E searched = to_ascii_lowercase searched" "tl_lower E word = to_ascii_lowercase word"
    using E len(2) word(1) by (simp_all add: ascii_case_def)
  obtain r where r: "find_word_boundary E searched word = Some r" "\<And>p. r = Some p \<Longrightarrow> p + length word \<le> length content"
    using word_loop_total [of "to_ascii_lowercase searched" searched "to_ascii_lowercase word" 0] ascii_lower [OF len(2)] len word(2)
    by (auto simp: find_word_boundary_def low to_ascii_lowercase_def)
  show ?thesis
  proof (cases r)
    case None
    then show ?thesis by (simp add: find_coref_def r)
  next
    case (Some p)
    show ?thesis
    proof (cases target)
      case None
      then show ?thesis by (simp add: find_coref_def r Some)
    next
      case (Some e)
      have fit: "p + length word \<le> length content" using r(2) \<open>r = Some p\<close> by simp
      then have "str_slice content p (p + length word) = Some (slice content p (p + length word))"
        using ascii_boundary [OF content] by (simp add: str_slice_def)
      moreover have "se_token e = se_token e" "se_category e = category" "e \<in> snd ` set (sx_entities s)" using target [OF Some] by simp_all
      ultimately show ?thesis using fit word(2)
        by (auto simp: find_coref_def r(1) \<open>r = Some p\<close> Some coref_at_def coref_placed_def)
    qed
  qed
qed

lemma collect_total:
  "(\<And>x. x \<in> set xs \<Longrightarrow> \<exists>ys. f x = Some ys \<and> list_all P ys) \<Longrightarrow> \<exists>zs. collect f xs = Some zs \<and> list_all P zs"
proof (induction xs)
  case (Cons x xs)
  obtain ys where "f x = Some ys" "list_all P ys" using Cons(2) by auto
  moreover obtain zs where "collect f xs = Some zs" "list_all P zs" using Cons by auto
  ultimately show ?case by simp
qed simp

lemma words_from_parts: "w \<in> set (words_from cur s) \<Longrightarrow> w \<noteq> [] \<and> set w \<subseteq> set cur \<union> set s"
proof (induction cur s rule: words_from.induct)
  case (2 cur b bs)
  then show ?case by (auto split: if_splits dest: in_set_dropD)
qed (auto split: if_splits)

lemma ascii_subset: "ascii s \<Longrightarrow> set w \<subseteq> set s \<Longrightarrow> ascii w"
  by (auto simp: ascii_def list_all_iff)

lemma ascii_words: "ascii s \<Longrightarrow> w \<in> set (split_whitespace s) \<Longrightarrow> ascii w \<and> w \<noteq> []"
  using words_from_parts [of w "[]" s] ascii_subset [of s w] by (auto simp: split_whitespace_def)

lemma ascii_append [simp]: "ascii (a @ b) \<longleftrightarrow> ascii a \<and> ascii b"
  by (simp add: ascii_def)

lemma ascii_concat: "(\<And>w. w \<in> set ws \<Longrightarrow> ascii w) \<Longrightarrow> ascii (concat ws)"
  by (auto simp: ascii_def list_all_iff)

lemma ascii_initials: "ascii_case E \<Longrightarrow> ascii x \<Longrightarrow> ascii (initials E x)"
proof -
  assume E: "ascii_case E" and x: "ascii x"
  have "ascii (case utf8_chars w of [] \<Rightarrow> [CHR 0x00] | c # _ \<Rightarrow> c)" if "w \<in> set (split_whitespace x)" for w
  proof (cases "utf8_chars w")
    case (Cons c cs)
    then have "set c \<subseteq> set w" using concat_utf8_chars [of w] by (metis Cons Un_upper1 concat.simps(2) set_append)
    then show ?thesis using ascii_words [OF x that] ascii_subset Cons by auto
  qed (simp add: ascii_def)
  then show ?thesis unfolding initials_def by (intro ascii_concat) (use E in \<open>auto simp: ascii_case_def\<close>)
qed

lemma most_recent_in:
  assumes "most_recent_entity ord s category = Some e" "set (ord (sx_entities s)) = set (sx_entities s)"
  shows "e \<in> snd ` set (sx_entities s)" "se_category e = category"
proof -
  let ?es = "filter (\<lambda>e. se_category e = category) (map snd (ord (sx_entities s)))"
  let ?step = "\<lambda>e best. case best of None \<Rightarrow> Some e | Some b \<Rightarrow> if se_last_seen b \<le> se_last_seen e then Some e else best"
  have "fold ?step es best = Some e \<Longrightarrow> e \<in> set es \<or> best = Some e" for es best
    by (induction es arbitrary: best) (auto split: option.splits if_splits)
  from this [of ?es None] have "e \<in> set ?es" using assms(1) by (simp add: most_recent_entity_def)
  then show "e \<in> snd ` set (sx_entities s)" "se_category e = category" using assms(2) by auto
qed

lemma ascii_tables: "list_all (\<lambda>w. ascii w \<and> w \<noteq> []) PERSON_PRONOUNS" "list_all (\<lambda>a. ascii (fst a) \<and> fst a \<noteq> []) DEFINITE_ARTICLES"
  by code_simp+

lemma resolve_total:
  assumes E: "ascii_case E" and content: "ascii content" and perm: "set (ord (sx_entities s)) = set (sx_entities s)"
    and names: "\<forall>e\<in>snd ` set (sx_entities s). ascii (se_original e)"
  shows "\<exists>cs. resolve_coreferences E ord s content = Some cs \<and> list_all (coref_placed content s) cs
    \<and> sorted_wrt (<) (map (\<lambda>c. en_start (fst c)) cs)"
proof -
  let ?P = "coref_placed content s"
  have "\<exists>zs. collect (resolve_pronoun E ord s content) PERSON_PRONOUNS = Some zs \<and> list_all ?P zs"
    unfolding resolve_pronoun_def using ascii_tables(1)
    by (intro collect_total find_coref_total [OF E content]) (auto simp: list_all_iff split: if_splits dest: most_recent_in [where ord = ord, OF _ perm])
  moreover have "\<exists>zs. collect (resolve_article E ord s content) DEFINITE_ARTICLES = Some zs \<and> list_all ?P zs"
    unfolding resolve_article_def using ascii_tables(2)
    by (intro collect_total find_coref_total [OF E content]) (auto simp: list_all_iff dest: most_recent_in [where ord = ord, OF _ perm])
  moreover have "\<exists>zs. resolve_abbreviations E ord s content = Some zs \<and> list_all ?P zs"
    unfolding resolve_abbreviations_def
  proof (rule collect_total)
    fix e assume "e \<in> set (map snd (ord (sx_entities s)))"
    then have e: "e \<in> snd ` set (sx_entities s)" using perm by auto
    show "\<exists>ys. (if has_initials E e then find_coref E content content (initials E (se_original e)) (Some e) (se_category e) (65 / 100)
        else Some []) = Some ys \<and> list_all ?P ys"
      using find_coref_total [OF E content, where searched = content and word = "initials E (se_original e)" and target = "Some e"
          and s = s and category = "se_category e" and conf = "65 / 100"] ascii_initials [OF E, of "se_original e"] names e
      by (cases "initials E (se_original e)") (auto simp: has_initials_def)
  qed
  moreover have "\<exists>zs. resolve_possessives E ord s content = Some zs \<and> list_all ?P zs"
    unfolding resolve_possessives_def
  proof (rule collect_total)
    fix e assume "e \<in> set (map snd (ord (sx_entities s)))"
    then have e: "e \<in> snd ` set (sx_entities s)" using perm by auto
    let ?w = "(case split_whitespace (se_original e) of [] \<Rightarrow> se_original e | w # _ \<Rightarrow> w) @ [CHR 0x27, CHR ''s'']"
    have "ascii ?w" using names e ascii_words [of "se_original e"] by (auto simp: ascii_def split: list.split)
    then show "\<exists>ys. (if se_category e = Person then find_coref E content content ?w (Some e) Person (75 / 100) else Some []) = Some ys
        \<and> list_all ?P ys"
      using find_coref_total [OF E content, where searched = content and word = ?w and target = "Some e" and s = s
          and category = Person and conf = "75 / 100"] e by auto
  qed
  ultimately obtain ps ds ab poss where parts: "collect (resolve_pronoun E ord s content) PERSON_PRONOUNS = Some ps"
      "collect (resolve_article E ord s content) DEFINITE_ARTICLES = Some ds" "resolve_abbreviations E ord s content = Some ab"
      "resolve_possessives E ord s content = Some poss" and all: "list_all ?P (ps @ ds @ ab @ poss)"
    unfolding list_all_append by blast
  have "list_all ?P (dedup_corefs (ps @ ds @ ab @ poss))" "sorted_wrt (<) (map (\<lambda>c. en_start (fst c)) (dedup_corefs (ps @ ds @ ab @ poss)))"
    using dedup_corefs_facts [of "ps @ ds @ ab @ poss"] all unfolding list_all_iff by blast+
  then show ?thesis by (simp add: resolve_coreferences_def parts)
qed

text \<open>Outside ASCII the offsets of the lower-cased text do not fit the text: a capital I with dot, two bytes, is three
  bytes in lower case.\<close>

definition dotted_lower :: "string \<Rightarrow> string" where
  "dotted_lower s = concat (map (\<lambda>c. if c = [CHR 0xC4, CHR 0xB0] then [CHR 0x69, CHR 0xCC, CHR 0x87] else to_ascii_lowercase c) (utf8_chars s))"


definition dotted_lib :: text_lib where
  "dotted_lib = \<lparr>tl_lower = dotted_lower, tl_upper = (\<lambda>s. s), tl_trim = (\<lambda>s. s), tl_jaro_winkler = (\<lambda>a b. 0), tl_add = (+)\<rparr>"

definition ana_session :: session_context where
  "ana_session = (session_new ''s'' default_session_config 0)\<lparr>sx_message_count := 1, sx_entities :=
     [(''Ana'', \<lparr>se_token = \<lparr>pt_token = ''PERSON_1'', pt_category = Person, pt_id = 1\<rparr>, se_category = Person, se_original = ''Ana'',
       se_first_seen = 1, se_last_seen = 1, se_related_to = []\<rparr>)]\<rparr>"

lemma dotted_panics: "resolve_coreferences dotted_lib (\<lambda>m. m) ana_session ([CHR 0xC4, CHR 0xB0] @ '' he'') = None"
  by code_simp

end
