(* ===== verification/Pii_Rehydrate.thy ===== *)
theory Pii_Rehydrate
  imports Pii_Text
begin

text \<open>
  Masking followed by the rehydration of a whole response gives the text back
  (\<open>crates/cloakpipe-core/src/rehydrator.rs\<close>), when the tokens stand apart from the text around them: the
  replacements run one after the other, longest token first, over a text whose slots still hold their token or
  already their value.
\<close>

section \<open>Putting the values back\<close>

text \<open>A text with slots between gaps; a slot still holds its token or already its value.\<close>

datatype slot = Held string | Filled string

primrec slot_text :: "slot \<Rightarrow> string" where
  "slot_text (Held t) = t"
| "slot_text (Filled x) = x"

primrec slot_token :: "slot \<Rightarrow> string option" where
  "slot_token (Held t) = Some t"
| "slot_token (Filled x) = None"

definition slots_text :: "(slot \<times> string) list \<Rightarrow> string" where
  "slots_text ps = concat (map (\<lambda>(u, g). slot_text u @ g) ps)"

definition fill :: "string \<Rightarrow> string \<Rightarrow> slot \<Rightarrow> slot" where
  "fill t x u = (if u = Held t then Filled x else u)"

definition plain_token :: "string \<Rightarrow> bool" where
  "plain_token t \<longleftrightarrow> (\<exists>p n. t = token_name p n \<and> p \<noteq> [] \<and> list_all is_ascii_uppercase p)"

definition opens_gap :: "string \<Rightarrow> bool" where
  "opens_gap g \<longleftrightarrow> (g \<noteq> [] \<longrightarrow> \<not> is_ascii_digit (hd g)) \<and> CHR ''_'' \<notin> set g"

definition closes_gap :: "string \<Rightarrow> bool" where
  "closes_gap g \<longleftrightarrow> (g \<noteq> [] \<longrightarrow> \<not> is_ascii_uppercase (last g)) \<and> CHR ''_'' \<notin> set g"

text \<open>Tokens stand apart: between two slots there is some text, and no gap continues a token on either side.\<close>

fun spaced :: "string list \<Rightarrow> bool" where
  "spaced [] \<longleftrightarrow> True"
| "spaced [g] \<longleftrightarrow> opens_gap g"
| "spaced (g # h # gs) \<longleftrightarrow> g \<noteq> [] \<and> opens_gap g \<and> closes_gap g \<and> spaced (h # gs)"

definition slot_ok :: "nat \<Rightarrow> slot \<Rightarrow> bool" where
  "slot_ok n u = (case u of Held t \<Rightarrow> plain_token t \<and> length t \<le> n | Filled x \<Rightarrow> CHR ''_'' \<notin> set x)"

lemma slots_text_simps [simp]: "slots_text [] = []" "slots_text ((u, g) # ps) = slot_text u @ g @ slots_text ps"
  by (simp_all add: slots_text_def)

lemma upper_facts: "is_ascii_uppercase c \<Longrightarrow> \<not> is_ascii_digit c \<and> c \<noteq> CHR ''_''"
  by (auto simp: is_ascii_uppercase_def is_ascii_digit_def)

lemma digit_facts: "is_ascii_digit c \<Longrightarrow> \<not> is_ascii_uppercase c \<and> c \<noteq> CHR ''_''"
  by (auto simp: is_ascii_uppercase_def is_ascii_digit_def)

lemma upper_no_underscore: "list_all is_ascii_uppercase p \<Longrightarrow> CHR ''_'' \<notin> set p"
  by (auto simp: list_all_iff dest: upper_facts)

lemma replace_skip:
  "(\<And>a b. g = a @ b \<Longrightarrow> b \<noteq> [] \<Longrightarrow> \<not> prefix p (b @ r)) \<Longrightarrow> replace_from_left p x (g @ r) = g @ replace_from_left p x r"
proof (induction g)
  case (Cons c g)
  have "\<not> prefix p (c # g @ r)" using Cons(2) [of "[]" "c # g"] by simp
  moreover have "replace_from_left p x (g @ r) = g @ replace_from_left p x r"
    by (rule Cons(1)) (use Cons(2) [of "c # _"] in simp)
  ultimately show ?case by simp
qed simp

lemma replace_hit: "p \<noteq> [] \<Longrightarrow> replace_from_left p x (p @ r) = x @ replace_from_left p x r"
  by (cases p) simp_all

text \<open>An occurrence of a token starts at the letters before an underscore.\<close>

lemma occurrence:
  assumes "prefix (token_name p n) y" "list_all is_ascii_uppercase p"
  shows "split_once (CHR ''_'') y = Some (p, drop (length p + 1) y)" "prefix (show_nat n) (drop (length p + 1) y)"
  using assms upper_no_underscore [OF assms(2)] by (auto simp: prefix_def token_name_def)

lemma no_occurrence_before:
  assumes "list_all is_ascii_uppercase p" "CHR ''_'' \<notin> set b" "\<exists>c\<in>set b. \<not> is_ascii_uppercase c"
  shows "\<not> prefix (token_name p n) (b @ r)"
proof
  assume "prefix (token_name p n) (b @ r)"
  then have "prefix (p @ CHR ''_'' # show_nat n) (b @ r)" by (simp add: token_name_def)
  then obtain z where "b @ r = p @ CHR ''_'' # show_nat n @ z" by (auto simp: prefix_def)
  with assms(2) obtain w where "p = b @ w" by (auto simp: append_eq_append_conv2 append_eq_Cons_conv)
  with assms(1,3) show False by (auto simp: list_all_iff)
qed

lemma digits_in_gap:
  assumes "prefix (show_nat n) (show_nat m @ g @ r)" "opens_gap g" "g = [] \<longrightarrow> r = []"
  shows "prefix (show_nat n) (show_nat m)"
proof (rule ccontr)
  assume no: "\<not> prefix (show_nat n) (show_nat m)"
  obtain z where z: "show_nat m @ g @ r = show_nat n @ z" using assms(1) by (auto simp: prefix_def)
  then obtain w where "show_nat m = show_nat n @ w \<or> show_nat n = show_nat m @ w \<and> g @ r = w @ z"
    using append_eq_append_conv2 [THEN iffD1, OF z] by metis
  then have w: "show_nat n = show_nat m @ w" "g @ r = w @ z" using no by (auto simp: prefix_def)
  moreover have "w \<noteq> []" using w(1) no by auto
  ultimately have w: "show_nat n = show_nat m @ w" "w \<noteq> []" "g @ r = w @ z" by simp_all
  have "g \<noteq> []" "hd g = hd w" using w(2,3) assms(3) by (cases g; cases w; simp)+
  moreover have "hd w \<in> set (show_nat n)" using w(1,2) by simp
  ultimately have "g \<noteq> []" "hd g \<in> set (show_nat n)" by simp_all
  with assms(2) show_nat_digits show False by (auto simp: opens_gap_def)
qed

lemma no_occurrence_in_token:
  assumes p: "p \<noteq> []" "list_all is_ascii_uppercase p" and q: "list_all is_ascii_uppercase q"
    and g: "opens_gap g" "g = [] \<longrightarrow> r = []" and b: "token_name q m = a @ b" "b \<noteq> []"
    and occ: "prefix (token_name p n) (b @ g @ r)" and len: "length (token_name q m) \<le> length (token_name p n)"
  shows "token_name p n = token_name q m"
proof -
  obtain y where y: "b @ g @ r = p @ CHR ''_'' # show_nat n @ y" using occ by (auto simp: prefix_def token_name_def)
  have "a @ b = q @ CHR ''_'' # show_nat m" using b(1) by (simp add: token_name_def)
  then consider w where "q = a @ w" "b = w @ CHR ''_'' # show_nat m"
    | w where "a = q @ w" "w @ b = CHR ''_'' # show_nat m" "w \<noteq> []"
    using append_eq_append_conv2 [THEN iffD1, of a b q "CHR ''_'' # show_nat m"] by fastforce
  then show ?thesis
  proof cases
    case 1
    have "CHR ''_'' \<notin> set w" using q upper_no_underscore by (auto simp: 1(1))
    then have "split_once (CHR ''_'') (b @ g @ r) = Some (w, show_nat m @ g @ r)" by (simp add: 1(2))
    then have "p = w" "show_nat n @ y = show_nat m @ g @ r"
      unfolding y using upper_no_underscore [OF p(2)] by simp_all
    then have "p = w" "prefix (show_nat n) (show_nat m @ g @ r)" by (metis, metis prefixI)
    then have "p = w" "prefix (show_nat n) (show_nat m)" using digits_in_gap [OF _ g] by blast+
    with len 1(1) have "a = []" "show_nat n = show_nat m" by (auto simp: token_name_def prefix_def)
    then show ?thesis using 1(1) \<open>p = w\<close> by simp
  next
    case 2
    then obtain w' where "w' @ b = show_nat m" by (cases w) auto
    then have "hd b \<in> set (show_nat m)" using b(2) by (metis Un_iff hd_in_set set_append)
    then have "is_ascii_digit (hd b)" by (rule show_nat_digits)
    moreover have "hd b = hd p" using y b(2) p(1) by (cases b; cases p) auto
    ultimately show ?thesis using p digit_facts by (cases p) auto
  qed
qed

lemma replace_slots:
  assumes p: "p \<noteq> []" "list_all is_ascii_uppercase p" and t: "t = token_name p n"
    and ok: "\<forall>u\<in>fst ` set ps. slot_ok (length t) u" and sp: "spaced (map snd ps)"
  shows "replace_from_left t x (slots_text ps) = slots_text (map (\<lambda>(u, g). (fill t x u, g)) ps)"
  using ok sp
proof (induction ps)
  case (Cons pg ps)
  obtain u g where pg: "pg = (u, g)" by (cases pg)
  let ?r = "slots_text ps"
  have g: "opens_gap g" and gr: "g = [] \<longrightarrow> ?r = []" using Cons(3) by (cases ps; simp add: pg)+
  have sp: "spaced (map snd ps)" using Cons(3) by (cases ps) (simp_all add: pg)
  have no_us: "ps = [] \<Longrightarrow> \<not> prefix t (b @ ?r)" if "CHR ''_'' \<notin> set b" for b
    using that occurrence(1) [OF _ p(2), of n b] by (auto simp: t)
  have gap: "replace_from_left t x (g @ ?r) = g @ replace_from_left t x ?r"
  proof (rule replace_skip)
    fix a b assume ab: "g = a @ b" "b \<noteq> []"
    have us: "CHR ''_'' \<notin> set b" using g by (auto simp: ab opens_gap_def)
    show "\<not> prefix t (b @ ?r)"
    proof (cases ps)
      case Nil
      then show ?thesis using no_us [OF us] by simp
    next
      case (Cons a' list)
      then have "\<not> is_ascii_uppercase (last b)" using \<open>spaced (map snd (pg # ps))\<close> ab by (simp add: pg closes_gap_def)
      then show ?thesis unfolding t using no_occurrence_before [OF p(2) us] ab(2) last_in_set by blast
    qed
  qed
  have slot: "replace_from_left t x (slot_text u @ g @ ?r) = slot_text (fill t x u) @ replace_from_left t x (g @ ?r)"
  proof (cases "u = Held t")
    case True
    then show ?thesis using replace_hit [of t x] by (simp add: fill_def t token_name_def)
  next
    case False
    have "\<not> prefix t (b @ g @ ?r)" if ab: "slot_text u = a @ b" "b \<noteq> []" for a b
    proof (cases u)
      case (Held s)
      then obtain q m where q: "s = token_name q m" "list_all is_ascii_uppercase q" "length s \<le> length t"
        using Cons(2) by (auto simp: pg slot_ok_def plain_token_def)
      have "s \<noteq> t" "token_name q m = a @ b" using False Held ab(1) q(1) by auto
      then show ?thesis using no_occurrence_in_token [OF p q(2) g gr _ ab(2), of m a n] q(1,3) unfolding t by metis
    next
      case (Filled y)
      then have us: "CHR ''_'' \<notin> set (b @ g)" using Cons(2) g ab by (auto simp: pg slot_ok_def opens_gap_def)
      show ?thesis
      proof (cases ps)
        case Nil
        then show ?thesis using no_us [OF us] by simp
      next
        case (Cons a' list)
        then have "g \<noteq> []" "\<not> is_ascii_uppercase (last g)"
          using \<open>spaced (map snd (pg # ps))\<close> by (simp_all add: pg closes_gap_def)
        then have "\<exists>c\<in>set (b @ g). \<not> is_ascii_uppercase c" using last_in_set by auto
        then show ?thesis unfolding t using no_occurrence_before [OF p(2) us] by simp
      qed
    qed
    then show ?thesis using False by (simp add: fill_def replace_skip)
  qed
  show ?case using slot gap Cons(1) [OF _ sp] Cons(2) by (simp add: pg)
qed simp

lemma replace_absent: "\<not> contains_str t s \<Longrightarrow> replace_from_left t x s = s"
proof -
  assume absent: "\<not> contains_str t s"
  have "\<not> prefix t (b @ [])" if "s = a @ b" for a b
    using absent that unfolding contains_str_iff sublist_def prefix_def by auto
  then show ?thesis using replace_skip [of s t "[]" x] by simp
qed

lemma put_back_text: "t \<noteq> [] \<Longrightarrow> fst (put_back (t, x) acc) = replace_from_left t x (fst acc)"
  by (auto simp: put_back_def str_replace_def replace_absent)

definition text_spaced :: "string \<Rightarrow> string list \<Rightarrow> bool" where
  "text_spaced g gs \<longleftrightarrow> CHR ''_'' \<notin> set g \<and> (gs \<noteq> [] \<longrightarrow> closes_gap g) \<and> spaced gs"

lemma replace_text:
  assumes t: "plain_token t" and ok: "\<forall>u\<in>fst ` set ps. slot_ok (length t) u" and sp: "text_spaced g (map snd ps)"
  shows "replace_from_left t x (g @ slots_text ps) = g @ slots_text (map (\<lambda>(u, g). (fill t x u, g)) ps)"
proof -
  obtain p n where p: "t = token_name p n" "p \<noteq> []" "list_all is_ascii_uppercase p" using t by (auto simp: plain_token_def)
  have "\<not> prefix t (b @ slots_text ps)" if ab: "g = a @ b" "b \<noteq> []" for a b
  proof (cases "ps = []")
    case True
    have "CHR ''_'' \<notin> set b" using sp ab by (simp add: text_spaced_def)
    then show ?thesis using occurrence(1) [OF _ p(3), of n b] by (auto simp: p(1) True)
  next
    case False
    then have "CHR ''_'' \<notin> set b" "\<not> is_ascii_uppercase (last b)" using sp ab by (auto simp: text_spaced_def closes_gap_def)
    then show ?thesis unfolding p(1) using no_occurrence_before [OF p(3), of b] ab(2) last_in_set by blast
  qed
  then have "replace_from_left t x (g @ slots_text ps) = g @ replace_from_left t x (slots_text ps)" by (rule replace_skip)
  also have "replace_from_left t x (slots_text ps) = slots_text (map (\<lambda>(u, g). (fill t x u, g)) ps)"
    by (rule replace_slots [OF p(2,3,1) ok]) (use sp in \<open>simp add: text_spaced_def\<close>)
  finally show ?thesis .
qed

definition fill_all :: "(string \<times> string) list \<Rightarrow> slot \<Rightarrow> slot" where
  "fill_all L u = (case u of Held t \<Rightarrow> (case map_of L t of Some x \<Rightarrow> Filled x | None \<Rightarrow> u) | Filled x \<Rightarrow> u)"

lemma fill_all_Cons: "fill_all ((t, x) # L) u = fill_all L (fill t x u)"
  by (auto simp: fill_all_def fill_def split: slot.split)

lemma fold_put_back:
  assumes "sorted_wrt (\<lambda>a b. length (fst b) \<le> length (fst a)) L" "\<forall>m\<in>set L. plain_token (fst m)"
    and "\<forall>t. Held t \<in> fst ` set ps \<longrightarrow> t \<in> fst ` set L"
    and "\<forall>x. Filled x \<in> fst ` set ps \<longrightarrow> CHR ''_'' \<notin> set x"
    and "\<forall>m\<in>set L. Held (fst m) \<in> fst ` set ps \<longrightarrow> CHR ''_'' \<notin> set (snd m)"
    and "text_spaced g (map snd ps)"
  shows "fst (fold put_back L (g @ slots_text ps, n)) = g @ slots_text (map (\<lambda>(u, g). (fill_all L u, g)) ps)"
  using assms
proof (induction L arbitrary: ps n)
  case Nil
  then have "fill_all [] u = u" for u by (auto simp: fill_all_def split: slot.split)
  then show ?case by simp
next
  case (Cons m L)
  obtain t x where m: "m = (t, x)" by (cases m)
  let ?ps = "map (\<lambda>(u, g). (fill t x u, g)) ps"
  have slots: "fst ` set ?ps = fill t x ` fst ` set ps" by force
  have "slot_ok (length t) u" if "u \<in> fst ` set ps" for u
  proof (cases u)
    case (Held s)
    then have "s \<in> fst ` set (m # L)" using Cons(4) that by blast
    then show ?thesis using Cons(2,3) by (auto simp: Held slot_ok_def m)
  next
    case (Filled y)
    then show ?thesis using Cons(5) that by (simp add: slot_ok_def)
  qed
  then have replaced: "replace_from_left t x (g @ slots_text ps) = g @ slots_text ?ps"
    using replace_text [of t ps g x] Cons(3,7) by (simp add: m)
  have nonempty: "t \<noteq> []" using Cons(3) by (auto simp: m plain_token_def token_name_def)
  obtain k where k: "put_back m (g @ slots_text ps, n) = (g @ slots_text ?ps, k)"
    using put_back_text [OF nonempty, of x "(g @ slots_text ps, n)"] replaced by (simp add: m) (metis prod.collapse)
  have held: "Held s \<in> fst ` set ?ps \<longleftrightarrow> Held s \<in> fst ` set ps \<and> s \<noteq> t" for s
    unfolding slots by (force simp: fill_def)
  have filled: "Filled y \<in> fst ` set ?ps \<longleftrightarrow> Filled y \<in> fst ` set ps \<or> y = x \<and> Held t \<in> fst ` set ps" for y
    unfolding slots by (force simp: fill_def)
  have "fst (fold put_back L (g @ slots_text ?ps, k)) = g @ slots_text (map (\<lambda>(u, g). (fill_all L u, g)) ?ps)"
  proof (rule Cons(1))
    show "sorted_wrt (\<lambda>a b. length (fst b) \<le> length (fst a)) L" "\<forall>m\<in>set L. plain_token (fst m)" using Cons(2,3) by simp_all
    show "\<forall>t. Held t \<in> fst ` set ?ps \<longrightarrow> t \<in> fst ` set L" unfolding held using Cons(4) by (auto simp: m)
    show "\<forall>x. Filled x \<in> fst ` set ?ps \<longrightarrow> CHR ''_'' \<notin> set x" unfolding filled using Cons(5,6) by (auto simp: m)
    show "\<forall>m\<in>set L. Held (fst m) \<in> fst ` set ?ps \<longrightarrow> CHR ''_'' \<notin> set (snd m)" unfolding held using Cons(6) by simp
    show "text_spaced g (map snd ?ps)" using Cons(7) by (simp add: case_prod_unfold comp_def)
  qed
  then show ?case unfolding fold_simps(2) k by (simp add: m fill_all_Cons case_prod_unfold comp_def)
qed

lemma longest_first_sorted: "sorted_wrt (\<lambda>a b. length (fst b) \<le> length (fst a)) (longest_first ms)"
proof -
  have "sorted (map (\<lambda>m. - int (length (fst m))) (longest_first ms))" by (simp add: longest_first_def)
  then show ?thesis by (simp add: sorted_map)
qed

lemma set_longest_first [simp]: "set (longest_first ms) = set ms"
  by (simp add: longest_first_def)

lemma weave_slots: "length us = length gs \<Longrightarrow> weave g (map slot_text us) gs = g @ slots_text (zip us gs)"
  by (simp add: weave_def slots_text_def zip_map1 comp_def case_prod_unfold)

lemma rehydrate_weave:
  assumes dist: "distinct (map fst (va_reverse v))" and ord: "mset (ord (va_reverse v)) = mset (va_reverse v)"
    and plain: "\<forall>t x. vault_lookup v t = Some x \<longrightarrow> plain_token t"
    and look: "list_all2 (\<lambda>t x. vault_lookup v t = Some x) ts xs"
    and vals: "\<forall>x\<in>set xs. CHR ''_'' \<notin> set x" and sp: "text_spaced g gs" and len: "length gs = length ts"
  shows "rt_text (rehydrate ord (weave g ts gs) v) = weave g xs gs"
proof -
  let ?L = "longest_first (ord (reverse_mappings v))" and ?ps = "zip (map Held ts) gs"
  have set_L: "set ?L = set (va_reverse v)" using arg_cong [OF ord, of set_mset] by (simp add: reverse_mappings_def)
  have "mset ?L = mset (va_reverse v)" using ord by (simp add: longest_first_def reverse_mappings_def)
  then have "mset (map fst ?L) = mset (map fst (va_reverse v))" by (simp only: mset_map)
  then have "distinct (map fst ?L)" using dist mset_eq_imp_distinct_iff by blast
  then have "map_of ?L = map_of (va_reverse v)" using map_of_inject_set [OF _ dist] set_L by blast
  then have map_L: "map_of ?L t = vault_lookup v t" for t by (simp add: vault_lookup_def)
  have in_L: "m \<in> set ?L \<longleftrightarrow> vault_lookup v (fst m) = Some (snd m)" for m
    using dist unfolding set_L vault_lookup_def by (cases m) simp
  have lenx: "length xs = length ts" using look by (auto dest: list_all2_lengthD)
  have look_nth: "vault_lookup v (ts ! i) = Some (xs ! i)" if "i < length ts" for i
    using look that by (simp add: list_all2_conv_all_nth)
  have slots: "fst ` set ?ps = Held ` set ts" using len map_fst_zip [of "map Held ts" gs] by (metis length_map list.set_map)
  have snds: "map snd ?ps = gs" using len by simp
  have "fst (fold put_back ?L (g @ slots_text ?ps, 0)) = g @ slots_text (map (\<lambda>(u, g). (fill_all ?L u, g)) ?ps)"
  proof (rule fold_put_back [OF longest_first_sorted])
    show "\<forall>m\<in>set ?L. plain_token (fst m)" using plain in_L by blast
    show "\<forall>t. Held t \<in> fst ` set ?ps \<longrightarrow> t \<in> fst ` set ?L"
    proof (intro allI impI)
      fix t assume "Held t \<in> fst ` set ?ps"
      then obtain i where "i < length ts" "t = ts ! i" unfolding slots by (auto simp: in_set_conv_nth)
      then have "(t, xs ! i) \<in> set ?L" unfolding in_L using look_nth by simp
      then show "t \<in> fst ` set ?L" by (rule image_eqI [rotated]) simp
    qed
    show "\<forall>x. Filled x \<in> fst ` set ?ps \<longrightarrow> CHR ''_'' \<notin> set x" unfolding slots by blast
    show "\<forall>m\<in>set ?L. Held (fst m) \<in> fst ` set ?ps \<longrightarrow> CHR ''_'' \<notin> set (snd m)"
    proof (intro ballI impI)
      fix m assume m: "m \<in> set ?L" "Held (fst m) \<in> fst ` set ?ps"
      then obtain i where "i < length ts" "fst m = ts ! i" unfolding slots by (auto simp: in_set_conv_nth)
      then have "snd m = xs ! i" "i < length xs" using m(1) look_nth lenx unfolding in_L by simp_all
      then show "CHR ''_'' \<notin> set (snd m)" using vals by simp
    qed
    show "text_spaced g (map snd ?ps)" using sp snds by simp
  qed
  also have "map (\<lambda>(u, g). (fill_all ?L u, g)) ?ps = zip (map Filled xs) gs"
    using look_nth len lenx by (intro nth_equalityI) (auto simp: fill_all_def map_L)
  finally have "fst (fold put_back ?L (weave g ts gs, 0)) = weave g xs gs"
    using weave_slots [of "map Held ts" gs g] weave_slots [of "map Filled xs" gs g] len lenx by (simp add: comp_def)
  then show ?thesis by (simp add: rehydrate_def case_prod_unfold Let_def)
qed

section \<open>Masking and putting back\<close>

definition plain_category :: "text_lib \<Rightarrow> entity_category \<Rightarrow> bool" where
  "plain_category E c \<longleftrightarrow> category_prefix E c \<noteq> [] \<and> list_all is_ascii_uppercase (category_prefix E c)"

text \<open>A vault without a resolver, with the tokens of plain categories only.\<close>

definition plain_vault :: "vault \<Rightarrow> bool" where
  "plain_vault v \<longleftrightarrow> exact_vault v \<and> (\<forall>t x. vault_lookup v t = Some x \<longrightarrow> plain_token t)"

definition plain_room :: "text_lib \<Rightarrow> vault \<Rightarrow> entity_category \<Rightarrow> nat \<Rightarrow> bool" where
  "plain_room E v c n \<longleftrightarrow> vault_room E v c n \<and> plain_category E c"

lemma empty_vault_plain: "plain_vault (empty_vault path key)"
  using empty_vault_exact by (simp add: plain_vault_def empty_vault_def vault_lookup_def)

lemma get_or_create_plain:
  assumes ok: "plain_vault v" and room: "plain_room E v c (Suc m)" and get: "get_or_create E ord v x c = (v', t)"
  shows "plain_vault v'"
proof -
  have v: "exact_vault v" "va_resolver v = None" using ok by (simp_all add: plain_vault_def exact_vault_def)
  have "exact_vault v'" by (rule get_or_create_exact [OF v(1) _ get]) (use room in \<open>auto simp: plain_room_def\<close>)
  moreover have "plain_token s" if "vault_lookup v' s = Some y" for s y
    using v(2) get
  proof (cases rule: get_or_create_plain_cases)
    case same
    then show ?thesis using that ok by (simp add: plain_vault_def)
  next
    case (fresh w n)
    then show ?thesis using that ok room
      by (auto simp: plain_vault_def plain_room_def plain_category_def plain_token_def bump_facts(2) [OF fresh(2)] split: if_splits)
  qed
  ultimately show ?thesis by (auto simp: plain_vault_def)
qed

interpretation plain_vault: reversible_vault "get_or_create E ord" known_to vault_lookup plain_vault "plain_room E"
proof
  show "plain_vault v'" if "plain_vault v" "plain_room E v c (Suc n)" "get_or_create E ord v x c = (v', t)" for v c n x v' t
    using that by (rule get_or_create_plain)
  show "plain_room E v' d n" if "plain_room E v d (Suc n)" "get_or_create E ord v x c = (v', t)" for v d n x c v' t
    using that file_vault.get_room by (auto simp: plain_room_def)
  show "\<exists>y. vault_lookup v (pt_token t) = Some y \<and> known_to v y = Some t" if "plain_vault v" "known_to v x = Some t" for v x t
    using that by (auto simp: plain_vault_def exact_vault_def)
qed

lemma mask_round_trip:
  assumes v: "plain_vault v" and placed: "well_placed s 0 es"
    and room: "\<forall>e\<in>set es. plain_room E v (en_category e) (length es)"
    and apart: "text_spaced (fst (gaps s 0 es)) (snd (gaps s 0 es))" "\<forall>e\<in>set es. CHR ''_'' \<notin> set (en_original e)"
    and masked: "pseudonymize E ord s es v = Some (out, v')"
    and perm: "mset (ord' (va_reverse v')) = mset (va_reverse v')"
  shows "rt_text (rehydrate ord' (ps_text out) v') = s"
proof -
  obtain w ts where g: "get_all (get_or_create E ord) v (requests es) = (w, ts)" by fastforce
  have text_out: "ps_text out = weave (fst (gaps s 0 es)) (map pt_token ts) (snd (gaps s 0 es))" and w: "v' = w"
    using pseudonymize_by_total [OF placed g] masked by (auto simp: pseudonymize_def)
  have plain: "plain_vault w"
    using plain_vault.get_all_ok [OF v g] room by (auto simp: requests_def)
  have len: "length ts = length es" using file_vault.get_all_length [OF g] by (simp add: requests_def)
  have "known_to w (en_original (es ! i)) = Some (ts ! i)" if "i < length es" for i
    using file_vault.get_all_known [OF g, of i] that by (simp add: requests_def)
  then have look: "list_all2 (\<lambda>t x. vault_lookup w t = Some x) (map pt_token ts) (map en_original es)"
    using plain len by (auto simp: list_all2_conv_all_nth plain_vault_def exact_vault_def)
  have "rt_text (rehydrate ord' (ps_text out) v') = weave (fst (gaps s 0 es)) (map en_original es) (snd (gaps s 0 es))"
    unfolding text_out w
    by (rule rehydrate_weave [OF _ _ _ look]) (use plain apart perm len w in \<open>auto simp: plain_vault_def exact_vault_def length_gaps\<close>)
  then show ?thesis using weave_gaps [OF placed] by simp
qed

end
