(* ===== verification/Pii_Proxy.thy ===== *)
theory Pii_Proxy
  imports Pii_Session Pii_Rehydrate
begin

text \<open>
  The request and response path of the LLM proxy (\<open>crates/cloakpipe-proxy/src/handlers.rs\<close>): masking the messages of a
  request with the detector, the session and the vault, forwarding it, and scanning and rehydrating the response.
  The detector, the upstream service and the JSON text codec are fields of \<open>proxy_env\<close>; the audit log and telemetry,
  whose results the code drops, are left out.
\<close>

datatype proxy_error = DetectFailed | Panicked | UpstreamFailed | UpstreamJson

record proxy_env =
  px_lib :: text_lib
  px_detect :: "string \<Rightarrow> detected_entity list option"
  px_upstream :: "json \<Rightarrow> (nat \<times> string) option"
  px_parse :: "string \<Rightarrow> json option"
  px_digit :: "string \<Rightarrow> bool"
  px_forward_order :: hash_order
  px_reverse_order :: reverse_order
  px_session_order :: entity_order

record proxy_state =
  py_vault :: vault
  py_sessions :: session_manager

definition extract_session_id :: "(string \<Rightarrow> string option) \<Rightarrow> string \<Rightarrow> string \<Rightarrow> string option" where
  "extract_session_id headers id_from fresh_uuid =
    (case strip_prefix ''header:'' id_from of
       Some name \<Rightarrow> headers name
     | None \<Rightarrow> if id_from = ''connection'' then Some fresh_uuid else None)"

section \<open>Masking a request\<close>

definition overlaps :: "detected_entity \<Rightarrow> detected_entity \<Rightarrow> bool" where
  "overlaps c e \<longleftrightarrow> en_start c < en_end e \<and> en_start e < en_end c"

text \<open>The coreferences that overlap no entity are appended; their tokens are kept by the index they were pushed at.\<close>

fun add_corefs :: "coref list \<Rightarrow> detected_entity list \<Rightarrow> (nat \<times> pseudo_token) list \<Rightarrow> detected_entity list \<times> (nat \<times> pseudo_token) list" where
  "add_corefs [] es ts = (es, ts)"
| "add_corefs ((c, t) # cs) es ts =
     (if list_ex (overlaps c) es then add_corefs cs es ts else add_corefs cs (es @ [c]) (ts @ [(length es, t)]))"

fun tokens_for_session :: "(vault \<Rightarrow> string \<Rightarrow> entity_category \<Rightarrow> vault \<times> pseudo_token) \<Rightarrow> (nat \<times> pseudo_token) list
    \<Rightarrow> nat \<Rightarrow> detected_entity list \<Rightarrow> vault \<Rightarrow> vault \<times> pseudo_token list" where
  "tokens_for_session get cts i [] v = (v, [])"
| "tokens_for_session get cts i (e # es) v =
     (let (v', t) = (case map_of cts i of Some t \<Rightarrow> (v, t) | None \<Rightarrow> get v (en_original e) (en_category e));
          (v'', ts) = tokens_for_session get cts (Suc i) es v'
      in (v'', t # ts))"

definition session_corefs :: "proxy_env \<Rightarrow> string option \<Rightarrow> string \<Rightarrow> session_manager \<Rightarrow> proxy_error + coref list" where
  "session_corefs W sid content m =
    (case sid of
       None \<Rightarrow> Ok []
     | Some i \<Rightarrow> (case with_session_ref m i (\<lambda>ctx. resolve_coreferences (px_lib W) (px_session_order W) ctx content) of
         None \<Rightarrow> Ok []
       | Some None \<Rightarrow> Err Panicked
       | Some (Some cs) \<Rightarrow> Ok cs))"

definition mask_content :: "proxy_env \<Rightarrow> int \<Rightarrow> string option \<Rightarrow> string \<Rightarrow> proxy_state \<Rightarrow> proxy_error + (string option \<times> nat \<times> proxy_state)" where
  "mask_content W now sid content st =
    (let st = (case sid of None \<Rightarrow> st
         | Some i \<Rightarrow> st\<lparr>py_sessions := fst (with_session (py_sessions st) i (\<lambda>ctx. check_sensitivity (px_lib W) ctx content))\<rparr>) in
     rbind (ok_or DetectFailed (px_detect W content)) (\<lambda>detected.
     rbind (session_corefs W sid content (py_sessions st)) (\<lambda>corefs.
     let (entities, coref_tokens) = add_corefs corefs detected [] in
     if entities = [] then Ok (None, 0, st)
     else
       let entities = sort_key en_start entities; get = get_or_create (px_lib W) (px_forward_order W) in
       rbind (ok_or Panicked (pseudonymize (px_lib W) (px_forward_order W) content entities (py_vault st))) (\<lambda>(result, v).
       let (v', tokens) = tokens_for_session get coref_tokens 0 entities v;
           m = (case sid of None \<Rightarrow> py_sessions st
             | Some i \<Rightarrow> fst (with_session (py_sessions st) i (\<lambda>ctx.
                 (record_entities (px_lib W) (px_session_order W) ctx entities tokens now, ()))))
       in Ok (Some (ps_text result), length entities, \<lparr>py_vault = v', py_sessions = m\<rparr>)))))"

definition message_content :: "json \<Rightarrow> string option" where
  "message_content msg = Option.bind (json_get msg ''content'') as_str"

fun mask_messages :: "proxy_env \<Rightarrow> int \<Rightarrow> string option \<Rightarrow> json list \<Rightarrow> proxy_state \<Rightarrow> proxy_error + (json list \<times> nat \<times> proxy_state)" where
  "mask_messages W now sid [] st = Ok ([], 0, st)"
| "mask_messages W now sid (msg # msgs) st =
     (case message_content msg of
        None \<Rightarrow> rbind (mask_messages W now sid msgs st) (\<lambda>(ms, n, st'). Ok (msg # ms, n, st'))
      | Some content \<Rightarrow>
        rbind (mask_content W now sid content st) (\<lambda>(masked, k, st').
        rbind (mask_messages W now sid msgs st') (\<lambda>(ms, n, st'').
        Ok ((case masked of None \<Rightarrow> msg | Some s \<Rightarrow> put_member ''content'' (JString s) msg) # ms, k + n, st''))))"

definition pseudonymize_messages :: "proxy_env \<Rightarrow> int \<Rightarrow> json \<Rightarrow> string option \<Rightarrow> proxy_state \<Rightarrow> proxy_error + (json \<times> nat \<times> proxy_state)" where
  "pseudonymize_messages W now body sid st =
    (case Option.bind (json_get body ''messages'') as_array of
       None \<Rightarrow> Ok (body, 0, st)
     | Some msgs \<Rightarrow> rbind (mask_messages W now sid msgs st) (\<lambda>(ms, n, st').
         Ok (with_member ''messages'' (\<lambda>_. JArray ms) body, n, st')))"

definition mask_input :: "proxy_env \<Rightarrow> string \<Rightarrow> proxy_state \<Rightarrow> proxy_error + (string option \<times> nat \<times> proxy_state)" where
  "mask_input W s st =
    rbind (ok_or DetectFailed (px_detect W s)) (\<lambda>entities.
    if entities = [] then Ok (None, 0, st)
    else rbind (ok_or Panicked (pseudonymize (px_lib W) (px_forward_order W) s entities (py_vault st))) (\<lambda>(result, v).
      Ok (Some (ps_text result), length entities, st\<lparr>py_vault := v\<rparr>)))"

fun mask_inputs :: "proxy_env \<Rightarrow> json list \<Rightarrow> proxy_state \<Rightarrow> proxy_error + (json list \<times> nat \<times> proxy_state)" where
  "mask_inputs W [] st = Ok ([], 0, st)"
| "mask_inputs W (j # js) st =
     (case as_str j of
        None \<Rightarrow> rbind (mask_inputs W js st) (\<lambda>(xs, n, st'). Ok (j # xs, n, st'))
      | Some s \<Rightarrow>
        rbind (mask_input W s st) (\<lambda>(masked, k, st').
        rbind (mask_inputs W js st') (\<lambda>(xs, n, st'').
        Ok ((case masked of None \<Rightarrow> j | Some m \<Rightarrow> JString m) # xs, k + n, st''))))"

definition pseudonymize_embedding_input :: "proxy_env \<Rightarrow> json \<Rightarrow> proxy_state \<Rightarrow> proxy_error + (json \<times> nat \<times> proxy_state)" where
  "pseudonymize_embedding_input W body st =
    (case json_get body ''input'' of
       Some (JString s) \<Rightarrow> rbind (mask_input W s st) (\<lambda>(masked, n, st').
         Ok (case masked of None \<Rightarrow> body | Some m \<Rightarrow> with_member ''input'' (\<lambda>_. JString m) body, n, st'))
     | Some (JArray js) \<Rightarrow> rbind (mask_inputs W js st) (\<lambda>(xs, n, st').
         Ok (with_member ''input'' (\<lambda>_. JArray xs) body, n, st'))
     | _ \<Rightarrow> Ok (body, 0, st))"

section \<open>The response\<close>

definition choice_content :: "json \<Rightarrow> string option" where
  "choice_content choice = Option.bind (json_get choice ''message'') (\<lambda>m. Option.bind (json_get m ''content'') as_str)"

definition set_choice_content :: "string \<Rightarrow> json \<Rightarrow> json" where
  "set_choice_content s = with_member ''message'' (put_member ''content'' (JString s))"

text \<open>\<open>replace_range\<close> panics outside the text and inside a character.\<close>

definition replace_range :: "string \<Rightarrow> nat \<Rightarrow> nat \<Rightarrow> string \<Rightarrow> string option" where
  "replace_range s i j x =
    (if i \<le> j \<and> j \<le> length s \<and> is_char_boundary s i \<and> is_char_boundary s j then Some (take i s @ x @ drop j s) else None)"

fun redact :: "detected_entity list \<Rightarrow> string \<Rightarrow> string option" where
  "redact [] s = Some s"
| "redact (e # es) s = Option.bind (replace_range s (en_start e) (en_end e) ''[REDACTED]'') (redact es)"

definition scan_choice :: "proxy_env \<Rightarrow> vault \<Rightarrow> json \<Rightarrow> proxy_error + (json \<times> nat)" where
  "scan_choice W v choice =
    (case choice_content choice of
       None \<Rightarrow> Ok (choice, 0)
     | Some content \<Rightarrow> (case px_detect W content of
         None \<Rightarrow> Ok (choice, 0)
       | Some found \<Rightarrow>
         let leaked = filter (\<lambda>e. \<not> contains_original v (en_original e)) found in
         if leaked = [] then Ok (choice, 0)
         else rbind (ok_or Panicked (redact (sort_key (\<lambda>e. - int (en_start e)) leaked) content)) (\<lambda>redacted.
           Ok (set_choice_content redacted choice, length leaked))))"

definition rehydrate_choice :: "proxy_env \<Rightarrow> vault \<Rightarrow> json \<Rightarrow> json" where
  "rehydrate_choice W v choice =
    (case choice_content choice of
       None \<Rightarrow> choice
     | Some content \<Rightarrow> set_choice_content (rt_text (rehydrate (px_reverse_order W) content v)) choice)"

definition finish_chat :: "proxy_env \<Rightarrow> vault \<Rightarrow> json \<Rightarrow> proxy_error + (json \<times> nat)" where
  "finish_chat W v resp =
    (case Option.bind (json_get resp ''choices'') as_array of
       None \<Rightarrow> Ok (resp, 0)
     | Some choices \<Rightarrow> rbind (try_map (scan_choice W v) choices) (\<lambda>scanned.
         Ok (with_member ''choices'' (\<lambda>_. JArray (map (rehydrate_choice W v \<circ> fst) scanned)) resp, sum_list (map snd scanned))))"

definition rehydrate_block :: "proxy_env \<Rightarrow> vault \<Rightarrow> json \<Rightarrow> json" where
  "rehydrate_block W v block =
    (case Option.bind (json_get block ''text'') as_str of
       None \<Rightarrow> block
     | Some s \<Rightarrow> put_member ''text'' (JString (rt_text (rehydrate (px_reverse_order W) s v))) block)"

definition finish_anthropic :: "proxy_env \<Rightarrow> vault \<Rightarrow> json \<Rightarrow> json" where
  "finish_anthropic W v resp =
    (case Option.bind (json_get resp ''content'') as_array of
       None \<Rightarrow> resp
     | Some blocks \<Rightarrow> with_member ''content'' (\<lambda>_. JArray (map (rehydrate_block W v) blocks)) resp)"

datatype reply = PassedError nat string | Streamed "sse_event list" | Replied json nat

definition is_streaming :: "json \<Rightarrow> bool" where
  "is_streaming body = (json_get body ''stream'' = Some (JBool True))"

text \<open>A handler: mask, forward, then the error body as it is, the rehydrated stream, or the scanned and
  rehydrated response.\<close>

definition proxy_chat_completions :: "proxy_env \<Rightarrow> (string \<Rightarrow> string option) \<Rightarrow> string \<Rightarrow> int \<Rightarrow> json
    \<Rightarrow> proxy_state \<Rightarrow> proxy_error + (json \<times> reply \<times> proxy_state)" where
  "proxy_chat_completions W headers uuid now body st =
    (let config = sm_config (py_sessions st);
         sid = (if sc_enabled config then extract_session_id headers (sc_id_from config) uuid else None);
         st = (case sid of None \<Rightarrow> st | Some i \<Rightarrow> st\<lparr>py_sessions := fst (session_get_or_create (py_sessions st) i now)\<rparr>) in
     rbind (pseudonymize_messages W now body sid st) (\<lambda>(sent, _, st').
     rbind (ok_or UpstreamFailed (px_upstream W sent)) (\<lambda>(status, answer).
     if \<not> (200 \<le> status \<and> status < 300) then Ok (sent, PassedError status answer, st')
     else if is_streaming body then
       Ok (sent, Streamed (rehydrate_stream (px_parse W) (px_digit W) (px_reverse_order W) (py_vault st') (str_lines answer)), st')
     else rbind (ok_or UpstreamJson (px_parse W answer)) (\<lambda>resp.
       rbind (finish_chat W (py_vault st') resp) (\<lambda>(resp', leaked). Ok (sent, Replied resp' leaked, st'))))))"

definition proxy_anthropic_messages :: "proxy_env \<Rightarrow> int \<Rightarrow> json \<Rightarrow> proxy_state
    \<Rightarrow> proxy_error + (json \<times> reply \<times> proxy_state)" where
  "proxy_anthropic_messages W now body st =
     rbind (pseudonymize_messages W now body None st) (\<lambda>(sent, _, st').
     rbind (ok_or UpstreamFailed (px_upstream W sent)) (\<lambda>(status, answer).
     if \<not> (200 \<le> status \<and> status < 300) then Ok (sent, PassedError status answer, st')
     else if is_streaming body then
       Ok (sent, Streamed (rehydrate_anthropic_stream (px_parse W) (px_digit W) (px_reverse_order W) (py_vault st') (str_lines answer)), st')
     else rbind (ok_or UpstreamJson (px_parse W answer)) (\<lambda>resp.
       Ok (sent, Replied (finish_anthropic W (py_vault st') resp) 0, st'))))"

definition proxy_embeddings :: "proxy_env \<Rightarrow> json \<Rightarrow> proxy_state \<Rightarrow> proxy_error + (json \<times> (nat \<times> string) \<times> proxy_state)" where
  "proxy_embeddings W body st =
     rbind (pseudonymize_embedding_input W body st) (\<lambda>(sent, _, st').
     rbind (ok_or UpstreamFailed (px_upstream W sent)) (\<lambda>answer. Ok (sent, answer, st')))"

definition sessions_flush :: "proxy_state \<Rightarrow> string \<Rightarrow> proxy_state \<times> bool" where
  "sessions_flush st sid = (let (m, flushed) = flush_session (py_sessions st) sid in (st\<lparr>py_sessions := m\<rparr>, flushed))"

definition sessions_flush_all :: "proxy_state \<Rightarrow> proxy_state \<times> nat" where
  "sessions_flush_all st = (let (m, n) = flush_all (py_sessions st) in (st\<lparr>py_sessions := m\<rparr>, n))"

section \<open>What is forwarded\<close>

lemma tokens_without_corefs: "tokens_for_session get [] i es v = get_all get v (requests es)"
  by (induction es arbitrary: i v) (simp_all add: case_prod_unfold Let_def)

text \<open>A message as it is forwarded: text that holds entities is replaced by its gaps woven with tokens, and the
  tokens lead back to the values in the vault.\<close>

definition forwarded_as :: "proxy_env \<Rightarrow> vault \<Rightarrow> json \<Rightarrow> json \<Rightarrow> bool" where
  "forwarded_as W v msg sent \<longleftrightarrow>
    (case message_content msg of
       None \<Rightarrow> sent = msg
     | Some content \<Rightarrow> (case px_detect W content of
         None \<Rightarrow> False
       | Some [] \<Rightarrow> sent = msg
       | Some found \<Rightarrow> \<exists>ts. length ts = length found
           \<and> list_all2 (\<lambda>t e. vault_lookup v t = Some (en_original e)) ts (sort_key en_start found)
           \<and> sent = put_member ''content'' (JString (weave (fst (gaps content 0 (sort_key en_start found))) ts
               (snd (gaps content 0 (sort_key en_start found))))) msg))"

lemma forwarded_same:
  "message_content m = None \<Longrightarrow> forwarded_as W v m m"
  "message_content m = Some content \<Longrightarrow> px_detect W content = Some [] \<Longrightarrow> forwarded_as W v m m"
  by (simp_all add: forwarded_as_def)

lemma forwarded_masked:
  assumes "message_content m = Some content" "px_detect W content = Some fs" "fs \<noteq> []" "length ts = length fs"
    and "list_all2 (\<lambda>t e. vault_lookup v t = Some (en_original e)) ts (sort_key en_start fs)"
    and "sent = put_member ''content'' (JString (weave (fst (gaps content 0 (sort_key en_start fs))) ts
      (snd (gaps content 0 (sort_key en_start fs))))) m"
  shows "forwarded_as W v m sent"
proof (cases fs)
  case (Cons a l)
  show ?thesis unfolding forwarded_as_def assms(1,2) option.case Cons list.case using assms(4-6) unfolding Cons by blast
qed (use assms(3) in simp)

definition all_found :: "proxy_env \<Rightarrow> json list \<Rightarrow> detected_entity list" where
  "all_found W msgs = concat (map (\<lambda>m. case Option.bind (message_content m) (px_detect W) of None \<Rightarrow> [] | Some es \<Rightarrow> es) msgs)"

definition detects_well :: "proxy_env \<Rightarrow> json \<Rightarrow> bool" where
  "detects_well W msg \<longleftrightarrow> (\<forall>content. message_content msg = Some content \<longrightarrow>
     (\<exists>es. px_detect W content = Some es \<and> well_placed content 0 (sort_key en_start es)))"

definition proxy_room :: "proxy_env \<Rightarrow> vault \<Rightarrow> detected_entity list \<Rightarrow> bool" where
  "proxy_room W v es \<longleftrightarrow> (\<forall>e\<in>set es. vault_room (px_lib W) v (en_category e) (length es))"

lemma mask_content_plain:
  assumes es: "px_detect W content = Some es" and placed: "well_placed content 0 (sort_key en_start es)" and ne: "es \<noteq> []"
    and g: "get_all (get_or_create (px_lib W) (px_forward_order W)) (py_vault st) (requests (sort_key en_start es)) = (v', ts)"
  shows "mask_content W now None content st = Ok (Some (weave (fst (gaps content 0 (sort_key en_start es))) (map pt_token ts)
    (snd (gaps content 0 (sort_key en_start es)))), length es, st\<lparr>py_vault := v'\<rparr>)"
proof -
  obtain maps where "pseudonymize (px_lib W) (px_forward_order W) content (sort_key en_start es) (py_vault st) =
      Some (\<lparr>ps_text = weave (fst (gaps content 0 (sort_key en_start es))) (map pt_token ts) (snd (gaps content 0 (sort_key en_start es))),
        ps_mappings = maps, ps_entities = sort_key en_start es\<rparr>, v')"
    using pseudonymize_by_total [OF placed g] unfolding pseudonymize_def by blast
  then show ?thesis using es ne file_vault.get_all_again [OF g]
    by (simp add: mask_content_def session_corefs_def tokens_without_corefs Let_def)
qed

lemma get_all_room:
  assumes "get_all (get_or_create E ord) v rs = (v', ts)" "vault_room E v c (length rs + n)"
  shows "vault_room E v' c n"
  using assms
proof (induction rs arbitrary: v ts)
  case (Cons r rs)
  obtain x d where r: "r = (x, d)" by (cases r)
  obtain w t where g: "get_or_create E ord v x d = (w, t)" by fastforce
  obtain ts' where "get_all (get_or_create E ord) w rs = (v', ts')" using Cons(2) by (auto simp: r g split: prod.splits)
  moreover have "vault_room E w c (length rs + n)" using file_vault.get_room [OF _ g] Cons(3) by simp
  ultimately show ?case using Cons(1) by blast
qed simp

lemma lookup_kept:
  assumes "exact_vault v" "exact_vault v'" "get_all (get_or_create E ord) v rs = (v', ts)" "vault_lookup v t = Some x"
  shows "vault_lookup v' t = Some x"
proof -
  obtain u where u: "known_to v x = Some u" "pt_token u = t" using assms(1,4) unfolding exact_vault_def vault_ok_def by blast
  then show ?thesis using file_vault.get_all_keeps [OF assms(3) u(1)] assms(2) unfolding exact_vault_def by blast
qed

lemma mask_messages_forwards:
  assumes "exact_vault (py_vault st)" "\<forall>m\<in>set msgs. detects_well W m" "proxy_room W (py_vault st) (all_found W msgs)"
  shows "\<exists>sent st'. mask_messages W now None msgs st = Ok (sent, length (all_found W msgs), st')
    \<and> exact_vault (py_vault st') \<and> list_all2 (forwarded_as W (py_vault st')) msgs sent
    \<and> (\<forall>t x. vault_lookup (py_vault st) t = Some x \<longrightarrow> vault_lookup (py_vault st') t = Some x)"
  using assms
proof (induction msgs arbitrary: st)
  case Nil
  then show ?case by (simp add: all_found_def)
next
  case (Cons m msgs)
  let ?get = "get_or_create (px_lib W) (px_forward_order W)"
  define found where "found = (case Option.bind (message_content m) (px_detect W) of None \<Rightarrow> [] | Some es \<Rightarrow> es)"
  have all: "all_found W (m # msgs) = found @ all_found W msgs" by (simp add: all_found_def found_def)
  define es where "es = sort_key en_start found"
  obtain v ts where g: "get_all ?get (py_vault st) (requests es) = (v, ts)" by fastforce
  have len: "length es = length found" "set es = set found" "length ts = length found" "length (requests es) = length found"
    using file_vault.get_all_length [OF g] by (simp_all add: es_def requests_def)
  have room1: "\<forall>e\<in>set found. vault_room (px_lib W) (py_vault st) (en_category e) (length (requests es))"
  proof
    fix e assume "e \<in> set found"
    then have "vault_room (px_lib W) (py_vault st) (en_category e) (length found + length (all_found W msgs))"
      using Cons(4) by (simp add: proxy_room_def all)
    then show "vault_room (px_lib W) (py_vault st) (en_category e) (length (requests es))" by (simp add: vault_room_def len(4))
  qed
  have room2: "\<forall>e\<in>set (all_found W msgs). vault_room (px_lib W) (py_vault st) (en_category e) (length (requests es) + length (all_found W msgs))"
    using Cons(4) len(4) unfolding proxy_room_def all vault_room_def by simp
  have v: "exact_vault v" by (rule exact.get_all_ok [OF Cons(2) g]) (use room1 len in \<open>auto simp: requests_def\<close>)
  have "proxy_room W v (all_found W msgs)" unfolding proxy_room_def using get_all_room [OF g] room2 by blast
  then obtain sent st' where rest: "mask_messages W now None msgs (st\<lparr>py_vault := v\<rparr>) = Ok (sent, length (all_found W msgs), st')"
      "exact_vault (py_vault st')" "list_all2 (forwarded_as W (py_vault st')) msgs sent"
      and kept: "\<And>t x. vault_lookup v t = Some x \<Longrightarrow> vault_lookup (py_vault st') t = Some x"
    using Cons(1) [of "st\<lparr>py_vault := v\<rparr>"] Cons(3) v by auto
  have old: "vault_lookup (py_vault st') t = Some x" if "vault_lookup (py_vault st) t = Some x" for t x
    using kept lookup_kept [OF Cons(2) v g that] by blast
  have leads_back: "list_all2 (\<lambda>t e. vault_lookup (py_vault st') t = Some (en_original e)) (map pt_token ts) es"
  proof -
    have "known_to v (en_original (es ! i)) = Some (ts ! i)" if "i < length es" for i
      using file_vault.get_all_known [OF g, of i] that by (simp add: requests_def)
    then have "vault_lookup v (pt_token (ts ! i)) = Some (en_original (es ! i))" if "i < length es" for i
      using v that unfolding exact_vault_def by blast
    then show ?thesis using kept len by (auto simp: list_all2_conv_all_nth)
  qed
  show ?case
  proof (cases "message_content m")
    case None
    then have "found = []" "es = []" by (simp_all add: found_def es_def)
    then have "v = py_vault st" using g by simp
    then show ?thesis using rest old forwarded_same(1) [OF None] by (auto simp: all \<open>found = []\<close> None)
  next
    case (Some content)
    obtain fs where fs: "px_detect W content = Some fs" "well_placed content 0 (sort_key en_start fs)"
      using Cons(3) Some by (auto simp: detects_well_def)
    then have found: "found = fs" by (simp add: found_def Some)
    show ?thesis
    proof (cases "fs = []")
      case True
      then have "v = py_vault st" using g by (simp add: es_def found)
      then show ?thesis using rest old forwarded_same(2) [OF Some] fs(1) True
        by (auto simp: all found Some mask_content_def session_corefs_def Let_def)
    next
      case False
      have "mask_content W now None content st = Ok (Some (weave (fst (gaps content 0 es)) (map pt_token ts) (snd (gaps content 0 es))),
          length fs, st\<lparr>py_vault := v\<rparr>)"
        using mask_content_plain [OF fs False, of st v ts now] g by (simp add: es_def found)
      moreover have "forwarded_as W (py_vault st') m
          (put_member ''content'' (JString (weave (fst (gaps content 0 es)) (map pt_token ts) (snd (gaps content 0 es)))) m)"
        by (rule forwarded_masked [OF Some fs(1) False, of "map pt_token ts"]) (use leads_back len(3) in \<open>simp_all add: es_def found\<close>)
      ultimately show ?thesis using rest old Some by (auto simp: all found)
    qed
  qed
qed


text \<open>The index of a coreference is taken before the entities are sorted. With Ana in the session, the message
  \<open>he met Bob\<close> makes the session remember Bob under the token of Ana, and the pronoun is masked as a third person.\<close>

definition shift_env :: proxy_env where
  "shift_env = \<lparr>px_lib = dotted_lib,
     px_detect = (\<lambda>s. Some (if s = ''he met Bob'' then [\<lparr>en_original = ''Bob'', en_start = 7, en_end = 10, en_category = Person,
       en_confidence = 1, en_source = PatternSource\<rparr>] else [])),
     px_upstream = (\<lambda>_. None), px_parse = (\<lambda>_. None), px_digit = (\<lambda>_. False),
     px_forward_order = (\<lambda>m. m), px_reverse_order = (\<lambda>m. m), px_session_order = (\<lambda>m. m)\<rparr>"

definition shift_state :: proxy_state where
  "shift_state = \<lparr>py_vault = \<lparr>va_forward = [(''Ana'', \<lparr>pt_token = ''PERSON_1'', pt_category = Person, pt_id = 1\<rparr>)],
     va_reverse = [(''PERSON_1'', ''Ana'')], va_counters = [(''PERSON'', 1)], va_path = None, va_key = [], va_resolver = None\<rparr>,
   py_sessions = \<lparr>sm_sessions = [(''s'', ana_session)], sm_config = default_session_config\<rparr>\<rparr>"

lemma shift_corefs: "session_corefs shift_env (Some ''s'') ''he met Bob'' (py_sessions shift_state) =
  Ok [(\<lparr>en_original = ''he'', en_start = 0, en_end = 2, en_category = Person, en_confidence = 7 / 10, en_source = PatternSource\<rparr>,
    \<lparr>pt_token = ''PERSON_1'', pt_category = Person, pt_id = 1\<rparr>)]"
  by code_simp


lemma coref_index_shifts:
  fixes bob he :: detected_entity and ana :: pseudo_token
  assumes "en_start he < en_start bob" "\<not> overlaps he bob" "add_corefs [(he, ana)] [bob] [] = (es, cts)"
  shows "sort_key en_start es = [he, bob]" "snd (tokens_for_session get cts 0 (sort_key en_start es) v) ! 1 = ana"
  using assms by (auto simp: case_prod_unfold Let_def)

end
