(* ===== verification/Pii_Samples.thy ===== *)
theory Pii_Samples
  imports Evidence_Samples Pii_Proxy
begin

text \<open>
  Concrete vaults, texts and streams for the properties of the privacy core, and three places where its code mixes
  values up, by evaluation.
\<close>

section \<open>A vault and two documents\<close>

definition ascii_upper :: "string \<Rightarrow> string" where
  "ascii_upper s = map (\<lambda>c. if is_ascii_lowercase c then char_of (byte_of c - 32) else c) s"

definition sample_lib :: text_lib where
  "sample_lib = \<lparr>tl_lower = to_ascii_lowercase, tl_upper = ascii_upper, tl_trim = (\<lambda>s. s),
     tl_jaro_winkler = (\<lambda>a b. if a = b then 1 else 0), tl_add = (+)\<rparr>"

definition found :: "string \<Rightarrow> nat \<Rightarrow> entity_category \<Rightarrow> detected_entity" where
  "found x i c = \<lparr>en_original = x, en_start = i, en_end = i + length x, en_category = c, en_confidence = 1, en_source = PatternSource\<rparr>"

definition call_bob :: "detected_entity list" where
  "call_bob = [found ''Bob'' 5 Person, found ''ACME'' 12 Organization]"

definition call_eve :: "detected_entity list" where
  "call_eve = [found ''Eve'' 5 Person, found ''Widgets'' 12 Organization]"

definition fresh_vault :: vault where
  "fresh_vault = empty_vault (Some ''v'') (replicate 32 (CHR 0x00))"

lemma category_prefix_sample [simp]: "plain_category E Person" "plain_category E Organization"
  by (simp_all add: plain_category_def is_ascii_uppercase_def)

lemma fresh_vault_room: "vault_room E fresh_vault c n \<longleftrightarrow> n < 2 ^ 32"
  by (simp add: vault_room_def fresh_vault_def empty_vault_def counter_of_def)

lemma fresh_vault_plain: "plain_vault fresh_vault" "exact_vault fresh_vault"
  by (simp_all add: fresh_vault_def empty_vault_plain empty_vault_exact)

lemma show_one: "show_nat (Suc 0) = ''1''"
  by code_simp

lemma call_bob_placed: "well_placed ''Call Bob at ACME.'' 0 call_bob" by code_simp
lemma call_eve_placed: "well_placed ''Call Eve at Widgets.'' 0 call_eve" by code_simp

lemma call_bob_gaps: "gaps ''Call Bob at ACME.'' 0 call_bob = (''Call '', ['' at '', ''.''])"
  "gaps ''Call Eve at Widgets.'' 0 call_eve = (''Call '', ['' at '', ''.''])" by code_simp+

lemma call_bob_spaced: "text_spaced ''Call '' ['' at '', ''.'']" by code_simp

lemma call_bob_masked: "map_option (\<lambda>r. ps_text (fst r)) (pseudonymize sample_lib (\<lambda>m. m) ''Call Bob at ACME.'' call_bob fresh_vault)
   = Some ''Call PERSON_1 at ORG_1.''"
  by (simp add: pseudonymize_def pseudonymize_by_def call_bob_def found_def get_or_create_def known_token_def bump_def
    store_token_def fresh_vault_def empty_vault_def str_slice_def is_char_boundary_def slice_def is_utf8_continuation_def
    Let_def show_one)

definition bob_vault :: vault where
  "bob_vault = fst (get_or_create sample_lib (\<lambda>m. m) fresh_vault ''Bob'' Person)"

definition sample_io :: vault_io where
  "sample_io = \<lparr>vi_seal = (\<lambda>key nonce p. key @ p), vi_unseal = (\<lambda>key nonce c. strip_prefix key c),
     vi_to_vec = (\<lambda>d. ''{}''), vi_from_slice = (\<lambda>b. Some (to_vault_data (\<lambda>m. m) bob_vault))\<rparr>"

lemma bob_vault_eq: "bob_vault = \<lparr>va_forward = [(''Bob'', \<lparr>pt_token = ''PERSON_1'', pt_category = Person, pt_id = 1\<rparr>)],
    va_reverse = [(''PERSON_1'', ''Bob'')], va_counters = [(''PERSON'', 1)], va_path = Some ''v'',
    va_key = replicate 32 (CHR 0x00), va_resolver = None\<rparr>"
  by (simp add: bob_vault_def get_or_create_def known_token_def bump_def store_token_def fresh_vault_def empty_vault_def Let_def show_one)

lemma bob_vault_exact: "exact_vault bob_vault"
  unfolding bob_vault_def by (rule get_or_create_exact [OF fresh_vault_plain(2), of sample_lib Person 0 "\<lambda>m. m" "''Bob''"])
    (simp add: fresh_vault_room, rule prod.collapse [symmetric])

definition split_chunks :: "string list list" where
  "split_chunks = map (map (\<lambda>c. [c])) [''Ask PER'', ''SON'', ''_'', ''1 now. ORG'', ''_1'']"

definition ascii_digits :: "string \<Rightarrow> bool" where
  "ascii_digits c = (case c of [b] \<Rightarrow> is_ascii_digit b | _ \<Rightarrow> False)"

lemma ascii_digits_class: "digit_class ascii_digits"
  by (auto simp: digit_class_def ascii_digits_def is_upper_def is_ascii_digit_def is_ascii_uppercase_def split: list.splits)

lemma split_stream: "stream_text ascii_digits (\<lambda>m. m) bob_vault split_chunks = ''Ask Bob now. ORG_1''"
  unfolding bob_vault_eq by code_simp

section \<open>Where values are mixed up\<close>

text \<open>A value directly followed by a digit: the masked text of \<open>Bob2\<close> reads like the token of another person.\<close>

definition twelve_people :: vault where
  "twelve_people = bob_vault\<lparr>va_forward := va_forward bob_vault @ [(''Eve'', \<lparr>pt_token = ''PERSON_12'', pt_category = Person, pt_id = 12\<rparr>)],
     va_reverse := va_reverse bob_vault @ [(''PERSON_12'', ''Eve'')]\<rparr>"

lemma digit_after_token:
  "map_option (\<lambda>r. rt_text (rehydrate (\<lambda>m. m) (ps_text (fst r)) (snd r)))
     (pseudonymize sample_lib (\<lambda>m. m) ''Bob2'' [found ''Bob'' 0 Person] twelve_people) = Some ''Eve''"
  unfolding twelve_people_def bob_vault_eq by code_simp

text \<open>An alias shares the token of its canonical form; after a restart the token leads to whichever of the two
  the hash map listed last.\<close>

definition aliased_vault :: vault where
  "aliased_vault = bob_vault\<lparr>va_forward := va_forward bob_vault @ [(''Bobby'', \<lparr>pt_token = ''PERSON_1'', pt_category = Person, pt_id = 1\<rparr>)]\<rparr>"

lemma alias_after_restart:
  "vault_lookup aliased_vault ''PERSON_1'' = Some ''Bob''"
  "map_of (snd (fold load_entry (vd_forward (to_vault_data (\<lambda>m. m) aliased_vault)) ([], []))) ''PERSON_1'' = Some ''Bobby''"
  "map_of (snd (fold load_entry (vd_forward (to_vault_data rev aliased_vault)) ([], []))) ''PERSON_1'' = Some ''Bob''"
  unfolding aliased_vault_def bob_vault_eq by code_simp+

text \<open>The fakes of short secrets repeat after 34 of them, and the later value takes over the fake of the earlier one.\<close>

lemma fp_secret_collision: "generate E ''sk-a'' Secret 1 = generate E ''sk-b'' Secret 35"
  by (simp add: generate_def fake_secret_def secret_alphabet_def starts_with_iff)

lemma fp_collision_overwrites:
  assumes "va_resolver v = None" "known_to v ''sk-b'' = None" "counter_of v ''SECRET'' = 34"
    and "known_to v ''sk-a'' = Some t" "pt_token t = generate E ''sk-a'' Secret 1"
  shows "vault_lookup (fst (get_or_create_fp E ord v ''sk-b'' Secret)) (pt_token t) = Some ''sk-b''"
  using assms fp_secret_collision [of E]
  by (simp add: get_or_create_fp_def known_token_plain Let_def bump_def counter_of_def split: option.splits)

section \<open>A request and a session\<close>

definition sample_proxy :: proxy_env where
  "sample_proxy = \<lparr>px_lib = sample_lib, px_detect = (\<lambda>s. Some (if s = ''Call Bob at ACME.'' then call_bob else [])),
     px_upstream = (\<lambda>_. None), px_parse = (\<lambda>_. None), px_digit = ascii_digits,
     px_forward_order = (\<lambda>m. m), px_reverse_order = (\<lambda>m. m), px_session_order = (\<lambda>m. m)\<rparr>"

definition fresh_state :: proxy_state where
  "fresh_state = \<lparr>py_vault = fresh_vault, py_sessions = manager_new default_session_config\<rparr>"

definition bob_message :: json where
  "bob_message = JObject [(''content'', JString ''Call Bob at ACME.''), (''role'', JString ''user'')]"

lemma bob_message_found: "all_found sample_proxy [bob_message] = call_bob"
  by (simp add: all_found_def bob_message_def message_content_def json_get_def sample_proxy_def)

lemma call_bob_sorted: "sort_key en_start call_bob = call_bob"
  by (simp add: call_bob_def found_def)

lemma bob_message_detected: "detects_well sample_proxy bob_message"
  using call_bob_placed by (simp add: detects_well_def bob_message_def message_content_def json_get_def sample_proxy_def call_bob_sorted)

lemma fresh_state_room: "proxy_room sample_proxy (py_vault fresh_state) call_bob"
  by (simp add: proxy_room_def fresh_state_def fresh_vault_room call_bob_def)

lemma sample_ascii_case: "ascii_case sample_lib"
proof -
  have "ascii (ascii_upper s)" if "ascii s" for s
  proof -
    have "byte_of (char_of (byte_of c - 32 :: nat) :: char) < 128" if "is_ascii_lowercase c" for c
    proof -
      have "byte_of c - 32 < (128 :: nat)" using that unfolding is_ascii_lowercase_def by linarith
      then show ?thesis using byte_of_char_of [of "byte_of c - 32"] by simp
    qed
    then show ?thesis using that by (auto simp: ascii_def ascii_upper_def list_all_iff)
  qed
  then show ?thesis by (simp add: ascii_case_def sample_lib_def)
qed

definition two_readings :: "coref list" where
  "two_readings = [(found ''Ana'' 0 Person\<lparr>en_confidence := 3 / 4\<rparr>, \<lparr>pt_token = ''PERSON_1'', pt_category = Person, pt_id = 1\<rparr>),
     (found ''Ana'' 0 Person\<lparr>en_confidence := 3 / 5\<rparr>, \<lparr>pt_token = ''PERSON_2'', pt_category = Person, pt_id = 2\<rparr>)]"

end
