(* ===== verification/Relay_Samples.thy ===== *)
theory Relay_Samples
  imports Relay_Calls Samples Evidence_Samples Pii_Samples
begin

text \<open>Concrete gates for the witnesses: one server, one side-effecting tool, an empty ledger.\<close>

definition pay_rule :: tool_rule where
  "pay_rule = \<lparr>tr_side_effect = True, tr_requires_approval = False,
     tr_arguments = [(''to'', Constraint (no_kw\<lparr>c_ty := Some TString\<rparr>) None None)],
     tr_required = [''to''], tr_effect = None, tr_idempotency_key = None, tr_approval = None\<rparr>"

definition pay_release :: string where
  "pay_release = ''sha256:'' @ replicate 64 (CHR ''0'')"

definition pay_gate :: tool_gate where
  "pay_gate = look_gate\<lparr>g_release := pay_release, g_tools := [''pay''], g_rules := [(''pay'', pay_rule)],
     g_contracts_loaded := True, g_task := Some (JObject [(''taskId'', JString ''task-1'')]),
     g_operations := Some \<lparr>os_rows = [], os_key = ''key'', os_gate_lock = True\<rparr>, g_operation_id_key := Some ''key''\<rparr>"

definition pay_args :: json where "pay_args = JObject [(''to'', JString ''bob'')]"

definition pay_message :: json where
  "pay_message = JObject [(''jsonrpc'', JString ''2.0''), (''id'', JNumber (PosInt 7)), (''method'', JString ''tools/call''),
     (''params'', JObject [(''name'', JString ''pay''), (''arguments'', pay_args)])]"

definition pay_result :: json where "pay_result = JObject [(''content'', JArray [])]"

definition pay_reply :: json where
  "pay_reply = JObject [(''jsonrpc'', JString ''2.0''), (''id'', JNumber (PosInt 7)), (''result'', pay_result)]"

definition pay_world :: relay_world where
  "pay_world = \<lparr>yw_gate = sample_world, yw_ledger = sample_ops, yw_records = sample_record_ops,
     yw_parse = (\<lambda>t. if t = ''pay'' then Some pay_message else if t = ''paid'' then Some pay_reply else None), yw_ser = sample_ser,
     yw_lower = (\<lambda>x. x), yw_lib = sample_lib, yw_detect = (\<lambda>_. None), yw_forward_order = (\<lambda>m. m), yw_reverse_order = (\<lambda>m. m),
     yw_pending_order = (\<lambda>m. m), yw_waiting_order = (\<lambda>m. m), yw_job_order = (\<lambda>m. m), yw_now = ''t1'',
     yw_stamp = (0, 0), yw_token_ref = ''tok'', yw_region = ''eu'', yw_tenant = ''tenant'', yw_agent = ''agent'',
     yw_version = ''1'', yw_log_ok = True, yw_begin_ok = True, yw_settle_ok = True, yw_closing = False, yw_submit = (\<lambda>_. Requested)\<rparr>"

definition pay_start :: interceptor where
  "pay_start = \<lparr>ic_gate = Some pay_gate, ic_base = Some (entry_base_of sample_digests passthrough pay_gate), ic_pii = None, ic_hops = None,
     ic_log = Some \<lparr>dl_store = ledger_new, dl_key = ''gate-key''\<rparr>, ic_pending = pending_default, ic_release = None, ic_sinks = False,
     ic_events = [], ic_reports = [], ic_catalog = passthrough, ic_router = None, ic_lists = {}\<rparr>"

lemma pay_start_build:
  "build_relay pay_world (Some pay_gate) None None (Some \<lparr>dl_store = ledger_new, dl_key = ''gate-key''\<rparr>) None False passthrough None = Ok pay_start"
  by (simp add: build_relay_def pay_gate_def look_gate_def gate_ready_def masked_results_def pay_start_def pay_world_def sample_world_def Let_def)

lemma pay_start_fresh: "fresh_store (Some pay_gate)"
proof -
  have "recover (op_open None ''key'') True ''t0'' = Ok (\<lparr>os_rows = [], os_key = ''key'', os_gate_lock = True\<rparr>, [])" by code_simp
  moreover have "store_ok (op_open None ''key'')" by (rule store_ok_open) simp
  ultimately show ?thesis by (auto simp: fresh_store_def pay_gate_def)
qed

lemma pay_start_reachable: "relay_reachable pay_start"
  by (rule relay_reachable.start [OF pay_start_build pay_start_fresh])

lemma pay_world_ok: "world_ok pay_world" "drain_order_ok pay_world"
proof -
  have "length (dg_sha256 sample_digests x) = 32" for x by (cases "length x < 32") (simp_all add: sample_digests_def)
  then show "world_ok pay_world" by (simp add: world_ok_def pay_world_def sample_world_def)
qed (simp add: drain_order_ok_def pay_world_def)

section \<open>One call goes through\<close>

lemma pay_release_parses: "hash_parse pay_release = Some (replicate 32 (CHR 0x00))"
  by code_simp

lemma pay_args_pass: "rule_check sample_regex pay_rule (Some pay_args) (Some (JObject [(''taskId'', JString ''task-1'')])) = Ok ()"
  by code_simp

definition pay_fingerprint :: string where
  "pay_fingerprint = fingerprint sample_digests (replicate 32 (CHR 0x00)) ''pay'' pay_args"

definition pay_key :: operation_key where
  "pay_key = \<lparr>ok_operation_id = derive_operation_id sample_digests ''key'' ''task-1'' pay_fingerprint, ok_fingerprint = pay_fingerprint\<rparr>"

lemma pay_gate_simps [simp]:
  "g_tools pay_gate = [''pay'']" "g_contracts_loaded pay_gate" "g_rules pay_gate = [(''pay'', pay_rule)]" "g_mode pay_gate = Enforce"
  "g_task pay_gate = Some (JObject [(''taskId'', JString ''task-1'')])" "g_policy pay_gate = None" "g_policy_source pay_gate = None"
  "g_operation_id_key pay_gate = Some ''key''" "g_release pay_gate = pay_release" "g_broker pay_gate = False"
  "g_operations pay_gate = Some \<lparr>os_rows = [], os_key = ''key'', os_gate_lock = True\<rparr>"
  by (simp_all add: pay_gate_def look_gate_def)

lemma pay_world_simps [simp]:
  "yw_gate pay_world = sample_world" "yw_ledger pay_world = sample_ops" "yw_ser pay_world = sample_ser" "yw_now pay_world = ''t1''"
  "yw_log_ok pay_world" "yw_begin_ok pay_world" "yw_settle_ok pay_world" "\<not> yw_closing pay_world"
  "yw_parse pay_world ''pay'' = Some pay_message" "yw_parse pay_world ''paid'' = Some pay_reply"
  by (simp_all add: pay_world_def)

lemma pay_message_simps [simp]:
  "json_get pay_message ''id'' = Some (JNumber (PosInt 7))" "method_of pay_message = Some ''tools/call''" "tool_of pay_message = ''pay''"
  "arguments_of pay_message = Some pay_args" "json_get pay_message ''method'' = Some (JString ''tools/call'')"
  by code_simp+

lemma seven: "sample_ser (JNumber (PosInt 7)) = ''7''"
proof -
  have "show_nat 7 = [digit_char 7]" by (subst show_nat.simps) simp
  also have "digit_char 7 = CHR ''7''" by code_simp
  finally show ?thesis by simp
qed

lemma pay_request [simp]: "request_id pay_world pay_message = Some ''7''"
  by (simp add: request_id_def non_null_def seven [unfolded sample_ser.simps])

lemma pay_start_simps [simp]:
  "ic_gate pay_start = Some pay_gate" "ic_base pay_start = Some (entry_base_of sample_digests passthrough pay_gate)" "ic_pii pay_start = None"
  "ic_log pay_start = Some \<lparr>dl_store = ledger_new, dl_key = ''gate-key''\<rparr>" "ic_pending pay_start = pending_default"
  "ic_catalog pay_start = passthrough" "ic_router pay_start = None" "\<not> ic_sinks pay_start"
  "operations pay_start = Some \<lparr>os_rows = [], os_key = ''key'', os_gate_lock = True\<rparr>"
  by (simp_all add: pay_start_def operations_def)

lemma pay_authorized:
  "authorize sample_world pay_gate ''pay'' (Some pay_args) ''t1'' = Ok \<lparr>au_approval = None, au_operation = Some pay_key\<rparr>"
  using pay_args_pass
  by (simp add: authorize_def sample_world_def evaluate_policy_def approval_needed_def needs_approval_def pay_rule_def
      gate_operation_key_def pay_release_parses Let_def gate_task_id_def pay_key_def pay_fingerprint_def or_null_def)

lemma pay_screened: "screen pay_world ''pay'' = Ok ()"
  by code_simp

lemma pay_coordinated:
  "coordinate pay_world (Some (JNumber (PosInt 7))) ''pay'' pay_key pay_start =
     (set_pending (pending_default\<lparr>pd_by_request :=
         [(''7'', \<lparr>if_operation_id = ok_operation_id pay_key, if_tool = ''pay'', if_fingerprint = ok_fingerprint pay_key\<rparr>)]\<rparr>)
       (put_operations (\<lparr>os_rows = [(ok_operation_id pay_key, new_row ''pay'' (ok_fingerprint pay_key) ''t1'')], os_key = ''key'', os_gate_lock = True\<rparr>) pay_start),
      CoForward)"
  by (simp add: coordinate_def non_null_def seven [unfolded sample_ser.simps] pending_default_def in_use_def op_begin_def op_get_def start_operation_def Let_def
      put_operations_def)

definition pay_in_flight :: interceptor where
  "pay_in_flight = fst (coordinate pay_world (Some (JNumber (PosInt 7))) ''pay'' pay_key pay_start)"

lemma pay_weighed:
  "weigh_call pay_world pay_gate pay_message pay_start =
     (pay_in_flight, \<lparr>wg_verdict = \<lparr>cv_refusal = None, cv_operation = Some pay_key, cv_approval = None\<rparr>, wg_replay = None,
        wg_started = True, wg_counted = None\<rparr>)"
proof -
  have j: "judge pay_world passthrough pay_gate ''pay'' (Some pay_args) = \<lparr>cv_refusal = None, cv_operation = Some pay_key, cv_approval = None\<rparr>"
    using pay_authorized by (simp add: judge_def gate_declares_def catalog_refuse_def passthrough_def)
  have c: "count_call pay_world pay_gate ''pay'' \<lparr>cv_refusal = None, cv_operation = Some pay_key, cv_approval = None\<rparr> =
      (pay_gate, \<lparr>cv_refusal = None, cv_operation = Some pay_key, cv_approval = None\<rparr>, True, None)"
    by (simp add: count_call_def lets_through_def record_forwarded_def)
  have same: "pay_start\<lparr>ic_gate := Some pay_gate\<rparr> = pay_start" by (simp add: pay_start_def)
  show ?thesis
    by (simp add: weigh_call_def Let_def j c same coordinate_call_def pay_coordinated pay_in_flight_def refused_by_store_def replay_of_def
        holds_always_def is_some_and_def)
qed

definition pay_flight :: in_flight where
  "pay_flight = \<lparr>if_operation_id = ok_operation_id pay_key, if_tool = ''pay'', if_fingerprint = ok_fingerprint pay_key\<rparr>"

definition pay_store :: op_store where
  "pay_store = \<lparr>os_rows = [(ok_operation_id pay_key, new_row ''pay'' (ok_fingerprint pay_key) ''t1'')], os_key = ''key'', os_gate_lock = True\<rparr>"

lemma pay_flight_view:
  "ops_view pay_in_flight = (Some pay_store, pending_default\<lparr>pd_by_request := [(''7'', pay_flight)]\<rparr>)"
  by (simp add: pay_in_flight_def pay_coordinated operations_put pay_store_def pay_flight_def)

lemma pay_store_row:
  "op_status pay_store (ok_operation_id pay_key) = Some ''in_flight''"
  "op_call pay_store (ok_operation_id pay_key) = Some (''pay'', ok_fingerprint pay_key)"
  by (simp_all add: pay_store_def op_status_def op_call_def new_row_def)

lemma announce_router [simp]: "ic_router (announce W b r rp en d rec e s) = ic_router s"
  by (simp add: announce_def emit_def report_def Let_def case_prod_beta split: option.split)

text \<open>The call is recorded and forwarded.\<close>

lemma pay_sent:
  "\<exists>s'. decide_agent pay_world ''pay'' pay_start = Some (s', [ToUpstream ''default'' (sample_ser pay_message)])
     \<and> ops_view s' = ops_view pay_in_flight \<and> ic_router s' = None \<and> ic_pii s' = None"
proof -
  let ?b = "entry_base_of sample_digests passthrough pay_gate"
  let ?d = "call_draft ?b pay_gate ''pay'' \<lparr>cv_refusal = None, cv_operation = Some pay_key, cv_approval = None\<rparr> False False"
  let ?fp = "call_fingerprint pay_world pay_gate ''pay'' (Some pay_args)"
  have log: "ic_log pay_in_flight = Some \<lparr>dl_store = ledger_new, dl_key = ''gate-key''\<rparr>" "ic_pii pay_in_flight = None"
    by (simp_all add: pay_in_flight_def)
  have "\<exists>l' e. log_append pay_world \<lparr>dl_store = ledger_new, dl_key = ''gate-key''\<rparr> ?d ?fp = Ok (l', e)"
  proof -
    have "\<exists>st e. append_decision sample_ops ledger_new d ''gate-key'' ''t1'' = Ok (st, e)" for d
      by (rule append_decision_total) (rule length_sample_sha)
    then obtain st e where "append_decision sample_ops ledger_new (case ?fp of
          Some fp \<Rightarrow> ?d\<lparr>dd_args_fingerprint := Some (args_fingerprint (yw_digests pay_world) ''gate-key'' fp)\<rparr> | None \<Rightarrow> ?d)
        ''gate-key'' ''t1'' = Ok (st, e)" by blast
    then show ?thesis by (cases ?fp) (simp_all add: log_append_def Let_def)
  qed
  then obtain s1 e where s1: "log_decision pay_world ?d ?fp pay_in_flight = Ok (s1, e)"
    by (auto simp: log_decision_def log)
  let ?s2 = "announce pay_world ?b None False False ?d True e s1"
  have dc: "decide_call pay_world pay_gate ?b pay_message pay_start = (?s2, None)"
    using s1 by (simp add: decide_call_def pay_weighed Let_def is_enforced_def is_some_and_def conclude_call_def)
  have pii: "ic_pii ?s2 = None" using log_decision_pii [OF s1] log(2) by simp
  then have "forward_call pay_world pay_message ''default'' ?s2 =
      Some (register_outstanding (Some ''7'') ?s2, [ToUpstream ''default'' (sample_ser pay_message)])"
    by (simp add: forward_call_def mask_call_def pass_on_def)
  moreover have "route pay_start pay_message = ''default''"
  proof -
    have "catalog_route passthrough t = Some (0, t)" "server_at passthrough 0 = ''default''" for t
      by (simp_all add: passthrough_def catalog_route_def server_at_def DEFAULT_SERVER_def)
    then show ?thesis by (auto simp: route_def Let_def Option.bind_eq_Some_conv split: option.splits)
  qed
  ultimately have "decide_message pay_world pay_message pay_start =
      Some (register_outstanding (Some ''7'') ?s2, [ToUpstream ''default'' (sample_ser pay_message)])"
    using dc by (simp add: decide_message_def is_some_and_def in_use_def pending_default_def Let_def)
  then have "decide_agent pay_world ''pay'' pay_start =
      Some (register_outstanding (Some ''7'') ?s2, [ToUpstream ''default'' (sample_ser pay_message)])"
    by (simp add: decide_agent_def pay_screened)
  moreover have s2: "ops_view ?s2 = ops_view pay_in_flight" using ops_view_log [OF s1] by (simp add: view_simps)
  have "register_outstanding (Some ''7'') ?s2 = ?s2"
  proof -
    have "in_use ''7'' (ic_pending ?s2)" using s2 by (simp add: pending_view pay_flight_view in_use_def)
    then show ?thesis by (simp add: register_outstanding_def Let_def split: option.split)
  qed
  moreover have "ic_router pay_in_flight = None" by (simp add: pay_in_flight_def pay_coordinated set_pending_def put_operations_def)
  then have "ic_router ?s2 = None" using log_decision_router [OF s1] by simp
  ultimately show ?thesis using s2 pii by metis
qed

text \<open>The gate while the call waits for its reply.\<close>

lemma pay_waiting:
  obtains s where "relay_reachable s" "ops_view s = (Some pay_store, pending_default\<lparr>pd_by_request := [(''7'', pay_flight)]\<rparr>)" "ic_pii s = None"
proof -
  from pay_sent obtain s' where d: "decide_agent pay_world ''pay'' pay_start = Some (s', [ToUpstream ''default'' (sample_ser pay_message)])"
    "ops_view s' = ops_view pay_in_flight" "ic_router s' = None" "ic_pii s' = None" by blast
  let ?s = "note_list_request pay_world (sample_ser pay_message) s'"
  have "on_agent_line pay_world ''pay'' pay_start = Some (?s, [ToUpstream ''default'' (sample_ser pay_message)])"
    using d by (simp add: on_agent_line_def)
  then have "relay_reachable ?s"
    by (rule relay_reachable.step [OF pay_start_reachable pay_world_ok relay_step.step_agent])
  moreover have "ops_view ?s = (Some pay_store, pending_default\<lparr>pd_by_request := [(''7'', pay_flight)]\<rparr>)"
    using d(2) by (simp add: view_simps pay_flight_view)
  moreover have "ic_pii ?s = None" using d(4) by (simp add: note_list_request_def split: option.split)
  ultimately show thesis by (rule that)
qed

section \<open>Two definitions under one name\<close>

text \<open>Server \<open>a\<close> lists \<open>t\<close>, which is called \<open>a__t\<close> because server \<open>b\<close> lists \<open>t\<close> too, and a tool named
  \<open>a__t\<close>.\<close>

definition shadow_listing :: "server_tools list" where
  "shadow_listing = [\<lparr>sv_name = ''a'', sv_init = JNull, sv_tools =
       [JObject [(''name'', JString ''t'')], JObject [(''name'', JString ''a__t''), (''description'', JString ''other'')]]\<rparr>,
     \<lparr>sv_name = ''b'', sv_init = JNull, sv_tools = [JObject [(''name'', JString ''t'')]]\<rparr>]"

definition shadow_catalog :: catalog where
  "shadow_catalog = fst (projr (catalog_routed sample_digests shadow_listing None (\<lambda>t. t \<in> {''a__t'', ''b__t''})))"

lemma shadowed_tool:
  "case catalog_routed sample_digests shadow_listing None (\<lambda>t. t \<in> {''a__t'', ''b__t''}) of
     Inl _ \<Rightarrow> False
   | Inr (c, ds) \<Rightarrow> catalog_route c ''a__t'' = Some (0, ''t'')
       \<and> map tool_name (fst (snd (observe sample_digests 0 (sv_tools (shadow_listing ! 0)) c))) = [Some ''a__t'', Some ''a__t'']"
  by code_simp

end
