(* ===== verification/Spec2Isabelle.thy ===== *)
theory Spec2Isabelle
  imports Relay_Samples
begin

text \<open>
  CloakPipe puts a gate between an AI agent and its tools. A call is matched against the manifest of
  the agent's release, against the contract of its tool and against a Cedar policy; some calls wait for
  a signed human approval; every side effect is tracked under an operation id so that it runs at most
  once; every decision is an entry of a signed hash chain that is sealed into epochs, anchored, and
  checked offline by an independent verifier. A second path masks personal data in requests to language models
  and puts it back in their answers. This development models the crates that decide
  (\<open>cloakpipe-release\<close>, \<open>cloakpipe-policy\<close>, \<open>cloakpipe-receipt\<close>, the gate, the operation store, the tool
  catalogue and the relay of \<open>cloakpipe-mcp\<close>) and the crates that keep and check the evidence (\<open>cloakpipe-ledger\<close>,
  \<open>cloakpipe-verify\<close>, the Merkle tree of \<open>cloakpipe-anchor\<close>) and the crates that mask (\<open>cloakpipe-core\<close> without its
  detectors, the request path of \<open>cloakpipe-proxy\<close>).

  \<^bold>\<open>Theories and the code they model.\<close>

  \<^item> \<open>Cloak_Prelude\<close>: results, ASCII strings, \<open>BTreeMap\<close> insertion, decimal and hexadecimal text; the
    interfaces \<open>retry_guard\<close> (a machine that fires only when it is not blocked), \<open>guarded_simulation\<close>
    and \<open>text_codec\<close>, each interpreted on the definitions below.
  \<^item> \<open>Json\<close>: \<open>serde_json::Value\<close>, its numbers and its equality, which ignores member order.
  \<^item> \<open>Namespaces\<close> (\<open>release/src/namespace.rs\<close>), \<open>Reference\<close> (\<open>reference.rs\<close>), \<open>Digests\<close>
    (\<open>canonical.rs\<close>, \<open>action.rs\<close>): identifiers, pinned references, release hashes, call fingerprints,
    operation ids.
  \<^item> \<open>Contract\<close>, \<open>Contract_Spec\<close>, \<open>Tool_Contract\<close> (\<open>contract.rs\<close>): constraints on arguments, their
    validation and check, the inductive specification \<open>conforms\<close>, contracts and their references, the
    reader that refuses duplicate keys.
  \<^item> \<open>Rules\<close>, \<open>Condition\<close> (\<open>rules.rs\<close>): durations, idempotency templates, the approval condition
    language with its lexer, parser and evaluator.
  \<^item> \<open>Manifest_V1\<close> (\<open>v1.rs\<close>) and \<open>Release\<close> (\<open>manifest.rs\<close>, \<open>validate.rs\<close>, \<open>canonical.rs\<close>): the two manifest
    formats, compilation, validation and hashing.
  \<^item> \<open>Policy\<close> (\<open>policy/src/lib.rs\<close>), \<open>Counters\<close> (\<open>counters.rs\<close>): decisions of the policy engine and the call
    counters it reads.
  \<^item> \<open>Approval\<close> (\<open>receipt/src/dsse.rs\<close>, \<open>approval.rs\<close>): envelopes, signing and verifying a receipt.
  \<^item> \<open>Operations\<close> (\<open>mcp/src/operations.rs\<close>): the store of operations, as a record of rows with one
    function per method and a step function over all of them.
  \<^item> \<open>Gate\<close> (\<open>mcp/src/gate.rs\<close>): construction of a gate and the decision on a call.
  \<^item> \<open>Merkle\<close> (\<open>anchor/src/merkle.rs\<close>): trees and inclusion proofs.
  \<^item> \<open>Canonical_Json\<close> (\<open>ledger/src/decision.rs\<close>, \<open>verify/src/decisions.rs\<close>): the two writers of canonical
    JSON, which agree and whose text determines the value.
  \<^item> \<open>Hash_Chain\<close>: the interface \<open>hash_chain\<close>, under which the last hash commits to the chain; interpreted on
    the decision entries and on the evidence records.
  \<^item> \<open>Decisions\<close> (\<open>ledger/src/decision.rs\<close>, \<open>epoch.rs\<close>, \<open>store.rs\<close>): entries, epochs and the store that chains,
    signs and seals them, with the inductive set of reachable ledgers and the view of a ledger as the two
    lists it stands for.
  \<^item> \<open>Decision_Verify\<close> (\<open>verify/src/decisions.rs\<close>): the offline check of a run of entries.
  \<^item> \<open>Record_Chain\<close> (\<open>ledger/src/record.rs\<close>, \<open>canonical.rs\<close>, \<open>chain.rs\<close>, \<open>sign.rs\<close>, \<open>store.rs\<close>): evidence records, their
    builder, canonical bytes and one chain per tenant.
  \<^item> \<open>Civil_Time\<close> (\<open>verify/src/time.rs\<close>): calendar arithmetic and the texts of times.
  \<^item> \<open>Ustar\<close> (\<open>verify/src/ustar.rs\<close>): the reader and writer of tar archives.
  \<^item> \<open>Pii_Vault\<close> (\<open>core/src/lib.rs\<close>, \<open>resolver.rs\<close>, \<open>format_preserving.rs\<close>, \<open>vault.rs\<close>): entities and tokens, the vault in memory
    and on disk; the interfaces \<open>token_vault\<close> (a value keeps its token) and \<open>reversible_vault\<close> (a token leads back),
    interpreted on both lookups.
  \<^item> \<open>Pii_Text\<close> (\<open>replacer.rs\<close>, \<open>rehydrator.rs\<close>), \<open>Pii_Rehydrate\<close>, \<open>Pii_Stream\<close>: masking a text, putting the values back in a
    whole response, and in a stream however it is cut.
  \<^item> \<open>Pii_Sse\<close> (\<open>proxy/src/streaming.rs\<close>), \<open>Pii_Session\<close> (\<open>core/src/session.rs\<close>), \<open>Pii_Proxy\<close> (\<open>proxy/src/handlers.rs\<close>): server-sent
    events, conversations with their coreferences, and the path of a request and its response.
  \<^item> \<open>Tool_Catalog\<close> (\<open>mcp/src/servers.rs\<close>, \<open>tools_lock.rs\<close>, \<open>catalog.rs\<close>): what servers listed, the lock that pins
    definitions, the catalogue that routes calls and watches for drift; the interface \<open>monitor\<close> (what has been seen is
    accounted for, and stays so), interpreted on the catalogue.
  \<^item> \<open>Gate_Events\<close> (\<open>mcp/src/events/mod.rs\<close>): events and decision records.
  \<^item> \<open>Relay\<close>, \<open>Relay_Router\<close> (\<open>mcp/src/proxy.rs\<close>): the interceptor between an agent and its servers. The record
    \<open>interceptor\<close> is \<open>Interceptor\<close> with what its locks guard, a handler is a function to the new state and the actions,
    and \<open>relay_world\<close> is what a handler finds around it. \<open>Relay_Facts\<close> proves of every handler that no operation is in
    flight without a request that waits for it, and has the step relation \<open>relay_step\<close> and its reachable states;
    \<open>Relay_Calls\<close> follows one call: forwarded, refused when it cannot be recorded, answered, repeated; and a listing
    page by page.
  \<^item> \<open>Samples\<close>, \<open>Evidence_Samples\<close>, \<open>Pii_Samples\<close>, \<open>Relay_Samples\<close>: concrete values for the witnesses.

  \<^bold>\<open>How the code is modelled.\<close> A struct is a \<open>record\<close>, an enum a \<open>datatype\<close>, a byte string or a UTF-8
  string is a list of bytes (\<open>string\<close>), a \<open>BTreeMap\<close> an association list sorted by key, \<open>Result\<close> a sum with
  the error on the left, a SQLite table a list of rows. Where the text of an error message carries no
  decision the error is a constructor with the values the message quotes. Methods that change state
  return the new state. Loops are structural recursion or \<open>function\<close> with a measure; nothing in the
  model has fuel, every function terminates on all inputs. Integers are unbounded except where the code
  checks or wraps at a width (\<open>parse_duration\<close> on 64 bits, \<open>within_ttl\<close> on \<open>i64\<close>, token numbers on 32 bits), where the
  bound is written out. A \<open>HashMap\<close> is an association list; where the code iterates over one, the order is an
  argument and the lemmas hold for every order. A panic of a slice or an index is the value \<open>None\<close>. In the proxy an
  error is returned without the state; the vault then keeps the tokens it has handed out, which is a state the
  lemmas on the vault cover.

  \<^bold>\<open>Parameters.\<close> Code that is not in the repository is an argument: SHA-256, HMAC and the JCS encoder
  (\<open>digests\<close>), Ed25519, base64, serde readers and chrono (\<open>receipt_ops\<close>), regular expressions
  (\<open>regex_ops\<close>), SHA-256, the texts of scalars and Ed25519 for the ledger (\<open>ledger_ops\<close>, \<open>record_ops\<close>), Cedar's parser and evaluator, Unicode NFC, files and the approval broker
  (\<open>gate_world\<close>), Unicode case mapping and the \<open>strsim\<close> metric (\<open>text_lib\<close>), AES-256-GCM and the vault's JSON (\<open>vault_io\<close>), the
  detector and the language model (\<open>proxy_env\<close>). A theorem that needs something of them says so in a named hypothesis
  (\<open>no_collision\<close>, \<open>jcs_separates\<close>, \<open>receipt_laws\<close>, \<open>ascii_fixed\<close>, \<open>self_delimiting\<close>, \<open>signing_laws\<close>) about the values at hand, and its witness
  instantiates them.

  \<^bold>\<open>Concurrency.\<close> The relay decides one message of the agent at a time under the gate's lock, and handles servers' messages
  beside it. A handler is one step of \<open>relay_step\<close>; the one place where the code gives a lock up in the middle, between the
  store's verdict on an operation and its registration, sees the exit sweep through \<open>yw_closing\<close>. An operator's verdict
  from another process is a step of its own. The properties hold for every order of these steps.

  \<^bold>\<open>What is not modelled.\<close> Network and process code (the threads, pipes and HTTP transport around the relay, the CLI), the certification feature of the gate, third-party clients (RFC 3161, Rekor), the PII
  detectors' regular expressions and models, and the database engine under the stores: they are input
  and output, or are decided by libraries the sources only call.
\<close>

section \<open>Deciding a call\<close>

text \<open>C1: a call is authorized exactly when its tool is declared, the bound contracts are loaded,
  and, for a tool with a rule, its arguments meet the closed contract, the policy gave a verdict
  that is no denial, a receipt for this very call is on file whenever the rule or the policy asks
  for one, and a side effect has its operation key. Nothing else is let through.\<close>

theorem authorize_exactly:
  "authorize W g tool args now = Ok auth \<longleftrightarrow>
     tool \<in> set (g_tools g) \<and> g_contracts_loaded g
     \<and> (case map_of (g_rules g) tool of
          None \<Rightarrow> auth = \<lparr>au_approval = None, au_operation = None\<rparr>
        | Some rule \<Rightarrow>
            args_allowed (gw_regex W) (g_task g) rule args
            \<and> (\<exists>verdict. evaluate_policy W g tool args now = Ok verdict
                 \<and> (if needs_approval rule args \<or> verdict \<noteq> VAllow
                    then \<exists>ac. au_approval auth = Some ac \<and> receipt_for W g rule tool (or_null args) now ac
                    else au_approval auth = None)
                 \<and> (if tr_side_effect rule
                    then \<exists>k. au_operation auth = Some k
                           \<and> gate_operation_key W g rule tool args (au_approval auth) = Ok k
                    else au_operation auth = None)))"
proof -
  have eq: "(if approval_needed rule args verdict = None then P else Q) =
      (if needs_approval rule args \<or> verdict \<noteq> VAllow then Q else P)" for rule verdict P Q
    by (simp add: approval_needed_iff [symmetric])
  show ?thesis unfolding authorize_Ok rule_check_iff eq by (rule refl)
qed

theorem authorize_exactly_witness:
  "''look'' \<in> set (g_tools loaded_gate)
   \<and> args_allowed (gw_regex sample_world) (g_task loaded_gate) look_rule (Some look_args)
   \<and> (\<exists>verdict. evaluate_policy sample_world loaded_gate ''look'' (Some look_args) ''now'' = Ok verdict)"
  using authorize_exactly [of sample_world loaded_gate "''look''" "Some look_args" "''now''"] look_authorized
  by (auto simp: loaded_gate_def)

text \<open>C2: an operation is forwarded at most once. In any run of the operation store, in any order
  of calls, settlements, restarts and reconciliations, between two calls forwarded under one
  operation id there is an event that settled it as failed or reconciled it as not applied.\<close>

theorem forwarded_at_most_once:
  assumes "store_ok s" "list_all event_ok es" "i < j" "j < length es"
    and "case_prod (forwards x) (run_log op_step s es ! i)"
    and "case_prod (forwards x) (run_log op_step s es ! j)"
  shows "\<exists>k. i < k \<and> k < j \<and> case_prod (retryable x) (run_log op_step s es ! k)"
  using assms by (rule at_most_once.unblocked_between)

theorem forwarded_at_most_once_witness:
  "\<exists>k. 0 < k \<and> k < 2
     \<and> case_prod (retryable ''op-1'') (run_log op_step (op_open None ''key'') retry_run ! k)"
proof (rule forwarded_at_most_once)
  show "store_ok (op_open None ''key'')" by (rule store_ok_open) simp
  show "list_all event_ok retry_run" "(2 :: nat) < length retry_run" "(0 :: nat) < 2"
    by (simp_all add: retry_run_def)
  show "case_prod (forwards ''op-1'') (run_log op_step (op_open None ''key'') retry_run ! 0)"
    "case_prod (forwards ''op-1'') (run_log op_step (op_open None ''key'') retry_run ! 2)"
    by (simp_all add: forwards_def retry_run_def op_eval numeral_2_eq_2)
qed

text \<open>C3: an operation id belongs to one call for ever. After any run, a call of another tool or
  with another digest under the id is a conflict and changes nothing.\<close>

theorem operation_bound_to_call:
  assumes "op_reachable s" "op_call s x = Some (t, d)" "list_all event_ok es" "t' \<noteq> t \<or> d' \<noteq> d"
  shows "op_begin (run_state op_step s es) x t' d' now = Ok (run_state op_step s es, Conflict)"
  using assms reachable_store_ok run_ok op_call_run op_begin_other_call by meson

theorem operation_bound_to_call_witness:
  "op_begin (run_state op_step paid [ERelease]) ''op-1'' ''refund'' (replicate 32 CHR ''d'') ''t3'' =
     Ok (run_state op_step paid [ERelease], Conflict)"
proof (rule operation_bound_to_call)
  show "op_reachable paid" by (rule paid_reachable)
  show "op_call paid ''op-1'' = Some (''pay'', replicate 32 CHR ''d'')"
    by (simp add: op_call_def paid_row)
qed simp_all

section \<open>The relay between an agent and its tools\<close>












text \<open>C10: A tool is what it was when it was pinned. Start the gate in front of any servers and let them list their tools as
  often and as differently as they like: a call that the catalogue lets through goes to one server and one tool, and every
  definition of that tool that server ever listed has the hash the tools lock pins, or, without a lock, the hash of every
  other one.\<close>

theorem served_tools_as_pinned:
  assumes "catalog_routed D listing lock declares = Ok (c, ds)" "catalog_refuse (observe_run D ls c) tool = None"
  shows "\<exists>i n. catalog_route (observe_run D ls c) tool = Some (i, n)
     \<and> (\<forall>ts t. (i, ts) \<in> set (startup listing @ ls) \<and> t \<in> set ts \<and> tool_name t = Some n \<longrightarrow>
          (case lock of
             Some l \<Rightarrow> hash_of l (map sv_name listing ! i) n = Some (tool_hash D t)
           | None \<Rightarrow> \<forall>us u. (i, us) \<in> set (startup listing @ ls) \<and> u \<in> set us \<and> tool_name u = Some n \<longrightarrow>
               tool_hash D u = tool_hash D t))"
proof -
  let ?c = "observe_run D ls c"
  from catalog_routed_Ok [OF assms(1)] obtain c0 where c0: "c = observe_run D (startup listing) c0" "catalog_ok c0"
    "cg_lock c0 = lock" "cg_servers c0 = map sv_name listing" by metis
  then have c: "?c = observe_run D (startup listing @ ls) c0" by (simp add: observe_run_append)
  from observe_run_le [OF c0(2), of D "startup listing @ ls"] c c0(3,4)
  have keep: "cg_lock ?c = lock" "cg_servers ?c = map sv_name listing" by (simp_all add: catalog_le_def)
  from admitted_route [OF assms(2)] obtain i n where r: "catalog_route ?c tool = Some (i, n)" by blast
  have pin: "matches_pin ?c i n (tool_hash D t)"
    if "(i, ts) \<in> set (startup listing @ ls)" "t \<in> set ts" "tool_name t = Some n" for ts t
    using admitted_matches [OF c0(2), of D "startup listing @ ls"] assms(2) r that unfolding c by blast
  show ?thesis
  proof (rule exI [of _ i], rule exI [of _ n], intro conjI allI impI)
    fix ts t assume t: "(i, ts) \<in> set (startup listing @ ls) \<and> t \<in> set ts \<and> tool_name t = Some n"
    have m: "matches_pin ?c i n (tool_hash D t)" by (rule pin) (use t in blast)+
    show "case lock of
        Some l \<Rightarrow> hash_of l (map sv_name listing ! i) n = Some (tool_hash D t)
      | None \<Rightarrow> \<forall>us u. (i, us) \<in> set (startup listing @ ls) \<and> u \<in> set us \<and> tool_name u = Some n \<longrightarrow> tool_hash D u = tool_hash D t"
    proof (cases lock)
      case None
      have "tool_hash D u = tool_hash D t" if "(i, us) \<in> set (startup listing @ ls) \<and> u \<in> set us \<and> tool_name u = Some n" for us u
      proof -
        have "matches_pin ?c i n (tool_hash D u)" by (rule pin) (use that in blast)+
        with m None keep(1) show ?thesis by (simp add: matches_pin_def)
      qed
      then show ?thesis unfolding None option.case by blast
    next
      case (Some l)
      with m keep show ?thesis by (simp add: matches_pin_def)
    qed
  qed (fact r)
qed

theorem served_tools_as_pinned_witness:
  "\<exists>c ds. catalog_routed sample_digests shadow_listing None (\<lambda>t. t \<in> {''a__t'', ''b__t''}) = Ok (c, ds)
     \<and> (\<exists>i n. catalog_route (observe_run sample_digests [] c) ''b__t'' = Some (i, n))"
proof -
  have "case catalog_routed sample_digests shadow_listing None (\<lambda>t. t \<in> {''a__t'', ''b__t''}) of
     Inl _ \<Rightarrow> False | Inr (c, ds) \<Rightarrow> catalog_refuse c ''b__t'' = None" by code_simp
  then obtain c ds where c: "catalog_routed sample_digests shadow_listing None (\<lambda>t. t \<in> {''a__t'', ''b__t''}) = Ok (c, ds)"
    "catalog_refuse c ''b__t'' = None" by (auto split: sum.splits)
  have "catalog_refuse (observe_run sample_digests [] c) ''b__t'' = None" using c(2) by (simp add: observe_run_def)
  from served_tools_as_pinned [OF c(1) this] c(1) show ?thesis by blast
qed

text \<open>C11: A tools lock reads back and its digest binds it. The lock made from the servers' listings, written to a file, parses to
  the same lock; and a lock file whose digest is the one of that lock pins exactly its definitions, unless the hash
  collides.\<close>

theorem tools_lock_round_trip:
  assumes "parse (lock_to_json_string D pretty (lock_from_servers D listing)) = Some (lock_document D (lock_from_servers D listing))"
    and "lock_parse D parse s = Ok l"
    and "no_collision (dg_sha256 D) (dg_jcs D (lock_body l)) (dg_jcs D (lock_body (lock_from_servers D listing)))"
    and "jcs_separates (dg_jcs D) (lock_body l) (lock_body (lock_from_servers D listing))"
  shows "lock_parse D parse (lock_to_json_string D pretty (lock_from_servers D listing)) = Ok (lock_from_servers D listing)
     \<and> (lock_digest D l = lock_digest D (lock_from_servers D listing) \<longrightarrow> l = lock_from_servers D listing)"
  using lock_reads_back [of "lock_from_servers D listing" parse D pretty, OF lock_from_servers_ok assms(1)] lock_parse_ok [OF assms(2)] lock_from_servers_ok assms(3,4)
  by (auto dest: lock_digest_binds)

theorem tools_lock_round_trip_witness:
  "let D = sample_digests; l = lock_from_servers D shadow_listing; parse = (\<lambda>_. Some (lock_document D l)); pretty = (\<lambda>_. ''lock'')
   in lock_parse D parse (lock_to_json_string D pretty l) = Ok l"
proof -
  let ?D = sample_digests
  let ?l = "lock_from_servers ?D shadow_listing"
  have "lock_parse ?D (\<lambda>_. Some (lock_document ?D ?l)) (lock_to_json_string ?D (\<lambda>_. ''lock'') ?l) = Ok ?l"
    by (rule lock_reads_back [OF lock_from_servers_ok refl])
  moreover have "json_eq (lock_body ?l) (lock_body ?l)" by code_simp
  ultimately show ?thesis
    using tools_lock_round_trip [where D = ?D and listing = shadow_listing and parse = "\<lambda>_. Some (lock_document ?D ?l)"
        and pretty = "\<lambda>_. ''lock''" and l = ?l] by (simp add: no_collision_def jcs_separates_def Let_def)
qed

section \<open>Tool contracts\<close>

text \<open>C12: the constraint checker decides its specification: a value passes exactly when it
  conforms, at every depth of objects and arrays.\<close>

theorem check_decides:
  "check R c v path task = Ok () \<longleftrightarrow> conforms R task c v"
  by (rule check_iff_conforms)

text \<open>the strict reader accepts exactly the documents without duplicate member names and
  non-finite numbers, at every depth, and reads them as they are written.\<close>

lemma strict_reader_exact:
  "strict_value d = Ok v \<longleftrightarrow> strict_ok d \<and> v = doc_value d"
  by (rule strict_value_iff)

text \<open>C13: a contract reference names one contract. Two validated contracts with the same reference
  have the same name, the same namespace and the same document, as long as SHA-256 does not collide
  on the two documents and the canonical encoding tells them apart.\<close>

theorem contract_reference_binds:
  assumes "contract_validate D R c0 = Ok c" "contract_validate D R d0 = Ok d"
    and "\<And>x. length (dg_sha256 D x) = 32"
    and "no_collision (dg_sha256 D)
       (tool_contract_hash_domain (for_hashing (tc_api_version c)) @ [CHR 0x0A] @ dg_jcs D (tc_raw c))
       (tool_contract_hash_domain (for_hashing (tc_api_version d)) @ [CHR 0x0A] @ dg_jcs D (tc_raw d))"
    and "jcs_separates (dg_jcs D) (tc_raw c) (tc_raw d)"
    and "policy_ref D c = policy_ref D d"
  shows "tc_name c = tc_name d \<and> tc_api_version c = tc_api_version d \<and> json_eq (tc_raw c) (tc_raw d)"
proof -
  let ?dom = "\<lambda>x. tool_contract_hash_domain (for_hashing (tc_api_version x))"
  from contract_validate_OkD [OF assms(1)] contract_validate_OkD [OF assms(2)]
  have ok: "is_valid_name (tc_name c)" "is_valid_name (tc_name d)"
    "is_known_api_version (tc_api_version c)" "is_known_api_version (tc_api_version d)" by auto
  from policy_ref_inject [OF ok(1,2) _ _ assms(6)] assms(3)
  have same: "tc_name c = tc_name d" "contract_digest D c = contract_digest D d"
    by (simp_all add: contract_digest_def)
  from same(2) assms(4) have "?dom c @ CHR 0x0A # dg_jcs D (tc_raw c) = ?dom d @ CHR 0x0A # dg_jcs D (tc_raw d)"
    by (simp add: contract_digest_def no_collision_def)
  from domain_separated_inject [OF tool_contract_hash_domain_member tool_contract_hash_domain_member this]
  have "?dom c = ?dom d" "dg_jcs D (tc_raw c) = dg_jcs D (tc_raw d)" by simp_all
  moreover from this(1) have "tc_api_version c = tc_api_version d"
    using ok(3,4) by (auto simp: is_known_api_version_iff for_hashing_def of_api_version_def NAMESPACE_ALL_def
        tool_contract_hash_domain_def ns_api_version_def namespace_id_defs)
  ultimately show ?thesis using same(1) assms(5) by (simp add: jcs_separates_def)
qed

theorem contract_reference_binds_witness:
  "tc_name sample_contract = tc_name reordered_contract
   \<and> tc_api_version sample_contract = tc_api_version reordered_contract
   \<and> json_eq (tc_raw sample_contract) (tc_raw reordered_contract)"
proof (rule contract_reference_binds)
  let ?R = "\<lparr>regex_valid = (\<lambda>_. True), regex_is_match = (\<lambda>_ _. True)\<rparr>"
  show "contract_validate sample_digests ?R sample_contract = Ok sample_contract"
    "contract_validate sample_digests ?R reordered_contract = Ok reordered_contract"
    by code_simp+
qed (simp_all add: sample_digests_def no_collision_def jcs_separates_def reordered_contract_def
    sample_contract_def policy_ref_def contract_digest_def)

section \<open>The language of rules\<close>

text \<open>C14: an approval condition fails closed. It asks for approval when its truth value does, and
  also as soon as any comparison in it cannot be evaluated on the arguments, wherever that
  comparison stands.\<close>

theorem condition_fails_closed:
  "cond_matches c args \<longleftrightarrow>
     (\<exists>k\<in>set (comparisons (cond_expr c)). comparison_value args k = None)
     \<or> truth (\<lambda>k. comparison_value args k = Some True) (cond_expr c)"
  by (rule cond_matches_iff)

text \<open>C15: the condition parser decides the grammar, with \<open>&&\<close> binding tighter than \<open>||\<close> and both
  associating to the left: it returns exactly the tree the grammar derives for the whole input.\<close>

theorem condition_parser_decides:
  "condition_parse num src = Ok c \<longleftrightarrow>
     cond_source c = src \<and> (\<exists>ts. tokenize num src = Ok ts \<and> gr_or ts (cond_expr c))"
  by (rule condition_parse_iff)

text \<open>C16: a compiled tool refers only to what it declares: required, shown, condition and template
  arguments are declared ones, the template belongs to a side effect, approval is required exactly
  when a rule for it is there, and a ttl is positive and fits in 64 bits.\<close>

theorem compiled_tool_well_formed:
  assumes "compile_tool num R t = Ok r"
  shows "rule_wf r"
  using assms by (rule compile_tool_wf)

theorem compiled_tool_well_formed_witness: "rule_wf sample_rule"
proof (rule compiled_tool_well_formed)
  let ?R = "\<lparr>regex_valid = (\<lambda>_. True), regex_is_match = (\<lambda>_ _. True)\<rparr>"
  let ?args = "[(''to'', Constraint (no_kw\<lparr>c_ty := Some TString\<rparr>) None None)]"
  have ttl: "parse_duration ''90m'' = Some 5400"
    by (simp add: parse_duration_def checked_u64_def u64_max_def duration_units_def digits_value_def
        is_ascii_digit_def)
  have args: "try_map (compile_argument ?R) (rt_args sample_tool) = Ok ?args" by code_simp
  have key: "compile_key True ?args (rt_idempotency_key sample_tool) = Ok (tr_idempotency_key sample_rule)"
    by code_simp
  have cond: "compile_when sample_num ?args (Some (concat [''to == '', [CHR 0x22], ''DE'', [CHR 0x22]])) =
      Ok (Option.bind (tr_approval sample_rule) ar_when)" by code_simp
  have rest: "\<not> list_ex is_blank [''ops'']" "check_show ?args [] [''to''] = Ok ()"
    "required_names (rt_args sample_tool) = [''to'']"
    by code_simp+
  have "compile_approval sample_num ?args (rt_approval sample_tool) = Ok (tr_approval sample_rule)"
    using cond rest ttl by (simp add: compile_approval_def sample_tool_def sample_rule_def)
  with args key rest show "compile_tool sample_num ?R sample_tool = Ok sample_rule"
    by (simp add: compile_tool_def sample_tool_def sample_rule_def compile_effect_def is_side_effect_def Let_def)
qed

section \<open>Names and hashes\<close>

text \<open>an artifact reference parses exactly when it is the text of a pinned reference, and then
  to that reference: a valid name, and a version that is a digest or starts with a digit.\<close>

lemma reference_exact:
  "reference_parse s = Ok r \<longleftrightarrow> s = reference_text r \<and> pinned_reference r"
  by (rule reference_parse_eq_Ok)

text \<open>C17: a fingerprint binds the release, the tool and the arguments. Two calls with one
  fingerprint are the same call up to member order, unless SHA-256 collides on the two documents
  or the canonical encoding confuses them.\<close>

theorem fingerprint_binds_call:
  assumes "no_collision (dg_sha256 D)
       (TOOL_CALL_FINGERPRINT_DOMAIN @ [CHR 0x0A] @ dg_jcs D (call_document r t a))
       (TOOL_CALL_FINGERPRINT_DOMAIN @ [CHR 0x0A] @ dg_jcs D (call_document r' t' a'))"
    and "jcs_separates (dg_jcs D) (call_document r t a) (call_document r' t' a')"
    and "fingerprint D r t a = fingerprint D r' t' a'"
  shows "r = r' \<and> t = t' \<and> json_eq a a'"
  using assms by (rule fingerprint_binds)

theorem fingerprint_binds_call_witness:
  "''r'' = ''r'' \<and> ''pay'' = ''pay''
   \<and> json_eq (JObject [(''a'', JNull), (''b'', JNull)]) (JObject [(''b'', JNull), (''a'', JNull)])"
proof (rule fingerprint_binds_call)
  let ?D = "\<lparr>dg_sha256 = (\<lambda>x. x), dg_hmac = (\<lambda>k x. x), dg_jcs = (\<lambda>_. ''doc'')\<rparr>"
  show "fingerprint ?D ''r'' ''pay'' (JObject [(''a'', JNull), (''b'', JNull)]) =
      fingerprint ?D ''r'' ''pay'' (JObject [(''b'', JNull), (''a'', JNull)])"
    by (simp add: fingerprint_def)
  show "jcs_separates (dg_jcs ?D) (call_document ''r'' ''pay'' (JObject [(''a'', JNull), (''b'', JNull)]))
      (call_document ''r'' ''pay'' (JObject [(''b'', JNull), (''a'', JNull)]))"
    by (simp add: jcs_separates_def call_document_eq)
qed (simp add: no_collision_def)

section \<open>Releases\<close>




section \<open>Approvals\<close>

text \<open>C20: a receipt verifies exactly when it is valid for this call: a statement about this
  fingerprint, signed under the approver's own trusted keyid, for the release, tool and task asked
  for, approved no later than the clock skew allows and not yet expired. The only other outcome
  that says \<open>expired\<close> is the same receipt after its time.\<close>

theorem verify_approval_exact:
  "(verify_approval S env chk = Ok a \<longleftrightarrow>
      (\<exists>approved_at not_after now. receipt_valid S env chk a approved_at not_after now \<and> now < not_after))
   \<and> (verify_approval S env chk = Err Expired \<longleftrightarrow>
      (\<exists>a approved_at not_after now. receipt_valid S env chk a approved_at not_after now \<and> not_after \<le> now))"
  by (simp add: verify_approval_Ok verify_approval_Expired)

text \<open>C21: a receipt that was signed for a call verifies for it until it expires, and then reports
  that it expired, whenever Ed25519, base64 and the JSON reader do what they document on this
  receipt.\<close>

theorem signed_receipt_verifies:
  assumes "receipt_laws S key fp a"
    and "\<lparr>tk_keyid = ap_approver a, tk_public = ro_public S key\<rparr> \<in> set (ac_approvers chk)"
    and "ac_fingerprint chk = fp" "about_call a chk" "fresh_at S a (ac_now chk) approved_at not_after now"
  shows "if now < not_after
    then verify_approval S (sign_approval S fp a key (ap_approver a)) chk = Ok a
    else verify_approval S (sign_approval S fp a key (ap_approver a)) chk = Err Expired"
  using signed_receipt_valid [OF assms] verify_approval_Ok verify_approval_Expired
  by (cases "now < not_after") (auto simp: not_less)

theorem signed_receipt_verifies_witness:
  "if (5 :: int) < 9
   then verify_approval sample_receipts (sign_approval sample_receipts ''fp'' sample_approval ''key'' (ap_approver sample_approval)) sample_check = Ok sample_approval
   else verify_approval sample_receipts (sign_approval sample_receipts ''fp'' sample_approval ''key'' (ap_approver sample_approval)) sample_check = Err Expired"
proof (rule signed_receipt_verifies)
  have read: "parse_json_strict sample_receipts ''doc'' = Some (approval_statement ''fp'' sample_approval)"
    by code_simp
  have "wf_json (approval_statement ''fp'' sample_approval)"
    by (simp add: approval_statement_def approval_predicate_def)
  then show "receipt_laws sample_receipts ''key'' ''fp'' sample_approval"
    using read json_eq_refl by (auto simp: receipt_laws_def Let_def sample_receipts_def)
  show "about_call sample_approval sample_check" by code_simp
  show "fresh_at sample_receipts sample_approval (ac_now sample_check) 0 9 5" by code_simp
qed (simp_all add: sample_check_def sample_approval_def sample_receipts_def)

section \<open>Policy and counters\<close>

text \<open>the policy engine says \<open>allow\<close> exactly when Cedar allowed the call without an evaluation
  error and at least one of the policies it relied on asks for no approval; \<open>ids\<close> are the
  policies it relied on. An error of Cedar is never an \<open>allow\<close>.\<close>

lemma policy_allows_exactly:
  "policy_evaluate cedar ps call = Ok (Allow ids) \<longleftrightarrow>
     (\<exists>r. cedar call = Ok r \<and> cr_errors r = [] \<and> cr_allow r \<and> ids = btree_set (cr_reason r)
        \<and> (\<exists>i\<in>set (cr_reason r). policy_annotation ps i APPROVAL_ANNOTATION = None))"
  by (rule policy_evaluate_Allow)

text \<open>C22: the counters refine the full history of calls. After any sequence of recorded and
  withdrawn calls whose clock does not run backwards, the snapshot the policy reads has, for every
  declared tool, the exact number of calls in the last hour and the last day, although the store
  drops what is a day old.\<close>

theorem counters_count_history:
  assumes "enabled_run history_step clock_ok history_init es"
    and "at_or_after (foldl history_step history_init es) now"
  shows "map_of (counters_snapshot (foldl counters_step counters_init es) rel tools now) tool =
    (if tool \<in> set tools
     then Some \<lparr>last_1h = history_count (foldl history_step history_init es) rel tool (now - HOUR) now,
                last_24h = history_count (foldl history_step history_init es) rel tool (now - DAY) now\<rparr>
     else None)"
  using assms by (rule snapshot_run)

theorem counters_count_history_witness:
  "map_of (counters_snapshot (foldl counters_step counters_init sample_calls) ''rel'' [''pay''] 95000) ''pay'' =
    (if ''pay'' \<in> set [''pay'']
     then Some \<lparr>last_1h = history_count (foldl history_step history_init sample_calls) ''rel'' ''pay'' (95000 - HOUR) 95000,
                last_24h = history_count (foldl history_step history_init sample_calls) ''rel'' ''pay'' (95000 - DAY) 95000\<rparr>
     else None)"
  by (rule counters_count_history)
    (simp_all add: sample_calls_def history_init_def history_record_def history_forget_def at_or_after_def)

section \<open>The gate and its contracts\<close>

text \<open>C23: once the contracts of a release are loaded, a call is let through only if it meets them:
  every contract the release binds was supplied, none other, and a tool that any of them rules is
  authorized only with arguments that contract allows.\<close>

theorem bound_contracts_enforced:
  assumes "with_contracts D cs task g = Ok g'" "\<forall>c\<in>set cs. distinct (map fst (tc_tools c))"
    and "authorize W g' tool args now = Ok auth"
  shows "policy_ref D ` set cs = set (g_contract_refs g)
    \<and> (\<forall>c\<in>set cs. \<forall>rule. contract_rule c tool = Some rule \<longrightarrow> args_allowed (gw_regex W) task rule args)"
proof (intro conjI ballI allI impI)
  show "policy_ref D ` set cs = set (g_contract_refs g)" by (rule with_contracts_Ok(1) [OF assms(1,2)])
  fix c rule
  assume "c \<in> set cs" "contract_rule c tool = Some rule"
  then have "map_of (g_rules g') tool = Some rule"
    using with_contracts_Ok(2) [OF assms(1,2)] by (auto simp: contract_rule_def)
  with assms(3) with_contracts_Ok(4) [OF assms(1,2)] show "args_allowed (gw_regex W) task rule args"
    by (simp add: authorize_Ok rule_check_iff)
qed

theorem bound_contracts_enforced_witness:
  "policy_ref sample_digests ` set [look_contract] = set (g_contract_refs look_gate)
   \<and> args_allowed (gw_regex sample_world) None look_rule (Some look_args)"
  using bound_contracts_enforced [OF loaded_gate_contracts _ look_authorized]
  by (simp add: look_contract_def contract_rule_def)

text \<open>C24: a gate whose manifest names a policy that is not loaded denies every call of a ruled tool
  that passes its contract, and it never reports itself ready.\<close>

theorem missing_policy_fails_closed:
  assumes "g_policy_source g = Some src" "g_policy g = None"
    and "tool \<in> set (g_tools g)" "g_contracts_loaded g" "map_of (g_rules g) tool = Some rule"
    and "args_allowed (gw_regex W) (g_task g) rule args"
  shows "authorize W g tool args now = Err FailClosed \<and> gate_ready g \<noteq> Ok ()"
  using assms by (simp add: authorize_def evaluate_policy_def rule_check_iff [symmetric] gate_ready_def
      split: option.split)

theorem missing_policy_fails_closed_witness:
  "authorize sample_world (loaded_gate\<lparr>g_policy_source := Some ''permit''\<rparr>) ''look'' (Some look_args) ''now'' = Err FailClosed
   \<and> gate_ready (loaded_gate\<lparr>g_policy_source := Some ''permit''\<rparr>) \<noteq> Ok ()"
  by (rule missing_policy_fails_closed [where rule = look_rule])
    (simp_all add: loaded_gate_def look_gate_def rule_check_iff [symmetric] sample_world_def look_args_pass)

text \<open>the cap on a receipt's validity window, exactly. A window that is not negative fits a ttl
  when it is shorter than the ttl and one second: the comparison is on whole seconds, so a window up
  to, but not including, one second longer than the ttl is accepted.\<close>

lemma ttl_cap_exact:
  assumes "tr_approval rule = Some ar" "ar_ttl_secs ar = Some ttl" "int ttl \<le> 2 ^ 63 - 1"
    and "parse_rfc3339 S from = Some t0" "parse_rfc3339 S until = Some t1" "t0 \<le> t1"
  shows "within_ttl S rule from until \<longleftrightarrow> t1 - t0 < (int ttl + 1) * NANOS"
  using assms num_seconds_le [of "t1 - t0" "int ttl"] by (simp add: within_ttl_def)


section \<open>Merkle proofs\<close>

text \<open>C25: every record of a batch can be proved: the proof for any leaf exists and verifies against
  the root of the tree, whatever the hash function.\<close>

theorem merkle_complete:
  assumes "i < length leaves"
  shows "\<exists>p. inclusion_proof (from_leaves H leaves) i = Some p
    \<and> verify_inclusion H (tree_root (from_leaves H leaves)) (leaves ! i) p"
  using assms by (rule inclusion_complete)

theorem merkle_complete_witness:
  "\<exists>p. inclusion_proof (from_leaves (\<lambda>x. x) [''a'', ''b'', ''c'']) 2 = Some p
    \<and> verify_inclusion (\<lambda>x. x) (tree_root (from_leaves (\<lambda>x. x) [''a'', ''b'', ''c''])) ([''a'', ''b'', ''c''] ! 2) p"
  by (rule merkle_complete) simp

text \<open>C26: only records of the batch can be proved: a proof that verifies against the root of a
  non-empty tree is about one of its leaves, as long as the hash has 32 bytes and no collision among
  the inputs of the tree and of the proof. The prefixes \<open>0x00\<close> and \<open>0x01\<close> keep a node from passing
  as a leaf.\<close>

theorem merkle_sound:
  assumes "\<And>x. length (H x) = 32" "leaves \<noteq> []"
    and "\<forall>s\<in>set (ip_steps p). length (st_hash s) = 32"
    and "inj_on H (merkle_inputs H leaves leaf (ip_steps p))"
    and "verify_inclusion H (tree_root (from_leaves H leaves)) leaf p"
  shows "leaf \<in> set leaves"
  using assms by (rule inclusion_sound)

theorem merkle_sound_witness: "''a'' \<in> set [''a'', ''b'']"
proof (rule merkle_sound [where H = sample_hash and p = sample_proof])
  show "verify_inclusion sample_hash (tree_root (from_leaves sample_hash [''a'', ''b''])) ''a'' sample_proof"
    by code_simp
  have inputs: "merkle_inputs sample_hash [''a'', ''b''] ''a'' (ip_steps sample_proof) =
      {CHR 0x00 # ''a'', CHR 0x00 # ''b'', CHR 0x01 # sample_hash (CHR 0x00 # ''a'') @ sample_hash (CHR 0x00 # ''b'')}"
    by (auto simp: merkle_inputs_def tree_inputs_def from_leaves_def from_hashed_leaves_def levels_from.simps
        leaf_hash_def sample_proof_def)
  show "inj_on sample_hash (merkle_inputs sample_hash [''a'', ''b''] ''a'' (ip_steps sample_proof))"
    unfolding inputs by (auto simp: inj_on_def sample_hash_def)
qed (simp_all add: sample_hash_def sample_proof_def)

text \<open>the root does not fix the number of records. Repeating the last record of a batch of odd
  size leaves the root as it was.\<close>

lemma merkle_root_of_duplicate:
  assumes "odd (length leaves)" "length leaves > 1"
  shows "tree_root (from_leaves H (leaves @ [last leaves])) = tree_root (from_leaves H leaves)"
  using assms by (rule root_dup)


section \<open>The decision ledger\<close>

text \<open>C27: a ledger is one signed hash chain, whatever was appended, sealed and anchored in
  whatever order: its entries read back in order, are numbered from 0, each names the hash of the one
  before it, and each carries the hash of its own content and a signature by one of the gate's keys
  over it.\<close>

theorem ledger_is_signed_chain:
  assumes "ledger_reachable L keys s"
  shows "\<exists>es. decisions s = Ok es \<and> linked de_seq de_prev_hash de_entry_hash 0 GENESIS es
    \<and> list_all (entry_ok L keys) es
    \<and> decision_head_seq s = (if es = [] then None else Some (length es - 1))"
proof -
  obtain es hs where "ledger_view L keys s es hs" using reachable_view [OF assms] by blast
  then show ?thesis using view_decisions view_head_seq by (auto simp: ledger_view_def)
qed

theorem ledger_is_signed_chain_witness:
  "\<exists>es. decisions sample_ledger = Ok es \<and> linked de_seq de_prev_hash de_entry_hash 0 GENESIS es
    \<and> list_all (entry_ok sample_ops gate_keys) es
    \<and> decision_head_seq sample_ledger = (if es = [] then None else Some (length es - 1))"
  by (rule ledger_is_signed_chain [OF sample_ledger_reachable])

text \<open>sealing partitions the ledger. After a seal every entry is in exactly one epoch and no epoch
  covers an entry that is not there; each epoch's entries are in the ledger, there is at least one, and
  the epoch carries the hash of its last one.\<close>

lemma sealing_partitions:
  assumes "ledger_reachable L keys s" "key \<in> keys" "seal_epoch L s key now = Ok (s', h)"
  shows "\<exists>es held. decisions s' = Ok es \<and> epochs s' = Ok held
    \<and> (\<forall>n. length (filter (\<lambda>h. eh_first_seq h \<le> n \<and> n \<le> eh_last_seq h) (map fst held)) = (if n < length es then 1 else 0))
    \<and> list_all (\<lambda>h. \<exists>xs. decisions_between s' (eh_first_seq h) (eh_last_seq h) = Ok xs \<and> xs \<noteq> []
        \<and> eh_entries_head h = de_entry_hash (last xs)) (map fst held)"
proof -
  obtain es hs where v: "ledger_view L keys s es hs" using reachable_view [OF assms(1)] by blast
  obtain gs where v': "ledger_view L keys s' es gs" using seal_epoch_view(1) [OF v assms(2,3)] by blast
  obtain held where held: "epochs s' = Ok held" "map fst held = gs" using view_epochs [OF v'] by blast
  have "spans_end 0 gs = length es"
    using seal_epoch_all [OF v assms(2,3)] view_next_unsealed [OF v'] by simp
  moreover have "epoch_spans 0 gs" using v' by (simp add: ledger_view_def)
  ultimately have "length (filter (\<lambda>h. eh_first_seq h \<le> n \<and> n \<le> eh_last_seq h) gs) = (if n < length es then 1 else 0)" for n
    using spans_cover_once [of 0 gs n] by simp
  moreover have "list_all (\<lambda>h. \<exists>xs. decisions_between s' (eh_first_seq h) (eh_last_seq h) = Ok xs \<and> xs \<noteq> []
        \<and> eh_entries_head h = de_entry_hash (last xs)) gs"
    unfolding list_all_iff using epoch_entries [OF v'] by metis
  ultimately show ?thesis using held view_decisions [OF v'] by blast
qed


text \<open>C28: what the ledger stores, the offline verifier accepts. Any range of entries read from a ledger
  of at most \<open>2 ^ 64\<close> verifies against the gate's public keys, and the summary counts exactly the
  decisions, outcomes and reconciliations in the range.\<close>

theorem stored_range_verifies_offline:
  assumes "ledger_reachable L keys s" "signing_laws L keys trusted" "trusted \<noteq> []"
    and "decisions s = Ok es" "length es \<le> 2 ^ 64"
  shows "\<exists>xs. decisions_between s m n = Ok xs \<and> verify_decisions L (map entry_json xs) trusted = Ok (summary_of xs)"
proof -
  obtain fs hs where v: "ledger_view L keys s fs hs" using reachable_view [OF assms(1)] by blast
  with assms(4) have "fs = es" using view_decisions by fastforce
  with stored_range_verifies [OF v assms(2,3)] assms(5) show ?thesis by simp
qed

theorem stored_range_verifies_offline_witness:
  "\<exists>xs. decisions_between sample_ledger 1 1 = Ok xs
    \<and> verify_decisions sample_ops (map entry_json xs) [''gate-key''] = Ok (summary_of xs)"
proof -
  obtain es where "decisions sample_ledger = Ok es" "length es = 2"
    using sample_ledger_view view_decisions by metis
  then have "decisions sample_ledger = Ok es" "length es \<le> 2 ^ 64" by auto
  then show ?thesis
    by (intro stored_range_verifies_offline [OF sample_ledger_reachable sample_signing_laws]) simp_all
qed

text \<open>C29: the head commits to the history. Two runs that verify from the start of a ledger and end in
  the same hash agree entry by entry on every member the hash covers, unless SHA-256 collides on two of
  their entries: nothing but the signature text can be changed behind a published head.\<close>

theorem head_commits_to_history:
  assumes "verify_decisions L es trusted = Ok s" "verify_decisions L fs trusted' = Ok t"
    and "ds_from_genesis s" "ds_from_genesis t" "length es \<le> 2 ^ 64" "length fs \<le> 2 ^ 64" "ds_head s = ds_head t"
    and "\<And>e f. e \<in> set es \<Longrightarrow> f \<in> set fs \<Longrightarrow> wf_json e \<and> wf_json f
      \<and> no_collision (lg_sha256 L) (entry_preimage L e) (entry_preimage L f)"
    and "self_delimiting (lg_ser L)"
  shows "list_all2 same_covered es fs"
  using assms by (rule verified_head_commits)

theorem head_commits_to_history_witness: "list_all2 same_covered [entry_json sample_entry] [shuffled_entry]"
proof (rule head_commits_to_history [OF sample_runs_verify])
  show "self_delimiting (lg_ser sample_ops)" using sample_ser_delimits by (simp add: sample_ops_def)
  show "wf_json e \<and> wf_json f \<and> no_collision (lg_sha256 sample_ops) (entry_preimage sample_ops e) (entry_preimage sample_ops f)"
    if "e \<in> set [entry_json sample_entry]" "f \<in> set [shuffled_entry]" for e f
    using that sample_entry_wf sample_preimages by (simp add: no_collision_def)
qed (simp_all add: sample_from_genesis)

section \<open>Evidence records\<close>

text \<open>C30: every tenant has a chain of its own. However appends to different tenants are interleaved, the
  records of a tenant read back in order and verify as a chain from the genesis hash, and the head the
  store reports is the hash the check ends in.\<close>

theorem tenant_chains_verify:
  assumes "record_reachable R s" "\<And>x. length (ro_sha256 R x) = 32"
  shows "\<exists>rs h. records_for_tenant s tenant = Ok rs \<and> verify_chain R (map snd rs) = Ok h
    \<and> records_head s tenant = Ok (if rs = [] then None else Some (length rs - 1), h)"
proof -
  have ok: "records_ok R s" using assms by (rule reachable_records_ok)
  obtain ids where ids: "records_for_tenant s tenant = Ok (zip ids (chain_of s (uuid_lower tenant)))"
    "length ids = length (chain_of s (uuid_lower tenant))" using stored_records [OF ok] by blast
  show ?thesis
    unfolding ids(1) records_head_eq [OF ok assms(2)] Let_def
    using stored_records_verify [OF ok] ids(2) by (auto simp: zip_eq_Nil_iff)
qed

theorem tenant_chains_verify_witness:
  "\<exists>rs h. records_for_tenant sample_records NIL_UUID = Ok rs \<and> verify_chain sample_record_ops (map snd rs) = Ok h
    \<and> records_head sample_records NIL_UUID = Ok (if rs = [] then None else Some (length rs - 1), h)"
  by (rule tenant_chains_verify [OF sample_records_reachable]) (simp add: sample_record_ops_def)

text \<open>C31: the head of a record chain commits to it. Two chains of built records that verify to the same
  hash have the same bytes record by record, and so the same numbers, links and metadata, unless SHA-256
  collides on two of them.\<close>

theorem record_head_commits_to_chain:
  assumes "verify_chain R rs = Ok h" "verify_chain R ss = Ok h" "rs \<noteq> []" "ss \<noteq> []"
    and "\<And>x. length (ro_sha256 R x) = 32"
    and "list_all (\<lambda>r. list_all metadata_ok (lr_metadata r)) (rs @ ss)"
    and "\<And>r s. r \<in> set rs \<Longrightarrow> s \<in> set ss \<Longrightarrow> no_collision (ro_sha256 R) (canonicalize R r) (canonicalize R s)"
  shows "list_all2 (\<lambda>r s. canonicalize R r = canonicalize R s \<and> lr_seq r = lr_seq s \<and> lr_prev_hash r = lr_prev_hash s
    \<and> lr_metadata r = lr_metadata s) rs ss"
proof (rule list_all2_mono)
  show "list_all2 (same_bytes R) rs ss" using assms by (rule record_head_commits)
qed (simp add: same_bytes_fields, simp add: same_bytes_def)

theorem record_head_commits_to_chain_witness:
  "list_all2 (\<lambda>r s. canonicalize sample_record_ops r = canonicalize sample_record_ops s \<and> lr_seq r = lr_seq s
     \<and> lr_prev_hash r = lr_prev_hash s \<and> lr_metadata r = lr_metadata s) [sample_record] [delayed_record]"
proof (rule record_head_commits_to_chain [OF sample_chains_verify])
  show "length (ro_sha256 sample_record_ops x) = 32" for x by (simp add: sample_record_ops_def)
qed (simp_all add: sample_record_metadata no_collision_def delayed_record_bytes)

section \<open>Packs and times\<close>

text \<open>C32: a pack reads back. The files the tar writer accepts, with distinct safe names, are what the
  reader returns, in order and byte for byte: header fields, checksum and padding agree on both sides.\<close>

theorem tar_archive_round_trip:
  assumes "tar_write files mtime = Ok bytes" "list_all storable files" "distinct (map fst files)"
  shows "tar_read bytes = Ok (map (\<lambda>f. \<lparr>tf_name = fst f, tf_data = snd f\<rparr>) files)"
  using assms by (rule tar_round_trip)

theorem tar_archive_round_trip_witness:
  "tar_read (sample_tar) = Ok (map (\<lambda>f. \<lparr>tf_name = fst f, tf_data = snd f\<rparr>) [(''dir/a.json'', ''{}''), (''b'', [])])"
  by (rule tar_archive_round_trip [OF sample_tar_eq sample_tar_storable]) simp

text \<open>C33: no archive leads the reader out of its directory: whatever the bytes, the names it returns are
  relative, without empty, \<open>.\<close> or \<open>..\<close> components and backslashes, and no two are the same.\<close>

theorem tar_names_safe:
  assumes "tar_read bytes = Ok fs"
  shows "list_all (\<lambda>f. safe_name (tf_name f)) fs \<and> distinct (map tf_name fs)"
  using assms by (rule tar_read_safe)

theorem tar_names_safe_witness:
  "list_all (\<lambda>f. safe_name (tf_name f)) (map (\<lambda>f. \<lparr>tf_name = fst f, tf_data = snd f\<rparr>) [(''dir/a.json'', ''{}''), (''b'', [])])
   \<and> distinct (map tf_name (map (\<lambda>f. \<lparr>tf_name = fst f, tf_data = snd f\<rparr>) [(''dir/a.json'', ''{}''), (''b'', [])]))"
  by (rule tar_names_safe [OF sample_tar_read])

section \<open>Masking personal data\<close>

text \<open>C34: a value keeps one token for ever, and a token stands for one value. However many values are masked, in
  whatever order, from a vault without a resolver and with room for their numbers, the same value gets the same
  token, different values get different tokens, and the token of a value leads back to it.\<close>

theorem tokens_name_values:
  assumes "exact_vault v" "\<forall>c\<in>snd ` set rs. vault_room E v c (length rs)"
    and "get_all (get_or_create E ord) v rs = (v', ts)" "i < length rs" "j < length rs"
  shows "vault_lookup v' (pt_token (ts ! i)) = Some (fst (rs ! i))
    \<and> (pt_token (ts ! i) = pt_token (ts ! j) \<longleftrightarrow> fst (rs ! i) = fst (rs ! j))"
proof -
  have "exact_vault v'" by (rule exact.get_all_ok [OF assms(1,3,2)])
  moreover have "known_to v' (fst (rs ! i)) = Some (ts ! i)" "known_to v' (fst (rs ! j)) = Some (ts ! j)"
    using file_vault.get_all_known [OF assms(3)] assms(4,5) by simp_all
  ultimately have "vault_lookup v' (pt_token (ts ! i)) = Some (fst (rs ! i))"
    "vault_lookup v' (pt_token (ts ! j)) = Some (fst (rs ! j))" by (simp_all add: exact_vault_def)
  moreover have "ts ! i = ts ! j" if "fst (rs ! i) = fst (rs ! j)" by (rule file_vault.consistent [OF assms(3-5) that])
  ultimately show ?thesis by auto
qed

theorem tokens_name_values_witness:
  "\<exists>v' ts. get_all (get_or_create sample_lib (\<lambda>m. m)) fresh_vault [(''Bob'', Person), (''Eve'', Person)] = (v', ts)
    \<and> pt_token (ts ! 0) \<noteq> pt_token (ts ! 1) \<and> vault_lookup v' (pt_token (ts ! 0)) = Some ''Bob''"
proof -
  let ?rs = "[(''Bob'', Person), (''Eve'', Person)]"
  obtain v' ts where g: "get_all (get_or_create sample_lib (\<lambda>m. m)) fresh_vault ?rs = (v', ts)" by fastforce
  have "\<forall>c\<in>snd ` set ?rs. vault_room sample_lib fresh_vault c (length ?rs)" by (simp add: fresh_vault_room)
  from tokens_name_values [OF fresh_vault_plain(2) this g, of 0 1] show ?thesis using g by auto
qed

text \<open>C35: masking hides the values. Two documents with the same text around their entities and the same
  categories, whose values differ by a one-to-one renaming that respects what the vault already holds, are
  masked to the same text: it tells no more of the values than which of them are equal.\<close>

theorem masked_text_hides_values:
  assumes "well_placed s 0 es" "well_placed s' 0 es'" "gaps s' 0 es' = gaps s 0 es"
    and "map en_category es' = map en_category es" "map en_original es' = map (\<lambda>e. f (en_original e)) es"
    and "inj_on f (en_original ` set es)" "va_resolver v = None"
    and "\<forall>e\<in>set es. known_to v (f (en_original e)) = known_to v (en_original e)"
  shows "\<exists>masked. map_option (\<lambda>r. ps_text (fst r)) (pseudonymize E ord s es v) = Some masked
    \<and> map_option (\<lambda>r. ps_text (fst r)) (pseudonymize E ord s' es' v) = Some masked"
proof -
  let ?X = "en_original ` set es"
  have reqs: "requests es' = map (\<lambda>(x, c). (f x, c)) (requests es)"
    using assms(4,5) by (intro nth_equalityI) (auto simp: requests_def list_eq_iff_nth_eq)
  obtain v1 ts where g: "get_all (get_or_create E ord) v (requests es) = (v1, ts)" by fastforce
  have "renamed f ?X v v" using assms(7,8) by (simp add: renamed_def)
  moreover have "fst ` set (requests es) \<subseteq> ?X" by (auto simp: requests_def)
  ultimately obtain v2 where "get_all (get_or_create E ord) v (requests es') = (v2, ts)"
    using get_all_renamed [OF _ assms(6) _ g] unfolding reqs by blast
  with g assms(1-3) show ?thesis
    using pseudonymize_by_total [OF assms(1) g] pseudonymize_by_total [OF assms(2), of "get_or_create E ord" v v2 ts]
    by (auto simp: pseudonymize_def)
qed

theorem masked_text_hides_values_witness:
  "map_option (\<lambda>r. ps_text (fst r)) (pseudonymize sample_lib (\<lambda>m. m) ''Call Eve at Widgets.'' call_eve fresh_vault)
    = Some ''Call PERSON_1 at ORG_1.''"
proof -
  let ?f = "\<lambda>x. if x = ''Bob'' then ''Eve'' else ''Widgets''"
  have "gaps ''Call Eve at Widgets.'' 0 call_eve = gaps ''Call Bob at ACME.'' 0 call_bob" by (simp add: call_bob_gaps)
  moreover have "map en_category call_eve = map en_category call_bob" "map en_original call_eve = map (\<lambda>e. ?f (en_original e)) call_bob"
    "inj_on ?f (en_original ` set call_bob)" by (simp_all add: call_bob_def call_eve_def found_def inj_on_def)
  moreover have "va_resolver fresh_vault = None" "\<forall>e\<in>set call_bob. known_to fresh_vault (?f (en_original e)) = known_to fresh_vault (en_original e)"
    by (simp_all add: fresh_vault_def empty_vault_def known_to_def)
  ultimately show ?thesis
    using masked_text_hides_values [OF call_bob_placed call_eve_placed, where f = ?f and v = fresh_vault and E = sample_lib and ord = "\<lambda>m. m"]
      call_bob_masked by auto
qed



text \<open>C37: a stream is rehydrated as if it had come in one piece. However the provider cuts its answer into deltas,
  also in the middle of a token, the text the client reads from the events it gets is what the whole answer
  would have given in a single delta, for both stream formats.\<close>

theorem stream_ignores_chunks:
  assumes "digit_class nd"
  shows "concat (map (delivered delta_content) (rehydrate_stream parse nd ord v ls)) =
      stream_text nd ord v [concat (map utf8_chars (chat_deltas parse ls))]
    \<and> concat (map (delivered delta_text) (rehydrate_anthropic_stream parse nd ord v ls)) =
      stream_text nd ord v [concat (map utf8_chars (anthropic_deltas parse ls))]"
  unfolding chat_stream_text anthropic_stream_text using stream_by_chunks [OF assms] by metis

theorem stream_ignores_chunks_witness:
  "concat (map (delivered delta_content) (rehydrate_stream (\<lambda>d. Some (chat_flush d)) ascii_digits (\<lambda>m. m) bob_vault
     [''data: Ask PER'', ''data: SON'', ''data: _1 no'', ''data: w. ORG_1'', ''data: [DONE]''])) = ''Ask Bob now. ORG_1''"
proof -
  let ?ls = "[''data: Ask PER'', ''data: SON'', ''data: _1 no'', ''data: w. ORG_1'', ''data: [DONE]'']"
  have "concat (map utf8_chars (chat_deltas (\<lambda>d. Some (chat_flush d)) ?ls)) = concat split_chunks" by code_simp
  with stream_ignores_chunks [OF ascii_digits_class, of "\<lambda>d. Some (chat_flush d)" "\<lambda>m. m" bob_vault ?ls] split_stream
    stream_by_chunks [OF ascii_digits_class, of "\<lambda>m. m" bob_vault split_chunks] show ?thesis by simp
qed



text \<open>C39: a vault survives a restart. A saved vault without aliases opens again under its key with the same tokens,
  the same values behind them and the same counters, in whatever order the hash map was written, given that
  AES-GCM opens what it sealed and the JSON codec reads what it wrote.\<close>

theorem vault_survives_restart:
  assumes "exact_vault v" "va_path v = Some path" "length (va_key v) = 32" "length nonce = 12"
    and "mset (ord (va_forward v)) = mset (va_forward v)"
    and "vi_unseal io (va_key v) nonce (vi_seal io (va_key v) nonce (vi_to_vec io (to_vault_data ord v)))
      = Some (vi_to_vec io (to_vault_data ord v))"
    and "vi_from_slice io (vi_to_vec io (to_vault_data ord v)) = Some (to_vault_data ord v)"
  shows "\<exists>fs' v'. vault_save io ord nonce v fs = Ok fs' \<and> vault_open io fs' path (va_key v) = Ok v'
    \<and> known_to v' = known_to v \<and> vault_lookup v' = vault_lookup v \<and> va_counters v' = va_counters v"
proof -
  have ok: "vault_ok v" "\<not> aliased v" using assms(1) by (auto simp: exact_vault_def aliased_def)
  obtain fs' where s: "vault_save io ord nonce v fs = Ok fs'" using save_result [OF assms(2,3)] by blast
  obtain v' where "vault_open io fs' path (va_key v) = Ok v'" "known_to v' = known_to v" "va_counters v' = va_counters v"
    "vault_lookup v' = map_of (rev (map (\<lambda>(x, t). (pt_token t, x)) (ord (va_forward v))))"
    by (rule restart_keeps_tokens [OF ok(1) assms(2,3,5,4,6,7) s])
  then show ?thesis using s reload_lookup [where ord = ord, OF ok assms(5)] by auto
qed

theorem vault_survives_restart_witness:
  "\<exists>fs' v'. vault_save sample_io (\<lambda>m. m) (replicate 12 (CHR 0x07)) bob_vault Map.empty = Ok fs'
    \<and> vault_open sample_io fs' ''v'' (replicate 32 (CHR 0x00)) = Ok v' \<and> vault_lookup v' ''PERSON_1'' = Some ''Bob''"
proof -
  have v: "va_path bob_vault = Some ''v''" "va_key bob_vault = replicate 32 (CHR 0x00)" "vault_lookup bob_vault ''PERSON_1'' = Some ''Bob''"
    by (simp_all add: bob_vault_eq vault_lookup_def)
  show ?thesis
    using vault_survives_restart [OF bob_vault_exact v(1), of "replicate 12 (CHR 0x07)" "\<lambda>m. m" sample_io Map.empty] v
    by (simp add: sample_io_def) auto
qed

text \<open>C40: what the proxy forwards holds tokens where the detector found values. Without a session, on a vault with room
  for the tokens and detections that are well placed, masking a request succeeds; every message that is a text comes
  out as the text around its entities woven with tokens, other messages are left alone, every token leads back to
  its value in the vault, and what the vault held before it still holds.\<close>

theorem request_masked:
  assumes "exact_vault (py_vault st)" "\<forall>m\<in>set msgs. detects_well W m" "proxy_room W (py_vault st) (all_found W msgs)"
  shows "\<exists>sent st'. mask_messages W now None msgs st = Ok (sent, length (all_found W msgs), st')
    \<and> exact_vault (py_vault st') \<and> list_all2 (forwarded_as W (py_vault st')) msgs sent
    \<and> (\<forall>t x. vault_lookup (py_vault st) t = Some x \<longrightarrow> vault_lookup (py_vault st') t = Some x)"
  by (rule mask_messages_forwards [OF assms])

theorem request_masked_witness:
  "\<exists>sent st'. mask_messages sample_proxy 0 None [bob_message] fresh_state = Ok ([sent], 2, st')
    \<and> forwarded_as sample_proxy (py_vault st') bob_message sent"
proof -
  have v: "exact_vault (py_vault fresh_state)" by (simp add: fresh_state_def fresh_vault_plain)
  have "length call_bob = 2" by (simp add: call_bob_def)
  then show ?thesis
    using request_masked [OF v, of "[bob_message]" sample_proxy 0] bob_message_detected fresh_state_room
    by (auto simp: bob_message_found list_all2_Cons1)
qed

text \<open>resolving references never panics on ASCII text. In a session whose entities have ASCII names, every ASCII
  message is searched to the end; each reference found is a non-empty span of the message with the text that stands
  there, stands for an entity of the session of the same category, and no two start at one place.\<close>

lemma coreferences_well_placed:
  assumes "ascii_case E" "ascii content" "set (ord (sx_entities s)) = set (sx_entities s)"
    and "\<forall>e\<in>snd ` set (sx_entities s). ascii (se_original e)"
  shows "\<exists>cs. resolve_coreferences E ord s content = Some cs \<and> list_all (coref_placed content s) cs
    \<and> sorted_wrt (<) (map (\<lambda>c. en_start (fst c)) cs)"
  using assms by (rule resolve_total)


text \<open>of several readings of one place the least certain is kept. After the duplicates are removed every start
  has exactly one reading, and its confidence is the lowest of all readings found there, although the code
  announces the highest.\<close>

lemma dedup_keeps_least_certain:
  "sorted_wrt (<) (map (\<lambda>c. en_start (fst c)) (dedup_corefs cs)) \<and> set (dedup_corefs cs) \<subseteq> set cs
   \<and> (\<forall>c\<in>set (dedup_corefs cs). \<forall>d\<in>set cs. en_start (fst d) = en_start (fst c) \<longrightarrow> en_confidence (fst c) \<le> en_confidence (fst d))
   \<and> (\<forall>d\<in>set cs. \<exists>c\<in>set (dedup_corefs cs). en_start (fst c) = en_start (fst d))"
  by (rule dedup_corefs_facts)


end
